(* ===== verification/Prelude.thy ===== *)
theory Prelude
  imports Main "HOL-Library.Word"
begin

text \<open>
  Shared vocabulary of the development: the machine-integer types of the Rust sources, the
  checked and saturating arithmetic of their standard library, the \<open>Result\<close> type with its
  early-return combinators (the \<open>?\<close> operator), and the generic facts the component theories
  rely on.

  \<^item> \<open>u32\<close>, \<open>u64\<close>: Rust's unsigned integers, as fixed-width words;
  \<^item> \<open>byte\<close>: Rust's \<open>u8\<close> where the code treats it as text, as \<open>char\<close>
    (a HOL character is one byte, so a Rust \<open>String\<close> is its UTF-8 byte string);
  \<^item> \<open>('e, 'a) result\<close>: \<open>Result<'a, 'e>\<close>, with \<open>Inl\<close> the error and \<open>Inr\<close> the value.

  The collection \<open>arith_spec\<close> holds the facts that read checked word arithmetic on the natural
  numbers; \<open>result_simps\<close> those that unfold the early-return combinators.
\<close>

named_theorems arith_spec \<open>machine arithmetic read on the natural numbers\<close>
named_theorems result_simps \<open>early returns\<close>

type_synonym u16 = "16 word"
type_synonym u32 = "32 word"
type_synonym u64 = "64 word"
type_synonym byte = char
type_synonym bytes = "char list"
type_synonym ('e, 'a) result = "'e + 'a"

section \<open>Checked and saturating arithmetic\<close>

definition checked_add :: "u64 \<Rightarrow> u64 \<Rightarrow> u64 option" where
  "checked_add a b = (if unat a + unat b < 2 ^ 64 then Some (a + b) else None)"

definition checked_mul :: "u64 \<Rightarrow> u64 \<Rightarrow> u64 option" where
  "checked_mul a b = (if unat a * unat b < 2 ^ 64 then Some (a * b) else None)"

definition saturating_add :: "u64 \<Rightarrow> u64 \<Rightarrow> u64" where
  "saturating_add a b = (if unat a + unat b < 2 ^ 64 then a + b else 0xFFFFFFFFFFFFFFFF)"

definition saturating_sub :: "u64 \<Rightarrow> u64 \<Rightarrow> u64" where
  "saturating_sub a b = (if b \<le> a then a - b else 0)"

lemma checked_add_Some [arith_spec]:
  "checked_add a b = Some c \<Longrightarrow> unat c = unat a + unat b"
  by (auto simp: checked_add_def unat_word_ariths split: if_splits)

lemma checked_add_SomeI: "unat a + unat b < 2 ^ 64 \<Longrightarrow> checked_add a b = Some (a + b)"
  by (simp add: checked_add_def)

lemma checked_add_None: "checked_add a b = None \<longleftrightarrow> 2 ^ 64 \<le> unat a + unat b"
  by (auto simp: checked_add_def)

lemma checked_add_fits:
  "checked_add a b = Some c \<Longrightarrow> c \<le> m \<Longrightarrow> unat a + unat b \<le> unat m"
  by (metis checked_add_Some word_le_nat_alt)

lemma checked_mul_Some [arith_spec]:
  "checked_mul a b = Some c \<Longrightarrow> unat c = unat a * unat b"
  by (auto simp: checked_mul_def unat_word_ariths split: if_splits)

lemma unat_saturating_add [arith_spec]:
  "unat (saturating_add a b) = min (unat a + unat b) (2 ^ 64 - 1)"
proof (cases "unat a + unat b < 2 ^ 64")
  case True
  then show ?thesis by (simp add: saturating_add_def unat_word_ariths)
next
  case False
  then show ?thesis by (simp add: saturating_add_def)
qed

lemma unat_saturating_sub [arith_spec]:
  "unat (saturating_sub a b) = unat a - unat b"
  by (auto simp: saturating_sub_def unat_sub word_le_nat_alt)

lemma saturating_sub_undo:
  assumes "checked_add a b = Some c"
  shows "saturating_sub c b = a"
proof -
  from assms have "unat (saturating_sub c b) = unat a"
    by (simp add: unat_saturating_sub checked_add_Some)
  then show ?thesis by (simp add: word_unat_eq_iff)
qed

lemma saturating_sub_le: "saturating_sub a b \<le> a"
  by (simp add: word_le_nat_alt unat_saturating_sub)

lemma unat_bound_u32: "unat (n :: u32) < 2 ^ 32"
  using unsigned_less [of n, where ?'a = nat] by simp

lemma unat_bound_u64: "unat (n :: u64) < 2 ^ 64"
  using unsigned_less [of n, where ?'a = nat] by simp

lemma unat_ucast_u32 [simp]: "unat (ucast (n :: u32) :: u64) = unat n"
  using unat_bound_u32 [of n] by (simp add: unsigned_ucast_eq take_bit_nat_eq_self_iff)

section \<open>Results and early returns\<close>

fun and_then :: "('e, 'a) result \<Rightarrow> ('a \<Rightarrow> ('e, 'b) result) \<Rightarrow> ('e, 'b) result" where
  "and_then (Inl e) f = Inl e"
| "and_then (Inr x) f = f x"

definition ok_or :: "'a option \<Rightarrow> 'e \<Rightarrow> ('e, 'a) result" where
  "ok_or x e = (case x of None \<Rightarrow> Inl e | Some v \<Rightarrow> Inr v)"

definition refuse_if :: "bool \<Rightarrow> 'e \<Rightarrow> ('e, unit) result" where
  "refuse_if b e = (if b then Inl e else Inr ())"

fun map_err :: "('e \<Rightarrow> 'f) \<Rightarrow> ('e, 'a) result \<Rightarrow> ('f, 'a) result" where
  "map_err f (Inl e) = Inl (f e)"
| "map_err f (Inr x) = Inr x"

text \<open>A run of \<open>if cond { return Err(e) }\<close> statements: the first true condition decides.\<close>

fun check_all :: "(bool \<times> 'e) list \<Rightarrow> ('e, unit) result" where
  "check_all [] = Inr ()"
| "check_all ((b, e) # cs) = (if b then Inl e else check_all cs)"

text \<open>A \<open>for\<close> loop whose body may return early.\<close>

fun for_each :: "('a \<Rightarrow> ('e, unit) result) \<Rightarrow> 'a list \<Rightarrow> ('e, unit) result" where
  "for_each f [] = Inr ()"
| "for_each f (x # xs) = and_then (f x) (\<lambda>_. for_each f xs)"

definition is_ok :: "('e, 'a) result \<Rightarrow> bool" where
  "is_ok r = (case r of Inl _ \<Rightarrow> False | Inr _ \<Rightarrow> True)"

lemma and_then_Inr [result_simps]:
  "and_then r f = Inr y \<longleftrightarrow> (\<exists>x. r = Inr x \<and> f x = Inr y)"
  by (cases r) auto

lemma and_then_Inl [result_simps]:
  "and_then r f = Inl e \<longleftrightarrow> r = Inl e \<or> (\<exists>x. r = Inr x \<and> f x = Inl e)"
  by (cases r) auto

lemma ok_or_Inr [result_simps]: "ok_or x e = Inr v \<longleftrightarrow> x = Some v"
  by (auto simp: ok_or_def split: option.splits)

lemma ok_or_Inl [result_simps]: "ok_or x e = Inl e' \<longleftrightarrow> x = None \<and> e' = e"
  by (auto simp: ok_or_def split: option.splits)

lemma refuse_if_Inr [result_simps]: "refuse_if b e = Inr u \<longleftrightarrow> \<not> b"
  by (simp add: refuse_if_def)

lemma refuse_if_Inl [result_simps]: "refuse_if b e = Inl e' \<longleftrightarrow> b \<and> e' = e"
  by (auto simp: refuse_if_def)

lemma map_err_Inr [result_simps]: "map_err f r = Inr x \<longleftrightarrow> r = Inr x"
  by (cases r) auto

lemma map_err_Inl [result_simps]: "map_err f r = Inl e \<longleftrightarrow> (\<exists>d. r = Inl d \<and> e = f d)"
  by (cases r) auto

lemma check_all_Inr [result_simps]:
  "check_all cs = Inr u \<longleftrightarrow> (\<forall>c \<in> set cs. \<not> fst c)"
  by (induction cs rule: check_all.induct) auto

declare check_all.simps [simp del]

lemma for_each_Inr [result_simps]: "for_each f xs = Inr u \<longleftrightarrow> (\<forall>x \<in> set xs. f x = Inr ())"
  by (induction xs) (auto simp: and_then_Inr)

lemma is_ok_simps [simp]: "is_ok (Inr x)" "\<not> is_ok (Inl e)"
  by (simp_all add: is_ok_def)

lemma is_ok_iff: "is_ok r \<longleftrightarrow> (\<exists>x. r = Inr x)"
  by (cases r) (auto simp: is_ok_def)

section \<open>Bytes\<close>

text \<open>The numeric value of a byte.\<close>

definition byte_val :: "byte \<Rightarrow> nat" where
  "byte_val c = of_char c"

text \<open>\<open>{b:02x}\<close>: the two lower-case hexadecimal digits of a byte.\<close>

definition hex_byte :: "byte \<Rightarrow> string" where
  "hex_byte c =
     (let digit = (\<lambda>d. char_of (if d < 10 then 48 + d else 87 + d)) in [digit (byte_val c div 16), digit (byte_val c mod 16)])"

text \<open>Its evaluation on the bits of the byte.\<close>

definition nibble :: "bool \<Rightarrow> bool \<Rightarrow> bool \<Rightarrow> bool \<Rightarrow> char" where
  "nibble a b c d =
     (let pick = (\<lambda>x y. if a then y else x) in
      if d then (if c then if b then pick (CHR ''e'') (CHR ''f'') else pick (CHR ''c'') (CHR ''d'')
                 else if b then pick (CHR ''a'') (CHR ''b'') else pick (CHR ''8'') (CHR ''9''))
      else (if c then if b then pick (CHR ''6'') (CHR ''7'') else pick (CHR ''4'') (CHR ''5'')
            else if b then pick (CHR ''2'') (CHR ''3'') else pick (CHR ''0'') (CHR ''1'')))"

lemma nibble_digit:
  fixes a b c d defines "n \<equiv> of_bool a + 2 * of_bool b + 4 * of_bool c + 8 * of_bool d :: nat"
  shows "char_of (if n < 10 then 48 + n else 87 + n) = nibble a b c d"
  unfolding char_of_eq_iff take_bit_eq_mod n_def nibble_def Let_def
  by (cases a; cases b; cases c; cases d) simp_all

lemma hex_byte_code [code]: "hex_byte (Char b0 b1 b2 b3 b4 b5 b6 b7) = [nibble b4 b5 b6 b7, nibble b0 b1 b2 b3]"
proof -
  let ?h = "of_bool b4 + 2 * of_bool b5 + 4 * of_bool b6 + 8 * of_bool b7 :: nat"
  let ?l = "of_bool b0 + 2 * of_bool b1 + 4 * of_bool b2 + 8 * of_bool b3 :: nat"
  have v: "byte_val (Char b0 b1 b2 b3 b4 b5 b6 b7) = 16 * ?h + ?l"
    by (simp add: byte_val_def)
  have "?l < 16" by (cases b0; cases b1; cases b2; cases b3) simp_all
  then have dm: "(16 * ?h + ?l) div 16 = ?h" "(16 * ?h + ?l) mod 16 = ?l"
    using div_mult_self2 [of 16 ?l ?h] mod_mult_self2 [of ?l 16 ?h] by (simp_all only: div_less mod_less add.commute mult.commute zero_neq_numeral not_False_eq_True)
  show ?thesis by (simp only: hex_byte_def Let_def v dm nibble_digit)
qed

definition is_ascii_digit :: "byte \<Rightarrow> bool" where
  "is_ascii_digit c \<longleftrightarrow> 48 \<le> byte_val c \<and> byte_val c \<le> 57"

definition is_ascii_alphabetic :: "byte \<Rightarrow> bool" where
  "is_ascii_alphabetic c \<longleftrightarrow>
     (65 \<le> byte_val c \<and> byte_val c \<le> 90) \<or> (97 \<le> byte_val c \<and> byte_val c \<le> 122)"

definition is_ascii_alphanumeric :: "byte \<Rightarrow> bool" where
  "is_ascii_alphanumeric c \<longleftrightarrow> is_ascii_alphabetic c \<or> is_ascii_digit c"

text \<open>Space, tab, line feed, form feed and carriage return, as \<open>u8::is_ascii_whitespace\<close>.\<close>

definition is_ascii_whitespace :: "byte \<Rightarrow> bool" where
  "is_ascii_whitespace c \<longleftrightarrow> byte_val c \<in> {9, 10, 12, 13, 32}"

definition to_ascii_lower :: "byte \<Rightarrow> byte" where
  "to_ascii_lower c =
     (if 65 \<le> byte_val c \<and> byte_val c \<le> 90 then char_of (byte_val c + 32) else c)"

definition to_ascii_lowercase :: "bytes \<Rightarrow> bytes" where
  "to_ascii_lowercase s = map to_ascii_lower s"

definition eq_ignore_ascii_case :: "bytes \<Rightarrow> bytes \<Rightarrow> bool" where
  "eq_ignore_ascii_case a b \<longleftrightarrow> to_ascii_lowercase a = to_ascii_lowercase b"

lemma byte_val_lt: "byte_val c < 256"
  by (simp add: byte_val_def)

section \<open>Lists\<close>

text \<open>Contiguous occurrence of one byte string in another, as \<open>slice::windows\<close> searches it.\<close>

fun starts_with :: "'a list \<Rightarrow> 'a list \<Rightarrow> bool" where
  "starts_with xs [] = True"
| "starts_with [] (p # ps) = False"
| "starts_with (x # xs) (p # ps) = (x = p \<and> starts_with xs ps)"

lemma starts_with_iff: "starts_with xs p \<longleftrightarrow> (\<exists>r. xs = p @ r)"
  by (induction xs p rule: starts_with.induct) auto

lemma starts_with_take: "starts_with xs p \<longleftrightarrow> take (length p) xs = p"
  by (induction xs p rule: starts_with.induct) auto

lemma starts_with_length: "starts_with xs p \<Longrightarrow> length p \<le> length xs"
  by (auto simp: starts_with_iff)

lemma starts_with_self [simp]: "starts_with (p @ r) p"
  by (auto simp: starts_with_iff)

end
