(* ===== verification/Broker_Policy.thy ===== *)
theory Broker_Policy
  imports Prelude
begin

text \<open>
  The provider broker's typed errors and its limit policy
  (\<^verbatim>\<open>crates/provider-broker/src/error.rs\<close> and \<^verbatim>\<open>policy.rs\<close>): the finite limit block
  every turn grant carries, its defaults and compile-time ceilings, its validation as a whole, and
  the session policy that pairs the block with an optional durable day-budget authority.

  A \<open>Duration\<close> is its number of nanoseconds. The injected authority is an opaque handle of type
  \<open>'h\<close>: this component only checks whether one is present.
\<close>

section \<open>Errors\<close>

datatype credential_rejection = CredEmpty | CredTooLong | CredInvalidShape

datatype limit_violation =
    Zero string
  | AboveCeiling string
  | PerRequestExceedsAggregate string
  | ConcurrencyExceedsRequests
  | TurnTokensExceedSession
  | DayCapWithoutAuthority
  | AuthorityWithoutDayCap

datatype broker_error =
    BindingMismatch
  | InvalidCredential credential_rejection
  | InvalidLimits limit_violation
  | SessionIdCollision
  | TokenCollisionExhausted
  | RandomSourceFailure
  | TurnAlreadyArmed
  | TurnAlreadyActive
  | SessionRevoked
  | TurnRevoked
  | Unauthorized
  | SessionBudgetExhausted
  | DayBudgetExhausted
  | TurnBudgetExhausted string
  | AttemptConsumed
  | InvalidBaseUrl
  | InvalidBinding
  | TurnExpired
  | LimitsMismatch
  | Unavailable

section \<open>Protocols and limits\<close>

datatype broker_protocol = OpenAiChatCompletions

fun canonical_id :: "broker_protocol \<Rightarrow> string" where
  "canonical_id OpenAiChatCompletions = ''openai-chat-completions-bearer-v1''"

record broker_limits =
  max_forwarded_requests :: u32
  max_denied_requests :: u32
  max_concurrent_requests :: u32
  max_request_bytes :: u64
  max_request_bytes_turn :: u64
  max_response_bytes :: u64
  max_response_bytes_turn :: u64
  max_output_tokens_request :: u64
  max_reserved_tokens_turn :: u64
  max_reserved_tokens_session :: u64
  max_reserved_token_units_per_utc_day :: "u64 option"
  max_capability_lifetime :: nat

definition DEFAULT_BROKER_LIMITS :: broker_limits where
  "DEFAULT_BROKER_LIMITS = \<lparr>
     max_forwarded_requests = 64,
     max_denied_requests = 16,
     max_concurrent_requests = 4,
     max_request_bytes = 8 * 1024 * 1024,
     max_request_bytes_turn = 32 * 1024 * 1024,
     max_response_bytes = 16 * 1024 * 1024,
     max_response_bytes_turn = 64 * 1024 * 1024,
     max_output_tokens_request = 32000,
     max_reserved_tokens_turn = 1000000,
     max_reserved_tokens_session = 20000000,
     max_reserved_token_units_per_utc_day = None,
     max_capability_lifetime = 60 * 60 * 1000000000 \<rparr>"

definition HARD_BROKER_LIMITS :: broker_limits where
  "HARD_BROKER_LIMITS = \<lparr>
     max_forwarded_requests = 256,
     max_denied_requests = 64,
     max_concurrent_requests = 8,
     max_request_bytes = 16 * 1024 * 1024,
     max_request_bytes_turn = 128 * 1024 * 1024,
     max_response_bytes = 32 * 1024 * 1024,
     max_response_bytes_turn = 256 * 1024 * 1024,
     max_output_tokens_request = 131072,
     max_reserved_tokens_turn = 32000000,
     max_reserved_tokens_session = 640000000,
     max_reserved_token_units_per_utc_day = None,
     max_capability_lifetime = 60 * 60 * 1000000000 \<rparr>"

definition check_positive :: "broker_limits \<Rightarrow> (limit_violation, unit) result" where
  "check_positive l = check_all
    [(max_forwarded_requests l = 0, Zero ''max_forwarded_requests''),
     (max_denied_requests l = 0, Zero ''max_denied_requests''),
     (max_concurrent_requests l = 0, Zero ''max_concurrent_requests''),
     (max_request_bytes l = 0, Zero ''max_request_bytes''),
     (max_request_bytes_turn l = 0, Zero ''max_request_bytes_turn''),
     (max_response_bytes l = 0, Zero ''max_response_bytes''),
     (max_response_bytes_turn l = 0, Zero ''max_response_bytes_turn''),
     (max_output_tokens_request l = 0, Zero ''max_output_tokens_request''),
     (max_reserved_tokens_turn l = 0, Zero ''max_reserved_tokens_turn''),
     (max_reserved_tokens_session l = 0, Zero ''max_reserved_tokens_session''),
     (max_capability_lifetime l = 0, Zero ''max_capability_lifetime''),
     (max_reserved_token_units_per_utc_day l = Some 0,
        Zero ''max_reserved_token_units_per_utc_day'')]"

definition check_ceilings :: "broker_limits \<Rightarrow> (limit_violation, unit) result" where
  "check_ceilings l = check_all
    [(max_forwarded_requests l > max_forwarded_requests HARD_BROKER_LIMITS,
        AboveCeiling ''max_forwarded_requests''),
     (max_denied_requests l > max_denied_requests HARD_BROKER_LIMITS,
        AboveCeiling ''max_denied_requests''),
     (max_concurrent_requests l > max_concurrent_requests HARD_BROKER_LIMITS,
        AboveCeiling ''max_concurrent_requests''),
     (max_request_bytes l > max_request_bytes HARD_BROKER_LIMITS,
        AboveCeiling ''max_request_bytes''),
     (max_request_bytes_turn l > max_request_bytes_turn HARD_BROKER_LIMITS,
        AboveCeiling ''max_request_bytes_turn''),
     (max_response_bytes l > max_response_bytes HARD_BROKER_LIMITS,
        AboveCeiling ''max_response_bytes''),
     (max_response_bytes_turn l > max_response_bytes_turn HARD_BROKER_LIMITS,
        AboveCeiling ''max_response_bytes_turn''),
     (max_output_tokens_request l > max_output_tokens_request HARD_BROKER_LIMITS,
        AboveCeiling ''max_output_tokens_request''),
     (max_reserved_tokens_turn l > max_reserved_tokens_turn HARD_BROKER_LIMITS,
        AboveCeiling ''max_reserved_tokens_turn''),
     (max_reserved_tokens_session l > max_reserved_tokens_session HARD_BROKER_LIMITS,
        AboveCeiling ''max_reserved_tokens_session''),
     (max_capability_lifetime l > max_capability_lifetime HARD_BROKER_LIMITS,
        AboveCeiling ''max_capability_lifetime'')]"

definition limits_validate :: "broker_limits \<Rightarrow> (limit_violation, unit) result" where
  "limits_validate l =
     and_then (check_positive l) (\<lambda>_.
     and_then (check_ceilings l) (\<lambda>_.
       check_all
        [(max_request_bytes l > max_request_bytes_turn l,
            PerRequestExceedsAggregate ''max_request_bytes''),
         (max_response_bytes l > max_response_bytes_turn l,
            PerRequestExceedsAggregate ''max_response_bytes''),
         (max_concurrent_requests l > max_forwarded_requests l, ConcurrencyExceedsRequests),
         (max_reserved_tokens_turn l > max_reserved_tokens_session l, TurnTokensExceedSession)]))"

section \<open>Session policy\<close>

record 'h session_policy =
  sp_limits :: broker_limits
  sp_day_authority :: "'h option"

definition policy_build ::
  "broker_limits \<Rightarrow> 'h option \<Rightarrow> (limit_violation, 'h session_policy) result" where
  "policy_build l a =
     and_then (limits_validate l) (\<lambda>_.
       case (max_reserved_token_units_per_utc_day l, a) of
         (Some _, None) \<Rightarrow> Inl DayCapWithoutAuthority
       | (None, Some _) \<Rightarrow> Inl AuthorityWithoutDayCap
       | _ \<Rightarrow> Inr \<lparr>sp_limits = l, sp_day_authority = a\<rparr>)"

definition policy_new :: "broker_limits \<Rightarrow> (limit_violation, 'h session_policy) result" where
  "policy_new l = policy_build l None"

definition policy_with_day_authority ::
  "broker_limits \<Rightarrow> 'h \<Rightarrow> (limit_violation, 'h session_policy) result" where
  "policy_with_day_authority l a = policy_build l (Some a)"

definition policy_default :: "'h session_policy" where
  "policy_default = \<lparr>sp_limits = DEFAULT_BROKER_LIMITS, sp_day_authority = None\<rparr>"

section \<open>What validation establishes\<close>

text \<open>The whole-block predicate a validated limit block satisfies.\<close>

definition limits_ok :: "broker_limits \<Rightarrow> bool" where
  "limits_ok l \<longleftrightarrow>
     0 < max_forwarded_requests l \<and> max_forwarded_requests l \<le> 256 \<and>
     0 < max_denied_requests l \<and> max_denied_requests l \<le> 64 \<and>
     0 < max_concurrent_requests l \<and> max_concurrent_requests l \<le> 8 \<and>
     max_concurrent_requests l \<le> max_forwarded_requests l \<and>
     0 < max_request_bytes l \<and> max_request_bytes l \<le> 16777216 \<and>
     max_request_bytes l \<le> max_request_bytes_turn l \<and> max_request_bytes_turn l \<le> 134217728 \<and>
     0 < max_response_bytes l \<and> max_response_bytes l \<le> 33554432 \<and>
     max_response_bytes l \<le> max_response_bytes_turn l \<and> max_response_bytes_turn l \<le> 268435456 \<and>
     0 < max_output_tokens_request l \<and> max_output_tokens_request l \<le> 131072 \<and>
     0 < max_reserved_tokens_turn l \<and> max_reserved_tokens_turn l \<le> 32000000 \<and>
     max_reserved_tokens_turn l \<le> max_reserved_tokens_session l \<and>
     max_reserved_tokens_session l \<le> 640000000 \<and>
     max_reserved_token_units_per_utc_day l \<noteq> Some 0 \<and>
     0 < max_capability_lifetime l \<and> max_capability_lifetime l \<le> 3600000000000"

lemma hard_limits [simp]:
  "max_forwarded_requests HARD_BROKER_LIMITS = 256"
  "max_denied_requests HARD_BROKER_LIMITS = 64"
  "max_concurrent_requests HARD_BROKER_LIMITS = 8"
  "max_request_bytes HARD_BROKER_LIMITS = 16777216"
  "max_request_bytes_turn HARD_BROKER_LIMITS = 134217728"
  "max_response_bytes HARD_BROKER_LIMITS = 33554432"
  "max_response_bytes_turn HARD_BROKER_LIMITS = 268435456"
  "max_output_tokens_request HARD_BROKER_LIMITS = 131072"
  "max_reserved_tokens_turn HARD_BROKER_LIMITS = 32000000"
  "max_reserved_tokens_session HARD_BROKER_LIMITS = 640000000"
  "max_capability_lifetime HARD_BROKER_LIMITS = 3600000000000"
  by (simp_all add: HARD_BROKER_LIMITS_def)

lemma check_positive_ok:
  "check_positive l = Inr () \<longleftrightarrow>
     0 < max_forwarded_requests l \<and> 0 < max_denied_requests l \<and> 0 < max_concurrent_requests l \<and>
     0 < max_request_bytes l \<and> 0 < max_request_bytes_turn l \<and>
     0 < max_response_bytes l \<and> 0 < max_response_bytes_turn l \<and>
     0 < max_output_tokens_request l \<and> 0 < max_reserved_tokens_turn l \<and>
     0 < max_reserved_tokens_session l \<and> 0 < max_capability_lifetime l \<and>
     max_reserved_token_units_per_utc_day l \<noteq> Some 0"
  by (simp add: check_positive_def check_all_Inr word_neq_0_conv)

lemma check_ceilings_ok:
  "check_ceilings l = Inr () \<longleftrightarrow>
     max_forwarded_requests l \<le> 256 \<and> max_denied_requests l \<le> 64 \<and>
     max_concurrent_requests l \<le> 8 \<and>
     max_request_bytes l \<le> 16777216 \<and> max_request_bytes_turn l \<le> 134217728 \<and>
     max_response_bytes l \<le> 33554432 \<and> max_response_bytes_turn l \<le> 268435456 \<and>
     max_output_tokens_request l \<le> 131072 \<and> max_reserved_tokens_turn l \<le> 32000000 \<and>
     max_reserved_tokens_session l \<le> 640000000 \<and> max_capability_lifetime l \<le> 3600000000000"
  by (simp add: check_ceilings_def check_all_Inr not_less)

lemma limits_validate_iff: "limits_validate l = Inr () \<longleftrightarrow> limits_ok l"
proof -
  have "limits_validate l = Inr () \<longleftrightarrow>
      check_positive l = Inr () \<and> check_ceilings l = Inr () \<and>
      max_request_bytes l \<le> max_request_bytes_turn l \<and>
      max_response_bytes l \<le> max_response_bytes_turn l \<and>
      max_concurrent_requests l \<le> max_forwarded_requests l \<and>
      max_reserved_tokens_turn l \<le> max_reserved_tokens_session l"
    by (simp add: limits_validate_def and_then_Inr check_all_Inr not_less)
  then show ?thesis
    unfolding check_positive_ok check_ceilings_ok limits_ok_def
    by (auto intro: order.strict_trans2)
qed

lemma policy_build_ok:
  "policy_build l a = Inr p \<longleftrightarrow>
     limits_ok l \<and> (max_reserved_token_units_per_utc_day l = None \<longleftrightarrow> a = None) \<and>
     p = \<lparr>sp_limits = l, sp_day_authority = a\<rparr>"
  by (cases "max_reserved_token_units_per_utc_day l"; cases a)
     (auto simp: policy_build_def and_then_Inr limits_validate_iff)

lemma default_limits_ok: "limits_ok DEFAULT_BROKER_LIMITS"
  by (simp add: limits_ok_def DEFAULT_BROKER_LIMITS_def)

text \<open>
  A session policy is built exactly when every limit is positive, below its compile-time ceiling
  and consistent with the others, and a day cap and a day authority come together or not at all; the
  policy then carries exactly the given block. The default policy is such a policy.
\<close>

theorem policy_build_complete:
  "(policy_build l a = Inr p \<longleftrightarrow>
      limits_ok l \<and> (max_reserved_token_units_per_utc_day l = None \<longleftrightarrow> a = None) \<and>
      p = \<lparr>sp_limits = l, sp_day_authority = a\<rparr>) \<and>
   policy_build DEFAULT_BROKER_LIMITS None = Inr (policy_default :: 'h session_policy)"
proof -
  have "policy_build DEFAULT_BROKER_LIMITS None = Inr (policy_default :: 'h session_policy)"
    unfolding policy_build_ok policy_default_def
    by (simp add: default_limits_ok) (simp add: DEFAULT_BROKER_LIMITS_def)
  then show ?thesis by (simp only: policy_build_ok simp_thms)
qed

end
