(* ===== verification/Credential.thy ===== *)
theory Credential
  imports Broker_Policy
begin

text \<open>
  Credential bindings, bound leases and turn tokens
  (\<^verbatim>\<open>crates/provider-broker/src/binding.rs\<close> and the token part of \<^verbatim>\<open>state.rs\<close>). SHA-256
  and base64 come from third-party crates, so they are parameters of the definitions that use them.
\<close>

section \<open>Bindings and fingerprints\<close>

definition MAX_API_KEY_BYTES :: nat where
  "MAX_API_KEY_BYTES = 8 * 1024"

definition BINDING_DOMAIN :: bytes where
  "BINDING_DOMAIN = ''rhapsody-provider-binding-v1'' @ [char_of (0 :: nat)]"

record credential_binding =
  cb_provider_id :: string
  cb_protocol :: broker_protocol
  cb_normalized_endpoint :: string

definition credential_binding_new ::
  "string \<Rightarrow> broker_protocol \<Rightarrow> string \<Rightarrow> (broker_error, credential_binding) result" where
  "credential_binding_new provider_id protocol normalized_endpoint =
     (if provider_id = [] \<or> normalized_endpoint = [] then Inl InvalidBinding
      else Inr \<lparr>cb_provider_id = provider_id, cb_protocol = protocol,
                cb_normalized_endpoint = normalized_endpoint\<rparr>)"

definition binding_preimage :: "credential_binding \<Rightarrow> bytes" where
  "binding_preimage b =
     BINDING_DOMAIN @ cb_provider_id b @ [char_of (0 :: nat)] @ canonical_id (cb_protocol b)
       @ [char_of (0 :: nat)] @ cb_normalized_endpoint b"

definition fingerprint :: "(bytes \<Rightarrow> bytes) \<Rightarrow> credential_binding \<Rightarrow> bytes" where
  "fingerprint sha256 b = sha256 (binding_preimage b)"

definition fingerprint_matches :: "bytes \<Rightarrow> bytes \<Rightarrow> bool" where
  "fingerprint_matches a b \<longleftrightarrow> a = b"

section \<open>API-key shape and the bound lease\<close>

definition is_b64token_char :: "byte \<Rightarrow> bool" where
  "is_b64token_char c \<longleftrightarrow> is_ascii_alphanumeric c \<or> c \<in> set ''._~+/-''"

text \<open>The scan over the value, with its two flags \<open>seen_padding\<close> and \<open>has_base\<close>.\<close>

fun scan_api_key :: "bytes \<Rightarrow> bool \<Rightarrow> bool \<Rightarrow> (credential_rejection, bool) result" where
  "scan_api_key [] seen_padding has_base = Inr has_base"
| "scan_api_key (c # cs) seen_padding has_base =
     (if seen_padding then
        (if c \<noteq> CHR ''='' then Inl CredInvalidShape else scan_api_key cs seen_padding has_base)
      else if c = CHR ''='' then scan_api_key cs True has_base
      else if is_b64token_char c then scan_api_key cs seen_padding True
      else Inl CredInvalidShape)"

definition validate_api_key_value :: "bytes \<Rightarrow> (credential_rejection, unit) result" where
  "validate_api_key_value v =
     (if v = [] then Inl CredEmpty
      else if length v > MAX_API_KEY_BYTES then Inl CredTooLong
      else and_then (scan_api_key v False False)
             (\<lambda>has_base. if \<not> has_base then Inl CredInvalidShape else Inr ()))"

record bound_lease =
  bl_binding :: credential_binding
  bl_fingerprint :: bytes
  bl_secret :: bytes

definition bound_lease_new ::
  "(bytes \<Rightarrow> bytes) \<Rightarrow> credential_binding \<Rightarrow> bytes \<Rightarrow> (broker_error, bound_lease) result" where
  "bound_lease_new sha256 b v =
     and_then (map_err InvalidCredential (validate_api_key_value v)) (\<lambda>_.
       Inr \<lparr>bl_binding = b, bl_fingerprint = fingerprint sha256 b, bl_secret = v\<rparr>)"

section \<open>Turn tokens\<close>

definition TOKEN_BYTES :: nat where "TOKEN_BYTES = 32"
definition TOKEN_CHARS :: nat where "TOKEN_CHARS = 43"
definition MAX_TOKEN_RETRIES :: nat where "MAX_TOKEN_RETRIES = 8"
definition SESSION_ID_BYTES :: nat where "SESSION_ID_BYTES = 16"

definition TOKEN_DOMAIN :: bytes where
  "TOKEN_DOMAIN = ''rhapsody-provider-turn-v1'' @ [char_of (0 :: nat)]"

definition token_digest_of :: "(bytes \<Rightarrow> bytes) \<Rightarrow> bytes \<Rightarrow> bytes" where
  "token_digest_of sha256 presented = sha256 (TOKEN_DOMAIN @ presented)"

definition is_base64url_char :: "byte \<Rightarrow> bool" where
  "is_base64url_char c \<longleftrightarrow> is_ascii_alphanumeric c \<or> c = CHR ''-'' \<or> c = CHR ''_''"

definition is_valid_token_shape :: "bytes \<Rightarrow> bool" where
  "is_valid_token_shape presented \<longleftrightarrow>
     length presented = TOKEN_CHARS \<and> list_all is_base64url_char presented"

section \<open>The accepted key shape\<close>

text \<open>RFC 6750's \<open>b64token\<close>: a non-empty run of base characters, then a run of \<open>=\<close>.\<close>

definition b64token :: "bytes \<Rightarrow> bool" where
  "b64token v \<longleftrightarrow> (\<exists>base n. v = base @ replicate n (CHR ''='') \<and> base \<noteq> [] \<and>
      list_all is_b64token_char base)"

lemma b64token_not_eq: "is_b64token_char c \<Longrightarrow> c \<noteq> CHR ''=''"
  by (auto simp: is_b64token_char_def is_ascii_alphanumeric_def is_ascii_alphabetic_def
      is_ascii_digit_def byte_val_def)

lemma scan_padding:
  "scan_api_key v True h = Inr r \<longleftrightarrow> r = h \<and> v = replicate (length v) (CHR ''='')"
  by (induction v) auto

lemma scan_base:
  "scan_api_key v False h = Inr r \<longleftrightarrow>
     (\<exists>base n. v = base @ replicate n (CHR ''='') \<and> list_all is_b64token_char base \<and>
        r = (h \<or> base \<noteq> []))"
proof (induction v arbitrary: h)
  case Nil
  then show ?case by (auto intro: exI [of _ "[]"] exI [of _ 0])
next
  case (Cons c v)
  consider (pad) "c = CHR ''=''" | (base) "c \<noteq> CHR ''=''" "is_b64token_char c"
    | (bad) "c \<noteq> CHR ''=''" "\<not> is_b64token_char c" by blast
  then show ?case
  proof cases
    case pad
    have "(\<exists>base n. c # v = base @ replicate n (CHR ''='') \<and> list_all is_b64token_char base \<and>
        r = (h \<or> base \<noteq> [])) \<longleftrightarrow> r = h \<and> v = replicate (length v) (CHR ''='')" (is "?L \<longleftrightarrow> ?R")
    proof
      assume ?L
      then obtain base n where b: "c # v = base @ replicate n (CHR ''='')"
        "list_all is_b64token_char base" "r = (h \<or> base \<noteq> [])" by blast
      with pad have "base = []" by (cases base) (auto dest: b64token_not_eq)
      with b show ?R by (cases n) auto
    next
      assume r: ?R
      with pad have "c # v = [] @ replicate (Suc (length v)) (CHR ''='')" by simp
      with r show ?L by (intro exI [of _ "[]"] exI [of _ "Suc (length v)"]) simp
    qed
    with pad show ?thesis by (simp add: scan_padding)
  next
    case base
    have "(\<exists>bs n. c # v = bs @ replicate n (CHR ''='') \<and> list_all is_b64token_char bs \<and>
        r = (h \<or> bs \<noteq> [])) \<longleftrightarrow>
      (\<exists>bs n. v = bs @ replicate n (CHR ''='') \<and> list_all is_b64token_char bs \<and> r)" (is "?L \<longleftrightarrow> ?R")
    proof
      assume ?L
      then obtain bs n where b: "c # v = bs @ replicate n (CHR ''='')"
        "list_all is_b64token_char bs" "r = (h \<or> bs \<noteq> [])" by blast
      with base obtain bs' where "bs = c # bs'" by (cases bs; cases n) auto
      with b show ?R by auto
    next
      assume ?R
      then obtain bs n where "v = bs @ replicate n (CHR ''='')" "list_all is_b64token_char bs" r by blast
      with base have "c # v = (c # bs) @ replicate n (CHR ''='') \<and> list_all is_b64token_char (c # bs) \<and>
          r = (h \<or> c # bs \<noteq> [])" by simp
      then show ?L by blast
    qed
    with base Cons.IH [of True] show ?thesis by auto
  next
    case bad
    then show ?thesis by (auto simp: Cons_eq_append_conv Cons_replicate_eq)
  qed
qed

text \<open>
  The API-key check accepts exactly the \<open>b64token\<close> values of at most eight KiB: padding only as
  a trailing run, at least one base character, nothing trimmed or rewritten.
\<close>

theorem api_key_shape:
  "validate_api_key_value v = Inr () \<longleftrightarrow> b64token v \<and> length v \<le> 8192"
proof (cases "v = []")
  case True
  then show ?thesis by (simp add: validate_api_key_value_def b64token_def)
next
  case False
  then have "validate_api_key_value v = Inr () \<longleftrightarrow> length v \<le> 8192 \<and> scan_api_key v False False = Inr True"
    by (auto simp: validate_api_key_value_def MAX_API_KEY_BYTES_def and_then_Inr split: if_splits)
  then show ?thesis by (auto simp: scan_base b64token_def)
qed

end
