(* ===== verification/Broker_Budget.thy ===== *)
theory Broker_Budget
  imports Broker_Policy
begin

text \<open>
  Bounded admission counters. The locale \<open>admission_counter\<close> is the contract shared by every
  releasable budget of the broker: an acquisition either adds its exact weight under the cap or
  refuses and changes nothing, and a guard's drop gives its weight back. Its client lemma is proved
  once: whatever the interleaving of acquisitions and guard drops, the amount in use is exactly the
  sum of the weights of the guards still held, and never exceeds the cap.

  The provider here is the broker-wide weighted memory budget of
  \<^verbatim>\<open>crates/provider-broker/src/budget.rs\<close>; the session token cap and the turn's
  concurrency permits interpret the same locale in the theory \<open>Reservations\<close>.
\<close>

section \<open>The contract of a bounded counter\<close>

datatype counter_op = Acquire u64 | DropGuard nat

text \<open>
  One operation against a counter and the weights of the guards currently held: an acquisition
  that succeeds hands out a guard, dropping a guard releases its weight.
\<close>

fun counter_step ::
  "(u64 \<Rightarrow> 's \<Rightarrow> 's option) \<Rightarrow> (u64 \<Rightarrow> 's \<Rightarrow> 's) \<Rightarrow> counter_op \<Rightarrow> 's \<times> u64 list \<Rightarrow> 's \<times> u64 list" where
  "counter_step acq rel (Acquire w) (s, held) =
     (case acq w s of None \<Rightarrow> (s, held) | Some t \<Rightarrow> (t, w # held))"
| "counter_step acq rel (DropGuard i) (s, held) =
     (if i < length held then (rel (held ! i) s, take i held @ drop (Suc i) held) else (s, held))"

definition counter_run ::
  "(u64 \<Rightarrow> 's \<Rightarrow> 's option) \<Rightarrow> (u64 \<Rightarrow> 's \<Rightarrow> 's) \<Rightarrow> counter_op list \<Rightarrow> 's \<times> u64 list \<Rightarrow> 's \<times> u64 list" where
  "counter_run acq rel ops c = fold (counter_step acq rel) ops c"

definition held_weight :: "u64 list \<Rightarrow> nat" where
  "held_weight held = sum_list (map unat held)"

lemma held_weight_simps [simp]:
  "held_weight [] = 0" "held_weight (w # ws) = unat w + held_weight ws"
  "held_weight (vs @ ws) = held_weight vs + held_weight ws"
  by (simp_all add: held_weight_def)

lemma held_weight_split:
  assumes "i < length held"
  shows "held_weight held = held_weight (take i held @ drop (Suc i) held) + unat (held ! i)"
proof -
  from assms have "held = take i held @ held ! i # drop (Suc i) held"
    by (rule id_take_nth_drop)
  then have "held_weight held = held_weight (take i held @ held ! i # drop (Suc i) held)"
    by (rule arg_cong)
  then show ?thesis by simp
qed

locale admission_counter =
  fixes used :: "'s \<Rightarrow> u64" and cap :: "'s \<Rightarrow> u64"
    and acquire :: "u64 \<Rightarrow> 's \<Rightarrow> 's option" and release :: "u64 \<Rightarrow> 's \<Rightarrow> 's"
  assumes acquire_exact:
      "acquire w s = Some t \<Longrightarrow> unat (used t) = unat (used s) + unat w \<and> used t \<le> cap t \<and> cap t = cap s"
    and acquire_refuses: "acquire w s = None \<longleftrightarrow> unat (cap s) < unat (used s) + unat w"
    and release_exact: "unat (used (release w s)) = unat (used s) - unat w"
    and release_cap: "cap (release w s) = cap s"
begin

definition counted :: "'s \<times> u64 list \<Rightarrow> bool" where
  "counted c \<longleftrightarrow> unat (used (fst c)) = held_weight (snd c) \<and> used (fst c) \<le> cap (fst c)"

lemma step_counted:
  assumes "counted c"
  shows "counted (counter_step acquire release op c)"
    and "cap (fst (counter_step acquire release op c)) = cap (fst c)"
proof -
  obtain s held where c: "c = (s, held)" by (cases c)
  have "counted (counter_step acquire release op c) \<and>
      cap (fst (counter_step acquire release op c)) = cap (fst c)"
  proof (cases op)
    case (Acquire w)
    with assms c show ?thesis
      by (cases "acquire w s") (auto simp: counted_def dest!: acquire_exact)
  next
    case (DropGuard i)
    show ?thesis
    proof (cases "i < length held")
      case True
      then have "held_weight held = held_weight (take i held @ drop (Suc i) held) + unat (held ! i)"
        by (rule held_weight_split)
      with assms c True DropGuard show ?thesis
        by (simp add: counted_def release_exact release_cap word_le_nat_alt)
    next
      case False
      with assms c DropGuard show ?thesis by simp
    qed
  qed
  then show "counted (counter_step acquire release op c)"
    and "cap (fst (counter_step acquire release op c)) = cap (fst c)" by simp_all
qed

lemma run_counted:
  "counted c \<Longrightarrow> counted (counter_run acquire release ops c)
     \<and> cap (fst (counter_run acquire release ops c)) = cap (fst c)"
proof (induction ops arbitrary: c)
  case Nil
  then show ?case by (simp add: counter_run_def)
next
  case (Cons op ops)
  have "counted (counter_step acquire release op c)"
    using Cons.prems by (rule step_counted)
  from Cons.IH [OF this] step_counted(2) [OF Cons.prems] show ?case
    by (simp add: counter_run_def)
qed

text \<open>From a counter with nothing held, no interleaving ever oversubscribes the cap.\<close>

lemma never_oversubscribed:
  assumes "used s = 0" and "counter_run acquire release ops (s, []) = (t, held)"
  shows "unat (used t) = held_weight held" and "held_weight held \<le> unat (cap s)"
proof -
  from assms(1) have "counted (s, [])" by (simp add: counted_def)
  from run_counted [OF this, of ops] assms(2)
  show "unat (used t) = held_weight held" and "held_weight held \<le> unat (cap s)"
    by (auto simp: counted_def word_le_nat_alt)
qed

text \<open>A refusal is never spurious: the weight did not fit beside what is held.\<close>

lemma refusal_is_real:
  assumes "counted (s, held)" and "acquire w s = None"
  shows "unat (cap s) < held_weight held + unat w"
  using assms by (simp add: counted_def acquire_refuses)

end

section \<open>The broker-wide weighted memory budget\<close>

definition REQUEST_MEMORY_BUDGET :: u64 where
  "REQUEST_MEMORY_BUDGET = 256 * 1024 * 1024"

definition BUFFERED_RESPONSE_BUDGET :: u64 where
  "BUFFERED_RESPONSE_BUDGET = 256 * 1024 * 1024"

definition REQUEST_MEMORY_OVERHEAD :: u64 where
  "REQUEST_MEMORY_OVERHEAD = 4 * 1024 * 1024"

definition BUFFERED_RESPONSE_OVERHEAD :: u64 where
  "BUFFERED_RESPONSE_OVERHEAD = 2 * 1024 * 1024"

record weighted_budget =
  wb_max :: u64
  wb_used :: u64

definition weighted_budget_new :: "u64 \<Rightarrow> weighted_budget" where
  "weighted_budget_new m = \<lparr>wb_max = m, wb_used = 0\<rparr>"

text \<open>\<open>fetch_update\<close> runs its closure on the current value and stores the new one atomically.\<close>

definition weighted_try_acquire :: "u64 \<Rightarrow> weighted_budget \<Rightarrow> weighted_budget option" where
  "weighted_try_acquire w b =
     (case checked_add (wb_used b) w of
        None \<Rightarrow> None
      | Some next \<Rightarrow> if next \<le> wb_max b then Some (b\<lparr>wb_used := next\<rparr>) else None)"

definition weighted_guard_drop :: "u64 \<Rightarrow> weighted_budget \<Rightarrow> weighted_budget" where
  "weighted_guard_drop w b = b\<lparr>wb_used := saturating_sub (wb_used b) w\<rparr>"

definition request_weight :: "u64 option \<Rightarrow> u64 \<Rightarrow> u64 option" where
  "request_weight declared grant_max =
     (case declared of
        Some len \<Rightarrow> Option.bind (checked_mul len 3) (\<lambda>x. checked_add x REQUEST_MEMORY_OVERHEAD)
      | None \<Rightarrow> Option.bind (checked_mul grant_max 3) (\<lambda>x. checked_add x REQUEST_MEMORY_OVERHEAD))"

definition buffered_response_weight :: "u64 \<Rightarrow> u64 option" where
  "buffered_response_weight m =
     Option.bind (checked_mul m 3) (\<lambda>x. checked_add x BUFFERED_RESPONSE_OVERHEAD)"

lemma checked_add_bounded_refuses:
  "(case checked_add a b of None \<Rightarrow> True | Some n \<Rightarrow> \<not> n \<le> m) \<longleftrightarrow> unat m < unat a + unat b"
proof (cases "checked_add a b")
  case None
  then have "2 ^ 64 \<le> unat a + unat b" by (simp only: checked_add_None)
  with None show ?thesis using unat_bound_u64 [of m] by simp
next
  case (Some n)
  then show ?thesis by (auto simp: word_le_nat_alt dest: checked_add_Some)
qed

interpretation wb: admission_counter wb_used wb_max weighted_try_acquire weighted_guard_drop
proof
  fix w s t
  assume "weighted_try_acquire w s = Some t"
  then show "unat (wb_used t) = unat (wb_used s) + unat w \<and> wb_used t \<le> wb_max t \<and> wb_max t = wb_max s"
    by (auto simp: weighted_try_acquire_def dest: checked_add_Some split: option.splits if_splits)
next
  fix w s
  show "weighted_try_acquire w s = None \<longleftrightarrow> unat (wb_max s) < unat (wb_used s) + unat w"
    by (auto simp: weighted_try_acquire_def simp flip: checked_add_bounded_refuses
        split: option.splits)
qed (simp_all add: weighted_guard_drop_def unat_saturating_sub)

text \<open>
  Under validated limits both weights are computed without overflow and fit a fresh budget, so a
  request is never refused for memory by a broker that holds nothing else.
\<close>

lemma weight_of_three:
  assumes "unat m \<le> k" and "3 * k + unat d \<le> unat b"
  shows "\<exists>w. Option.bind (checked_mul m 3) (\<lambda>x. checked_add x d) = Some w \<and> w \<le> b"
proof -
  have b: "unat b < 2 ^ 64" by (rule unat_bound_u64)
  have m: "checked_mul m 3 = Some (m * 3)"
    using assms b by (simp add: checked_mul_def)
  have u: "unat (m * 3) = unat m * 3" using checked_mul_Some [OF m] by simp
  have "checked_add (m * 3) d = Some (m * 3 + d)"
    using assms b u by (intro checked_add_SomeI) simp
  moreover from checked_add_Some [OF this] u assms have "m * 3 + d \<le> b"
    by (simp add: word_le_nat_alt)
  ultimately show ?thesis using m by simp
qed

lemma request_weight_fits:
  assumes "limits_ok l" and "\<And>n. declared = Some n \<Longrightarrow> n \<le> max_request_bytes l"
  shows "\<exists>w. request_weight declared (max_request_bytes l) = Some w \<and> w \<le> REQUEST_MEMORY_BUDGET"
proof -
  have grant: "unat (max_request_bytes l) \<le> 16777216"
    using assms(1) by (simp add: limits_ok_def word_le_nat_alt)
  have "unat (case declared of Some n \<Rightarrow> n | None \<Rightarrow> max_request_bytes l) \<le> 16777216"
    using assms(2) grant by (cases declared) (auto simp: word_le_nat_alt)
  from weight_of_three [OF this, of REQUEST_MEMORY_OVERHEAD REQUEST_MEMORY_BUDGET]
  show ?thesis
    by (cases declared)
       (simp_all add: request_weight_def REQUEST_MEMORY_OVERHEAD_def REQUEST_MEMORY_BUDGET_def)
qed

lemma buffered_response_weight_fits:
  assumes "limits_ok l"
  shows "\<exists>w. buffered_response_weight (max_response_bytes l) = Some w \<and> w \<le> BUFFERED_RESPONSE_BUDGET"
proof -
  have "unat (max_response_bytes l) \<le> 33554432"
    using assms by (simp add: limits_ok_def word_le_nat_alt)
  from weight_of_three [OF this, of BUFFERED_RESPONSE_OVERHEAD BUFFERED_RESPONSE_BUDGET]
  show ?thesis
    by (simp add: buffered_response_weight_def BUFFERED_RESPONSE_OVERHEAD_def
        BUFFERED_RESPONSE_BUDGET_def)
qed

section \<open>Properties\<close>

text \<open>
  Whatever sequence of acquisitions and guard drops runs against the broker-wide memory budget,
  the amount in use is exactly the sum of the weights of the guards still alive, it never exceeds
  the budget, and a refused weight really did not fit.
\<close>

theorem memory_budget_exact:
  assumes "counter_run weighted_try_acquire weighted_guard_drop ops (weighted_budget_new m, []) = (b, held)"
  shows "unat (wb_used b) = held_weight held \<and> held_weight held \<le> unat m \<and>
    (weighted_try_acquire w b = None \<longleftrightarrow> unat m < held_weight held + unat w)"
proof -
  have z: "wb_used (weighted_budget_new m) = 0" and m: "wb_max (weighted_budget_new m) = m"
    by (simp_all add: weighted_budget_new_def)
  have "wb.counted (weighted_budget_new m, [])" by (simp add: wb.counted_def z)
  from wb.run_counted [OF this, of ops] have "wb_max b = m" by (simp add: assms m)
  with wb.never_oversubscribed [OF z assms] m show ?thesis by (simp add: wb.acquire_refuses)
qed

theorem memory_budget_exact_witness:
  "counter_run weighted_try_acquire weighted_guard_drop
      [Acquire 60, Acquire 50, Acquire 40, DropGuard 1] (weighted_budget_new 100, [])
     = (\<lparr>wb_max = 100, wb_used = 40\<rparr>, [40]) \<and>
   weighted_try_acquire 61 \<lparr>wb_max = 100, wb_used = 40\<rparr> = None"
proof -
  have r: "counter_run weighted_try_acquire weighted_guard_drop
      [Acquire 60, Acquire 50, Acquire 40, DropGuard 1] (weighted_budget_new 100, [])
     = (\<lparr>wb_max = 100, wb_used = 40\<rparr>, [40])"
    by (simp add: counter_run_def weighted_try_acquire_def weighted_guard_drop_def
        weighted_budget_new_def checked_add_def saturating_sub_def)
  from memory_budget_exact [OF this, of 61] r show ?thesis by simp
qed

text \<open>
  Under validated limits the memory weight of any request whose declared length is within the
  grant, and of any buffered response, is computed without overflow and fits the whole budget: a
  broker that holds nothing else never refuses it.
\<close>

theorem weights_fit_the_budget:
  assumes "limits_validate l = Inr ()" and "case declared of None \<Rightarrow> True | Some n \<Rightarrow> n \<le> max_request_bytes l"
  shows "\<exists>w v. request_weight declared (max_request_bytes l) = Some w \<and>
      weighted_try_acquire w (weighted_budget_new REQUEST_MEMORY_BUDGET) \<noteq> None \<and>
      buffered_response_weight (max_response_bytes l) = Some v \<and>
      weighted_try_acquire v (weighted_budget_new BUFFERED_RESPONSE_BUDGET) \<noteq> None"
proof -
  from assms(1) have l: "limits_ok l" by (simp add: limits_validate_iff)
  have fits: "w \<le> m \<Longrightarrow> weighted_try_acquire w (weighted_budget_new m) \<noteq> None" for w m
    by (simp only: wb.acquire_refuses) (simp add: weighted_budget_new_def word_le_nat_alt)
  from request_weight_fits [OF l, of declared] assms(2) buffered_response_weight_fits [OF l] fits
  show ?thesis by (cases declared) force+
qed

theorem weights_fit_the_budget_witness:
  "\<exists>w. request_weight (Some 1000) (max_request_bytes DEFAULT_BROKER_LIMITS) = Some w"
proof -
  have "case Some 1000 of None \<Rightarrow> True | Some n \<Rightarrow> n \<le> max_request_bytes DEFAULT_BROKER_LIMITS"
    by (simp add: DEFAULT_BROKER_LIMITS_def)
  from weights_fit_the_budget [OF _ this] show ?thesis
    by (auto simp: limits_validate_iff default_limits_ok)
qed

end
