(* ===== verification/Day_Authority.thy ===== *)
theory Day_Authority
  imports Broker_Policy
begin

text \<open>
  The durable cumulative day budget. The locale \<open>day_authority\<close> is the contract
  \<^verbatim>\<open>CumulativeBudgetAuthority\<close> of \<^verbatim>\<open>crates/provider-broker/src/authority.rs\<close>:
  a charge either adds exactly its tokens under the cap, or refuses and charges nothing, and never
  touches another provider. The admission transaction of the theory \<open>Reservations\<close> relies on
  these laws and on nothing else of the authority.

  The provider is the daemon's implementation: \<^verbatim>\<open>StoreDayAuthority\<close> in
  \<^verbatim>\<open>crates/rhapsodyd/src/providerbudget.rs\<close> over the single conditional upsert of
  \<^verbatim>\<open>crates/store/src/sqlite.rs\<close>. The table is a map from (provider, UTC day) to the charged
  amount; the statement is modelled by what its text says, an insert guarded by the tokens fitting
  the cap, turned into an update guarded by the sum fitting the cap. A failing statement (locked or
  broken database) is the flag \<open>sa_fault\<close>, under which a statement changes nothing.
\<close>

section \<open>The contract\<close>

datatype day_budget_refusal = Exhausted | DayUnavailable

type_synonym 'd charge_fn =
  "string \<Rightarrow> u64 \<Rightarrow> u64 \<Rightarrow> 'd \<Rightarrow> (day_budget_refusal, unit) result \<times> 'd"

locale day_authority =
  fixes charge :: "'d charge_fn" and charged :: "'d \<Rightarrow> string \<Rightarrow> nat" and dinv :: "'d \<Rightarrow> bool"
  assumes charge_ok:
      "dinv d \<Longrightarrow> charge p n c d = (Inr u, d') \<Longrightarrow>
         charged d' p = charged d p + unat n \<and> charged d' p \<le> unat c"
    and charge_frame: "charge p n c d = (r, d') \<Longrightarrow> q \<noteq> p \<Longrightarrow> charged d' q = charged d q"
    and charge_refused: "charge p n c d = (Inl e, d') \<Longrightarrow> d' = d"
    and charge_inv: "dinv d \<Longrightarrow> charge p n c d = (r, d') \<Longrightarrow> dinv d'"
begin

lemma charge_bounded:
  assumes "dinv d" and "charge p n c d = (r, d')" and "charged d p \<le> unat c"
  shows "charged d' p \<le> unat c"
  using assms by (cases r) (auto dest: charge_ok charge_refused)

end

section \<open>The store-backed authority\<close>

definition utc_day_of :: "int \<Rightarrow> int" where
  "utc_day_of unix_seconds = unix_seconds div 86400"

text \<open>
  \<open>sa_now\<close> is the authority's clock in Unix seconds, \<open>sa_rows\<close> the table
  \<^verbatim>\<open>rhapsody_provider_day_budget\<close>.
\<close>

record store_authority =
  sa_durable :: bool
  sa_fault :: bool
  sa_now :: int
  sa_rows :: "string \<times> int \<rightharpoonup> int"

definition I64_MAX :: int where
  "I64_MAX = 2 ^ 63 - 1"

definition charge_provider_day_tokens ::
  "bool \<Rightarrow> string \<Rightarrow> int \<Rightarrow> u64 \<Rightarrow> u64 \<Rightarrow> (string \<times> int \<rightharpoonup> int)
     \<Rightarrow> (unit, bool) result \<times> (string \<times> int \<rightharpoonup> int)" where
  "charge_provider_day_tokens fault provider_id utc_day tokens cap rows =
     (if uint tokens > I64_MAX \<or> uint cap > I64_MAX then (Inr False, rows)
      else if fault then (Inl (), rows)
      else if \<not> uint tokens \<le> uint cap then (Inr False, rows)
      else case rows (provider_id, utc_day) of
             None \<Rightarrow> (Inr True, rows((provider_id, utc_day) \<mapsto> uint tokens))
           | Some charged \<Rightarrow>
               if charged + uint tokens \<le> uint cap
               then (Inr True, rows((provider_id, utc_day) \<mapsto> charged + uint tokens))
               else (Inr False, rows))"

definition provider_day_tokens ::
  "bool \<Rightarrow> string \<Rightarrow> int \<Rightarrow> (string \<times> int \<rightharpoonup> int) \<Rightarrow> (unit, u64) result" where
  "provider_day_tokens fault provider_id utc_day rows =
     (if fault then Inl ()
      else case rows (provider_id, utc_day) of
             None \<Rightarrow> Inr 0
           | Some n \<Rightarrow> Inr (if 0 \<le> n \<and> n < 2 ^ 64 then word_of_int n else 0))"

definition sa_today :: "store_authority \<Rightarrow> int" where
  "sa_today a = utc_day_of (sa_now a)"

definition store_try_charge :: "store_authority charge_fn" where
  "store_try_charge provider_id tokens cap a =
     (if \<not> sa_durable a then (Inl DayUnavailable, a)
      else case charge_provider_day_tokens (sa_fault a) provider_id (sa_today a) tokens cap (sa_rows a) of
             (Inr True, rows) \<Rightarrow> (Inr (), a\<lparr>sa_rows := rows\<rparr>)
           | (Inr False, rows) \<Rightarrow> (Inl Exhausted, a\<lparr>sa_rows := rows\<rparr>)
           | (Inl _, rows) \<Rightarrow> (Inl DayUnavailable, a\<lparr>sa_rows := rows\<rparr>))"

definition store_charged_today :: "store_authority \<Rightarrow> string \<Rightarrow> u64" where
  "store_charged_today a provider_id =
     (case provider_day_tokens (sa_fault a) provider_id (sa_today a) (sa_rows a) of
        Inr tokens \<Rightarrow> tokens
      | Inl _ \<Rightarrow> 0)"

section \<open>The implementation keeps the contract\<close>

text \<open>What the table holds for a provider today.\<close>

definition day_spent :: "store_authority \<Rightarrow> string \<Rightarrow> nat" where
  "day_spent a p = (case sa_rows a (p, sa_today a) of None \<Rightarrow> 0 | Some n \<Rightarrow> nat n)"

text \<open>Every stored amount is non-negative: the statement only ever adds.\<close>

definition rows_nonneg :: "store_authority \<Rightarrow> bool" where
  "rows_nonneg a \<longleftrightarrow> (\<forall>k n. sa_rows a k = Some n \<longrightarrow> 0 \<le> n)"

lemma charge_refused_rows:
  "charge_provider_day_tokens fl p day n c rows = (r, rows') \<Longrightarrow> r \<noteq> Inr True \<Longrightarrow> rows' = rows"
  by (auto simp: charge_provider_day_tokens_def split: if_splits option.splits)

lemma charge_accepted_rows:
  assumes "charge_provider_day_tokens fl p day n c rows = (Inr True, rows')"
  shows "\<exists>v. rows' = rows((p, day) \<mapsto> v) \<and> v \<le> uint c \<and>
     v = (case rows (p, day) of None \<Rightarrow> 0 | Some m \<Rightarrow> m) + uint n"
  using assms
  by (auto simp: charge_provider_day_tokens_def split: if_splits option.splits)

lemma store_charge_refused:
  "store_try_charge p n c a = (Inl e, a') \<Longrightarrow> a' = a"
  by (auto simp: store_try_charge_def dest: charge_refused_rows
      split: if_splits prod.splits sum.splits bool.splits)

lemma store_charge_accepted:
  assumes "store_try_charge p n c a = (Inr u, a')"
  obtains v where "a' = a\<lparr>sa_rows := (sa_rows a)((p, sa_today a) \<mapsto> v)\<rparr>" and "v \<le> uint c"
    and "v = (case sa_rows a (p, sa_today a) of None \<Rightarrow> 0 | Some m \<Rightarrow> m) + uint n"
proof -
  from assms obtain rows where
      "charge_provider_day_tokens (sa_fault a) p (sa_today a) n c (sa_rows a) = (Inr True, rows)"
      and a': "a' = a\<lparr>sa_rows := rows\<rparr>"
    by (auto simp: store_try_charge_def split: if_splits prod.splits sum.splits bool.splits)
  from charge_accepted_rows [OF this(1)] a' that show ?thesis by blast
qed

lemma store_charge_frame:
  assumes "store_try_charge p n c a = (r, a')" and "q \<noteq> p"
  shows "day_spent a' q = day_spent a q"
proof (cases r)
  case (Inl e)
  with assms show ?thesis by (auto dest: store_charge_refused)
next
  case (Inr u)
  with assms(1) obtain v where "a' = a\<lparr>sa_rows := (sa_rows a)((p, sa_today a) \<mapsto> v)\<rparr>"
    by (metis store_charge_accepted)
  with assms(2) show ?thesis by (simp add: day_spent_def sa_today_def)
qed

lemma store_charge_nonneg:
  assumes "store_try_charge p n c a = (r, a')" and "rows_nonneg a"
  shows "rows_nonneg a'"
proof (cases r)
  case (Inl e)
  with assms show ?thesis by (auto dest: store_charge_refused)
next
  case (Inr u)
  with assms(1) obtain v where "a' = a\<lparr>sa_rows := (sa_rows a)((p, sa_today a) \<mapsto> v)\<rparr>"
    and "v = (case sa_rows a (p, sa_today a) of None \<Rightarrow> 0 | Some m \<Rightarrow> m) + uint n"
    by (metis store_charge_accepted)
  with assms(2) show ?thesis by (auto simp: rows_nonneg_def split: option.splits)
qed

lemma store_charge_exact:
  assumes "store_try_charge p n c a = (Inr u, a')" and "rows_nonneg a"
  shows "day_spent a' p = day_spent a p + unat n" and "day_spent a' p \<le> unat c"
proof -
  let ?old = "case sa_rows a (p, sa_today a) of None \<Rightarrow> 0 | Some m \<Rightarrow> m"
  from assms(1) obtain v where a': "a' = a\<lparr>sa_rows := (sa_rows a)((p, sa_today a) \<mapsto> v)\<rparr>"
      and v: "v \<le> uint c" "v = ?old + uint n"
    by (rule store_charge_accepted)
  have old: "0 \<le> ?old" using assms(2) by (auto simp: rows_nonneg_def split: option.splits)
  have new: "day_spent a' p = nat v" using a' by (simp add: day_spent_def sa_today_def)
  have "nat v = nat ?old + unat n" using v old by (simp add: nat_add_distrib)
  then show "day_spent a' p = day_spent a p + unat n"
    using new by (auto simp: day_spent_def split: option.splits)
  show "day_spent a' p \<le> unat c" using new v(1) by (simp add: nat_le_iff)
qed

interpretation sa: day_authority store_try_charge day_spent rows_nonneg
  by unfold_locales
     (auto dest: store_charge_exact store_charge_frame store_charge_refused store_charge_nonneg)

end
