(* ===== verification/Usage_Ledger.thy ===== *)
theory Usage_Ledger
  imports Prelude
begin

text \<open>
  The provider usage observation (\<^verbatim>\<open>crates/provider-broker/src/usage.rs\<close>) and the finalized
  turn ledger (\<^verbatim>\<open>ledger.rs\<close>). The ledger is a receipt: it is built once from the closed
  reservation counters and usage totals and only read afterwards.
\<close>

section \<open>Usage observations\<close>

record usage_observation =
  uo_input_tokens :: "u64 option"
  uo_output_tokens :: "u64 option"
  uo_cached_tokens :: "u64 option"
  uo_total_tokens :: "u64 option"
  uo_complete :: bool
  uo_inconsistent :: bool
  uo_malformed_events :: u64

definition observation_default :: usage_observation where
  "observation_default = \<lparr>uo_input_tokens = None, uo_output_tokens = None, uo_cached_tokens = None,
     uo_total_tokens = None, uo_complete = False, uo_inconsistent = False, uo_malformed_events = 0\<rparr>"

definition conservative_total :: "usage_observation \<Rightarrow> u64 option" where
  "conservative_total o1 =
     (let components = (case (uo_input_tokens o1, uo_output_tokens o1) of
                          (Some i, Some out) \<Rightarrow> checked_add i out
                        | _ \<Rightarrow> None)
      in case (uo_total_tokens o1, components) of
           (Some tot, Some s) \<Rightarrow> Some (max tot s)
         | (Some tot, None) \<Rightarrow> Some tot
         | (None, s) \<Rightarrow> s)"

definition is_unknown :: "usage_observation \<Rightarrow> bool" where
  "is_unknown o1 \<longleftrightarrow> \<not> uo_complete o1 \<or> uo_malformed_events o1 > 0"

text \<open>Settlement never uses less than either figure the provider reported.\<close>

lemma conservative_total_ge_total:
  "conservative_total o1 = Some n \<Longrightarrow> uo_total_tokens o1 = Some t \<Longrightarrow> t \<le> n"
  by (auto simp: conservative_total_def Let_def split: option.splits)

lemma conservative_total_ge_components:
  assumes "conservative_total o1 = Some n"
    and "uo_input_tokens o1 = Some i" and "uo_output_tokens o1 = Some out"
    and "unat i + unat out < 2 ^ 64"
  shows "unat i + unat out \<le> unat n"
proof -
  have c: "checked_add i out = Some (i + out)" using assms(4) by (rule checked_add_SomeI)
  have "i + out \<le> n"
    using assms(1-3) c by (auto simp: conservative_total_def Let_def split: option.splits)
  with checked_add_Some [OF c] show ?thesis by (simp add: word_le_nat_alt)
qed

section \<open>The finalized turn ledger\<close>

datatype usage_authority = ProviderReportedUnverified

datatype turn_outcome = Completed | NoCapability | Revoked | Expired | SupervisorReleased

record reservation_counters =
  rc_forwarded_requests :: u64
  rc_denied_requests :: u64
  rc_request_bytes :: u64
  rc_response_bytes :: u64
  rc_reserved_tokens :: u64

record usage_counters =
  uc_provider_reported_tokens :: "u64 option"
  uc_reported_requests :: u64
  uc_unknown_usage_requests :: u64
  uc_inconsistent_usage_requests :: u64

record turn_ledger =
  tl_turn_ordinal :: u64
  tl_outcome :: turn_outcome
  tl_capability_issued :: bool
  tl_forwarded_requests :: u64
  tl_denied_requests :: u64
  tl_unknown_usage_requests :: u64
  tl_request_bytes :: u64
  tl_response_bytes :: u64
  tl_reserved_tokens :: u64
  tl_provider_reported_tokens :: "u64 option"
  tl_reported_requests :: u64
  tl_inconsistent_usage_requests :: u64
  tl_usage_authority :: "usage_authority option"

definition turn_ledger_new ::
  "u64 \<Rightarrow> turn_outcome \<Rightarrow> bool \<Rightarrow> reservation_counters \<Rightarrow> usage_counters \<Rightarrow> turn_ledger" where
  "turn_ledger_new ordinal outcome capability_issued counters usage =
     \<lparr>tl_turn_ordinal = ordinal, tl_outcome = outcome, tl_capability_issued = capability_issued,
      tl_forwarded_requests = rc_forwarded_requests counters,
      tl_denied_requests = rc_denied_requests counters,
      tl_unknown_usage_requests = uc_unknown_usage_requests usage,
      tl_request_bytes = rc_request_bytes counters,
      tl_response_bytes = rc_response_bytes counters,
      tl_reserved_tokens = rc_reserved_tokens counters,
      tl_provider_reported_tokens = uc_provider_reported_tokens usage,
      tl_reported_requests = uc_reported_requests usage,
      tl_inconsistent_usage_requests = uc_inconsistent_usage_requests usage,
      tl_usage_authority =
        (if uc_reported_requests usage > 0 then Some ProviderReportedUnverified else None)\<rparr>"

definition usage_incomplete :: "turn_ledger \<Rightarrow> bool" where
  "usage_incomplete t \<longleftrightarrow> tl_unknown_usage_requests t > 0"

end
