(* ===== verification/Reservations.thy ===== *)
theory Reservations
  imports Broker_Budget Day_Authority Usage_Ledger
begin

text \<open>
  The atomic reservation primitives of \<^verbatim>\<open>crates/provider-broker/src/reservations.rs\<close>: the
  per-session token cap, the per-turn counters with their liveness gate, the admission transaction,
  settlement, concurrency permits, denial counting and finalization.

  Every method of \<^verbatim>\<open>Reservations\<close> runs under one mutex, so it is one atomic step. The
  \<open>live\<close> closure reads revocation flags and the clock that other threads may change, so its result
  is an input of the step: every theorem below holds for any answer it gives. The relation
  \<open>res_step\<close> has one rule per critical section and lets them interleave in any order; its
  configuration also records the permits and settlement handles that are alive and, as a ghost, the
  requests admitted so far.
\<close>

section \<open>State\<close>

record session_reservations =
  sr_max_tokens :: u64
  sr_reserved :: u64

record reserve_request =
  rr_request_bytes :: u64
  rr_response_bytes :: u64
  rr_output_tokens :: u64

record reservation_snapshot =
  forwarded_requests :: u64
  denied_requests :: u64
  concurrent_requests :: u64
  request_bytes :: u64
  response_bytes :: u64
  reserved_tokens :: u64

record usage_state =
  outstanding :: u64
  reported_tokens :: u64
  reported_requests :: u64
  unknown_requests :: u64
  inconsistent_requests :: u64

record usage_snapshot =
  us_provider_reported_tokens :: "u64 option"
  us_reported_requests :: u64
  us_unknown_usage_requests :: u64
  us_inconsistent_usage_requests :: u64

record reservation_state =
  rs_closed :: bool
  counters :: reservation_snapshot
  rs_usage :: usage_state

definition snapshot_default :: reservation_snapshot where
  "snapshot_default = \<lparr>forwarded_requests = 0, denied_requests = 0, concurrent_requests = 0,
     request_bytes = 0, response_bytes = 0, reserved_tokens = 0\<rparr>"

definition usage_default :: usage_state where
  "usage_default = \<lparr>outstanding = 0, reported_tokens = 0, reported_requests = 0,
     unknown_requests = 0, inconsistent_requests = 0\<rparr>"

definition reservations_new :: reservation_state where
  "reservations_new = \<lparr>rs_closed = False, counters = snapshot_default, rs_usage = usage_default\<rparr>"

section \<open>The per-session token cap\<close>

definition session_reservations_new :: "u64 \<Rightarrow> session_reservations" where
  "session_reservations_new m = \<lparr>sr_max_tokens = m, sr_reserved = 0\<rparr>"

definition session_try_reserve ::
  "u64 \<Rightarrow> session_reservations \<Rightarrow> (broker_error, session_reservations) result" where
  "session_try_reserve tokens s =
     (case checked_add (sr_reserved s) tokens of
        None \<Rightarrow> Inl SessionBudgetExhausted
      | Some next \<Rightarrow>
          if next \<le> sr_max_tokens s then Inr (s\<lparr>sr_reserved := next\<rparr>)
          else Inl SessionBudgetExhausted)"

definition session_remaining :: "session_reservations \<Rightarrow> u64" where
  "session_remaining s = saturating_sub (sr_max_tokens s) (sr_reserved s)"

definition session_release :: "u64 \<Rightarrow> session_reservations \<Rightarrow> session_reservations" where
  "session_release tokens s = s\<lparr>sr_reserved := saturating_sub (sr_reserved s) tokens\<rparr>"

section \<open>The admission transaction\<close>

text \<open>
  The turn checks of \<^verbatim>\<open>try_reserve\<close>, in source order, with the counter values they would
  commit: forwarded requests, request bytes, response bytes, token cost and turn tokens.
\<close>

definition reserve_checks ::
  "broker_limits \<Rightarrow> reservation_snapshot \<Rightarrow> reserve_request
     \<Rightarrow> (broker_error, u64 \<times> u64 \<times> u64 \<times> u64 \<times> u64) result" where
  "reserve_checks limits state request =
     and_then (refuse_if (rr_request_bytes request > max_request_bytes limits)
                 (TurnBudgetExhausted ''max_request_bytes'')) (\<lambda>_.
     and_then (refuse_if (rr_response_bytes request > max_response_bytes limits)
                 (TurnBudgetExhausted ''max_response_bytes'')) (\<lambda>_.
     and_then (refuse_if (rr_output_tokens request > max_output_tokens_request limits)
                 (TurnBudgetExhausted ''max_output_tokens_request'')) (\<lambda>_.
     and_then (ok_or (checked_add (forwarded_requests state) 1)
                 (TurnBudgetExhausted ''max_forwarded_requests'')) (\<lambda>forwarded.
     and_then (refuse_if (forwarded > ucast (max_forwarded_requests limits))
                 (TurnBudgetExhausted ''max_forwarded_requests'')) (\<lambda>_.
     and_then (ok_or (checked_add (request_bytes state) (rr_request_bytes request))
                 (TurnBudgetExhausted ''max_request_bytes_turn'')) (\<lambda>req_bytes.
     and_then (refuse_if (req_bytes > max_request_bytes_turn limits)
                 (TurnBudgetExhausted ''max_request_bytes_turn'')) (\<lambda>_.
     and_then (ok_or (checked_add (response_bytes state) (rr_response_bytes request))
                 (TurnBudgetExhausted ''max_response_bytes_turn'')) (\<lambda>resp_bytes.
     and_then (refuse_if (resp_bytes > max_response_bytes_turn limits)
                 (TurnBudgetExhausted ''max_response_bytes_turn'')) (\<lambda>_.
     and_then (ok_or (checked_add (rr_request_bytes request) (rr_output_tokens request))
                 (TurnBudgetExhausted ''max_reserved_tokens_turn'')) (\<lambda>token_cost.
     and_then (ok_or (checked_add (reserved_tokens state) token_cost)
                 (TurnBudgetExhausted ''max_reserved_tokens_turn'')) (\<lambda>turn_tokens.
     and_then (refuse_if (turn_tokens > max_reserved_tokens_turn limits)
                 (TurnBudgetExhausted ''max_reserved_tokens_turn'')) (\<lambda>_.
     Inr (forwarded, req_bytes, resp_bytes, token_cost, turn_tokens)))))))))))))"

definition reserve_commit ::
  "u64 \<times> u64 \<times> u64 \<times> u64 \<times> u64 \<Rightarrow> reservation_state \<Rightarrow> reservation_state" where
  "reserve_commit plan st =
     (case plan of (forwarded, req_bytes, resp_bytes, token_cost, turn_tokens) \<Rightarrow>
        st\<lparr>counters := (counters st)\<lparr>forwarded_requests := forwarded, request_bytes := req_bytes,
             response_bytes := resp_bytes, reserved_tokens := turn_tokens\<rparr>,
           rs_usage := (rs_usage st)\<lparr>outstanding := saturating_add (outstanding (rs_usage st)) 1\<rparr>\<rparr>)"

definition try_reserve ::
  "broker_limits \<Rightarrow> string \<Rightarrow> 'd charge_fn option \<Rightarrow> reserve_request \<Rightarrow> (broker_error, unit) result
     \<Rightarrow> reservation_state \<times> session_reservations \<times> 'd
     \<Rightarrow> (broker_error, unit) result \<times> (reservation_state \<times> session_reservations \<times> 'd)" where
  "try_reserve limits provider_id day_auth request live c =
     (case c of (st, session, d) \<Rightarrow>
      if rs_closed st then (Inl Unauthorized, c)
      else case live of
        Inl e \<Rightarrow> (Inl e, c)
      | Inr _ \<Rightarrow>
        (case reserve_checks limits (counters st) request of
           Inl e \<Rightarrow> (Inl e, c)
         | Inr plan \<Rightarrow>
           (case plan of (_, _, _, token_cost, _) \<Rightarrow>
            (case session_try_reserve token_cost session of
               Inl e \<Rightarrow> (Inl e, c)
             | Inr session' \<Rightarrow>
               (case (day_auth, max_reserved_token_units_per_utc_day limits) of
                  (Some charge, Some cap) \<Rightarrow>
                    (case charge provider_id token_cost cap d of
                       (Inl _, d') \<Rightarrow>
                         (Inl DayBudgetExhausted, (st, session_release token_cost session', d'))
                     | (Inr _, d') \<Rightarrow> (Inr (), (reserve_commit plan st, session', d')))
                | _ \<Rightarrow> (Inr (), (reserve_commit plan st, session', d)))))))"

section \<open>Settlement, permits, denials, finalization\<close>

definition settle_response_bytes :: "u64 \<Rightarrow> u64 \<Rightarrow> reservation_state \<Rightarrow> reservation_state" where
  "settle_response_bytes reserved forwarded st =
     (if rs_closed st then st
      else st\<lparr>counters := (counters st)\<lparr>response_bytes :=
             saturating_sub (response_bytes (counters st)) (saturating_sub reserved forwarded)\<rparr>\<rparr>)"

definition usage_settled :: "usage_observation \<Rightarrow> usage_state \<Rightarrow> usage_state" where
  "usage_settled observation u0 =
     (let u = u0\<lparr>outstanding := saturating_sub (outstanding u0) 1\<rparr>
      in case (is_unknown observation, conservative_total observation) of
           (False, Some tokens) \<Rightarrow>
             u\<lparr>reported_tokens := saturating_add (reported_tokens u) tokens,
               reported_requests := saturating_add (reported_requests u) 1,
               inconsistent_requests :=
                 (if uo_inconsistent observation then saturating_add (inconsistent_requests u) 1
                  else inconsistent_requests u)\<rparr>
         | _ \<Rightarrow> u\<lparr>unknown_requests := saturating_add (unknown_requests u) 1\<rparr>)"

definition settle_usage :: "usage_observation \<Rightarrow> reservation_state \<Rightarrow> reservation_state" where
  "settle_usage observation st =
     (if rs_closed st then st else st\<lparr>rs_usage := usage_settled observation (rs_usage st)\<rparr>)"

definition try_acquire_concurrency ::
  "broker_limits \<Rightarrow> (broker_error, unit) result \<Rightarrow> reservation_state
     \<Rightarrow> (broker_error, reservation_state) result" where
  "try_acquire_concurrency limits live st =
     (if rs_closed st then Inl Unauthorized
      else and_then live (\<lambda>_.
        and_then (ok_or (checked_add (concurrent_requests (counters st)) 1)
                    (TurnBudgetExhausted ''max_concurrent_requests'')) (\<lambda>next.
        and_then (refuse_if (next > ucast (max_concurrent_requests limits))
                    (TurnBudgetExhausted ''max_concurrent_requests'')) (\<lambda>_.
          Inr (st\<lparr>counters := (counters st)\<lparr>concurrent_requests := next\<rparr>\<rparr>)))))"

definition permit_drop :: "reservation_state \<Rightarrow> reservation_state" where
  "permit_drop st = st\<lparr>counters := (counters st)\<lparr>concurrent_requests :=
      saturating_sub (concurrent_requests (counters st)) 1\<rparr>\<rparr>"

definition record_denied ::
  "broker_limits \<Rightarrow> (broker_error, unit) result \<Rightarrow> reservation_state
     \<Rightarrow> (broker_error, unit) result \<times> reservation_state" where
  "record_denied limits live st =
     (if rs_closed st then (Inl Unauthorized, st)
      else case live of
        Inl e \<Rightarrow> (Inl e, st)
      | Inr _ \<Rightarrow>
        (case checked_add (denied_requests (counters st)) 1 of
           None \<Rightarrow> (Inl (TurnBudgetExhausted ''max_denied_requests''), st)
         | Some next \<Rightarrow>
           if next > ucast (max_denied_requests limits)
           then (Inl (TurnBudgetExhausted ''max_denied_requests''), st)
           else
             (let st' = st\<lparr>counters := (counters st)\<lparr>denied_requests := next\<rparr>\<rparr>
              in if next \<ge> ucast (max_denied_requests limits)
                 then (Inl (TurnBudgetExhausted ''max_denied_requests''), st')
                 else (Inr (), st'))))"

definition usage_snapshot_of :: "usage_state \<Rightarrow> usage_snapshot" where
  "usage_snapshot_of u =
     \<lparr>us_provider_reported_tokens = (if reported_requests u > 0 then Some (reported_tokens u) else None),
      us_reported_requests = reported_requests u,
      us_unknown_usage_requests = saturating_add (unknown_requests u) (outstanding u),
      us_inconsistent_usage_requests = inconsistent_requests u\<rparr>"

definition close_and_snapshot ::
  "reservation_state \<Rightarrow> (reservation_snapshot \<times> usage_snapshot) \<times> reservation_state" where
  "close_and_snapshot st =
     ((counters st, usage_snapshot_of (rs_usage st)), st\<lparr>rs_closed := True\<rparr>)"

section \<open>The critical sections, interleaved\<close>

text \<open>
  One turn's reservation object together with what points at it: the concurrency permits alive, the
  number of admitted requests whose usage is not settled, the response-byte reservations not yet
  settled, and the snapshot published at finalization. \<open>cf_admitted\<close>, \<open>cf_kept_bytes\<close> and
  \<open>cf_others\<close> are ghosts: the requests admitted, the response bytes kept by settlements, and the
  tokens that other turns charged to the shared session.
\<close>

record 'd res_config =
  cf_state :: reservation_state
  cf_session :: session_reservations
  cf_day :: 'd
  cf_permits :: nat
  cf_unsettled :: nat
  cf_open_bytes :: "u64 list"
  cf_published :: "(reservation_snapshot \<times> usage_snapshot) option"
  cf_admitted :: "reserve_request list"
  cf_kept_bytes :: nat
  cf_others :: nat

definition res_init :: "broker_limits \<Rightarrow> 'd \<Rightarrow> 'd res_config" where
  "res_init l d = \<lparr>cf_state = reservations_new,
     cf_session = session_reservations_new (max_reserved_tokens_session l), cf_day = d,
     cf_permits = 0, cf_unsettled = 0, cf_open_bytes = [], cf_published = None,
     cf_admitted = [], cf_kept_bytes = 0, cf_others = 0\<rparr>"

inductive res_step ::
  "broker_limits \<Rightarrow> string \<Rightarrow> 'd charge_fn option \<Rightarrow> 'd res_config \<Rightarrow> 'd res_config \<Rightarrow> bool"
  for l pid auth where
  admit: "try_reserve l pid auth req live (cf_state c, cf_session c, cf_day c) = (Inr u, (st, se, d))
    \<Longrightarrow> res_step l pid auth c (c\<lparr>cf_state := st, cf_session := se, cf_day := d,
          cf_unsettled := Suc (cf_unsettled c), cf_open_bytes := rr_response_bytes req # cf_open_bytes c,
          cf_admitted := req # cf_admitted c\<rparr>)"
| refuse: "try_reserve l pid auth req live (cf_state c, cf_session c, cf_day c) = (Inl e, (st, se, d))
    \<Longrightarrow> res_step l pid auth c (c\<lparr>cf_state := st, cf_session := se, cf_day := d\<rparr>)"
| settle: "cf_unsettled c = Suc n
    \<Longrightarrow> res_step l pid auth c (c\<lparr>cf_state := settle_usage obs (cf_state c), cf_unsettled := n\<rparr>)"
| settle_bytes: "i < length (cf_open_bytes c)
    \<Longrightarrow> res_step l pid auth c
          (c\<lparr>cf_state := settle_response_bytes (cf_open_bytes c ! i) fwd (cf_state c),
             cf_open_bytes := take i (cf_open_bytes c) @ drop (Suc i) (cf_open_bytes c),
             cf_kept_bytes := cf_kept_bytes c + min (unat (cf_open_bytes c ! i)) (unat fwd)\<rparr>)"
| acquire: "try_acquire_concurrency l live (cf_state c) = Inr st
    \<Longrightarrow> res_step l pid auth c (c\<lparr>cf_state := st, cf_permits := Suc (cf_permits c)\<rparr>)"
| drop_permit: "cf_permits c = Suc n
    \<Longrightarrow> res_step l pid auth c (c\<lparr>cf_state := permit_drop (cf_state c), cf_permits := n\<rparr>)"
| deny: "record_denied l live (cf_state c) = (r, st)
    \<Longrightarrow> res_step l pid auth c (c\<lparr>cf_state := st\<rparr>)"
| finalize: "cf_published c = None \<Longrightarrow> close_and_snapshot (cf_state c) = (snap, st)
    \<Longrightarrow> res_step l pid auth c (c\<lparr>cf_state := st, cf_published := Some snap\<rparr>)"
| other_turn: "session_try_reserve n (cf_session c) = Inr se
    \<Longrightarrow> res_step l pid auth c (c\<lparr>cf_session := se, cf_others := cf_others c + unat n\<rparr>)"
| other_session: "auth = Some charge \<Longrightarrow> charge p n cap (cf_day c) = (r, d)
    \<Longrightarrow> res_step l pid auth c (c\<lparr>cf_day := d\<rparr>)"

abbreviation res_reachable ::
  "broker_limits \<Rightarrow> string \<Rightarrow> 'd charge_fn option \<Rightarrow> 'd res_config \<Rightarrow> 'd res_config \<Rightarrow> bool" where
  "res_reachable l pid auth \<equiv> (res_step l pid auth)\<^sup>*\<^sup>*"

section \<open>What one admission does\<close>

definition request_cost :: "reserve_request \<Rightarrow> nat" where
  "request_cost r = unat (rr_request_bytes r) + unat (rr_output_tokens r)"

lemma reserve_checks_ok:
  assumes "reserve_checks l s r = Inr (f, qb, pb, tc, tt)"
  shows "unat f = unat (forwarded_requests s) + 1" "unat f \<le> unat (max_forwarded_requests l)"
    and "unat qb = unat (request_bytes s) + unat (rr_request_bytes r)" "qb \<le> max_request_bytes_turn l"
    and "unat pb = unat (response_bytes s) + unat (rr_response_bytes r)" "pb \<le> max_response_bytes_turn l"
    and "unat tc = request_cost r"
    and "unat tt = unat (reserved_tokens s) + request_cost r" "tt \<le> max_reserved_tokens_turn l"
    and "rr_request_bytes r \<le> max_request_bytes l" "rr_response_bytes r \<le> max_response_bytes l"
    and "rr_output_tokens r \<le> max_output_tokens_request l"
  using assms
  by (auto simp: reserve_checks_def result_simps request_cost_def not_less word_le_nat_alt
      dest!: checked_add_Some)

lemma session_reserve_ok:
  assumes "session_try_reserve n s = Inr t"
  shows "unat (sr_reserved t) = unat (sr_reserved s) + unat n"
    and "sr_reserved t \<le> sr_max_tokens t" and "sr_max_tokens t = sr_max_tokens s"
  using assms
  by (auto simp: session_try_reserve_def dest: checked_add_Some split: option.splits if_splits)

lemma session_release_undo:
  assumes "session_try_reserve n s = Inr t"
  shows "session_release n t = s"
  using assms
  by (auto simp: session_try_reserve_def session_release_def saturating_sub_undo
      split: option.splits if_splits)

lemma session_reserve_refused: "session_try_reserve n s = Inl e \<Longrightarrow> e = SessionBudgetExhausted"
  by (auto simp: session_try_reserve_def split: option.splits if_splits)

text \<open>The session cap is a bounded counter whose guards are the reservations never released.\<close>

definition session_acquire :: "u64 \<Rightarrow> session_reservations \<Rightarrow> session_reservations option" where
  "session_acquire n s = (case session_try_reserve n s of Inl _ \<Rightarrow> None | Inr t \<Rightarrow> Some t)"

interpretation sess: admission_counter sr_reserved sr_max_tokens session_acquire session_release
proof
  fix w s t
  assume "session_acquire w s = Some t"
  then have "session_try_reserve w s = Inr t" by (auto simp: session_acquire_def split: sum.splits)
  then show "unat (sr_reserved t) = unat (sr_reserved s) + unat w \<and>
      sr_reserved t \<le> sr_max_tokens t \<and> sr_max_tokens t = sr_max_tokens s"
    using session_reserve_ok [of w s t] by simp
next
  fix w s
  show "session_acquire w s = None \<longleftrightarrow> unat (sr_max_tokens s) < unat (sr_reserved s) + unat w"
    by (auto simp: session_acquire_def session_try_reserve_def simp flip: checked_add_bounded_refuses
        split: option.splits)
qed (simp_all add: session_release_def unat_saturating_sub)

text \<open>An admitted request: every turn counter, the session and the authority move together.\<close>

lemma try_reserve_admits:
  assumes "try_reserve l pid auth req live (st, se, d) = (Inr u, (st', se', d'))"
  obtains f qb pb tc tt where
    "\<not> rs_closed st" and "is_ok live"
    and "reserve_checks l (counters st) req = Inr (f, qb, pb, tc, tt)"
    and "st' = reserve_commit (f, qb, pb, tc, tt) st"
    and "session_try_reserve tc se = Inr se'"
    and "\<And>charge cap. auth = Some charge \<Longrightarrow> max_reserved_token_units_per_utc_day l = Some cap
          \<Longrightarrow> charge pid tc cap d = (Inr (), d')"
    and "auth = None \<or> max_reserved_token_units_per_utc_day l = None \<Longrightarrow> d' = d"
  using assms
  by (force simp: try_reserve_def is_ok_iff split: if_splits sum.splits option.splits prod.splits)

text \<open>A refused request leaves the turn and the session untouched.\<close>

lemma try_reserve_refuses:
  assumes "try_reserve l pid auth req live (st, se, d) = (Inl e, (st', se', d'))"
  shows "st' = st" and "se' = se"
    and "d' = d \<or> (\<exists>charge cap tc x. auth = Some charge \<and> charge pid tc cap d = (Inl x, d'))"
  using assms
  by (auto simp: try_reserve_def session_release_undo
      split: if_splits sum.splits option.splits prod.splits)

context day_authority
begin

lemma refusal_changes_nothing:
  assumes "try_reserve l pid (Some charge) req live (st, se, d) = (Inl e, s')"
  shows "s' = (st, se, d)"
proof -
  obtain st' se' d' where s': "s' = (st', se', d')" by (cases s')
  from try_reserve_refuses [OF assms [unfolded s']] show ?thesis
    by (auto simp: s' dest: charge_refused)
qed

lemma admission_charges_day:
  assumes "dinv d" and "max_reserved_token_units_per_utc_day l = Some cap"
    and "try_reserve l pid (Some charge) req live (st, se, d) = (Inr u, (st', se', d'))"
  shows "charged d' pid = charged d pid + request_cost req" and "charged d' pid \<le> unat cap"
proof -
  from assms(3) obtain f qb pb tc tt where
      p: "reserve_checks l (counters st) req = Inr (f, qb, pb, tc, tt)"
    and ch: "charge pid tc cap d = (Inr (), d')"
    using assms(2) by (auto elim: try_reserve_admits)
  from charge_ok [OF assms(1) ch] reserve_checks_ok(7) [OF p]
  show "charged d' pid = charged d pid + request_cost req" and "charged d' pid \<le> unat cap"
    by simp_all
qed

end

section \<open>The turn invariant\<close>

definition turn_cost :: "reserve_request list \<Rightarrow> nat" where
  "turn_cost rs = sum_list (map request_cost rs)"

definition counters_bounded :: "broker_limits \<Rightarrow> 'd res_config \<Rightarrow> bool" where
  "counters_bounded l c \<longleftrightarrow> (let k = counters (cf_state c) in
     unat (forwarded_requests k) = length (cf_admitted c) \<and>
     unat (forwarded_requests k) \<le> unat (max_forwarded_requests l) \<and>
     unat (request_bytes k) = sum_list (map (unat \<circ> rr_request_bytes) (cf_admitted c)) \<and>
     unat (request_bytes k) \<le> unat (max_request_bytes_turn l) \<and>
     unat (response_bytes k) \<le> unat (max_response_bytes_turn l) \<and>
     unat (reserved_tokens k) = turn_cost (cf_admitted c) \<and>
     unat (reserved_tokens k) \<le> unat (max_reserved_tokens_turn l) \<and>
     unat (denied_requests k) \<le> unat (max_denied_requests l) \<and>
     unat (concurrent_requests k) = cf_permits c \<and>
     unat (concurrent_requests k) \<le> unat (max_concurrent_requests l))"

definition session_accounted :: "broker_limits \<Rightarrow> 'd res_config \<Rightarrow> bool" where
  "session_accounted l c \<longleftrightarrow>
     sr_max_tokens (cf_session c) = max_reserved_tokens_session l \<and>
     unat (sr_reserved (cf_session c)) = turn_cost (cf_admitted c) + cf_others c \<and>
     sr_reserved (cf_session c) \<le> sr_max_tokens (cf_session c)"

definition usage_accounted :: "'d res_config \<Rightarrow> bool" where
  "usage_accounted c \<longleftrightarrow> (let u = rs_usage (cf_state c) in
     unat (outstanding u) + unat (reported_requests u) + unat (unknown_requests u)
       = length (cf_admitted c) \<and>
     unat (inconsistent_requests u) \<le> unat (reported_requests u) \<and>
     (\<not> rs_closed (cf_state c) \<longrightarrow>
        unat (outstanding u) = cf_unsettled c \<and>
        unat (response_bytes (counters (cf_state c)))
          = held_weight (cf_open_bytes c) + cf_kept_bytes c))"

text \<open>The counters a finalized turn no longer changes: all but the permits still held.\<close>

definition frozen :: "reservation_snapshot \<Rightarrow> reservation_snapshot" where
  "frozen k = k\<lparr>concurrent_requests := 0\<rparr>"

lemma frozen_eqD:
  assumes "frozen a = frozen b"
  shows "forwarded_requests a = forwarded_requests b" "denied_requests a = denied_requests b"
    "request_bytes a = request_bytes b" "response_bytes a = response_bytes b"
    "reserved_tokens a = reserved_tokens b"
  using assms by (cases a; cases b; simp add: frozen_def)+

definition publication_exact :: "'d res_config \<Rightarrow> bool" where
  "publication_exact c \<longleftrightarrow>
     (case cf_published c of
        None \<Rightarrow> \<not> rs_closed (cf_state c)
      | Some (k, u) \<Rightarrow> rs_closed (cf_state c) \<and> u = usage_snapshot_of (rs_usage (cf_state c)) \<and>
          frozen k = frozen (counters (cf_state c)))"

definition res_inv :: "broker_limits \<Rightarrow> 'd res_config \<Rightarrow> bool" where
  "res_inv l c \<longleftrightarrow>
     counters_bounded l c \<and> session_accounted l c \<and> usage_accounted c \<and> publication_exact c"

lemmas res_inv_defs = counters_bounded_def session_accounted_def usage_accounted_def
  publication_exact_def frozen_def Let_def

lemma res_inv_init: "res_inv l (res_init l d)"
  by (simp add: res_inv_def res_inv_defs res_init_def reservations_new_def snapshot_default_def
      usage_default_def session_reservations_new_def turn_cost_def word_le_nat_alt)

lemma word64_sum_small: "unat (a :: u64) + unat b \<le> n \<Longrightarrow> n < 2 ^ 64 \<Longrightarrow> unat (a + b) = unat a + unat b"
  by (simp add: unat_word_ariths)

lemma unat_saturating_add_small:
  "unat a + n < 2 ^ 64 \<Longrightarrow> unat b = n \<Longrightarrow> unat (saturating_add a b) = unat a + n"
  by (simp add: unat_saturating_add)

lemma res_inv_admitted_lt:
  assumes "res_inv l c"
  shows "length (cf_admitted c) < 2 ^ 32"
  using assms unat_bound_u32 [of "max_forwarded_requests l"]
  by (auto simp: res_inv_def counters_bounded_def Let_def)

lemma res_inv_admit:
  assumes inv: "res_inv l c"
    and tr: "try_reserve l pid auth req live (cf_state c, cf_session c, cf_day c) = (Inr u, (st, se, d))"
  shows "res_inv l (c\<lparr>cf_state := st, cf_session := se, cf_day := d,
      cf_unsettled := Suc (cf_unsettled c), cf_open_bytes := rr_response_bytes req # cf_open_bytes c,
      cf_admitted := req # cf_admitted c\<rparr>)"
proof -
  from tr obtain f qb pb tc tt where op: "\<not> rs_closed (cf_state c)"
    and p: "reserve_checks l (counters (cf_state c)) req = Inr (f, qb, pb, tc, tt)"
    and st: "st = reserve_commit (f, qb, pb, tc, tt) (cf_state c)"
    and se: "session_try_reserve tc (cf_session c) = Inr se"
    by (rule try_reserve_admits)
  note p = reserve_checks_ok [OF p] and se = session_reserve_ok [OF se]
  have "unat (outstanding (rs_usage (cf_state c))) \<le> length (cf_admitted c)"
    using inv by (auto simp: res_inv_def usage_accounted_def Let_def)
  then have "unat (saturating_add (outstanding (rs_usage (cf_state c))) 1)
      = unat (outstanding (rs_usage (cf_state c))) + 1"
    using res_inv_admitted_lt [OF inv] by (intro unat_saturating_add_small) simp_all
  with inv op p se st show ?thesis
    by (auto simp: res_inv_def res_inv_defs reserve_commit_def turn_cost_def word_le_nat_alt
        split: option.splits)
qed

lemma res_inv_refuse:
  assumes "res_inv l c"
    and "try_reserve l pid auth req live (cf_state c, cf_session c, cf_day c) = (Inl e, (st, se, d))"
  shows "res_inv l (c\<lparr>cf_state := st, cf_session := se, cf_day := d\<rparr>)"
  using assms(1) try_reserve_refuses(1,2) [OF assms(2)]
  by (auto simp: res_inv_def res_inv_defs split: option.splits)

lemma usage_settled_counts:
  assumes "0 < unat (outstanding u)"
    and "unat (reported_requests u) + 1 < 2 ^ 64" and "unat (unknown_requests u) + 1 < 2 ^ 64"
    and "unat (inconsistent_requests u) \<le> unat (reported_requests u)"
    and "v = usage_settled obs u"
  shows "unat (outstanding v) = unat (outstanding u) - 1"
    and "unat (reported_requests v) + unat (unknown_requests v)
           = unat (reported_requests u) + unat (unknown_requests u) + 1"
    and "unat (inconsistent_requests v) \<le> unat (reported_requests v)"
  using assms
  by (auto simp: usage_settled_def Let_def unat_saturating_add unat_saturating_sub
      split: bool.splits option.splits)

lemma res_inv_settle:
  assumes inv: "res_inv l c" and n: "cf_unsettled c = Suc n"
  shows "res_inv l (c\<lparr>cf_state := settle_usage obs (cf_state c), cf_unsettled := n\<rparr>)"
proof (cases "rs_closed (cf_state c)")
  case True
  with inv show ?thesis by (auto simp: res_inv_def res_inv_defs settle_usage_def split: option.splits)
next
  case False
  let ?u = "rs_usage (cf_state c)" and ?v = "usage_settled obs (rs_usage (cf_state c))"
  from inv have u: "unat (outstanding ?u) + unat (reported_requests ?u) + unat (unknown_requests ?u)
      = length (cf_admitted c)" "unat (inconsistent_requests ?u) \<le> unat (reported_requests ?u)"
    and out: "unat (outstanding ?u) = Suc n"
    using False n by (simp_all add: res_inv_def usage_accounted_def Let_def)
  have "unat (reported_requests ?u) + 1 < 2 ^ 64" "unat (unknown_requests ?u) + 1 < 2 ^ 64"
    using u(1) res_inv_admitted_lt [OF inv] by simp_all
  from usage_settled_counts [OF _ this u(2) refl, of obs] out u(1)
  have v: "unat (outstanding ?v) = n" "unat (inconsistent_requests ?v) \<le> unat (reported_requests ?v)"
    "unat (outstanding ?v) + unat (reported_requests ?v) + unat (unknown_requests ?v)
      = length (cf_admitted c)"
    by simp_all
  with inv False show ?thesis
    by (auto simp: res_inv_def res_inv_defs settle_usage_def split: option.splits)
qed

lemma res_inv_settle_bytes:
  assumes inv: "res_inv l c" and i: "i < length (cf_open_bytes c)"
  shows "res_inv l (c\<lparr>cf_state := settle_response_bytes (cf_open_bytes c ! i) fwd (cf_state c),
      cf_open_bytes := take i (cf_open_bytes c) @ drop (Suc i) (cf_open_bytes c),
      cf_kept_bytes := cf_kept_bytes c + min (unat (cf_open_bytes c ! i)) (unat fwd)\<rparr>)"
proof (cases "rs_closed (cf_state c)")
  case True
  with inv show ?thesis 
    by (auto simp: res_inv_def res_inv_defs settle_response_bytes_def split: option.splits)
next
  case False
  note held_weight_split [OF i]
  moreover have "unat (response_bytes (counters (cf_state c)))
      = held_weight (cf_open_bytes c) + cf_kept_bytes c"
    using inv False by (simp add: res_inv_def usage_accounted_def Let_def)
  ultimately have "unat (saturating_sub (response_bytes (counters (cf_state c)))
        (saturating_sub (cf_open_bytes c ! i) fwd))
      = held_weight (take i (cf_open_bytes c) @ drop (Suc i) (cf_open_bytes c)) +
        (cf_kept_bytes c + min (unat (cf_open_bytes c ! i)) (unat fwd))"
    by (simp add: unat_saturating_sub)
  moreover have "unat (saturating_sub (response_bytes (counters (cf_state c)))
        (saturating_sub (cf_open_bytes c ! i) fwd)) \<le> unat (max_response_bytes_turn l)"
    using inv by (auto simp: unat_saturating_sub res_inv_def counters_bounded_def Let_def)
  ultimately show ?thesis using inv False
    by (auto simp: res_inv_def res_inv_defs settle_response_bytes_def split: option.splits)
qed

lemma try_acquire_ok:
  assumes "try_acquire_concurrency l live st = Inr st'"
  obtains n where "\<not> rs_closed st" and "is_ok live"
    and "unat n = unat (concurrent_requests (counters st)) + 1"
    and "unat n \<le> unat (max_concurrent_requests l)"
    and "st' = st\<lparr>counters := (counters st)\<lparr>concurrent_requests := n\<rparr>\<rparr>"
  using assms
  by (auto simp: try_acquire_concurrency_def result_simps is_ok_iff not_less word_le_nat_alt
      dest!: checked_add_Some split: if_splits)

lemma res_inv_acquire:
  assumes "res_inv l c" and "try_acquire_concurrency l live (cf_state c) = Inr st"
  shows "res_inv l (c\<lparr>cf_state := st, cf_permits := Suc (cf_permits c)\<rparr>)"
  using assms(2)
proof (rule try_acquire_ok)
  fix n
  assume "\<not> rs_closed (cf_state c)"
    and "unat n = unat (concurrent_requests (counters (cf_state c))) + 1"
    and "unat n \<le> unat (max_concurrent_requests l)"
    and "st = (cf_state c)\<lparr>counters := (counters (cf_state c))\<lparr>concurrent_requests := n\<rparr>\<rparr>"
  with assms(1) show ?thesis
    by (auto simp: res_inv_def res_inv_defs split: option.splits)
qed

lemma res_inv_drop_permit:
  assumes "res_inv l c" and "cf_permits c = Suc n"
  shows "res_inv l (c\<lparr>cf_state := permit_drop (cf_state c), cf_permits := n\<rparr>)"
  using assms
  by (auto simp: res_inv_def res_inv_defs permit_drop_def unat_saturating_sub split: option.splits)

lemma record_denied_cases:
  assumes "record_denied l live st = (r, st')"
  obtains (refused) "st' = st" and "\<not> is_ok r"
  | (counted) n where "\<not> rs_closed st" and "is_ok live" and "unat n = unat (denied_requests (counters st)) + 1"
    and "unat n \<le> unat (max_denied_requests l)"
    and "st' = st\<lparr>counters := (counters st)\<lparr>denied_requests := n\<rparr>\<rparr>"
    and "is_ok r \<longleftrightarrow> unat n < unat (max_denied_requests l)"
proof (cases "rs_closed st \<or> \<not> is_ok live")
  case True
  with assms show ?thesis
    by (intro refused) (auto simp: record_denied_def is_ok_def split: if_splits sum.splits)
next
  case False
  then have op: "\<not> rs_closed st" and live: "live = Inr ()" "is_ok live" by (auto simp: is_ok_iff)
  show ?thesis
  proof (cases "checked_add (denied_requests (counters st)) 1")
    case None
    with assms op live show ?thesis by (intro refused) (auto simp: record_denied_def)
  next
    case (Some n)
    note r = assms [unfolded record_denied_def Let_def, simplified op live Some, simplified]
    show ?thesis
    proof (cases "n > ucast (max_denied_requests l)")
      case True
      with r show ?thesis by (intro refused) auto
    next
      case le: False
      with r op live checked_add_Some [OF Some] show ?thesis
        by (intro counted [of n])
           (auto simp: not_less not_le word_le_nat_alt word_less_nat_alt split: if_splits)
    qed
  qed
qed

lemma res_inv_deny:
  assumes "res_inv l c" and "record_denied l live (cf_state c) = (r, st)"
  shows "res_inv l (c\<lparr>cf_state := st\<rparr>)"
  using assms(2)
proof (cases rule: record_denied_cases)
  case refused
  with assms(1) show ?thesis by simp
next
  case (counted n)
  with assms(1) show ?thesis by (auto simp: res_inv_def res_inv_defs split: option.splits)
qed

lemma res_inv_finalize:
  assumes "res_inv l c" and "cf_published c = None" and "close_and_snapshot (cf_state c) = (snap, st)"
  shows "res_inv l (c\<lparr>cf_state := st, cf_published := Some snap\<rparr>)"
  using assms by (auto simp: res_inv_def res_inv_defs close_and_snapshot_def)

lemma res_inv_other_turn:
  assumes "res_inv l c" and "session_try_reserve n (cf_session c) = Inr se"
  shows "res_inv l (c\<lparr>cf_session := se, cf_others := cf_others c + unat n\<rparr>)"
  using assms(1) session_reserve_ok [OF assms(2)]
  by (auto simp: res_inv_def res_inv_defs split: option.splits)

lemma res_inv_day: "res_inv l c \<Longrightarrow> res_inv l (c\<lparr>cf_day := d\<rparr>)"
  by (auto simp: res_inv_def res_inv_defs split: option.splits)

lemmas res_inv_rules = res_inv_admit res_inv_refuse res_inv_settle res_inv_settle_bytes
  res_inv_acquire res_inv_drop_permit res_inv_deny res_inv_finalize res_inv_other_turn res_inv_day

lemma res_step_inv: "res_step l pid auth c c' \<Longrightarrow> res_inv l c \<Longrightarrow> res_inv l c'"
  by (induction rule: res_step.induct) (blast intro: res_inv_rules)+

lemma res_reachable_inv: "res_reachable l pid auth c c' \<Longrightarrow> res_inv l c \<Longrightarrow> res_inv l c'"
  by (induction rule: rtranclp_induct) (auto intro: res_step_inv)

section \<open>After finalization\<close>

lemma closed_refuses_all:
  assumes "rs_closed st"
  shows "try_reserve l pid auth req live (st, se, d) = (Inl Unauthorized, (st, se, d))"
    and "try_acquire_concurrency l live st = Inl Unauthorized"
    and "record_denied l live st = (Inl Unauthorized, st)"
    and "settle_usage obs st = st" and "settle_response_bytes a b st = st"
  using assms
  by (simp_all add: try_reserve_def try_acquire_concurrency_def record_denied_def settle_usage_def
      settle_response_bytes_def)

lemma published_persists:
  assumes "res_step l pid auth c c'" and "cf_published c = Some s"
  shows "cf_published c' = Some s"
  using assms by (induction rule: res_step.induct) auto

lemma published_forever:
  assumes "res_reachable l pid auth c c'" and "cf_published c = Some s"
  shows "cf_published c' = Some s"
  using assms by (induction rule: rtranclp_induct) (auto intro: published_persists)

text \<open>The published usage figures add up: every forwarded request is either reported or unknown.\<close>

lemma published_usage_total:
  assumes "res_inv l c" and "cf_published c = Some (k, u)"
  shows "unat (us_reported_requests u) + unat (us_unknown_usage_requests u)
      = unat (forwarded_requests k)"
proof -
  let ?u = "rs_usage (cf_state c)"
  from assms have u: "u = usage_snapshot_of ?u" and k: "forwarded_requests k = forwarded_requests (counters (cf_state c))"
    by (auto simp: res_inv_def publication_exact_def dest: frozen_eqD)
  from assms(1) have "unat (outstanding ?u) + unat (reported_requests ?u) + unat (unknown_requests ?u)
      = length (cf_admitted c)" "unat (forwarded_requests k) = length (cf_admitted c)"
    by (simp_all add: res_inv_def res_inv_defs k)
  with res_inv_admitted_lt [OF assms(1)] show ?thesis
    by (simp add: u usage_snapshot_of_def unat_saturating_add)
qed

section \<open>Properties\<close>

text \<open>
  C2. Whatever the interleaving of admissions, settlements, permits, denials, finalization and
  charges by other turns and sessions, a turn never exceeds any of its limits, and its token
  reservation is exactly the cost of every request it admitted: no settlement releases a token. The
  session's reservation is that cost plus what the other turns charged and never exceeds its cap.
\<close>

theorem reservations_never_oversubscribed:
  assumes "res_reachable l pid auth (res_init l d) c"
  shows "unat (forwarded_requests (counters (cf_state c))) \<le> unat (max_forwarded_requests l) \<and>
    request_bytes (counters (cf_state c)) \<le> max_request_bytes_turn l \<and>
    response_bytes (counters (cf_state c)) \<le> max_response_bytes_turn l \<and>
    unat (denied_requests (counters (cf_state c))) \<le> unat (max_denied_requests l) \<and>
    unat (concurrent_requests (counters (cf_state c))) = cf_permits c \<and>
    cf_permits c \<le> unat (max_concurrent_requests l) \<and>
    unat (reserved_tokens (counters (cf_state c))) = turn_cost (cf_admitted c) \<and>
    reserved_tokens (counters (cf_state c)) \<le> max_reserved_tokens_turn l \<and>
    unat (sr_reserved (cf_session c)) = turn_cost (cf_admitted c) + cf_others c \<and>
    sr_reserved (cf_session c) \<le> max_reserved_tokens_session l"
proof -
  have "counters_bounded l c" and s: "session_accounted l c"
    using res_reachable_inv [OF assms res_inv_init] by (simp_all add: res_inv_def)
  note c = this(1) [unfolded counters_bounded_def Let_def]
  from s have "sr_reserved (cf_session c) \<le> max_reserved_tokens_session l"
    and "unat (sr_reserved (cf_session c)) = turn_cost (cf_admitted c) + cf_others c"
    unfolding session_accounted_def by metis+
  with c show ?thesis by (auto simp: word_le_nat_alt)
qed

text \<open>A run of three steps from a fresh turn: an admission, a permit and the finalization.\<close>

definition demo_request :: reserve_request where
  "demo_request = \<lparr>rr_request_bytes = 100, rr_response_bytes = 1000, rr_output_tokens = 50\<rparr>"

definition demo_admitted :: "unit res_config" where
  "demo_admitted = (res_init DEFAULT_BROKER_LIMITS ())\<lparr>
     cf_state := reserve_commit (1, 100, 1000, 150, 150) reservations_new,
     cf_session := \<lparr>sr_max_tokens = 20000000, sr_reserved = 150\<rparr>,
     cf_unsettled := 1, cf_open_bytes := [1000], cf_admitted := [demo_request]\<rparr>"

definition demo_final :: "unit res_config" where
  "demo_final = (let (snap, st) = close_and_snapshot (cf_state demo_admitted)
     in demo_admitted\<lparr>cf_state := st, cf_published := Some snap\<rparr>)"

lemma demo_admits:
  "try_reserve DEFAULT_BROKER_LIMITS ''p'' None demo_request (Inr ())
     (reservations_new, session_reservations_new 20000000, ()) =
   (Inr (), (cf_state demo_admitted, cf_session demo_admitted, ()))"
  by (simp add: try_reserve_def reserve_checks_def demo_request_def demo_admitted_def res_init_def
      reservations_new_def snapshot_default_def usage_default_def session_reservations_new_def
      DEFAULT_BROKER_LIMITS_def checked_add_def refuse_if_def ok_or_def session_try_reserve_def)

lemma demo_step1: "res_step DEFAULT_BROKER_LIMITS ''p'' None (res_init DEFAULT_BROKER_LIMITS ()) demo_admitted"
proof -
  let ?c = "res_init DEFAULT_BROKER_LIMITS ()"
  have "cf_state ?c = reservations_new" "cf_session ?c = session_reservations_new 20000000" "cf_day ?c = ()"
    by (simp_all add: res_init_def DEFAULT_BROKER_LIMITS_def)
  with demo_admits have "try_reserve DEFAULT_BROKER_LIMITS ''p'' None demo_request (Inr ())
      (cf_state ?c, cf_session ?c, cf_day ?c) = (Inr (), (cf_state demo_admitted, cf_session demo_admitted, ()))"
    by simp
  from res_step.admit [OF this] show ?thesis
    by (simp add: demo_admitted_def res_init_def demo_request_def)
qed

lemma demo_step2: "res_step DEFAULT_BROKER_LIMITS ''p'' None demo_admitted demo_final"
proof -
  have "cf_published demo_admitted = None" by (simp add: demo_admitted_def res_init_def)
  from res_step.finalize [OF this close_and_snapshot_def [unfolded Let_def]] show ?thesis
    by (simp add: demo_final_def close_and_snapshot_def)
qed

lemma demo_run: "res_reachable DEFAULT_BROKER_LIMITS ''p'' None (res_init DEFAULT_BROKER_LIMITS ()) demo_final"
  using demo_step1 demo_step2 by (meson r_into_rtranclp rtranclp_trans)

theorem reservations_never_oversubscribed_witness:
  "reserved_tokens (counters (cf_state demo_final)) = 150 \<and>
   reserved_tokens (counters (cf_state demo_final)) \<le> max_reserved_tokens_turn DEFAULT_BROKER_LIMITS"
  using reservations_never_oversubscribed [OF demo_run]
  by (simp add: demo_final_def demo_admitted_def close_and_snapshot_def reserve_commit_def)

text \<open>
  C30. A refused admission reserves nothing: the turn counters, the session reservation and the
  store-backed day budget are all exactly as before, whichever check refused it.
\<close>

theorem refused_reservation_changes_nothing:
  assumes "try_reserve l pid (Some store_try_charge) req live s = (Inl e, s')"
  shows "s' = s"
proof -
  obtain st se d where "s = (st, se, d)" by (cases s)
  with assms sa.refusal_changes_nothing show ?thesis by metis
qed

theorem refused_reservation_changes_nothing_witness:
  "snd (try_reserve DEFAULT_BROKER_LIMITS ''p'' (Some store_try_charge)
      \<lparr>rr_request_bytes = 16777216, rr_response_bytes = 1, rr_output_tokens = 1\<rparr> (Inr ())
      (reservations_new, session_reservations_new 20000000,
       \<lparr>sa_durable = True, sa_fault = False, sa_now = 0, sa_rows = Map.empty\<rparr>)) =
   (reservations_new, session_reservations_new 20000000,
       \<lparr>sa_durable = True, sa_fault = False, sa_now = 0, sa_rows = Map.empty\<rparr>)"
proof -
  let ?s = "(reservations_new, session_reservations_new 20000000,
       \<lparr>sa_durable = True, sa_fault = False, sa_now = 0, sa_rows = Map.empty\<rparr>)"
  have "\<exists>s'. try_reserve DEFAULT_BROKER_LIMITS ''p'' (Some store_try_charge)
      \<lparr>rr_request_bytes = 16777216, rr_response_bytes = 1, rr_output_tokens = 1\<rparr> (Inr ()) ?s
      = (Inl (TurnBudgetExhausted ''max_request_bytes''), s')"
    by (simp add: try_reserve_def reserve_checks_def refuse_if_def reservations_new_def
        DEFAULT_BROKER_LIMITS_def)
  then show ?thesis using refused_reservation_changes_nothing by (metis snd_conv)
qed

text \<open>
  An admission under a configured day cap charges the store exactly the request's token cost
  (its bytes plus its output tokens), inside the same transaction, and never takes the provider's
  UTC-day total past the cap.
\<close>

theorem admission_charges_the_day_budget:
  assumes "rows_nonneg d" and "max_reserved_token_units_per_utc_day l = Some cap"
    and "try_reserve l pid (Some store_try_charge) req live (st, se, d) = (Inr u, (st', se', d'))"
  shows "day_spent d' pid = day_spent d pid + request_cost req \<and> day_spent d' pid \<le> unat cap \<and>
    rows_nonneg d'"
proof -
  from assms(3) obtain f qb pb tc tt where
      "reserve_checks l (counters st) req = Inr (f, qb, pb, tc, tt)"
    and ch: "store_try_charge pid tc cap d = (Inr (), d')"
    using assms(2) by (auto elim: try_reserve_admits)
  from assms(1) ch have "rows_nonneg d'" by (rule sa.charge_inv)
  with sa.admission_charges_day [OF assms] show ?thesis by simp
qed

theorem admission_charges_the_day_budget_witness:
  "\<exists>d'. snd (snd (snd (try_reserve
       (DEFAULT_BROKER_LIMITS\<lparr>max_reserved_token_units_per_utc_day := Some 200\<rparr>) ''p''
       (Some store_try_charge) demo_request (Inr ())
       (reservations_new, session_reservations_new 20000000,
        \<lparr>sa_durable = True, sa_fault = False, sa_now = 0, sa_rows = Map.empty\<rparr>)))) = d' \<and>
     day_spent d' ''p'' = 150"
proof -
  let ?l = "DEFAULT_BROKER_LIMITS\<lparr>max_reserved_token_units_per_utc_day := Some 200\<rparr>"
  let ?d = "\<lparr>sa_durable = True, sa_fault = False, sa_now = 0, sa_rows = Map.empty\<rparr>"
  let ?d' = "\<lparr>sa_durable = True, sa_fault = False, sa_now = 0, sa_rows = [(''p'', 0) \<mapsto> 150]\<rparr>"
  have t: "try_reserve ?l ''p'' (Some store_try_charge) demo_request (Inr ())
      (reservations_new, session_reservations_new 20000000, ?d)
    = (Inr (), (cf_state demo_admitted, cf_session demo_admitted, ?d'))"
    by (simp add: try_reserve_def reserve_checks_def demo_request_def demo_admitted_def res_init_def
      reservations_new_def snapshot_default_def usage_default_def session_reservations_new_def
      DEFAULT_BROKER_LIMITS_def checked_add_def refuse_if_def ok_or_def session_try_reserve_def
      store_try_charge_def charge_provider_day_tokens_def I64_MAX_def sa_today_def utc_day_of_def)
  have "rows_nonneg ?d" by (simp add: rows_nonneg_def)
  from admission_charges_the_day_budget [OF this _ t] t show ?thesis
    by (simp add: request_cost_def demo_request_def day_spent_def sa_today_def utc_day_of_def)
qed

text \<open>
  C26. Finalization is a single cut: once a turn has published its snapshot, the snapshot never
  changes, the live counters stay equal to it (only permits still held are given back), every later
  admission, permit and denial is refused as unauthorized, and the published usage accounts for
  every forwarded request as either reported or unknown.
\<close>

theorem finalized_ledger_is_exact:
  assumes "res_reachable l pid auth (res_init l d) c" and "cf_published c = Some (k, u)"
    and "res_reachable l pid auth c c'"
  shows "cf_published c' = Some (k, u) \<and> frozen (counters (cf_state c')) = frozen k \<and>
    try_reserve l pid auth req live (cf_state c', cf_session c', cf_day c')
      = (Inl Unauthorized, (cf_state c', cf_session c', cf_day c')) \<and>
    try_acquire_concurrency l live (cf_state c') = Inl Unauthorized \<and>
    record_denied l live (cf_state c') = (Inl Unauthorized, cf_state c') \<and>
    unat (us_reported_requests u) + unat (us_unknown_usage_requests u) = unat (forwarded_requests k)"
proof -
  have inv: "res_inv l c'"
    by (rule res_reachable_inv [OF assms(3) res_reachable_inv [OF assms(1) res_inv_init]])
  have p: "cf_published c' = Some (k, u)" using assms(3,2) by (rule published_forever)
  with inv have "rs_closed (cf_state c')" "frozen (counters (cf_state c')) = frozen k"
    by (simp_all add: res_inv_def publication_exact_def)
  with p closed_refuses_all(1-3) [OF this(1)] published_usage_total [OF inv p] show ?thesis by simp
qed

theorem finalized_ledger_is_exact_witness:
  "\<exists>k u. cf_published demo_final = Some (k, u) \<and> forwarded_requests k = 1 \<and>
     unat (us_reported_requests u) + unat (us_unknown_usage_requests u) = 1"
proof -
  obtain k u where p: "cf_published demo_final = Some (k, u)" and "forwarded_requests k = 1"
    by (simp add: demo_final_def demo_admitted_def close_and_snapshot_def reserve_commit_def)
  with finalized_ledger_is_exact [OF demo_run p rtranclp.rtrancl_refl] show ?thesis by simp
qed

text \<open>
  The denial threshold: a live turn's denial below the cap is counted and accepted, and exactly
  the denial that reaches the cap is counted and refused, after which nothing is counted any more.
\<close>

theorem denial_threshold:
  assumes "\<not> rs_closed st" and "unat (denied_requests (counters st)) < unat (max_denied_requests l)"
  shows "\<exists>r st'. record_denied l (Inr ()) st = (r, st') \<and>
    unat (denied_requests (counters st')) = unat (denied_requests (counters st)) + 1 \<and>
    (is_ok r \<longleftrightarrow> unat (denied_requests (counters st')) < unat (max_denied_requests l)) \<and>
    (\<not> is_ok r \<longrightarrow> record_denied l (Inr ()) st' = (r, st'))"
proof -
  let ?n = "denied_requests (counters st) + 1"
  have n: "unat ?n = unat (denied_requests (counters st)) + 1"
    and c: "checked_add (denied_requests (counters st)) 1 = Some ?n"
    using assms(2) unat_bound_u32 [of "max_denied_requests l"]
    by (simp_all add: unat_word_ariths checked_add_def)
  have c': "checked_add ?n 1 = Some (?n + 1)" "unat (?n + 1) = unat ?n + 1"
    using n assms(2) unat_bound_u32 [of "max_denied_requests l"]
    by (simp_all add: unat_word_ariths checked_add_def)
  from assms n c c' show ?thesis
    by (auto simp: record_denied_def Let_def word_le_nat_alt word_less_nat_alt)
qed

theorem denial_threshold_witness:
  "\<exists>r st'. record_denied (DEFAULT_BROKER_LIMITS\<lparr>max_denied_requests := 1\<rparr>) (Inr ()) reservations_new
     = (r, st') \<and> \<not> is_ok r \<and> denied_requests (counters st') = 1"
  using denial_threshold [of reservations_new "DEFAULT_BROKER_LIMITS\<lparr>max_denied_requests := 1\<rparr>"]
  by (auto simp: reservations_new_def snapshot_default_def record_denied_def checked_add_def)

end
