(* ===== verification/Broker_Metrics.thy ===== *)
theory Broker_Metrics
  imports Prelude
begin

text \<open>
  The broker's bounded, label-free counters (\<^verbatim>\<open>crates/provider-broker/src/metrics.rs\<close>).
  Every counter is an atomic integer updated by \<^verbatim>\<open>fetch_add\<close>, which wraps: the fields are
  words and \<open>+\<close> is their wrapping addition. \<^verbatim>\<open>active_requests\<close> is signed and is read
  through \<open>sint\<close>.
\<close>

record broker_metrics =
  mx_admitted_requests :: u64
  mx_denied_requests :: u64
  mx_forwarded_requests :: u64
  mx_reported_requests :: u64
  mx_unknown_usage_requests :: u64
  mx_inconsistent_usage_requests :: u64
  mx_request_bytes :: u64
  mx_response_bytes :: u64
  mx_reserved_tokens :: u64
  mx_provider_reported_tokens :: u64
  mx_revocations :: u64
  mx_active_requests :: u64
  mx_upstream_2xx :: u64
  mx_upstream_3xx :: u64
  mx_upstream_4xx :: u64
  mx_upstream_5xx :: u64
  mx_upstream_other :: u64

definition metrics_new :: broker_metrics where
  "metrics_new = \<lparr>mx_admitted_requests = 0, mx_denied_requests = 0, mx_forwarded_requests = 0,
     mx_reported_requests = 0, mx_unknown_usage_requests = 0, mx_inconsistent_usage_requests = 0,
     mx_request_bytes = 0, mx_response_bytes = 0, mx_reserved_tokens = 0,
     mx_provider_reported_tokens = 0, mx_revocations = 0, mx_active_requests = 0,
     mx_upstream_2xx = 0, mx_upstream_3xx = 0, mx_upstream_4xx = 0, mx_upstream_5xx = 0,
     mx_upstream_other = 0\<rparr>"

definition record_admitted :: "u64 \<Rightarrow> broker_metrics \<Rightarrow> broker_metrics" where
  "record_admitted bytes_in m = m\<lparr>mx_admitted_requests := mx_admitted_requests m + 1,
     mx_request_bytes := mx_request_bytes m + bytes_in\<rparr>"

definition metric_denied :: "broker_metrics \<Rightarrow> broker_metrics" where
  "metric_denied m = m\<lparr>mx_denied_requests := mx_denied_requests m + 1\<rparr>"

definition record_forwarded :: "u64 \<Rightarrow> broker_metrics \<Rightarrow> broker_metrics" where
  "record_forwarded tokens m = m\<lparr>mx_forwarded_requests := mx_forwarded_requests m + 1,
     mx_reserved_tokens := mx_reserved_tokens m + tokens\<rparr>"

definition record_reported :: "u64 \<Rightarrow> broker_metrics \<Rightarrow> broker_metrics" where
  "record_reported tokens m = m\<lparr>mx_reported_requests := mx_reported_requests m + 1,
     mx_provider_reported_tokens := mx_provider_reported_tokens m + tokens\<rparr>"

definition record_inconsistent_usage :: "broker_metrics \<Rightarrow> broker_metrics" where
  "record_inconsistent_usage m =
     m\<lparr>mx_inconsistent_usage_requests := mx_inconsistent_usage_requests m + 1\<rparr>"

definition record_unknown_usage :: "broker_metrics \<Rightarrow> broker_metrics" where
  "record_unknown_usage m = m\<lparr>mx_unknown_usage_requests := mx_unknown_usage_requests m + 1\<rparr>"

definition record_response_bytes :: "u64 \<Rightarrow> broker_metrics \<Rightarrow> broker_metrics" where
  "record_response_bytes n m = m\<lparr>mx_response_bytes := mx_response_bytes m + n\<rparr>"

definition record_revocation :: "broker_metrics \<Rightarrow> broker_metrics" where
  "record_revocation m = m\<lparr>mx_revocations := mx_revocations m + 1\<rparr>"

definition record_upstream_status :: "u16 \<Rightarrow> broker_metrics \<Rightarrow> broker_metrics" where
  "record_upstream_status status m =
     (let class_of = status div 100 in
      if class_of = 2 then m\<lparr>mx_upstream_2xx := mx_upstream_2xx m + 1\<rparr>
      else if class_of = 3 then m\<lparr>mx_upstream_3xx := mx_upstream_3xx m + 1\<rparr>
      else if class_of = 4 then m\<lparr>mx_upstream_4xx := mx_upstream_4xx m + 1\<rparr>
      else if class_of = 5 then m\<lparr>mx_upstream_5xx := mx_upstream_5xx m + 1\<rparr>
      else m\<lparr>mx_upstream_other := mx_upstream_other m + 1\<rparr>)"

definition enter_request :: "broker_metrics \<Rightarrow> broker_metrics" where
  "enter_request m = m\<lparr>mx_active_requests := mx_active_requests m + 1\<rparr>"

definition active_request_drop :: "broker_metrics \<Rightarrow> broker_metrics" where
  "active_request_drop m = m\<lparr>mx_active_requests := mx_active_requests m - 1\<rparr>"

lemma enter_then_drop [simp]: "active_request_drop (enter_request m) = m"
  by (simp add: active_request_drop_def enter_request_def)

end
