(* ===== verification/Broker_State.thy ===== *)
theory Broker_State
  imports Credential Reservations Broker_Metrics
begin

text \<open>
  The broker's shared state and its operations (\<^verbatim>\<open>state.rs\<close>, \<^verbatim>\<open>session.rs\<close>,
  \<^verbatim>\<open>turn.rs\<close>, \<^verbatim>\<open>broker.rs\<close> and \<^verbatim>\<open>registrar.rs\<close> of
  \<^verbatim>\<open>crates/provider-broker/src\<close>): sessions, turns, the capability registry and the handles
  that act on them, each method as one state transformer.

  Sessions and turns are shared objects (\<^verbatim>\<open>Arc\<close>), so the state keeps them in two lists and
  an object is its index; creating one appends it. The registry's two hash maps are association
  lists. The clock is \<open>br_now\<close> in nanoseconds. SHA-256, base64 and the day authority are fields of
  the environment \<open>broker_env\<close>; a random draw is an argument of the operation that makes it, \<open>None\<close>
  standing for a failed read. Waking the waiters of a \<^verbatim>\<open>Notify\<close> changes no state and is left
  out, as are the \<^verbatim>\<open>Debug\<close> implementations. The registry holds sessions weakly; an entry is
  removed by the revocation that the owning handle's drop performs, so an entry still present always
  upgrades.

  The operations here are sequential: the theory \<open>Broker_Lifecycle\<close> cuts them into their critical
  sections and interleaves these.
\<close>

section \<open>Environment and time\<close>

record 'd broker_env =
  ev_sha256 :: "bytes \<Rightarrow> bytes"
  ev_base64url :: "bytes \<Rightarrow> bytes"
  ev_charge :: "'d charge_fn"
  ev_charged_today :: "'d \<Rightarrow> string \<Rightarrow> u64"

definition DURATION_MAX :: nat where
  "DURATION_MAX = (2 ^ 64 - 1) * 1000000000 + 999999999"

definition time_saturating_add :: "nat \<Rightarrow> nat \<Rightarrow> nat" where
  "time_saturating_add t delta = min (t + delta) DURATION_MAX"

definition encode_token :: "'d broker_env \<Rightarrow> bytes \<Rightarrow> bytes" where
  "encode_token e raw = ev_base64url e raw"

section \<open>Registration plan\<close>

record registration_plan =
  rp_stable_provider_id :: string
  rp_protocol :: broker_protocol
  rp_normalized_endpoint :: string
  rp_allow_insecure_http :: bool
  rp_model_id :: string
  rp_limits :: broker_limits

definition plan_validate :: "registration_plan \<Rightarrow> (broker_error, unit) result" where
  "plan_validate p =
     (if rp_stable_provider_id p = [] \<or> rp_model_id p = [] then Inl InvalidBinding
      else map_err InvalidLimits (limits_validate (rp_limits p)))"

definition plan_new :: "registration_plan \<Rightarrow> (broker_error, registration_plan) result" where
  "plan_new p = and_then (plan_validate p) (\<lambda>_. Inr p)"

definition plan_binding :: "registration_plan \<Rightarrow> (broker_error, credential_binding) result" where
  "plan_binding p =
     credential_binding_new (rp_stable_provider_id p) (rp_protocol p) (rp_normalized_endpoint p)"

section \<open>The capacity-one receipt slot\<close>

datatype slot_state = SlotEmpty | SlotArmed | SlotAccessLive | SlotFinalized turn_ledger

fun slot_begin_armed :: "slot_state \<Rightarrow> (broker_error, slot_state) result" where
  "slot_begin_armed SlotEmpty = Inr SlotArmed"
| "slot_begin_armed _ = Inl TurnAlreadyArmed"

fun slot_abandon_armed :: "slot_state \<Rightarrow> slot_state" where
  "slot_abandon_armed SlotArmed = SlotEmpty"
| "slot_abandon_armed s = s"

fun slot_set_access_live :: "slot_state \<Rightarrow> slot_state" where
  "slot_set_access_live SlotArmed = SlotAccessLive"
| "slot_set_access_live s = s"

fun slot_finalize :: "turn_ledger \<Rightarrow> slot_state \<Rightarrow> bool \<times> slot_state" where
  "slot_finalize l (SlotFinalized k) = (False, SlotFinalized k)"
| "slot_finalize l s = (True, SlotFinalized l)"

fun slot_take :: "u64 \<Rightarrow> slot_state \<Rightarrow> turn_ledger option \<times> slot_state" where
  "slot_take ordinal (SlotFinalized l) =
     (if tl_turn_ordinal l = ordinal then (Some l, SlotEmpty) else (None, SlotFinalized l))"
| "slot_take ordinal s = (None, s)"

fun slot_drain :: "u64 \<Rightarrow> slot_state \<Rightarrow> slot_state" where
  "slot_drain ordinal (SlotFinalized l) =
     (if tl_turn_ordinal l = ordinal then SlotEmpty else SlotFinalized l)"
| "slot_drain ordinal s = s"

section \<open>Sessions, turns and the broker\<close>

record session =
  se_id :: bytes
  se_plan :: registration_plan
  se_policy :: "unit session_policy"
  se_credential :: "bound_lease option"
  se_revoked :: bool
  se_gate_held :: bool
  se_next_ordinal :: u64
  se_reservations :: session_reservations
  se_slot :: slot_state

record turn =
  tu_session :: nat
  tu_ordinal :: u64
  tu_not_after :: nat
  tu_issued :: bool
  tu_revoked :: bool
  tu_finalized :: "turn_outcome option"
  tu_reservations :: reservation_state
  tu_digest :: "bytes option"

record 'd broker =
  br_base_url :: string
  br_now :: nat
  br_available :: bool
  br_metrics :: broker_metrics
  br_day :: 'd
  sessions :: "session list"
  turns :: "turn list"
  reg_sessions :: "(bytes \<times> nat) list"
  reg_grants :: "(bytes \<times> nat) list"

definition broker_new :: "string \<Rightarrow> nat \<Rightarrow> 'd \<Rightarrow> (broker_error, 'd broker) result" where
  "broker_new base_url now d =
     (if base_url = [] then Inl InvalidBaseUrl
      else Inr \<lparr>br_base_url = base_url, br_now = now, br_available = True, br_metrics = metrics_new,
                br_day = d, sessions = [], turns = [], reg_sessions = [], reg_grants = []\<rparr>)"

definition session_inner_new ::
  "bytes \<Rightarrow> registration_plan \<Rightarrow> bound_lease \<Rightarrow> unit session_policy \<Rightarrow> session" where
  "session_inner_new i plan lease policy =
     \<lparr>se_id = i, se_plan = plan, se_policy = policy, se_credential = Some lease, se_revoked = False,
      se_gate_held = False, se_next_ordinal = 0,
      se_reservations = session_reservations_new (max_reserved_tokens_session (sp_limits policy)),
      se_slot = SlotEmpty\<rparr>"

definition turn_inner_new :: "nat \<Rightarrow> u64 \<Rightarrow> nat \<Rightarrow> turn" where
  "turn_inner_new s ordinal not_after =
     \<lparr>tu_session = s, tu_ordinal = ordinal, tu_not_after = not_after, tu_issued = False,
      tu_revoked = False, tu_finalized = None, tu_reservations = reservations_new, tu_digest = None\<rparr>"

text \<open>In-place updates of one object.\<close>

definition upd_session :: "nat \<Rightarrow> (session \<Rightarrow> session) \<Rightarrow> 'd broker \<Rightarrow> 'd broker" where
  "upd_session s f b = b\<lparr>sessions := (sessions b)[s := f (sessions b ! s)]\<rparr>"

definition upd_turn :: "nat \<Rightarrow> (turn \<Rightarrow> turn) \<Rightarrow> 'd broker \<Rightarrow> 'd broker" where
  "upd_turn t f b = b\<lparr>turns := (turns b)[t := f (turns b ! t)]\<rparr>"

definition upd_slot :: "nat \<Rightarrow> (slot_state \<Rightarrow> slot_state) \<Rightarrow> 'd broker \<Rightarrow> 'd broker" where
  "upd_slot s f = upd_session s (\<lambda>x. x\<lparr>se_slot := f (se_slot x)\<rparr>)"

definition session_of :: "'d broker \<Rightarrow> nat \<Rightarrow> session" where
  "session_of b t = sessions b ! tu_session (turns b ! t)"

section \<open>The capability registry\<close>

definition registry_insert :: "bytes \<Rightarrow> nat \<Rightarrow> (bytes \<times> nat) list \<Rightarrow> (bytes \<times> nat) list" where
  "registry_insert k v m = (k, v) # filter (\<lambda>p. fst p \<noteq> k) m"

definition registry_remove :: "bytes \<Rightarrow> (bytes \<times> nat) list \<Rightarrow> (bytes \<times> nat) list" where
  "registry_remove k m = filter (\<lambda>p. fst p \<noteq> k) m"

definition mark_issued :: "bytes \<Rightarrow> turn \<Rightarrow> turn" where
  "mark_issued digest x = x\<lparr>tu_digest := Some digest, tu_issued := True\<rparr>"

definition publish :: "bytes \<Rightarrow> nat \<Rightarrow> 'd broker \<Rightarrow> 'd broker" where
  "publish digest t b =
     upd_turn t (mark_issued digest) (b\<lparr>reg_grants := registry_insert digest t (reg_grants b)\<rparr>)"

definition revoke_grant :: "nat \<Rightarrow> 'd broker \<Rightarrow> 'd broker" where
  "revoke_grant t b =
     (let b' = upd_turn t (\<lambda>x. x\<lparr>tu_revoked := True\<rparr>) b
      in case tu_digest (turns b ! t) of
           None \<Rightarrow> b'
         | Some digest \<Rightarrow> b'\<lparr>reg_grants := registry_remove digest (reg_grants b')\<rparr>)"

definition revoke_session :: "bytes \<Rightarrow> 'd broker \<Rightarrow> 'd broker" where
  "revoke_session i b =
     b\<lparr>reg_sessions := registry_remove i (reg_sessions b),
       reg_grants := filter (\<lambda>p. se_id (session_of b (snd p)) \<noteq> i) (reg_grants b)\<rparr>"

section \<open>Session methods\<close>

definition session_revoke :: "nat \<Rightarrow> 'd broker \<Rightarrow> 'd broker" where
  "session_revoke s b =
     (let b1 = upd_session s (\<lambda>x. x\<lparr>se_revoked := True\<rparr>) b;
          b2 = upd_session s (\<lambda>x. x\<lparr>se_credential := None\<rparr>) b1
      in revoke_session (se_id (sessions b ! s)) b2)"

definition has_custody :: "nat \<Rightarrow> 'd broker \<Rightarrow> bool" where
  "has_custody s b \<longleftrightarrow> se_credential (sessions b ! s) \<noteq> None"

text \<open>\<open>fetch_add\<close> returns the old value; the new ordinal is one more.\<close>

definition next_ordinal :: "session \<Rightarrow> u64 \<times> session" where
  "next_ordinal x = (se_next_ordinal x + 1, x\<lparr>se_next_ordinal := se_next_ordinal x + 1\<rparr>)"

definition gate_try_acquire :: "session \<Rightarrow> session option" where
  "gate_try_acquire x = (if se_gate_held x then None else Some (x\<lparr>se_gate_held := True\<rparr>))"

definition gate_guard_drop :: "session \<Rightarrow> session" where
  "gate_guard_drop x = x\<lparr>se_gate_held := False\<rparr>"

section \<open>Turn methods\<close>

definition is_expired :: "turn \<Rightarrow> nat \<Rightarrow> bool" where
  "is_expired x now \<longleftrightarrow> now \<ge> tu_not_after x"

definition check_live :: "nat \<Rightarrow> 'd broker \<Rightarrow> (broker_error, unit) result" where
  "check_live t b =
     (if tu_revoked (turns b ! t) \<or> se_revoked (session_of b t) then Inl Unauthorized
      else if is_expired (turns b ! t) (br_now b) then Inl Unauthorized
      else Inr ())"

definition turn_limits :: "nat \<Rightarrow> 'd broker \<Rightarrow> broker_limits" where
  "turn_limits t b = sp_limits (se_policy (session_of b t))"

definition turn_authority :: "'d broker_env \<Rightarrow> nat \<Rightarrow> 'd broker \<Rightarrow> 'd charge_fn option" where
  "turn_authority e t b =
     (case sp_day_authority (se_policy (session_of b t)) of None \<Rightarrow> None | Some _ \<Rightarrow> Some (ev_charge e))"

definition turn_reserve_request ::
  "'d broker_env \<Rightarrow> nat \<Rightarrow> reserve_request \<Rightarrow> 'd broker \<Rightarrow> (broker_error, unit) result \<times> 'd broker" where
  "turn_reserve_request e t request b =
     (case try_reserve (turn_limits t b) (rp_stable_provider_id (se_plan (session_of b t)))
             (turn_authority e t b) request (check_live t b)
             (tu_reservations (turns b ! t), se_reservations (session_of b t), br_day b) of
        (r, (st, se, d)) \<Rightarrow>
          (r, (upd_session (tu_session (turns b ! t)) (\<lambda>x. x\<lparr>se_reservations := se\<rparr>)
                (upd_turn t (\<lambda>x. x\<lparr>tu_reservations := st\<rparr>) b))\<lparr>br_day := d\<rparr>))"

definition turn_settle_usage :: "nat \<Rightarrow> usage_observation \<Rightarrow> 'd broker \<Rightarrow> 'd broker" where
  "turn_settle_usage t obs =
     upd_turn t (\<lambda>x. x\<lparr>tu_reservations := settle_usage obs (tu_reservations x)\<rparr>)"

definition turn_settle_response_bytes :: "nat \<Rightarrow> u64 \<Rightarrow> u64 \<Rightarrow> 'd broker \<Rightarrow> 'd broker" where
  "turn_settle_response_bytes t reserved forwarded =
     upd_turn t (\<lambda>x. x\<lparr>tu_reservations := settle_response_bytes reserved forwarded (tu_reservations x)\<rparr>)"

definition turn_acquire_concurrency ::
  "nat \<Rightarrow> 'd broker \<Rightarrow> (broker_error, 'd broker) result" where
  "turn_acquire_concurrency t b =
     and_then (try_acquire_concurrency (turn_limits t b) (check_live t b) (tu_reservations (turns b ! t)))
       (\<lambda>st. Inr (upd_turn t (\<lambda>x. x\<lparr>tu_reservations := st\<rparr>) b))"

definition turn_permit_drop :: "nat \<Rightarrow> 'd broker \<Rightarrow> 'd broker" where
  "turn_permit_drop t = upd_turn t (\<lambda>x. x\<lparr>tu_reservations := permit_drop (tu_reservations x)\<rparr>)"

definition turn_record_denied :: "nat \<Rightarrow> 'd broker \<Rightarrow> (broker_error, unit) result \<times> 'd broker" where
  "turn_record_denied t b =
     (case record_denied (turn_limits t b) (check_live t b) (tu_reservations (turns b ! t)) of
        (r, st) \<Rightarrow> (r, upd_turn t (\<lambda>x. x\<lparr>tu_reservations := st\<rparr>) b))"

definition build_ledger ::
  "turn \<Rightarrow> turn_outcome \<Rightarrow> reservation_snapshot \<Rightarrow> usage_snapshot \<Rightarrow> turn_ledger" where
  "build_ledger x outcome snapshot usage =
     turn_ledger_new (tu_ordinal x) outcome (tu_issued x)
       \<lparr>rc_forwarded_requests = forwarded_requests snapshot,
        rc_denied_requests = denied_requests snapshot,
        rc_request_bytes = request_bytes snapshot, rc_response_bytes = response_bytes snapshot,
        rc_reserved_tokens = reserved_tokens snapshot\<rparr>
       \<lparr>uc_provider_reported_tokens = us_provider_reported_tokens usage,
        uc_reported_requests = us_reported_requests usage,
        uc_unknown_usage_requests = us_unknown_usage_requests usage,
        uc_inconsistent_usage_requests = us_inconsistent_usage_requests usage\<rparr>"

definition turn_finalize ::
  "nat \<Rightarrow> turn_outcome \<Rightarrow> 'd broker \<Rightarrow> turn_ledger option \<times> 'd broker" where
  "turn_finalize t outcome b =
     (let x = turns b ! t in
      if tu_finalized x \<noteq> None then (None, b)
      else
        let ((snapshot, usage), st) = close_and_snapshot (tu_reservations x);
            ledger = build_ledger x outcome snapshot usage
        in (Some ledger,
            upd_slot (tu_session x) (\<lambda>sl. snd (slot_finalize ledger sl))
              (upd_turn t (\<lambda>y. y\<lparr>tu_finalized := Some outcome, tu_reservations := st\<rparr>) b)))"

definition drop_outcome :: "nat \<Rightarrow> turn_outcome \<Rightarrow> 'd broker \<Rightarrow> turn_outcome" where
  "drop_outcome t declared b =
     (if is_expired (turns b ! t) (br_now b) then Expired
      else if declared = Completed \<and> \<not> se_revoked (session_of b t) then Completed
      else Revoked)"

definition revoke_and_finalize ::
  "nat \<Rightarrow> turn_outcome \<Rightarrow> 'd broker \<Rightarrow> turn_ledger option \<times> 'd broker" where
  "revoke_and_finalize t declared b =
     (let b' = revoke_grant t b in turn_finalize t (drop_outcome t declared b') b')"

definition supervisor_release :: "nat \<Rightarrow> 'd broker \<Rightarrow> turn_ledger option \<times> 'd broker" where
  "supervisor_release t b =
     (if tu_finalized (turns b ! t) \<noteq> None then (None, b)
      else turn_finalize t SupervisorReleased (revoke_grant t b))"

section \<open>Handles: arm, mint, drop, take\<close>

definition arm_not_after :: "nat option \<Rightarrow> nat \<Rightarrow> nat \<Rightarrow> nat" where
  "arm_not_after deadline now max_life =
     (case deadline of
        Some dl \<Rightarrow> min dl (time_saturating_add now max_life)
      | None \<Rightarrow> time_saturating_add now max_life)"

definition day_exhausted :: "'d broker_env \<Rightarrow> session \<Rightarrow> 'd \<Rightarrow> bool" where
  "day_exhausted e x d =
     (case (sp_day_authority (se_policy x), max_reserved_token_units_per_utc_day (sp_limits (se_policy x))) of
        (Some _, Some cap) \<Rightarrow> ev_charged_today e d (rp_stable_provider_id (se_plan x)) \<ge> cap
      | _ \<Rightarrow> False)"

definition arm_turn ::
  "'d broker_env \<Rightarrow> nat \<Rightarrow> nat option \<Rightarrow> 'd broker \<Rightarrow> (broker_error, nat) result \<times> 'd broker" where
  "arm_turn e s deadline b =
     (let x = sessions b ! s in
      if se_revoked x then (Inl SessionRevoked, b)
      else case slot_begin_armed (se_slot x) of
        Inl err \<Rightarrow> (Inl err, b)
      | Inr sl \<Rightarrow>
        (let x1 = x\<lparr>se_slot := sl\<rparr>;
             abandon = (\<lambda>y. y\<lparr>se_slot := slot_abandon_armed (se_slot y)\<rparr>)
         in case gate_try_acquire x1 of
              None \<Rightarrow> (Inl TurnAlreadyActive, upd_session s (\<lambda>_. abandon x1) b)
            | Some x2 \<Rightarrow>
                if session_remaining (se_reservations x2) = 0
                then (Inl SessionBudgetExhausted, upd_session s (\<lambda>_. abandon (gate_guard_drop x2)) b)
                else if day_exhausted e x2 (br_day b)
                then (Inl DayBudgetExhausted, upd_session s (\<lambda>_. abandon (gate_guard_drop x2)) b)
                else
                  (case next_ordinal x2 of
                     (ordinal, x3) \<Rightarrow>
                       (Inr (length (turns b)),
                        (upd_session s (\<lambda>_. x3) b)\<lparr>turns := turns b @
                           [turn_inner_new s ordinal (arm_not_after deadline (br_now b)
                              (max_capability_lifetime (sp_limits (se_policy x))))]\<rparr>))))"

text \<open>
  The checks that open \<^verbatim>\<open>mint_token\<close>, then its bounded retry loop. The list \<open>draws\<close> is what the
  random source answers to the successive reads; a list that ends early is a source that fails.
\<close>

definition mint_precheck :: "nat \<Rightarrow> 'd broker \<Rightarrow> (broker_error, unit) result" where
  "mint_precheck t b =
     (if se_revoked (session_of b t) then Inl SessionRevoked
      else if tu_revoked (turns b ! t) \<or> tu_finalized (turns b ! t) \<noteq> None then Inl TurnRevoked
      else if is_expired (turns b ! t) (br_now b) then Inl TurnExpired
      else Inr ())"

text \<open>
  The critical section of one attempt: \<open>Inl e\<close> refuses, \<open>Inr None\<close> is a digest collision to retry,
  \<open>Inr (Some b')\<close> has published the grant.
\<close>

definition mint_publish ::
  "bytes \<Rightarrow> nat \<Rightarrow> 'd broker \<Rightarrow> (broker_error, 'd broker option) result" where
  "mint_publish digest t b =
     (if se_revoked (session_of b t) then Inl SessionRevoked
      else if tu_revoked (turns b ! t) \<or> tu_finalized (turns b ! t) \<noteq> None then Inl TurnRevoked
      else if map_of (reg_grants b) digest \<noteq> None then Inr None
      else Inr (Some (publish digest t b)))"

fun mint_loop ::
  "'d broker_env \<Rightarrow> bytes option list \<Rightarrow> nat \<Rightarrow> nat \<Rightarrow> 'd broker
     \<Rightarrow> (broker_error, bytes \<times> 'd broker) result" where
  "mint_loop e draws 0 t b = Inl TokenCollisionExhausted"
| "mint_loop e [] (Suc n) t b = Inl RandomSourceFailure"
| "mint_loop e (None # draws) (Suc n) t b = Inl RandomSourceFailure"
| "mint_loop e (Some raw # draws) (Suc n) t b =
     (let encoded = encode_token e raw
      in case mint_publish (token_digest_of (ev_sha256 e) encoded) t b of
           Inl err \<Rightarrow> Inl err
         | Inr None \<Rightarrow> mint_loop e draws n t b
         | Inr (Some b') \<Rightarrow>
             Inr (encoded, upd_slot (tu_session (turns b ! t)) slot_set_access_live b'))"

definition mint_token ::
  "'d broker_env \<Rightarrow> bytes option list \<Rightarrow> nat \<Rightarrow> 'd broker \<Rightarrow> (broker_error, bytes \<times> 'd broker) result" where
  "mint_token e draws t b =
     and_then (mint_precheck t b) (\<lambda>_. mint_loop e draws MAX_TOKEN_RETRIES t b)"

definition release_turn_gate :: "nat \<Rightarrow> 'd broker \<Rightarrow> 'd broker" where
  "release_turn_gate t b = upd_session (tu_session (turns b ! t)) gate_guard_drop b"

definition mint_access ::
  "'d broker_env \<Rightarrow> bytes option list \<Rightarrow> nat \<Rightarrow> 'd broker
     \<Rightarrow> (broker_error, string \<times> bytes) result \<times> 'd broker" where
  "mint_access e draws t b =
     (case mint_token e draws t b of
        Inr (token, b') \<Rightarrow> (Inr (br_base_url b', token), b')
      | Inl err \<Rightarrow> (Inl err, release_turn_gate t (snd (turn_finalize t NoCapability b))))"

definition attempt_drop :: "nat \<Rightarrow> 'd broker \<Rightarrow> 'd broker" where
  "attempt_drop t b = release_turn_gate t (snd (turn_finalize t NoCapability b))"

definition access_drop :: "bool \<Rightarrow> nat \<Rightarrow> 'd broker \<Rightarrow> 'd broker" where
  "access_drop finished t b =
     release_turn_gate t
       (snd (revoke_and_finalize t (if finished then Completed else Revoked) b))"

definition receipt_take :: "nat \<Rightarrow> 'd broker \<Rightarrow> turn_ledger option \<times> 'd broker" where
  "receipt_take t b =
     (case slot_take (tu_ordinal (turns b ! t)) (se_slot (session_of b t)) of
        (r, sl) \<Rightarrow> (r, upd_slot (tu_session (turns b ! t)) (\<lambda>_. sl) b))"

definition receipt_drop :: "nat \<Rightarrow> 'd broker \<Rightarrow> 'd broker" where
  "receipt_drop t b =
     (let b' = snd (supervisor_release t b)
      in upd_slot (tu_session (turns b ! t)) (slot_drain (tu_ordinal (turns b ! t))) b')"

section \<open>Grants and settlement\<close>

definition grant_is_live :: "nat \<Rightarrow> 'd broker \<Rightarrow> bool" where
  "grant_is_live t b \<longleftrightarrow> is_ok (check_live t b)"

text \<open>\<^verbatim>\<open>as_nanos\<close> truncates to 64 bits; the subtraction saturates at zero.\<close>

definition remaining_lifetime :: "nat \<Rightarrow> 'd broker \<Rightarrow> nat" where
  "remaining_lifetime t b = (tu_not_after (turns b ! t) mod 2 ^ 64) - (br_now b mod 2 ^ 64)"

definition remaining_day_tokens :: "'d broker_env \<Rightarrow> nat \<Rightarrow> 'd broker \<Rightarrow> u64 option" where
  "remaining_day_tokens e t b =
     (let x = session_of b t
      in case max_reserved_token_units_per_utc_day (sp_limits (se_policy x)) of
           None \<Rightarrow> None
         | Some cap \<Rightarrow>
             (case sp_day_authority (se_policy x) of
                None \<Rightarrow> None
              | Some _ \<Rightarrow>
                  Some (saturating_sub cap (ev_charged_today e (br_day b) (rp_stable_provider_id (se_plan x))))))"

definition with_credential :: "nat \<Rightarrow> 'd broker \<Rightarrow> (bytes \<Rightarrow> 'r) \<Rightarrow> 'r option" where
  "with_credential t b f = map_option (\<lambda>l. f (bl_secret l)) (se_credential (session_of b t))"

record settlement =
  rq_turn :: nat
  rq_reserved_response_bytes :: u64
  rq_settled :: bool

definition begin_request_settlement :: "nat \<Rightarrow> 'd broker \<Rightarrow> settlement" where
  "begin_request_settlement t b =
     \<lparr>rq_turn = t, rq_reserved_response_bytes = max_response_bytes (turn_limits t b), rq_settled = False\<rparr>"

definition upd_metrics :: "(broker_metrics \<Rightarrow> broker_metrics) \<Rightarrow> 'd broker \<Rightarrow> 'd broker" where
  "upd_metrics f b = b\<lparr>br_metrics := f (br_metrics b)\<rparr>"

definition settle ::
  "usage_observation \<Rightarrow> u64 option \<Rightarrow> settlement \<times> 'd broker \<Rightarrow> settlement \<times> 'd broker" where
  "settle observation forwarded_bytes q =
     (case q of (h, b) \<Rightarrow>
      if rq_settled h then (h, b)
      else
        let b1 = turn_settle_usage (rq_turn h) observation b;
            b2 = (case forwarded_bytes of
                    None \<Rightarrow> b1
                  | Some actual \<Rightarrow>
                      upd_metrics (record_response_bytes actual)
                        (turn_settle_response_bytes (rq_turn h) (rq_reserved_response_bytes h) actual b1));
            b3 = (case (is_unknown observation, conservative_total observation) of
                    (False, Some tokens) \<Rightarrow>
                      (let b4 = upd_metrics (record_reported tokens) b2
                       in if uo_inconsistent observation then upd_metrics record_inconsistent_usage b4 else b4)
                  | _ \<Rightarrow> upd_metrics record_unknown_usage b2)
        in (h\<lparr>rq_settled := True\<rparr>, b3))"

definition settlement_drop :: "settlement \<times> 'd broker \<Rightarrow> 'd broker" where
  "settlement_drop q =
     (case q of (h, b) \<Rightarrow>
      if rq_settled h then b
      else upd_metrics record_unknown_usage (turn_settle_usage (rq_turn h) observation_default b))"

section \<open>Broker methods\<close>

definition register_session ::
  "'d broker_env \<Rightarrow> bytes option \<Rightarrow> registration_plan \<Rightarrow> bound_lease \<Rightarrow> unit session_policy \<Rightarrow> 'd broker
     \<Rightarrow> (broker_error, nat) result \<times> 'd broker" where
  "register_session e draw plan lease policy b =
     (case plan_validate plan of
        Inl err \<Rightarrow> (Inl err, b)
      | Inr _ \<Rightarrow>
        if rp_limits plan \<noteq> sp_limits policy then (Inl LimitsMismatch, b)
        else case plan_binding plan of
          Inl err \<Rightarrow> (Inl err, b)
        | Inr bd \<Rightarrow>
          if \<not> fingerprint_matches (fingerprint (ev_sha256 e) bd) (bl_fingerprint lease)
          then (Inl BindingMismatch, b)
          else case draw of
            None \<Rightarrow> (Inl RandomSourceFailure, b)
          | Some i \<Rightarrow>
            if \<not> br_available b then (Inl Unavailable, b)
            else if map_of (reg_sessions b) i \<noteq> None then (Inl SessionIdCollision, b)
            else (Inr (length (sessions b)),
                  b\<lparr>sessions := sessions b @ [session_inner_new i plan lease policy],
                    reg_sessions := registry_insert i (length (sessions b)) (reg_sessions b)\<rparr>))"

definition registrar_register_session ::
  "'d broker_env \<Rightarrow> bytes option \<Rightarrow> registration_plan \<Rightarrow> bound_lease \<Rightarrow> unit session_policy \<Rightarrow> 'd broker
     \<Rightarrow> (broker_error, nat) result \<times> 'd broker" where
  "registrar_register_session e draw plan lease policy b =
     (if \<not> br_available b then (Inl Unavailable, b)
      else register_session e draw plan lease policy b)"

definition revoke_all :: "'d broker \<Rightarrow> 'd broker" where
  "revoke_all b = fold revoke_grant (map snd (reg_grants b)) (fold session_revoke (map snd (reg_sessions b)) b)"

definition mark_unavailable :: "'d broker \<Rightarrow> 'd broker" where
  "mark_unavailable b = revoke_all (b\<lparr>br_available := False\<rparr>)"

definition live_session_count :: "'d broker \<Rightarrow> nat" where
  "live_session_count b = length (reg_sessions b)"

definition lookup_capability ::
  "'d broker_env \<Rightarrow> bytes \<Rightarrow> 'd broker \<Rightarrow> (broker_error, nat) result \<times> 'd broker" where
  "lookup_capability e presented b =
     (if \<not> is_valid_token_shape presented then (Inl Unauthorized, b)
      else case map_of (reg_grants b) (token_digest_of (ev_sha256 e) presented) of
        None \<Rightarrow> (Inl Unauthorized, b)
      | Some t \<Rightarrow>
        if tu_revoked (turns b ! t) \<or> se_revoked (session_of b t) then (Inl Unauthorized, b)
        else if is_expired (turns b ! t) (br_now b) then
          (case revoke_and_finalize t Expired b of
             (r, b') \<Rightarrow> (Inl Unauthorized, if r \<noteq> None then upd_metrics record_revocation b' else b'))
        else (Inr t, b))"

end
