(* ===== verification/Broker_Lifecycle.thy ===== *)
theory Broker_Lifecycle
  imports Broker_State
begin

text \<open>
  Concurrency of the broker's handles. Every method of the theory \<open>Broker_State\<close> is cut into the
  critical sections the code gives it (one mutex acquisition or one atomic operation each), and the
  relation \<open>life_step\<close> runs these in any order. Reads that only choose between them (a flag tested
  before the lock is taken) are over-approximated: a rule may fire whatever was read.

  What Rust's ownership gives is kept as ghosts: \<open>phase\<close> follows the one attempt, then access,
  handle of a turn, which is moved and never copied; \<open>arming\<close> is how far the session's only ledger
  receiver (\<^verbatim>\<open>&mut self\<close>) is inside \<^verbatim>\<open>arm_turn\<close>; \<open>purged\<close> records that a session's
  revocation has swept the registry.
\<close>

section \<open>Configurations and steps\<close>

datatype phase = PAttempt | PMinting | PPublished | PAccess | PClosing | PGone

datatype arm_stage = Idle | SlotTaken | GateTaken | Abandoning

record 'd life =
  lf :: "'d broker"
  phase_of :: "nat \<Rightarrow> phase"
  arming :: "nat \<Rightarrow> arm_stage"
  purged :: "nat \<Rightarrow> bool"

definition life_init :: "'d broker \<Rightarrow> 'd life" where
  "life_init b = \<lparr>lf = b, phase_of = (\<lambda>_. PGone), arming = (\<lambda>_. Idle), purged = (\<lambda>_. False)\<rparr>"

inductive life_step :: "'d broker_env \<Rightarrow> 'd life \<Rightarrow> 'd life \<Rightarrow> bool" for e where
  tick: "br_now (lf x) \<le> n \<Longrightarrow> life_step e x (x\<lparr>lf := (lf x)\<lparr>br_now := n\<rparr>\<rparr>)"
| go_unavailable: "life_step e x (x\<lparr>lf := (lf x)\<lparr>br_available := False\<rparr>\<rparr>)"
| register: "register_session e draw plan lease policy (lf x) = (r, b)
    \<Longrightarrow> life_step e x (x\<lparr>lf := b\<rparr>)"
| session_flag: "s < length (sessions (lf x))
    \<Longrightarrow> life_step e x (x\<lparr>lf := upd_session s (\<lambda>y. y\<lparr>se_revoked := True\<rparr>) (lf x)\<rparr>)"
| session_custody: "s < length (sessions (lf x)) \<Longrightarrow> se_revoked (sessions (lf x) ! s)
    \<Longrightarrow> life_step e x (x\<lparr>lf := upd_session s (\<lambda>y. y\<lparr>se_credential := None\<rparr>) (lf x)\<rparr>)"
| session_purge: "s < length (sessions (lf x)) \<Longrightarrow> se_revoked (sessions (lf x) ! s)
    \<Longrightarrow> life_step e x (x\<lparr>lf := revoke_session (se_id (sessions (lf x) ! s)) (lf x),
                          purged := (purged x)(s := True)\<rparr>)"
| arm_slot: "s < length (sessions (lf x)) \<Longrightarrow> arming x s = Idle
    \<Longrightarrow> slot_begin_armed (se_slot (sessions (lf x) ! s)) = Inr sl
    \<Longrightarrow> life_step e x (x\<lparr>lf := upd_slot s (\<lambda>_. sl) (lf x), arming := (arming x)(s := SlotTaken)\<rparr>)"
| arm_gate: "s < length (sessions (lf x)) \<Longrightarrow> arming x s = SlotTaken
    \<Longrightarrow> gate_try_acquire (sessions (lf x) ! s) = Some y
    \<Longrightarrow> life_step e x (x\<lparr>lf := upd_session s (\<lambda>_. y) (lf x), arming := (arming x)(s := GateTaken)\<rparr>)"
| arm_gate_busy: "s < length (sessions (lf x)) \<Longrightarrow> arming x s = SlotTaken
    \<Longrightarrow> gate_try_acquire (sessions (lf x) ! s) = None
    \<Longrightarrow> life_step e x (x\<lparr>arming := (arming x)(s := Abandoning)\<rparr>)"
| arm_gate_back: "s < length (sessions (lf x)) \<Longrightarrow> arming x s = GateTaken
    \<Longrightarrow> life_step e x (x\<lparr>lf := upd_session s gate_guard_drop (lf x), arming := (arming x)(s := Abandoning)\<rparr>)"
| arm_abandon: "s < length (sessions (lf x)) \<Longrightarrow> arming x s = Abandoning
    \<Longrightarrow> life_step e x (x\<lparr>lf := upd_slot s slot_abandon_armed (lf x), arming := (arming x)(s := Idle)\<rparr>)"
| arm_turn: "s < length (sessions (lf x)) \<Longrightarrow> arming x s = GateTaken
    \<Longrightarrow> next_ordinal (sessions (lf x) ! s) = (ordinal, y)
    \<Longrightarrow> life_step e x (x\<lparr>lf := (upd_session s (\<lambda>_. y) (lf x))\<lparr>turns := turns (lf x) @
            [turn_inner_new s ordinal (arm_not_after deadline (br_now (lf x))
               (max_capability_lifetime (sp_limits (se_policy (sessions (lf x) ! s)))))]\<rparr>,
          phase_of := (phase_of x)(length (turns (lf x)) := PAttempt), arming := (arming x)(s := Idle)\<rparr>)"
| mint_begin: "t < length (turns (lf x)) \<Longrightarrow> phase_of x t = PAttempt
    \<Longrightarrow> life_step e x (x\<lparr>phase_of := (phase_of x)(t := PMinting)\<rparr>)"
| mint_grant: "t < length (turns (lf x)) \<Longrightarrow> phase_of x t = PMinting
    \<Longrightarrow> mint_publish digest t (lf x) = Inr (Some b)
    \<Longrightarrow> life_step e x (x\<lparr>lf := b, phase_of := (phase_of x)(t := PPublished)\<rparr>)"
| mint_live: "t < length (turns (lf x)) \<Longrightarrow> phase_of x t = PPublished
    \<Longrightarrow> life_step e x (x\<lparr>lf := upd_slot (tu_session (turns (lf x) ! t)) slot_set_access_live (lf x),
                          phase_of := (phase_of x)(t := PAccess)\<rparr>)"
| no_capability: "t < length (turns (lf x)) \<Longrightarrow> phase_of x t \<in> {PAttempt, PMinting}
    \<Longrightarrow> life_step e x (x\<lparr>lf := snd (turn_finalize t NoCapability (lf x)),
                          phase_of := (phase_of x)(t := PClosing)\<rparr>)"
| access_closed: "t < length (turns (lf x)) \<Longrightarrow> phase_of x t = PAccess
    \<Longrightarrow> tu_finalized (turns (lf x) ! t) \<noteq> None
    \<Longrightarrow> life_step e x (x\<lparr>phase_of := (phase_of x)(t := PClosing)\<rparr>)"
| gate_release: "t < length (turns (lf x)) \<Longrightarrow> phase_of x t = PClosing
    \<Longrightarrow> life_step e x (x\<lparr>lf := release_turn_gate t (lf x), phase_of := (phase_of x)(t := PGone)\<rparr>)"
| revoke: "t < length (turns (lf x)) \<Longrightarrow> life_step e x (x\<lparr>lf := revoke_grant t (lf x)\<rparr>)"
| finalize: "t < length (turns (lf x)) \<Longrightarrow> tu_revoked (turns (lf x) ! t)
    \<Longrightarrow> life_step e x (x\<lparr>lf := snd (turn_finalize t outcome (lf x))\<rparr>)"
| take: "t < length (turns (lf x)) \<Longrightarrow> life_step e x (x\<lparr>lf := snd (receipt_take t (lf x))\<rparr>)"
| drain: "t < length (turns (lf x)) \<Longrightarrow> tu_finalized (turns (lf x) ! t) \<noteq> None
    \<Longrightarrow> life_step e x (x\<lparr>lf := upd_slot (tu_session (turns (lf x) ! t))
            (slot_drain (tu_ordinal (turns (lf x) ! t))) (lf x)\<rparr>)"
| reserve: "t < length (turns (lf x))
    \<Longrightarrow> life_step e x (x\<lparr>lf := snd (turn_reserve_request e t req (lf x))\<rparr>)"
| settle_usage: "t < length (turns (lf x))
    \<Longrightarrow> life_step e x (x\<lparr>lf := turn_settle_usage t obs (lf x)\<rparr>)"
| settle_bytes: "t < length (turns (lf x))
    \<Longrightarrow> life_step e x (x\<lparr>lf := turn_settle_response_bytes t r n (lf x)\<rparr>)"
| acquire: "t < length (turns (lf x)) \<Longrightarrow> turn_acquire_concurrency t (lf x) = Inr b
    \<Longrightarrow> life_step e x (x\<lparr>lf := b\<rparr>)"
| permit: "t < length (turns (lf x)) \<Longrightarrow> life_step e x (x\<lparr>lf := turn_permit_drop t (lf x)\<rparr>)"
| denied: "t < length (turns (lf x)) \<Longrightarrow> life_step e x (x\<lparr>lf := snd (turn_record_denied t (lf x))\<rparr>)"
| metric: "life_step e x (x\<lparr>lf := upd_metrics f (lf x)\<rparr>)"

abbreviation life_reachable :: "'d broker_env \<Rightarrow> 'd life \<Rightarrow> 'd life \<Rightarrow> bool" where
  "life_reachable e \<equiv> (life_step e)\<^sup>*\<^sup>*"

section \<open>Object updates\<close>

lemma upd_session_simps [simp]:
  "turns (upd_session s f b) = turns b" "reg_grants (upd_session s f b) = reg_grants b"
  "reg_sessions (upd_session s f b) = reg_sessions b" "br_now (upd_session s f b) = br_now b"
  "br_base_url (upd_session s f b) = br_base_url b" "br_available (upd_session s f b) = br_available b"
  "length (sessions (upd_session s f b)) = length (sessions b)"
  "br_day (upd_session s f b) = br_day b" "br_metrics (upd_session s f b) = br_metrics b"
  by (simp_all add: upd_session_def)

lemma nth_upd_session [simp]:
  "i < length (sessions b) \<Longrightarrow>
     sessions (upd_session s f b) ! i = (if i = s then f (sessions b ! s) else sessions b ! i)"
  by (auto simp: upd_session_def)

lemma upd_turn_simps [simp]:
  "sessions (upd_turn t f b) = sessions b" "reg_grants (upd_turn t f b) = reg_grants b"
  "reg_sessions (upd_turn t f b) = reg_sessions b" "br_now (upd_turn t f b) = br_now b"
  "br_base_url (upd_turn t f b) = br_base_url b" "br_available (upd_turn t f b) = br_available b"
  "length (turns (upd_turn t f b)) = length (turns b)"
  "br_day (upd_turn t f b) = br_day b" "br_metrics (upd_turn t f b) = br_metrics b"
  by (simp_all add: upd_turn_def)

lemma nth_upd_turn [simp]:
  "i < length (turns b) \<Longrightarrow>
     turns (upd_turn t f b) ! i = (if i = t then f (turns b ! t) else turns b ! i)"
  by (auto simp: upd_turn_def)

lemma upd_slot_simps [simp]:
  "turns (upd_slot s f b) = turns b" "reg_grants (upd_slot s f b) = reg_grants b"
  "reg_sessions (upd_slot s f b) = reg_sessions b" "br_now (upd_slot s f b) = br_now b"
  "length (sessions (upd_slot s f b)) = length (sessions b)"
  by (simp_all add: upd_slot_def)

lemma nth_upd_slot [simp]:
  "i < length (sessions b) \<Longrightarrow> sessions (upd_slot s f b) ! i =
     (if i = s then (sessions b ! s)\<lparr>se_slot := f (se_slot (sessions b ! s))\<rparr> else sessions b ! i)"
  by (simp add: upd_slot_def)

lemma registry_insert_set:
  "set (registry_insert k v m) = insert (k, v) {p \<in> set m. fst p \<noteq> k}"
  by (auto simp: registry_insert_def)

lemma registry_remove_set: "set (registry_remove k m) = {p \<in> set m. fst p \<noteq> k}"
  by (auto simp: registry_remove_def)

lemma registry_distinct:
  "distinct (map fst m) \<Longrightarrow> distinct (map fst (registry_insert k v m))"
  "distinct (map fst m) \<Longrightarrow> distinct (map fst (registry_remove k m))"
  "distinct (map fst m) \<Longrightarrow> distinct (map fst (filter P m))"
  by (auto simp: registry_insert_def registry_remove_def distinct_map_filter)

section \<open>The invariant\<close>

definition ledger_of :: "turn \<Rightarrow> turn_outcome \<Rightarrow> turn_ledger" where
  "ledger_of u o1 =
     build_ledger u o1 (counters (tu_reservations u)) (usage_snapshot_of (rs_usage (tu_reservations u)))"

text \<open>Each turn: where its handle is decides what may be true of it.\<close>

definition turn_ok :: "'d life \<Rightarrow> nat \<Rightarrow> bool" where
  "turn_ok x t \<longleftrightarrow> (let u = turns (lf x) ! t in
     tu_session u < length (sessions (lf x)) \<and>
     (phase_of x t \<in> {PAttempt, PMinting} \<longrightarrow> tu_digest u = None) \<and>
     (phase_of x t \<in> {PClosing, PGone} \<longrightarrow> tu_finalized u \<noteq> None) \<and>
     (rs_closed (tu_reservations u) \<longleftrightarrow> tu_finalized u \<noteq> None))"

text \<open>Each registry entry: a live turn, published under that digest, of a session not swept.\<close>

definition grant_ok :: "'d life \<Rightarrow> bytes \<times> nat \<Rightarrow> bool" where
  "grant_ok x g \<longleftrightarrow> (let u = turns (lf x) ! snd g in
     snd g < length (turns (lf x)) \<and> tu_digest u = Some (fst g) \<and> tu_issued u \<and> \<not> tu_revoked u \<and>
     tu_finalized u = None \<and> \<not> purged x (tu_session u))"

text \<open>The turns of a session whose ledger is not yet published, and those whose handle is alive.\<close>

definition open_turns :: "'d life \<Rightarrow> nat \<Rightarrow> nat set" where
  "open_turns x s = {t. t < length (turns (lf x)) \<and> tu_session (turns (lf x) ! t) = s \<and>
     tu_finalized (turns (lf x) ! t) = None}"

definition holders :: "'d life \<Rightarrow> nat \<Rightarrow> nat set" where
  "holders x s = {t. t < length (turns (lf x)) \<and> tu_session (turns (lf x) ! t) = s \<and>
     phase_of x t \<noteq> PGone}"

definition ledgers :: "'d life \<Rightarrow> nat \<Rightarrow> turn_ledger set" where
  "ledgers x s = {l. \<exists>t < length (turns (lf x)). tu_session (turns (lf x) ! t) = s \<and>
     tu_finalized (turns (lf x) ! t) = Some (tl_outcome l) \<and>
     l = ledger_of (turns (lf x) ! t) (tl_outcome l)}"

definition at_most_one :: "nat set \<Rightarrow> bool" where
  "at_most_one A \<longleftrightarrow> (\<forall>t \<in> A. \<forall>t' \<in> A. t = t')"

text \<open>The slot against the open turns and the published ledgers; the gate against the handles.\<close>

definition slot_inv :: "nat set \<Rightarrow> turn_ledger set \<Rightarrow> arm_stage \<Rightarrow> slot_state \<Rightarrow> bool" where
  "slot_inv O1 F a sl \<longleftrightarrow> at_most_one O1 \<and> (a \<noteq> Idle \<longrightarrow> O1 = {}) \<and>
     (a \<noteq> Idle \<or> O1 \<noteq> {} \<longrightarrow> sl \<in> {SlotArmed, SlotAccessLive}) \<and>
     (\<forall>l. sl = SlotFinalized l \<longrightarrow> l \<in> F)"

definition gate_inv :: "nat set \<Rightarrow> arm_stage \<Rightarrow> bool \<Rightarrow> bool" where
  "gate_inv H a held \<longleftrightarrow> at_most_one H \<and> (held \<longleftrightarrow> a = GateTaken \<or> H \<noteq> {}) \<and> (a = GateTaken \<longrightarrow> H = {})"

definition slot_ok :: "'d life \<Rightarrow> nat \<Rightarrow> bool" where
  "slot_ok x s \<longleftrightarrow> slot_inv (open_turns x s) (ledgers x s) (arming x s) (se_slot (sessions (lf x) ! s))"

definition gate_ok :: "'d life \<Rightarrow> nat \<Rightarrow> bool" where
  "gate_ok x s \<longleftrightarrow> gate_inv (holders x s) (arming x s) (se_gate_held (sessions (lf x) ! s))"

definition session_ok :: "'d life \<Rightarrow> nat \<Rightarrow> bool" where
  "session_ok x s \<longleftrightarrow> slot_ok x s \<and> gate_ok x s \<and> (purged x s \<longrightarrow> se_revoked (sessions (lf x) ! s))"

definition life_inv :: "'d life \<Rightarrow> bool" where
  "life_inv x \<longleftrightarrow>
     (\<forall>t < length (turns (lf x)). turn_ok x t) \<and>
     distinct (map fst (reg_grants (lf x))) \<and> (\<forall>g \<in> set (reg_grants (lf x)). grant_ok x g) \<and>
     (\<forall>s < length (sessions (lf x)). session_ok x s) \<and>
     (\<forall>s \<ge> length (sessions (lf x)). arming x s = Idle \<and> \<not> purged x s)"

lemma life_inv_init:
  "broker_new url now d = Inr b \<Longrightarrow> life_inv (life_init b)"
  by (auto simp: broker_new_def life_inv_def life_init_def split: if_splits)


section \<open>Preservation\<close>

text \<open>
  Most critical sections leave what the invariant speaks of alone. \<open>same_core\<close> is that agreement:
  the same handles, registry and slots, the same turns up to reservations that keep their gate and,
  once finalized, their ledger.
\<close>

definition same_turn :: "turn \<Rightarrow> turn \<Rightarrow> bool" where
  "same_turn u v \<longleftrightarrow>
     tu_session v = tu_session u \<and> tu_digest v = tu_digest u \<and> tu_issued v = tu_issued u \<and>
     tu_revoked v = tu_revoked u \<and> tu_finalized v = tu_finalized u \<and>
     (rs_closed (tu_reservations v) \<longleftrightarrow> rs_closed (tu_reservations u)) \<and>
     (rs_closed (tu_reservations u) \<longrightarrow> (\<forall>o1. ledger_of v o1 = ledger_of u o1))"

definition same_session :: "session \<Rightarrow> session \<Rightarrow> bool" where
  "same_session p q \<longleftrightarrow> se_slot q = se_slot p \<and> se_gate_held q = se_gate_held p \<and>
     (se_revoked p \<longrightarrow> se_revoked q)"

definition same_core :: "'d life \<Rightarrow> 'd life \<Rightarrow> bool" where
  "same_core x y \<longleftrightarrow>
     length (turns (lf y)) = length (turns (lf x)) \<and>
     (\<forall>t < length (turns (lf x)). same_turn (turns (lf x) ! t) (turns (lf y) ! t)) \<and>
     length (sessions (lf y)) = length (sessions (lf x)) \<and>
     (\<forall>s < length (sessions (lf x)). same_session (sessions (lf x) ! s) (sessions (lf y) ! s)) \<and>
     reg_grants (lf y) = reg_grants (lf x) \<and> phase_of y = phase_of x \<and> arming y = arming x \<and>
     purged y = purged x"

lemma same_turn_refl [simp]: "same_turn u u" and same_session_refl [simp]: "same_session p p"
  by (simp_all add: same_turn_def same_session_def)

lemma same_core_sets:
  assumes "same_core x y"
  shows "open_turns y s = open_turns x s" "holders y s = holders x s"
  using assms by (auto simp: same_core_def open_turns_def holders_def same_turn_def)

lemma same_core_ledgers:
  assumes "same_core x y" and "\<forall>t < length (turns (lf x)). turn_ok x t"
  shows "ledgers y s = ledgers x s"
proof -
  have "tu_session (turns (lf y) ! t) = s \<and> tu_finalized (turns (lf y) ! t) = Some (tl_outcome l) \<and>
        l = ledger_of (turns (lf y) ! t) (tl_outcome l) \<longleftrightarrow>
      tu_session (turns (lf x) ! t) = s \<and> tu_finalized (turns (lf x) ! t) = Some (tl_outcome l) \<and>
        l = ledger_of (turns (lf x) ! t) (tl_outcome l)"
    if "t < length (turns (lf x))" for t l
    using assms that by (auto simp: same_core_def same_turn_def turn_ok_def Let_def)
  then show ?thesis using assms(1) by (auto simp: ledgers_def same_core_def)
qed

lemma life_inv_same_core:
  assumes "same_core x y" and "life_inv x"
  shows "life_inv y"
proof -
  have t: "turn_ok y t" if "turn_ok x t" "t < length (turns (lf x))" for t
    using that assms(1) by (simp add: same_core_def same_turn_def turn_ok_def Let_def)
  have g: "grant_ok y g" if "grant_ok x g" for g
    using that assms(1) by (simp add: same_core_def same_turn_def grant_ok_def Let_def)
  have s: "session_ok y s" if "session_ok x s" "s < length (sessions (lf x))" for s
  proof -
    have "ledgers y s = ledgers x s"
      using assms by (intro same_core_ledgers) (auto simp: life_inv_def)
    with that assms(1) show ?thesis
      unfolding session_ok_def slot_ok_def gate_ok_def same_core_sets [OF assms(1)]
      by (simp add: same_core_def same_session_def)
  qed
  from assms t g s show ?thesis by (auto simp: life_inv_def same_core_def)
qed

text \<open>The reservation methods keep the liveness gate, and a closed turn's ledger figures.\<close>

definition same_res :: "reservation_state \<Rightarrow> reservation_state \<Rightarrow> bool" where
  "same_res r q \<longleftrightarrow> (rs_closed q \<longleftrightarrow> rs_closed r) \<and>
     (rs_closed r \<longrightarrow> rs_usage q = rs_usage r \<and> frozen (counters q) = frozen (counters r))"

lemma same_res_turn:
  assumes "same_res (tu_reservations u) q"
  shows "same_turn u (u\<lparr>tu_reservations := q\<rparr>)"
proof -
  have "ledger_of (u\<lparr>tu_reservations := q\<rparr>) o1 = ledger_of u o1" if "rs_closed (tu_reservations u)" for o1
    using assms that frozen_eqD [of "counters q" "counters (tu_reservations u)"]
    by (simp add: same_res_def ledger_of_def build_ledger_def)
  with assms show ?thesis by (simp add: same_turn_def same_res_def)
qed

lemma same_res_refl [simp]: "same_res r r"
  by (simp add: same_res_def)

lemma same_res_ops:
  "same_res r (settle_usage obs r)" "same_res r (settle_response_bytes a b r)" "same_res r (permit_drop r)"
  "try_acquire_concurrency l live r = Inr q \<Longrightarrow> same_res r q"
  "record_denied l live r = (v, q) \<Longrightarrow> same_res r q"
  by (auto simp: same_res_def settle_usage_def settle_response_bytes_def permit_drop_def frozen_def
      elim!: try_acquire_ok elim: record_denied_cases)

lemma same_res_try_reserve:
  assumes "try_reserve l p a req live (r, se, d) = (v, (q, se', d'))"
  shows "same_res r q"
proof (cases v)
  case (Inl err)
  with assms show ?thesis by (auto dest: try_reserve_refuses(1))
next
  case (Inr u)
  with assms have "try_reserve l p a req live (r, se, d) = (Inr u, (q, se', d'))" by simp
  then show ?thesis
    by (rule try_reserve_admits) (auto simp: same_res_def reserve_commit_def)
qed

lemma same_core_upd_turn:
  assumes "\<And>u. u = turns (lf x) ! t \<Longrightarrow> same_turn u (f u)"
  shows "same_core x (x\<lparr>lf := upd_turn t f (lf x)\<rparr>)"
  using assms by (simp add: same_core_def)

lemma same_core_upd_session:
  assumes "\<And>p. p = sessions (lf x) ! s \<Longrightarrow> same_session p (f p)"
  shows "same_core x (x\<lparr>lf := upd_session s f (lf x)\<rparr>)"
  using assms by (simp add: same_core_def)

lemma same_core_reserve:
  assumes "t < length (turns (lf x))"
  shows "same_core x (x\<lparr>lf := snd (turn_reserve_request e t req (lf x))\<rparr>)"
proof -
  let ?u = "turns (lf x) ! t"
  obtain r q se d where
    tr: "try_reserve (turn_limits t (lf x)) (rp_stable_provider_id (se_plan (session_of (lf x) t)))
       (turn_authority e t (lf x)) req (check_live t (lf x))
       (tu_reservations ?u, se_reservations (session_of (lf x) t), br_day (lf x)) = (r, (q, se, d))"
    by (metis prod_cases3)
  have "same_turn ?u (?u\<lparr>tu_reservations := q\<rparr>)"
    using same_res_try_reserve [OF tr] by (rule same_res_turn)
  then show ?thesis
    by (simp add: turn_reserve_request_def tr same_core_def same_session_def)
qed

lemma same_core_reservation_steps:
  assumes "t < length (turns (lf x))"
  shows "same_core x (x\<lparr>lf := turn_settle_usage t obs (lf x)\<rparr>)"
    and "same_core x (x\<lparr>lf := turn_settle_response_bytes t a c (lf x)\<rparr>)"
    and "same_core x (x\<lparr>lf := turn_permit_drop t (lf x)\<rparr>)"
    and "same_core x (x\<lparr>lf := snd (turn_record_denied t (lf x))\<rparr>)"
    and "turn_acquire_concurrency t (lf x) = Inr b \<Longrightarrow> same_core x (x\<lparr>lf := b\<rparr>)"
proof -
  show "same_core x (x\<lparr>lf := turn_settle_usage t obs (lf x)\<rparr>)"
    and "same_core x (x\<lparr>lf := turn_settle_response_bytes t a c (lf x)\<rparr>)"
    and "same_core x (x\<lparr>lf := turn_permit_drop t (lf x)\<rparr>)"
    unfolding turn_settle_usage_def turn_settle_response_bytes_def turn_permit_drop_def
    by (rule same_core_upd_turn, rule same_res_turn, rule same_res_ops)+
  show "same_core x (x\<lparr>lf := snd (turn_record_denied t (lf x))\<rparr>)"
  proof -
    obtain v q where "record_denied (turn_limits t (lf x)) (check_live t (lf x))
        (tu_reservations (turns (lf x) ! t)) = (v, q)" by fastforce
    with same_res_ops(5) [OF this] show ?thesis
      by (auto simp: turn_record_denied_def intro!: same_core_upd_turn same_res_turn)
  qed
  assume "turn_acquire_concurrency t (lf x) = Inr b"
  then show "same_core x (x\<lparr>lf := b\<rparr>)"
    by (auto simp: turn_acquire_concurrency_def and_then_Inr
        intro!: same_core_upd_turn same_res_turn dest: same_res_ops(4))
qed

lemma same_core_flags:
  "same_core x (x\<lparr>lf := (lf x)\<lparr>br_now := n\<rparr>\<rparr>)"
  "same_core x (x\<lparr>lf := (lf x)\<lparr>br_available := v\<rparr>\<rparr>)"
  "same_core x (x\<lparr>lf := upd_metrics f (lf x)\<rparr>)"
  "same_core x (x\<lparr>lf := upd_session s (\<lambda>y. y\<lparr>se_revoked := True\<rparr>) (lf x)\<rparr>)"
  "same_core x (x\<lparr>lf := upd_session s (\<lambda>y. y\<lparr>se_credential := None\<rparr>) (lf x)\<rparr>)"
  by (simp_all add: same_core_def upd_metrics_def same_session_def)


text \<open>
  A critical section that only touches one session's slot, gate and arming stage: the turns, the
  registry and every other session are as before.
\<close>

lemma life_inv_one_session:
  assumes inv: "life_inv x" and s: "s < length (sessions (lf x))"
    and p: "se_revoked p = se_revoked (sessions (lf x) ! s)"
    and sl: "slot_inv (open_turns x s) (ledgers x s) a (se_slot p)"
    and gt: "gate_inv (holders x s) a (se_gate_held p)"
  shows "life_inv (x\<lparr>lf := upd_session s (\<lambda>_. p) (lf x), arming := (arming x)(s := a)\<rparr>)"
proof -
  let ?y = "x\<lparr>lf := upd_session s (\<lambda>_. p) (lf x), arming := (arming x)(s := a)\<rparr>"
  have sets: "open_turns ?y = open_turns x" "holders ?y = holders x" "ledgers ?y = ledgers x"
    by (auto simp: open_turns_def holders_def ledgers_def)
  have "session_ok ?y i" if "i < length (sessions (lf x))" for i
    using that inv s sl gt p unfolding session_ok_def slot_ok_def gate_ok_def sets life_inv_def
    by (cases "i = s") simp_all
  moreover have "turn_ok ?y t" if "turn_ok x t" for t using that by (simp add: turn_ok_def Let_def)
  moreover have "grant_ok ?y g" if "grant_ok x g" for g using that by (simp add: grant_ok_def Let_def)
  ultimately show ?thesis using inv s by (auto simp: life_inv_def)
qed

lemma session_inv:
  assumes "life_inv x" "s < length (sessions (lf x))"
  shows "slot_inv (open_turns x s) (ledgers x s) (arming x s) (se_slot (sessions (lf x) ! s))"
    and "gate_inv (holders x s) (arming x s) (se_gate_held (sessions (lf x) ! s))"
  using assms by (auto simp: life_inv_def session_ok_def slot_ok_def gate_ok_def)

lemma life_inv_session_step:
  assumes inv: "life_inv x" and s: "s < length (sessions (lf x))"
    and "b = upd_session s f (lf x)" and p: "p = f (sessions (lf x) ! s)"
    and "se_revoked p = se_revoked (sessions (lf x) ! s)"
    and "slot_inv (open_turns x s) (ledgers x s) a (se_slot p)"
    and "gate_inv (holders x s) a (se_gate_held p)"
  shows "life_inv (x\<lparr>lf := b, arming := (arming x)(s := a)\<rparr>)"
proof -
  have "b = upd_session s (\<lambda>_. p) (lf x)" using assms(3) p by (simp add: upd_session_def)
  then show ?thesis using life_inv_one_session [OF inv s assms(5-7)] by simp
qed

lemma life_inv_session_step_same:
  assumes "life_inv x" and "s < length (sessions (lf x))"
    and "b = upd_session s f (lf x)" and "p = f (sessions (lf x) ! s)"
    and "se_revoked p = se_revoked (sessions (lf x) ! s)"
    and "slot_inv (open_turns x s) (ledgers x s) (arming x s) (se_slot p)"
    and "gate_inv (holders x s) (arming x s) (se_gate_held p)"
  shows "life_inv (x\<lparr>lf := b\<rparr>)"
  using life_inv_session_step [OF assms] by (simp add: fun_upd_idem)

lemma slot_inv_steps:
  "slot_inv O1 F Idle sl \<Longrightarrow> slot_begin_armed sl = Inr sl' \<Longrightarrow> slot_inv O1 F SlotTaken sl'"
  "slot_inv O1 F Abandoning sl \<Longrightarrow> slot_inv O1 F Idle (slot_abandon_armed sl)"
  "slot_inv O1 F a sl \<Longrightarrow> slot_inv O1 F a (slot_set_access_live sl)"
  "slot_inv O1 F a sl \<Longrightarrow> slot_inv O1 F a (slot_drain n sl)"
  "slot_inv O1 F a sl \<Longrightarrow> slot_inv O1 F a (snd (slot_take n sl))"
  "slot_inv O1 F a sl \<Longrightarrow> a \<noteq> Idle \<Longrightarrow> a' \<noteq> Idle \<Longrightarrow> slot_inv O1 F a' sl"
  by (cases sl; auto simp: slot_inv_def)+

lemma life_inv_arm_slot:
  assumes "life_inv x" and "s < length (sessions (lf x))" and "arming x s = Idle"
    and "slot_begin_armed (se_slot (sessions (lf x) ! s)) = Inr sl"
  shows "life_inv (x\<lparr>lf := upd_slot s (\<lambda>_. sl) (lf x), arming := (arming x)(s := SlotTaken)\<rparr>)"
  using session_inv [OF assms(1,2)] assms(3,4)
  by (intro life_inv_session_step [OF assms(1,2) upd_slot_def [THEN fun_cong] refl])
     (auto simp: gate_inv_def intro: slot_inv_steps)

lemma life_inv_arm_gate:
  assumes "life_inv x" and "s < length (sessions (lf x))" and "arming x s = SlotTaken"
    and "gate_try_acquire (sessions (lf x) ! s) = Some y"
  shows "life_inv (x\<lparr>lf := upd_session s (\<lambda>_. y) (lf x), arming := (arming x)(s := GateTaken)\<rparr>)"
proof -
  have y: "y = (sessions (lf x) ! s)\<lparr>se_gate_held := True\<rparr>" "\<not> se_gate_held (sessions (lf x) ! s)"
    using assms(4) by (auto simp: gate_try_acquire_def split: if_splits)
  then show ?thesis using session_inv [OF assms(1,2)] assms(3)
    by (intro life_inv_one_session [OF assms(1,2)]) (auto simp: gate_inv_def intro: slot_inv_steps(6))
qed

lemma life_inv_arm_gate_busy:
  assumes "life_inv x" and "s < length (sessions (lf x))" and "arming x s = SlotTaken"
  shows "life_inv (x\<lparr>arming := (arming x)(s := Abandoning)\<rparr>)"
proof -
  have "lf x = upd_session s (\<lambda>p. p) (lf x)" by (simp add: upd_session_def)
  from life_inv_session_step [OF assms(1,2) this refl, of Abandoning] show ?thesis
    using session_inv [OF assms(1,2)] assms(3) by (auto simp: gate_inv_def intro: slot_inv_steps(6))
qed

lemma life_inv_arm_gate_back:
  assumes "life_inv x" and "s < length (sessions (lf x))" and "arming x s = GateTaken"
  shows "life_inv (x\<lparr>lf := upd_session s gate_guard_drop (lf x), arming := (arming x)(s := Abandoning)\<rparr>)"
  using session_inv [OF assms(1,2)] assms(3)
  by (intro life_inv_session_step [OF assms(1,2) refl refl])
     (auto simp: gate_guard_drop_def gate_inv_def intro: slot_inv_steps(6))

lemma life_inv_arm_abandon:
  assumes "life_inv x" and "s < length (sessions (lf x))" and "arming x s = Abandoning"
  shows "life_inv (x\<lparr>lf := upd_slot s slot_abandon_armed (lf x), arming := (arming x)(s := Idle)\<rparr>)"
  using session_inv [OF assms(1,2)] assms(3)
  by (intro life_inv_session_step [OF assms(1,2) upd_slot_def [THEN fun_cong] refl])
     (auto simp: gate_inv_def intro: slot_inv_steps)

lemma turn_session_lt:
  "life_inv x \<Longrightarrow> t < length (turns (lf x)) \<Longrightarrow> tu_session (turns (lf x) ! t) < length (sessions (lf x))"
  by (auto simp: life_inv_def turn_ok_def Let_def)

lemma life_inv_slot_step:
  assumes "life_inv x" and "t < length (turns (lf x))" and "s = tu_session (turns (lf x) ! t)"
    and "slot_inv (open_turns x s) (ledgers x s) (arming x s) (f (se_slot (sessions (lf x) ! s)))"
  shows "life_inv (x\<lparr>lf := upd_slot s f (lf x)\<rparr>)"
proof -
  have s: "s < length (sessions (lf x))" using turn_session_lt assms(1-3) by simp
  show ?thesis using session_inv [OF assms(1) s] assms(4)
    by (intro life_inv_session_step_same [OF assms(1) s upd_slot_def [THEN fun_cong] refl]) simp_all
qed

lemma life_inv_drain:
  assumes "life_inv x" and "t < length (turns (lf x))"
  shows "life_inv (x\<lparr>lf := upd_slot (tu_session (turns (lf x) ! t)) (slot_drain n) (lf x)\<rparr>)"
  by (rule life_inv_slot_step [OF assms refl], rule slot_inv_steps(4),
      rule session_inv(1) [OF assms(1) turn_session_lt [OF assms]])

lemma life_inv_take:
  assumes "life_inv x" and "t < length (turns (lf x))"
  shows "life_inv (x\<lparr>lf := snd (receipt_take t (lf x))\<rparr>)"
proof -
  let ?s = "tu_session (turns (lf x) ! t)" and ?n = "tu_ordinal (turns (lf x) ! t)"
  have "snd (receipt_take t (lf x)) = upd_slot ?s (\<lambda>sl. snd (slot_take ?n sl)) (lf x)"
    by (simp add: receipt_take_def session_of_def upd_slot_def upd_session_def split: prod.splits)
  with session_inv(1) [OF assms(1) turn_session_lt [OF assms]] show ?thesis
    by (auto intro!: life_inv_slot_step [OF assms refl] intro: slot_inv_steps(5))
qed

text \<open>
  A critical section on one turn and its session: the other turns and sessions are as before, so
  only the touched ones and the registry are left to check.
\<close>

lemma life_inv_turn_step:
  assumes inv: "life_inv x" and t: "t < length (turns (lf x))" and s: "s = tu_session (turns (lf x) ! t)"
    and y: "turns (lf y) = (turns (lf x))[t := u]" "tu_session u = s"
      "sessions (lf y) = (sessions (lf x))[s := p]" "phase_of y = (phase_of x)(t := ph)"
      "arming y = arming x" "purged y = purged x"
    and p: "se_revoked p = se_revoked (sessions (lf x) ! s)"
    and gr: "distinct (map fst (reg_grants (lf y)))" "\<And>g. g \<in> set (reg_grants (lf y)) \<Longrightarrow> grant_ok y g"
    and tu: "turn_ok y t"
    and sl: "slot_inv (open_turns y s) (ledgers y s) (arming x s) (se_slot p)"
    and gt: "gate_inv (holders y s) (arming x s) (se_gate_held p)"
  shows "life_inv y"
proof -
  have sets: "open_turns y i = open_turns x i" "holders y i = holders x i" "ledgers y i = ledgers x i"
    if "i \<noteq> s" for i
    using that s t y unfolding open_turns_def holders_def ledgers_def
    by (auto simp: nth_list_update)
  have other: "session_ok y i" if "i \<noteq> s" "session_ok x i" for i
    using that(2) y unfolding session_ok_def slot_ok_def gate_ok_def sets [OF that(1)]
    by (simp add: nth_list_update that(1) [symmetric])
  have this_one: "session_ok y s"
    using sl gt p inv turn_session_lt [OF inv t] y s
    by (simp add: session_ok_def slot_ok_def gate_ok_def life_inv_def)
  have tok: "turn_ok y i" if "i \<noteq> t" "turn_ok x i" for i
    using that y by (simp add: turn_ok_def Let_def)
  show ?thesis unfolding life_inv_def
  proof (intro conjI allI impI ballI)
    fix i assume "i < length (turns (lf y))"
    then show "turn_ok y i" using tok [of i] tu inv y(1) by (cases "i = t") (auto simp: life_inv_def)
  next
    fix i assume "i < length (sessions (lf y))"
    then show "session_ok y i" using other [of i] this_one inv y(3) by (cases "i = s") (auto simp: life_inv_def)
  next
    fix i assume "length (sessions (lf y)) \<le> i"
    then show "arming y i = Idle" "\<not> purged y i" using inv y by (simp_all add: life_inv_def)
  qed (use gr in auto)
qed

text \<open>How a change of one turn moves the three sets of its session.\<close>

lemma turn_sets:
  assumes "t < length (turns (lf x))" and "s = tu_session (turns (lf x) ! t)"
    and "turns (lf y) = (turns (lf x))[t := u]" and "tu_session u = s"
    and "phase_of y = (phase_of x)(t := ph)"
  shows "open_turns y s = (if tu_finalized u = None then insert t (open_turns x s) else open_turns x s - {t})"
    and "holders y s = (if ph \<noteq> PGone then insert t (holders x s) else holders x s - {t})"
  using assms by (auto simp: open_turns_def holders_def nth_list_update)

lemma ledgers_kept:
  assumes "t < length (turns (lf x))" and "turns (lf y) = (turns (lf x))[t := u]"
    and "tu_session u = tu_session (turns (lf x) ! t)"
    and "\<And>o1. tu_finalized (turns (lf x) ! t) = Some o1 \<Longrightarrow>
          tu_finalized u = Some o1 \<and> ledger_of u o1 = ledger_of (turns (lf x) ! t) o1"
  shows "ledgers x s \<subseteq> ledgers y s"
proof
  fix l assume "l \<in> ledgers x s"
  then obtain i where i: "i < length (turns (lf x))" "tu_session (turns (lf x) ! i) = s"
      "tu_finalized (turns (lf x) ! i) = Some (tl_outcome l)"
      "l = ledger_of (turns (lf x) ! i) (tl_outcome l)"
    by (auto simp: ledgers_def)
  with assms show "l \<in> ledgers y s"
    unfolding ledgers_def by (intro CollectI exI [of _ i]) (auto simp: nth_list_update)
qed

lemma slot_inv_mono: "slot_inv O1 F a sl \<Longrightarrow> F \<subseteq> F' \<Longrightarrow> slot_inv O1 F' a sl"
  by (auto simp: slot_inv_def)

lemma at_most_one_insert: "at_most_one A \<Longrightarrow> t \<in> A \<Longrightarrow> insert t A = A"
  by auto

lemma open_turns_iff:
  "t \<in> open_turns x (tu_session (turns (lf x) ! t)) \<longleftrightarrow>
     t < length (turns (lf x)) \<and> tu_finalized (turns (lf x) ! t) = None"
  by (auto simp: open_turns_def)

lemma holders_iff:
  "t \<in> holders x (tu_session (turns (lf x) ! t)) \<longleftrightarrow> t < length (turns (lf x)) \<and> phase_of x t \<noteq> PGone"
  by (auto simp: holders_def)

text \<open>A turn whose digest and flags do not matter to the registry: unpublished or unchanged.\<close>

lemma grants_after:
  assumes inv: "life_inv x" and "t < length (turns (lf x))"
    and y: "turns (lf y) = (turns (lf x))[t := u]" "purged y = purged x" "tu_session u = tu_session (turns (lf x) ! t)"
    and sub: "set (reg_grants (lf y)) \<subseteq> set (reg_grants (lf x))"
    and t: "\<And>d. (d, t) \<in> set (reg_grants (lf y)) \<Longrightarrow>
       tu_digest u = Some d \<and> tu_issued u \<and> \<not> tu_revoked u \<and> tu_finalized u = None"
    and g: "g \<in> set (reg_grants (lf y))"
  shows "grant_ok y g"
proof -
  have gx: "grant_ok x g" using inv sub g by (auto simp: life_inv_def)
  show ?thesis
  proof (cases "snd g = t")
    case True
    with g have "(fst g, t) \<in> set (reg_grants (lf y))" by (metis prod.collapse)
    from t [OF this] gx True y show ?thesis by (simp add: grant_ok_def Let_def)
  next
    case False
    with gx y show ?thesis by (simp add: grant_ok_def Let_def)
  qed
qed

lemma grant_turn:
  assumes "life_inv x" and "(d, t) \<in> set (reg_grants (lf x))"
  shows "t < length (turns (lf x))" "tu_digest (turns (lf x) ! t) = Some d" "tu_issued (turns (lf x) ! t)"
    "\<not> tu_revoked (turns (lf x) ! t)" "tu_finalized (turns (lf x) ! t) = None"
    "\<not> purged x (tu_session (turns (lf x) ! t))"
  using assms by (force simp: life_inv_def grant_ok_def Let_def)+

text \<open>Moving the handle without touching the turn.\<close>

lemma life_inv_phase:
  assumes inv: "life_inv x" and t: "t < length (turns (lf x))"
    and ph: "phase_of x t \<noteq> PGone" "ph \<noteq> PGone"
    and "ph \<in> {PAttempt, PMinting} \<Longrightarrow> tu_digest (turns (lf x) ! t) = None"
    and "ph = PClosing \<Longrightarrow> tu_finalized (turns (lf x) ! t) \<noteq> None"
  shows "life_inv (x\<lparr>phase_of := (phase_of x)(t := ph)\<rparr>)"
proof -
  let ?y = "x\<lparr>phase_of := (phase_of x)(t := ph)\<rparr>"
  have same: "open_turns ?y = open_turns x" "ledgers ?y = ledgers x"
    by (simp_all add: open_turns_def ledgers_def fun_eq_iff)
  have "holders ?y = holders x" using ph by (auto simp: holders_def fun_eq_iff)
  then have "session_ok ?y i" if "session_ok x i" for i
    using that by (simp add: session_ok_def slot_ok_def gate_ok_def same)
  moreover have "turn_ok ?y i" if "turn_ok x i" for i
    using that assms(5,6) ph by (auto simp: turn_ok_def Let_def)
  moreover have "grant_ok ?y g" if "grant_ok x g" for g using that by (simp add: grant_ok_def Let_def)
  ultimately show ?thesis using inv by (simp add: life_inv_def)
qed

lemma life_inv_mint_live:
  assumes "life_inv x" and "t < length (turns (lf x))" and "phase_of x t = PPublished"
  shows "life_inv (x\<lparr>lf := upd_slot (tu_session (turns (lf x) ! t)) slot_set_access_live (lf x),
      phase_of := (phase_of x)(t := PAccess)\<rparr>)"
proof -
  have "life_inv (x\<lparr>lf := upd_slot (tu_session (turns (lf x) ! t)) slot_set_access_live (lf x)\<rparr>)"
    by (rule life_inv_slot_step [OF assms(1,2) refl], rule slot_inv_steps(3),
        rule session_inv(1) [OF assms(1) turn_session_lt [OF assms(1,2)]])
  from life_inv_phase [OF this, of t PAccess] assms(2,3) show ?thesis by simp
qed

lemma life_inv_gate_release:
  assumes inv: "life_inv x" and t: "t < length (turns (lf x))" and ph: "phase_of x t = PClosing"
  shows "life_inv (x\<lparr>lf := release_turn_gate t (lf x), phase_of := (phase_of x)(t := PGone)\<rparr>)"
    (is "life_inv ?y")
proof -
  let ?s = "tu_session (turns (lf x) ! t)" and ?u = "turns (lf x) ! t"
  have s: "?s < length (sessions (lf x))" by (rule turn_session_lt [OF inv t])
  have y: "turns (lf ?y) = (turns (lf x))[t := ?u]" "phase_of ?y = (phase_of x)(t := PGone)"
    by (simp_all add: release_turn_gate_def)
  have fin: "tu_finalized ?u \<noteq> None" using inv t ph by (auto simp: life_inv_def turn_ok_def Let_def)
  note si = session_inv [OF inv s]
  have o: "open_turns ?y ?s = open_turns x ?s" "ledgers ?y ?s = ledgers x ?s"
    by (simp_all add: open_turns_def ledgers_def release_turn_gate_def)
  have "t \<in> holders x ?s" using t ph by (simp add: holders_iff)
  with si(2) have h: "holders ?y ?s = {}" "arming x ?s \<noteq> GateTaken"
    using turn_sets(2) [OF t refl y(1) refl y(2)]
    by (auto simp: gate_inv_def at_most_one_def)
  show ?thesis
  proof (rule life_inv_turn_step [OF inv t refl y(1) refl _ y(2)])
    show "turn_ok ?y t"
      using inv t fin by (auto simp: life_inv_def turn_ok_def Let_def release_turn_gate_def)
    show "grant_ok ?y g" if "g \<in> set (reg_grants (lf ?y))" for g
      using inv that by (auto simp: life_inv_def grant_ok_def Let_def release_turn_gate_def)
    show "sessions (lf ?y) = (sessions (lf x))[?s := gate_guard_drop (sessions (lf x) ! ?s)]"
      by (simp add: release_turn_gate_def upd_session_def)
  qed (use inv si h o in \<open>auto simp: life_inv_def release_turn_gate_def gate_guard_drop_def gate_inv_def
        at_most_one_def\<close>)
qed

lemma life_inv_mint_grant:
  assumes inv: "life_inv x" and t: "t < length (turns (lf x))" and ph: "phase_of x t = PMinting"
    and pub: "mint_publish digest t (lf x) = Inr (Some b)"
  shows "life_inv (x\<lparr>lf := b, phase_of := (phase_of x)(t := PPublished)\<rparr>)" (is "life_inv ?y")
proof -
  let ?s = "tu_session (turns (lf x) ! t)" and ?u = "mark_issued digest (turns (lf x) ! t)"
  have c: "\<not> se_revoked (sessions (lf x) ! ?s)" "\<not> tu_revoked (turns (lf x) ! t)"
      "tu_finalized (turns (lf x) ! t) = None" "map_of (reg_grants (lf x)) digest = None"
      "b = publish digest t (lf x)"
    using pub by (auto simp: mint_publish_def session_of_def split: if_splits)
  have y: "turns (lf ?y) = (turns (lf x))[t := ?u]" "tu_session ?u = ?s"
      "phase_of ?y = (phase_of x)(t := PPublished)"
    using t by (simp_all add: c(5) publish_def upd_turn_def mark_issued_def)
  have s: "?s < length (sessions (lf x))" by (rule turn_session_lt [OF inv t])
  note si = session_inv [OF inv s]
  have np: "\<not> purged x ?s" using inv s c(1) by (auto simp: life_inv_def session_ok_def)
  have dg: "tu_digest (turns (lf x) ! t) = None"
    using inv t ph by (auto simp: life_inv_def turn_ok_def Let_def)
  have sets: "open_turns ?y ?s = open_turns x ?s" "holders ?y ?s = holders x ?s"
    using turn_sets [OF t refl y] c(3) t ph
    by (simp_all add: mark_issued_def open_turns_iff holders_iff insert_absorb)
  have led: "ledgers x ?s \<subseteq> ledgers ?y ?s"
    using c(3) by (intro ledgers_kept [OF t y(1,2)]) simp
  have grants: "set (reg_grants (lf ?y)) \<subseteq> insert (digest, t) (set (reg_grants (lf x)))"
    by (auto simp: c(5) publish_def registry_insert_set)
  have g: "grant_ok ?y g" if "g \<in> set (reg_grants (lf ?y))" for g
  proof (cases "snd g = t")
    case True
    with that grants grant_turn(2) [OF inv, of "fst g" t] dg have "g = (digest, t)"
      by (cases g) auto
    with t c np show ?thesis by (simp add: grant_ok_def Let_def publish_def mark_issued_def)
  next
    case False
    with that grants inv have "grant_ok x g" by (auto simp: life_inv_def)
    with False y(1) show ?thesis by (simp add: grant_ok_def Let_def)
  qed
  show ?thesis
  proof (rule life_inv_turn_step [OF inv t refl y(1,2) _ y(3)])
    show "turn_ok ?y t"
      using inv t s by (auto simp: life_inv_def turn_ok_def Let_def c(5) publish_def mark_issued_def)
    show "sessions (lf ?y) = (sessions (lf x))[?s := sessions (lf x) ! ?s]"
      by (simp add: c(5) publish_def)
    show "slot_inv (open_turns ?y ?s) (ledgers ?y ?s) (arming x ?s) (se_slot (sessions (lf x) ! ?s))"
      using slot_inv_mono [OF si(1) led] by (simp add: sets)
    show "distinct (map fst (reg_grants (lf ?y)))"
      using inv by (simp add: c(5) publish_def registry_distinct life_inv_def)
  qed (use g si sets in auto)
qed

lemma life_inv_revoke:
  assumes inv: "life_inv x" and t: "t < length (turns (lf x))"
  shows "life_inv (x\<lparr>lf := revoke_grant t (lf x)\<rparr>)" (is "life_inv ?y")
proof -
  let ?s = "tu_session (turns (lf x) ! t)" and ?u = "(turns (lf x) ! t)\<lparr>tu_revoked := True\<rparr>"
  have y: "turns (lf ?y) = (turns (lf x))[t := ?u]" "tu_session ?u = ?s"
      "phase_of ?y = (phase_of x)(t := phase_of x t)"
    using t by (simp_all add: revoke_grant_def upd_turn_def Let_def split: option.splits)
  have s: "?s < length (sessions (lf x))" by (rule turn_session_lt [OF inv t])
  note si = session_inv [OF inv s]
  have sets: "open_turns ?y ?s = open_turns x ?s" "holders ?y ?s = holders x ?s"
    using turn_sets [OF t refl y] t
    by (auto simp: open_turns_iff holders_iff insert_absorb)
  have led: "ledgers x ?s \<subseteq> ledgers ?y ?s"
    by (intro ledgers_kept [OF t y(1,2)]) (simp add: ledger_of_def build_ledger_def)
  have sub: "set (reg_grants (lf ?y)) \<subseteq> set (reg_grants (lf x))"
    by (auto simp: revoke_grant_def registry_remove_set Let_def split: option.splits)
  have gone: "(d, t) \<notin> set (reg_grants (lf ?y))" for d
    using grant_turn(2) [OF inv, of d t]
    by (auto simp: revoke_grant_def registry_remove_set Let_def split: option.splits)
  show ?thesis
  proof (rule life_inv_turn_step [OF inv t refl y(1,2) _ y(3)])
    show "turn_ok ?y t"
      using inv t s by (auto simp: life_inv_def turn_ok_def Let_def revoke_grant_def split: option.splits)
    show "sessions (lf ?y) = (sessions (lf x))[?s := sessions (lf x) ! ?s]"
      by (simp add: revoke_grant_def Let_def split: option.splits)
    show "slot_inv (open_turns ?y ?s) (ledgers ?y ?s) (arming x ?s) (se_slot (sessions (lf x) ! ?s))"
      using slot_inv_mono [OF si(1) led] by (simp add: sets)
    show "distinct (map fst (reg_grants (lf ?y)))"
      using inv by (simp add: revoke_grant_def registry_distinct life_inv_def Let_def split: option.splits)
    show "grant_ok ?y g" if "g \<in> set (reg_grants (lf ?y))" for g
      using gone that by (intro grants_after [OF inv t y(1) _ y(2) sub]) auto
  qed (use si sets in auto)
qed

lemma tl_outcome_ledger_of [simp]: "tl_outcome (ledger_of u o1) = o1"
  by (simp add: ledger_of_def build_ledger_def turn_ledger_new_def)

lemma turn_finalize_open:
  assumes "tu_finalized (turns b ! t) = None"
  shows "turn_finalize t outcome b =
    (Some (ledger_of (turns b ! t) outcome),
     upd_slot (tu_session (turns b ! t)) (\<lambda>sl. snd (slot_finalize (ledger_of (turns b ! t) outcome) sl))
       (upd_turn t (\<lambda>u. u\<lparr>tu_finalized := Some outcome,
          tu_reservations := (tu_reservations (turns b ! t))\<lparr>rs_closed := True\<rparr>\<rparr>) b))"
  using assms by (simp add: turn_finalize_def Let_def close_and_snapshot_def ledger_of_def)

lemma turn_finalize_done:
  "tu_finalized (turns b ! t) \<noteq> None \<Longrightarrow> turn_finalize t outcome b = (None, b)"
  by (simp add: turn_finalize_def)

lemma open_turn_slot:
  assumes "life_inv x" and "t < length (turns (lf x))" and "tu_finalized (turns (lf x) ! t) = None"
  shows "se_slot (session_of (lf x) t) \<in> {SlotArmed, SlotAccessLive}"
    and "open_turns x (tu_session (turns (lf x) ! t)) = {t}"
    and "arming x (tu_session (turns (lf x) ! t)) = Idle"
proof -
  have "t \<in> open_turns x (tu_session (turns (lf x) ! t))" using assms by (simp add: open_turns_iff)
  with session_inv(1) [OF assms(1) turn_session_lt [OF assms(1,2)]]
  show "se_slot (session_of (lf x) t) \<in> {SlotArmed, SlotAccessLive}"
    and "open_turns x (tu_session (turns (lf x) ! t)) = {t}"
    and "arming x (tu_session (turns (lf x) ! t)) = Idle"
    by (auto simp: slot_inv_def session_of_def at_most_one_def)
qed

lemma life_inv_finalize:
  assumes inv: "life_inv x" and t: "t < length (turns (lf x))"
    and out: "tu_revoked (turns (lf x) ! t) \<or> tu_digest (turns (lf x) ! t) = None"
  shows "life_inv (x\<lparr>lf := snd (turn_finalize t outcome (lf x))\<rparr>)" (is "life_inv ?y")
proof (cases "tu_finalized (turns (lf x) ! t) = None")
  case False
  with inv show ?thesis by (simp add: turn_finalize_done)
next
  case True
  let ?s = "tu_session (turns (lf x) ! t)" and ?l = "ledger_of (turns (lf x) ! t) outcome"
  let ?u = "(turns (lf x) ! t)\<lparr>tu_finalized := Some outcome,
      tu_reservations := (tu_reservations (turns (lf x) ! t))\<lparr>rs_closed := True\<rparr>\<rparr>"
  let ?p = "(sessions (lf x) ! ?s)\<lparr>se_slot := SlotFinalized ?l\<rparr>"
  have y: "turns (lf ?y) = (turns (lf x))[t := ?u]" "tu_session ?u = ?s"
      "phase_of ?y = (phase_of x)(t := phase_of x t)" "reg_grants (lf ?y) = reg_grants (lf x)"
    using t by (simp_all add: turn_finalize_open [OF True] upd_turn_def)
  have s: "?s < length (sessions (lf x))" by (rule turn_session_lt [OF inv t])
  note si = session_inv [OF inv s] and op = open_turn_slot [OF inv t True]
  have l: "ledger_of ?u outcome = ?l" by (simp add: ledger_of_def build_ledger_def)
  have "?l \<in> ledgers ?y ?s"
    unfolding ledgers_def using t y(1) by (intro CollectI exI [of _ t]) (simp add: l)
  moreover have "open_turns ?y ?s = {}" using turn_sets(1) [OF t refl y(1-3)] op(2) by simp
  moreover have h: "holders ?y ?s = holders x ?s"
    using turn_sets(2) [OF t refl y(1-3)] t by (auto simp: holders_iff insert_absorb)
  ultimately have sl: "slot_inv (open_turns ?y ?s) (ledgers ?y ?s) (arming x ?s) (se_slot ?p)"
    using op(3) by (simp add: slot_inv_def at_most_one_def)
  have unreg: "(d, t) \<notin> set (reg_grants (lf x))" for d
    using grant_turn(2,4) [OF inv, of d t] out by auto
  show ?thesis
  proof (rule life_inv_turn_step [OF inv t refl y(1,2) _ y(3) _ _ _ _ _ _ sl])
    show "turn_ok ?y t"
      using inv t s by (auto simp: life_inv_def turn_ok_def Let_def turn_finalize_open [OF True])
    show "sessions (lf ?y) = (sessions (lf x))[?s := ?p]"
      using op(1) by (auto simp: turn_finalize_open [OF True] upd_slot_def upd_session_def session_of_def)
    show "grant_ok ?y g" if "g \<in> set (reg_grants (lf ?y))" for g
      using unreg that y(4) by (intro grants_after [OF inv t y(1) _ y(2)]) auto
  qed (use inv si h y(4) in \<open>auto simp: life_inv_def\<close>)
qed

lemma turn_finalize_finalized:
  assumes "t < length (turns b)"
  shows "tu_finalized (turns (snd (turn_finalize t outcome b)) ! t) \<noteq> None"
    and "length (turns (snd (turn_finalize t outcome b))) = length (turns b)"
proof -
  show "tu_finalized (turns (snd (turn_finalize t outcome b)) ! t) \<noteq> None"
    using assms by (cases "tu_finalized (turns b ! t) = None")
      (simp_all add: turn_finalize_open turn_finalize_done)
  show "length (turns (snd (turn_finalize t outcome b))) = length (turns b)"
    by (cases "tu_finalized (turns b ! t) = None") (simp_all add: turn_finalize_open turn_finalize_done)
qed

lemma life_inv_no_capability:
  assumes inv: "life_inv x" and t: "t < length (turns (lf x))" and ph: "phase_of x t \<in> {PAttempt, PMinting}"
  shows "life_inv (x\<lparr>lf := snd (turn_finalize t NoCapability (lf x)),
      phase_of := (phase_of x)(t := PClosing)\<rparr>)"
proof -
  have "tu_digest (turns (lf x) ! t) = None"
    using inv t ph by (auto simp: life_inv_def turn_ok_def Let_def)
  then have "life_inv (x\<lparr>lf := snd (turn_finalize t NoCapability (lf x))\<rparr>)"
    using inv t by (intro life_inv_finalize) simp_all
  from life_inv_phase [OF this, of t PClosing] t ph turn_finalize_finalized [OF t, of NoCapability]
  show ?thesis by auto
qed

text \<open>Registration appends an idle session; the new object's address is fresh.\<close>

lemma register_session_cases:
  assumes "register_session e draw plan lease policy b = (r, b')"
  obtains (refused) err where "r = Inl err" and "b' = b"
  | (registered) i where "r = Inr (length (sessions b))" and "draw = Some i" and "br_available b"
    and "map_of (reg_sessions b) i = None" and "plan_validate plan = Inr ()"
    and "rp_limits plan = sp_limits policy"
    and "\<exists>bd. plan_binding plan = Inr bd \<and> bl_fingerprint lease = fingerprint (ev_sha256 e) bd"
    and "b' = b\<lparr>sessions := sessions b @ [session_inner_new i plan lease policy],
           reg_sessions := registry_insert i (length (sessions b)) (reg_sessions b)\<rparr>"
proof -
  note r = assms [unfolded register_session_def]
  show ?thesis
  proof (cases "\<exists>u bd i. plan_validate plan = Inr u \<and> rp_limits plan = sp_limits policy \<and>
      plan_binding plan = Inr bd \<and> fingerprint (ev_sha256 e) bd = bl_fingerprint lease \<and>
      draw = Some i \<and> br_available b \<and> map_of (reg_sessions b) i = None")
    case True
    then obtain bd i where "plan_validate plan = Inr ()" "rp_limits plan = sp_limits policy"
      "plan_binding plan = Inr bd" "fingerprint (ev_sha256 e) bd = bl_fingerprint lease"
      "draw = Some i" "br_available b" "map_of (reg_sessions b) i = None" by auto
    with r show ?thesis by (intro registered) (auto simp: fingerprint_matches_def)
  next
    case False
    have "\<not> is_ok r \<and> b' = b"
    proof (cases "plan_validate plan")
      case (Inl err)
      with r show ?thesis by auto
    next
      case v: (Inr u)
      show ?thesis
      proof (cases "rp_limits plan = sp_limits policy")
        case l: True
        show ?thesis
        proof (cases "plan_binding plan")
          case (Inl err)
          with r v l show ?thesis by auto
        next
          case (Inr bd)
          with r v l False show ?thesis
            by (cases draw) (auto simp: fingerprint_matches_def split: if_splits)
        qed
      qed (use r v in auto)
    qed
    then show ?thesis by (cases r) (auto intro: refused)
  qed
qed

lemma life_inv_new_session:
  assumes inv: "life_inv x"
    and y: "turns (lf y) = turns (lf x)" "sessions (lf y) = sessions (lf x) @ [session_inner_new i plan lease policy]"
      "reg_grants (lf y) = reg_grants (lf x)" "phase_of y = phase_of x" "arming y = arming x" "purged y = purged x"
  shows "life_inv y"
proof -
  let ?n = "length (sessions (lf x))"
  have sets: "open_turns y = open_turns x" "holders y = holders x" "ledgers y = ledgers x"
    using y by (auto simp: open_turns_def holders_def ledgers_def fun_eq_iff)
  have "tu_session (turns (lf x) ! t) \<noteq> ?n" if "t < length (turns (lf x))" for t
    using turn_session_lt [OF inv that] by simp
  then have new: "open_turns x ?n = {}" "holders x ?n = {}"
    by (auto simp: open_turns_def holders_def)
  have "session_ok y s" if "s < Suc ?n" for s
  proof (cases "s = ?n")
    case True
    with inv y new show ?thesis
      by (simp add: session_ok_def slot_ok_def gate_ok_def sets slot_inv_def gate_inv_def at_most_one_def
          life_inv_def session_inner_new_def)
  next
    case False
    with that inv y show ?thesis
      by (simp add: session_ok_def slot_ok_def gate_ok_def sets life_inv_def nth_append)
  qed
  moreover have "turn_ok y t" if "turn_ok x t" for t using that y by (auto simp: turn_ok_def Let_def)
  moreover have "grant_ok y g" if "grant_ok x g" for g using that y by (simp add: grant_ok_def Let_def)
  ultimately show ?thesis using inv y by (auto simp: life_inv_def)
qed

lemma life_inv_register:
  assumes "life_inv x" and "register_session e draw plan lease policy (lf x) = (r, b)"
  shows "life_inv (x\<lparr>lf := b\<rparr>)"
  using assms(2)
proof (cases rule: register_session_cases)
  case (refused err)
  with assms(1) show ?thesis by simp
next
  case (registered i)
  then show ?thesis by (intro life_inv_new_session [OF assms(1)]) simp_all
qed

text \<open>The sweep of a revoked session removes every grant of that session.\<close>

lemma life_inv_purge:
  assumes inv: "life_inv x" and s: "s < length (sessions (lf x))" "se_revoked (sessions (lf x) ! s)"
  shows "life_inv (x\<lparr>lf := revoke_session (se_id (sessions (lf x) ! s)) (lf x),
      purged := (purged x)(s := True)\<rparr>)" (is "life_inv ?y")
proof -
  have sets: "open_turns ?y = open_turns x" "holders ?y = holders x" "ledgers ?y = ledgers x"
    by (auto simp: open_turns_def holders_def ledgers_def fun_eq_iff revoke_session_def)
  have "session_ok ?y i" if "session_ok x i" for i
    using that s unfolding session_ok_def slot_ok_def gate_ok_def sets by (auto simp: revoke_session_def)
  moreover have "turn_ok ?y t" if "turn_ok x t" for t
    using that by (simp add: turn_ok_def Let_def revoke_session_def)
  moreover have "grant_ok ?y g" if "g \<in> set (reg_grants (lf ?y))" for g
  proof -
    from that inv have "grant_ok x g" and "se_id (session_of (lf x) (snd g)) \<noteq> se_id (sessions (lf x) ! s)"
      by (auto simp: life_inv_def revoke_session_def)
    then show ?thesis by (auto simp: grant_ok_def Let_def revoke_session_def session_of_def)
  qed
  ultimately show ?thesis
    using inv s by (auto simp: life_inv_def revoke_session_def registry_distinct)
qed

lemma life_inv_arm_turn:
  assumes inv: "life_inv x" and s: "s < length (sessions (lf x))" and a: "arming x s = GateTaken"
    and o: "next_ordinal (sessions (lf x) ! s) = (ordinal, p)"
  shows "life_inv (x\<lparr>lf := (upd_session s (\<lambda>_. p) (lf x))\<lparr>turns := turns (lf x) @ [turn_inner_new s ordinal na]\<rparr>,
      phase_of := (phase_of x)(length (turns (lf x)) := PAttempt), arming := (arming x)(s := Idle)\<rparr>)"
    (is "life_inv ?y")
proof -
  let ?n = "length (turns (lf x))"
  have p: "se_slot p = se_slot (sessions (lf x) ! s)" "se_gate_held p = se_gate_held (sessions (lf x) ! s)"
      "se_revoked p = se_revoked (sessions (lf x) ! s)"
    using o by (auto simp: next_ordinal_def)
  note si = session_inv [OF inv s]
  have sets: "open_turns ?y i = (if i = s then insert ?n (open_turns x i) else open_turns x i)"
      "holders ?y i = (if i = s then insert ?n (holders x i) else holders x i)" for i
    by (auto simp: open_turns_def holders_def nth_append less_Suc_eq turn_inner_new_def)
  have led: "ledgers ?y i = ledgers x i" for i
    unfolding ledgers_def by (auto simp: nth_append less_Suc_eq turn_inner_new_def)
  have "open_turns x s = {}" "holders x s = {}"
    using si a by (auto simp: slot_inv_def gate_inv_def)
  with si a p s have here: "session_ok ?y s"
    using inv by (simp add: session_ok_def slot_ok_def gate_ok_def sets led slot_inv_def gate_inv_def
        at_most_one_def life_inv_def)
  have there: "session_ok ?y i" if "i \<noteq> s" "i < length (sessions (lf x))" for i
    using that inv by (simp add: session_ok_def slot_ok_def gate_ok_def sets led life_inv_def)
  have "turn_ok ?y t" if "t < Suc ?n" for t
    using that inv s by (cases "t = ?n")
      (auto simp: turn_ok_def Let_def nth_append life_inv_def turn_inner_new_def reservations_new_def)
  moreover have "grant_ok ?y g" if "grant_ok x g" for g
    using that by (auto simp: grant_ok_def Let_def nth_append)
  moreover have "session_ok ?y i" if "i < length (sessions (lf x))" for i
    using that here there by (cases "i = s") auto
  ultimately show ?thesis using inv s by (auto simp: life_inv_def)
qed

lemmas life_inv_rules = life_inv_register life_inv_purge life_inv_arm_slot life_inv_arm_gate
  life_inv_arm_gate_busy life_inv_arm_gate_back life_inv_arm_abandon life_inv_arm_turn
  life_inv_mint_grant life_inv_mint_live life_inv_no_capability life_inv_gate_release
  life_inv_revoke life_inv_finalize life_inv_take life_inv_drain
  same_core_flags [THEN life_inv_same_core] same_core_reserve [THEN life_inv_same_core]
  same_core_reservation_steps [THEN life_inv_same_core]

lemma life_step_inv: "life_step e x y \<Longrightarrow> life_inv x \<Longrightarrow> life_inv y"
proof (induction rule: life_step.induct)
  case (mint_begin t x)
  then show ?case by (intro life_inv_phase) (auto simp: life_inv_def turn_ok_def Let_def)
next
  case (access_closed t x)
  then show ?case by (intro life_inv_phase) auto
qed (auto intro: life_inv_rules)

lemma life_reachable_inv: "life_reachable e x y \<Longrightarrow> life_inv x \<Longrightarrow> life_inv y"
  by (induction rule: rtranclp_induct) (auto intro: life_step_inv)

section \<open>Nothing comes back to life\<close>

text \<open>
  What every step keeps of the objects that exist: a turn's session, ordinal and expiry, and every
  flag that was set; the clock never runs backwards.
\<close>

definition turn_later :: "turn \<Rightarrow> turn \<Rightarrow> bool" where
  "turn_later u v \<longleftrightarrow> tu_session v = tu_session u \<and> tu_ordinal v = tu_ordinal u \<and>
     tu_not_after v = tu_not_after u \<and> (tu_revoked u \<longrightarrow> tu_revoked v) \<and>
     (\<forall>o1. tu_finalized u = Some o1 \<longrightarrow> tu_finalized v = Some o1)"

definition session_later :: "session \<Rightarrow> session \<Rightarrow> bool" where
  "session_later p q \<longleftrightarrow> se_id q = se_id p \<and> se_policy q = se_policy p \<and> se_plan q = se_plan p \<and>
     (se_revoked p \<longrightarrow> se_revoked q) \<and> (se_credential p = None \<longrightarrow> se_credential q = None)"

definition later :: "'d broker \<Rightarrow> 'd broker \<Rightarrow> bool" where
  "later b c \<longleftrightarrow> br_now b \<le> br_now c \<and> (\<not> br_available b \<longrightarrow> \<not> br_available c) \<and>
     length (turns b) \<le> length (turns c) \<and>
     (\<forall>t < length (turns b). turn_later (turns b ! t) (turns c ! t)) \<and>
     length (sessions b) \<le> length (sessions c) \<and>
     (\<forall>s < length (sessions b). session_later (sessions b ! s) (sessions c ! s))"

lemma turn_later_refl [simp]: "turn_later u u" and session_later_refl [simp]: "session_later p p"
  and later_refl [simp]: "later b b"
  by (simp_all add: turn_later_def session_later_def later_def)

lemma later_trans: "later a b \<Longrightarrow> later b c \<Longrightarrow> later a c"
  unfolding later_def turn_later_def session_later_def by (auto dest: order.strict_trans2)

lemma later_upd_session:
  "(\<And>p. session_later p (f p)) \<Longrightarrow> later b (upd_session s f b)"
  by (simp add: later_def)

lemma later_upd_session_at:
  "session_later (sessions b ! s) p \<Longrightarrow> later b (upd_session s (\<lambda>_. p) b)"
  by (simp add: later_def)

lemma later_upd_turn:
  "turn_later (turns b ! t) (f (turns b ! t)) \<Longrightarrow> later b (upd_turn t f b)"
  by (simp add: later_def)

lemma later_upd_slot: "later b (upd_slot s f b)"
  unfolding upd_slot_def by (rule later_upd_session) (simp add: session_later_def)

lemma later_reservation: "later b (upd_turn t (\<lambda>u. u\<lparr>tu_reservations := g u\<rparr>) b)"
  by (rule later_upd_turn) (simp add: turn_later_def)

lemma later_reserve: "later b (snd (turn_reserve_request e t req b))"
proof -
  obtain r q se d where "try_reserve (turn_limits t b) (rp_stable_provider_id (se_plan (session_of b t)))
       (turn_authority e t b) req (check_live t b)
       (tu_reservations (turns b ! t), se_reservations (session_of b t), br_day b) = (r, (q, se, d))"
    by (metis prod_cases3)
  then show ?thesis
    by (simp add: turn_reserve_request_def later_def turn_later_def session_later_def)
qed

lemma later_finalize: "later b (snd (turn_finalize t outcome b))"
proof (cases "tu_finalized (turns b ! t) = None")
  case True
  then show ?thesis
    unfolding turn_finalize_open [OF True] snd_conv
    by (intro later_trans [OF later_upd_turn later_upd_slot]) (simp add: turn_later_def)
next
  case False
  then show ?thesis by (simp add: turn_finalize_done)
qed

lemma later_revoke_grant: "later b (revoke_grant t b)"
  by (auto simp: revoke_grant_def Let_def later_def turn_later_def split: option.splits)

lemma later_register: "register_session e draw plan lease policy b = (r, b') \<Longrightarrow> later b b'"
  by (erule register_session_cases) (simp_all add: later_def nth_append)

lemma later_acquire: "turn_acquire_concurrency t b = Inr b' \<Longrightarrow> later b b'"
  by (auto simp: turn_acquire_concurrency_def and_then_Inr intro: later_reservation)

lemma later_denied: "later b (snd (turn_record_denied t b))"
  by (simp add: turn_record_denied_def later_reservation split: prod.splits)

lemma later_take: "later b (snd (receipt_take t b))"
  by (simp add: receipt_take_def later_upd_slot split: prod.splits)

lemma later_append: "later b c \<Longrightarrow> turns c = turns b \<Longrightarrow> later b (c\<lparr>turns := turns b @ us\<rparr>)"
  by (simp add: later_def nth_append)

lemma later_gate:
  "gate_try_acquire p = Some q \<Longrightarrow> session_later p q" "session_later p (gate_guard_drop p)"
  "next_ordinal p = (n, q) \<Longrightarrow> session_later p q"
  by (auto simp: gate_try_acquire_def gate_guard_drop_def next_ordinal_def session_later_def split: if_splits)

lemma later_publish: "mint_publish digest t b = Inr (Some b') \<Longrightarrow> later b b'"
  by (auto simp: mint_publish_def publish_def later_def turn_later_def mark_issued_def split: if_splits)

lemma later_simple:
  "br_now b \<le> n \<Longrightarrow> later b (b\<lparr>br_now := n\<rparr>)" "later b (b\<lparr>br_available := False\<rparr>)"
  "later b (revoke_session i b)" "later b (release_turn_gate t b)" "later b (upd_metrics f b)"
  by (simp_all add: later_def revoke_session_def release_turn_gate_def upd_metrics_def gate_guard_drop_def
      session_later_def)

lemmas later_rules = later_simple later_register later_acquire later_denied later_take later_revoke_grant
  later_finalize later_reserve later_upd_slot later_publish later_upd_session_at later_gate

lemma life_step_later: "life_step e x y \<Longrightarrow> later (lf x) (lf y)"
proof (induction rule: life_step.induct)
  case (session_flag s x)
  show ?case by (simp, rule later_upd_session) (simp add: session_later_def)
next
  case (session_custody s x)
  show ?case by (simp, rule later_upd_session) (simp add: session_later_def)
next
  case (arm_gate_back s x)
  show ?case by (simp, rule later_upd_session) (rule later_gate)
next
  case (arm_turn s x ordinal y deadline)
  then show ?case by (auto intro!: later_append later_upd_session_at intro: later_gate(3))
qed (auto intro: later_rules later_reservation
      simp: turn_settle_usage_def turn_settle_response_bytes_def turn_permit_drop_def)

lemma life_reachable_later: "life_reachable e x y \<Longrightarrow> later (lf x) (lf y)"
  by (induction rule: rtranclp_induct) (auto intro: later_trans life_step_later)

lemma later_dead:
  assumes "later b c" and "t < length (turns b)" and "tu_session (turns b ! t) < length (sessions b)"
    and "check_live t b = Inl Unauthorized"
  shows "check_live t c = Inl Unauthorized"
proof -
  from assms(1-3) have "turn_later (turns b ! t) (turns c ! t)" "br_now b \<le> br_now c"
    and "session_later (session_of b t) (sessions c ! tu_session (turns b ! t))"
    by (auto simp: later_def session_of_def)
  with assms(4) show ?thesis
    by (auto simp: check_live_def is_expired_def turn_later_def session_later_def session_of_def
        split: if_splits)
qed

end
