(* ===== verification/Broker_Methods.thy ===== *)
theory Broker_Methods
  imports Broker_Lifecycle
begin

text \<open>
  The broker's methods against the interleaved semantics: each method of the theory
  \<open>Broker_State\<close> is a sequence of the critical sections of \<open>Broker_Lifecycle\<close>, so every invariant
  proved there holds for concurrent callers of these methods; and the properties of the broker as a
  whole.
\<close>

section \<open>Methods are sequences of critical sections\<close>

lemma step_then: "life_step e x y \<Longrightarrow> life_reachable e y z \<Longrightarrow> life_reachable e x z"
  by (rule converse_rtranclp_into_rtranclp)

lemma slot_begin_armed_ok: "slot_begin_armed sl = Inr sl' \<longleftrightarrow> sl = SlotEmpty \<and> sl' = SlotArmed"
  by (cases sl) auto

lemma arm_turn_ok:
  assumes "arm_turn e s deadline b = (Inr t, b')"
  shows "\<not> se_revoked (sessions b ! s)" "se_slot (sessions b ! s) = SlotEmpty"
    "\<not> se_gate_held (sessions b ! s)" "session_remaining (se_reservations (sessions b ! s)) \<noteq> 0"
    "t = length (turns b)"
    "b' = (upd_session s (\<lambda>p. p\<lparr>se_slot := SlotArmed, se_gate_held := True,
         se_next_ordinal := se_next_ordinal p + 1\<rparr>) b)\<lparr>turns := turns b @
         [turn_inner_new s (se_next_ordinal (sessions b ! s) + 1) (arm_not_after deadline (br_now b)
            (max_capability_lifetime (sp_limits (se_policy (sessions b ! s)))))]\<rparr>"
  using assms
  by (auto simp: arm_turn_def Let_def slot_begin_armed_ok gate_try_acquire_def next_ordinal_def
      upd_session_def split: if_splits sum.splits)

lemma arm_turn_refused:
  assumes "arm_turn e s deadline b = (Inl err, b')" and "s < length (sessions b)"
  shows "b' = b"
  using assms
  by (auto simp: arm_turn_def Let_def slot_begin_armed_ok gate_try_acquire_def next_ordinal_def
      gate_guard_drop_def upd_session_def list_update_id split: if_splits sum.splits
      intro!: broker.equality session.equality nth_equalityI simp: nth_list_update)

lemma arm_turn_steps:
  assumes "arm_turn e s deadline (lf x) = (Inr t, b)" and s: "s < length (sessions (lf x))"
    and idle: "arming x s = Idle"
  shows "life_reachable e x (x\<lparr>lf := b, phase_of := (phase_of x)(t := PAttempt)\<rparr>)"
proof -
  note a = arm_turn_ok [OF assms(1)]
  let ?p = "sessions (lf x) ! s"
  let ?p1 = "?p\<lparr>se_slot := SlotArmed\<rparr>" and ?p2 = "?p\<lparr>se_slot := SlotArmed, se_gate_held := True\<rparr>"
  let ?x1 = "x\<lparr>lf := upd_slot s (\<lambda>_. SlotArmed) (lf x), arming := (arming x)(s := SlotTaken)\<rparr>"
  let ?x2 = "?x1\<lparr>lf := upd_session s (\<lambda>_. ?p2) (lf ?x1), arming := (arming ?x1)(s := GateTaken)\<rparr>"
  have p: "sessions (lf ?x1) ! s = ?p1" "sessions (lf ?x2) ! s = ?p2" using s by simp_all
  have "life_step e x ?x1" using s idle a(2) by (intro life_step.arm_slot) simp_all
  moreover have "life_step e ?x1 ?x2"
    using s a(3) p by (intro life_step.arm_gate) (simp_all add: gate_try_acquire_def)
  moreover have "life_step e ?x2 (x\<lparr>lf := b, phase_of := (phase_of x)(t := PAttempt)\<rparr>)"
  proof -
    have "next_ordinal (sessions (lf ?x2) ! s) =
        (se_next_ordinal ?p + 1, ?p2\<lparr>se_next_ordinal := se_next_ordinal ?p + 1\<rparr>)"
      using p by (simp add: next_ordinal_def)
    from life_step.arm_turn [OF _ _ this, of e deadline] s p a(5,6) idle show ?thesis
      by (simp add: fun_upd_idem upd_slot_def upd_session_def)
  qed
  ultimately show ?thesis by (meson r_into_rtranclp step_then)
qed

lemma mint_loop_ok:
  assumes "mint_loop e draws n t b = Inr (tok, b')"
  obtains raw b1 where "Some raw \<in> set draws" and "tok = encode_token e raw"
    and "mint_publish (token_digest_of (ev_sha256 e) tok) t b = Inr (Some b1)"
    and "b' = upd_slot (tu_session (turns b ! t)) slot_set_access_live b1"
  using assms
proof (induction e draws n t b arbitrary: thesis rule: mint_loop.induct)
  case (4 e raw draws n t b)
  from "4.prems"(2) show ?case
  proof (cases "mint_publish (token_digest_of (ev_sha256 e) (encode_token e raw)) t b")
    case (Inr v)
    show ?thesis
    proof (cases v)
      case None
      with "4.prems" Inr show ?thesis by (auto intro: "4.IH" [OF refl Inr None])
    next
      case (Some b1)
      with "4.prems" Inr show ?thesis by auto
    qed
  qed (simp add: Let_def)
qed simp_all

lemma mint_publish_ok:
  assumes "mint_publish digest t b = Inr (Some b1)"
  shows "\<not> se_revoked (session_of b t)" "\<not> tu_revoked (turns b ! t)" "tu_finalized (turns b ! t) = None"
    "map_of (reg_grants b) digest = None" "b1 = publish digest t b"
  using assms by (auto simp: mint_publish_def split: if_splits)

lemma publish_simps [simp]:
  "sessions (publish d t b) = sessions b" "length (turns (publish d t b)) = length (turns b)"
  "br_now (publish d t b) = br_now b" "reg_grants (publish d t b) = registry_insert d t (reg_grants b)"
  "br_base_url (publish d t b) = br_base_url b"
  by (simp_all add: publish_def)

lemma nth_publish [simp]:
  "i < length (turns b) \<Longrightarrow> turns (publish d t b) ! i = (if i = t then mark_issued d (turns b ! t) else turns b ! i)"
  by (simp add: publish_def)

lemma mint_access_ok:
  assumes "mint_access e draws t b = (Inr (url, tok), b')"
  obtains raw where "Some raw \<in> set draws" and "tok = encode_token e raw"
    and "mint_precheck t b = Inr ()" and "url = br_base_url b"
    and "mint_publish (token_digest_of (ev_sha256 e) tok) t b = Inr (Some (publish (token_digest_of (ev_sha256 e) tok) t b))"
    and "b' = upd_slot (tu_session (turns b ! t)) slot_set_access_live
                (publish (token_digest_of (ev_sha256 e) tok) t b)"
proof -
  from assms have "mint_token e draws t b = Inr (tok, b')" and url: "url = br_base_url b'"
    by (auto simp: mint_access_def split: sum.splits prod.splits)
  then have pre: "mint_precheck t b = Inr ()" and "mint_loop e draws MAX_TOKEN_RETRIES t b = Inr (tok, b')"
    by (auto simp: mint_token_def and_then_Inr)
  then obtain raw b1 where raw: "Some raw \<in> set draws" "tok = encode_token e raw"
    and pub: "mint_publish (token_digest_of (ev_sha256 e) tok) t b = Inr (Some b1)"
    and b': "b' = upd_slot (tu_session (turns b ! t)) slot_set_access_live b1" by (metis mint_loop_ok)
  have b1: "b1 = publish (token_digest_of (ev_sha256 e) tok) t b" by (rule mint_publish_ok(5) [OF pub])
  have "url = br_base_url b" using url by (simp add: b' b1 upd_slot_def)
  from that [OF raw pre this] pub b' show ?thesis by (simp add: b1)
qed

lemma mint_access_steps:
  assumes "mint_access e draws t (lf x) = (Inr (url, tok), b)" and t: "t < length (turns (lf x))"
    and ph: "phase_of x t = PAttempt"
  shows "life_reachable e x (x\<lparr>lf := b, phase_of := (phase_of x)(t := PAccess)\<rparr>)"
proof -
  let ?d = "token_digest_of (ev_sha256 e) tok"
  from assms(1) have pub: "mint_publish ?d t (lf x) = Inr (Some (publish ?d t (lf x)))"
    and b: "b = upd_slot (tu_session (turns (lf x) ! t)) slot_set_access_live (publish ?d t (lf x))"
    by (auto elim: mint_access_ok)
  let ?x1 = "x\<lparr>phase_of := (phase_of x)(t := PMinting)\<rparr>"
  let ?x2 = "?x1\<lparr>lf := publish ?d t (lf x), phase_of := (phase_of ?x1)(t := PPublished)\<rparr>"
  have "life_step e x ?x1" by (rule life_step.mint_begin [OF t ph])
  moreover have "life_step e ?x1 ?x2" using t pub by (intro life_step.mint_grant) simp_all
  moreover have "life_step e ?x2 (x\<lparr>lf := b, phase_of := (phase_of x)(t := PAccess)\<rparr>)"
    using life_step.mint_live [of t ?x2 e] t by (simp add: b mark_issued_def)
  ultimately show ?thesis by (meson r_into_rtranclp step_then)
qed

lemma revoke_grant_simps [simp]:
  "sessions (revoke_grant t b) = sessions b" "length (turns (revoke_grant t b)) = length (turns b)"
  "br_now (revoke_grant t b) = br_now b" "br_available (revoke_grant t b) = br_available b"
  "reg_sessions (revoke_grant t b) = reg_sessions b"
  by (simp_all add: revoke_grant_def Let_def split: option.splits)

lemma nth_revoke_grant [simp]:
  "i < length (turns b) \<Longrightarrow> turns (revoke_grant t b) ! i =
     (if i = t then (turns b ! t)\<lparr>tu_revoked := True\<rparr> else turns b ! i)"
  by (simp add: revoke_grant_def Let_def split: option.splits)

lemma revoke_and_finalize_steps:
  assumes "t < length (turns (lf x))"
  shows "life_reachable e x (x\<lparr>lf := snd (revoke_and_finalize t declared (lf x))\<rparr>)"
proof -
  let ?x1 = "x\<lparr>lf := revoke_grant t (lf x)\<rparr>"
  have "life_step e x ?x1" by (rule life_step.revoke [OF assms])
  moreover have "life_step e ?x1 (?x1\<lparr>lf := snd (turn_finalize t (drop_outcome t declared (lf ?x1)) (lf ?x1))\<rparr>)"
    using assms by (intro life_step.finalize) simp_all
  ultimately show ?thesis by (simp add: revoke_and_finalize_def Let_def)
qed

lemma revoke_and_finalize_finalized:
  assumes "t < length (turns b)"
  shows "tu_finalized (turns (snd (revoke_and_finalize t declared b)) ! t) \<noteq> None"
    and "length (turns (snd (revoke_and_finalize t declared b))) = length (turns b)"
  using turn_finalize_finalized [of t "revoke_grant t b"] assms
  by (simp_all add: revoke_and_finalize_def Let_def)

lemma access_drop_steps:
  assumes t: "t < length (turns (lf x))" and ph: "phase_of x t = PAccess"
  shows "life_reachable e x (x\<lparr>lf := access_drop finished t (lf x), phase_of := (phase_of x)(t := PGone)\<rparr>)"
proof -
  let ?b = "snd (revoke_and_finalize t (if finished then Completed else Revoked) (lf x))"
  let ?x1 = "x\<lparr>lf := ?b\<rparr>" and ?x2 = "x\<lparr>lf := ?b, phase_of := (phase_of x)(t := PClosing)\<rparr>"
  note fin = revoke_and_finalize_finalized [OF t]
  have "life_reachable e x ?x1" by (rule revoke_and_finalize_steps [OF t])
  moreover have "life_step e ?x1 ?x2"
    using life_step.access_closed [of t ?x1 e] fin t ph by simp
  moreover have "life_step e ?x2 (x\<lparr>lf := access_drop finished t (lf x), phase_of := (phase_of x)(t := PGone)\<rparr>)"
    using life_step.gate_release [of t ?x2 e] fin t by (simp add: access_drop_def)
  ultimately show ?thesis by (meson rtranclp.rtrancl_into_rtrancl)
qed

lemma receipt_drop_steps:
  assumes t: "t < length (turns (lf x))"
  shows "life_reachable e x (x\<lparr>lf := receipt_drop t (lf x)\<rparr>)"
proof -
  let ?b = "snd (supervisor_release t (lf x))"
  have r: "life_reachable e x (x\<lparr>lf := ?b\<rparr>) \<and> tu_finalized (turns ?b ! t) \<noteq> None \<and>
      length (turns ?b) = length (turns (lf x))"
  proof (cases "tu_finalized (turns (lf x) ! t) = None")
    case False
    then show ?thesis by (simp add: supervisor_release_def)
  next
    case True
    let ?x1 = "x\<lparr>lf := revoke_grant t (lf x)\<rparr>"
    have "life_step e x ?x1" by (rule life_step.revoke [OF t])
    moreover have "life_step e ?x1 (?x1\<lparr>lf := snd (turn_finalize t SupervisorReleased (lf ?x1))\<rparr>)"
      using t by (intro life_step.finalize) simp_all
    ultimately have "life_reachable e x (x\<lparr>lf := ?b\<rparr>)"
      using True by (simp add: supervisor_release_def)
    with True turn_finalize_finalized [of t "revoke_grant t (lf x)" SupervisorReleased] t show ?thesis
      by (simp add: supervisor_release_def)
  qed
  then have lt: "t < length (turns ?b)" using t by simp
  have "later (lf x) ?b" using r life_reachable_later by fastforce
  then have same: "tu_session (turns ?b ! t) = tu_session (turns (lf x) ! t)"
      "tu_ordinal (turns ?b ! t) = tu_ordinal (turns (lf x) ! t)"
    using t by (auto simp: later_def turn_later_def)
  have "life_step e (x\<lparr>lf := ?b\<rparr>) (x\<lparr>lf := receipt_drop t (lf x)\<rparr>)"
    using life_step.drain [of t "x\<lparr>lf := ?b\<rparr>" e] r lt by (simp add: receipt_drop_def Let_def same)
  with r show ?thesis by (meson rtranclp.rtrancl_into_rtrancl)
qed

lemma session_revoke_steps:
  assumes s: "s < length (sessions (lf x))"
  shows "life_reachable e x (x\<lparr>lf := session_revoke s (lf x), purged := (purged x)(s := True)\<rparr>)"
proof -
  let ?b1 = "upd_session s (\<lambda>y. y\<lparr>se_revoked := True\<rparr>) (lf x)"
  let ?b2 = "upd_session s (\<lambda>y. y\<lparr>se_credential := None\<rparr>) ?b1"
  have "life_step e x (x\<lparr>lf := ?b1\<rparr>)" by (rule life_step.session_flag [OF s])
  moreover have "life_step e (x\<lparr>lf := ?b1\<rparr>) (x\<lparr>lf := ?b2\<rparr>)"
    using life_step.session_custody [of s "x\<lparr>lf := ?b1\<rparr>" e] s by simp
  moreover have "life_step e (x\<lparr>lf := ?b2\<rparr>) (x\<lparr>lf := session_revoke s (lf x), purged := (purged x)(s := True)\<rparr>)"
    using life_step.session_purge [of s "x\<lparr>lf := ?b2\<rparr>" e] s by (simp add: session_revoke_def Let_def)
  ultimately show ?thesis by (meson r_into_rtranclp step_then)
qed

section \<open>Revoking everything\<close>

text \<open>The registry's session table names live objects by their own ids.\<close>

definition reg_ok :: "'d broker \<Rightarrow> bool" where
  "reg_ok b \<longleftrightarrow> (\<forall>p \<in> set (reg_sessions b). snd p < length (sessions b) \<and> se_id (sessions b ! snd p) = fst p)"

lemma reg_ok_later:
  "reg_ok b \<Longrightarrow> later b c \<Longrightarrow> set (reg_sessions c) \<subseteq> set (reg_sessions b) \<Longrightarrow> reg_ok c"
  unfolding reg_ok_def later_def session_later_def by fastforce

lemma reg_ok_register:
  "register_session e draw plan lease policy b = (r, b') \<Longrightarrow> reg_ok b \<Longrightarrow> reg_ok b'"
  by (erule register_session_cases)
     (auto simp: reg_ok_def registry_insert_set nth_append session_inner_new_def)

lemma turn_finalize_reg [simp]:
  "reg_sessions (snd (turn_finalize t outcome b)) = reg_sessions b"
  "reg_grants (snd (turn_finalize t outcome b)) = reg_grants b"
  "br_available (snd (turn_finalize t outcome b)) = br_available b"
  by (cases "tu_finalized (turns b ! t) = None";
      simp add: turn_finalize_open turn_finalize_done upd_slot_def)+

lemma life_step_reg:
  "life_step e x y \<Longrightarrow> set (reg_sessions (lf y)) \<subseteq> set (reg_sessions (lf x)) \<or>
     (\<exists>draw plan lease policy r. register_session e draw plan lease policy (lf x) = (r, lf y))"
proof (induction rule: life_step.induct)
  case (register draw plan lease policy x r b)
  then show ?case by auto
qed (auto simp: revoke_session_def registry_remove_set mint_publish_def release_turn_gate_def receipt_take_def
    turn_reserve_request_def turn_settle_usage_def turn_settle_response_bytes_def turn_permit_drop_def
    turn_record_denied_def turn_acquire_concurrency_def and_then_Inr upd_metrics_def publish_def
    split: if_splits prod.splits)

lemma reg_ok_step:
  assumes "life_step e x y" and "reg_ok (lf x)"
  shows "reg_ok (lf y)"
  using life_step_reg [OF assms(1)] reg_ok_later [OF assms(2) life_step_later [OF assms(1)]]
    reg_ok_register [OF _ assms(2)] by blast

lemma reg_ok_reachable: "life_reachable e x y \<Longrightarrow> reg_ok (lf x) \<Longrightarrow> reg_ok (lf y)"
  by (induction rule: rtranclp_induct) (auto intro: reg_ok_step)

lemma session_revoke_simps [simp]:
  "turns (session_revoke s b) = turns b" "length (sessions (session_revoke s b)) = length (sessions b)"
  "br_available (session_revoke s b) = br_available b"
  "reg_sessions (session_revoke s b) = registry_remove (se_id (sessions b ! s)) (reg_sessions b)"
  by (simp_all add: session_revoke_def revoke_session_def Let_def)

lemma later_session_revoke: "later b (session_revoke s b)"
proof -
  let ?b1 = "upd_session s (\<lambda>y. y\<lparr>se_revoked := True\<rparr>) b"
  let ?b2 = "upd_session s (\<lambda>y. y\<lparr>se_credential := None\<rparr>) ?b1"
  have "later b ?b1" "later ?b1 ?b2"
    by (rule later_upd_session, simp add: session_later_def)+
  moreover have "later ?b2 (session_revoke s b)"
    unfolding session_revoke_def Let_def by (rule later_simple)
  ultimately show ?thesis by (blast intro: later_trans)
qed

lemma later_fold: "(\<And>s b. later b (f s b)) \<Longrightarrow> later b (fold f ss b)"
proof (induction ss arbitrary: b)
  case (Cons s ss)
  then show ?case by (auto intro: later_trans)
qed simp

lemma fold_session_revoke:
  assumes "reg_ok b"
  shows "set (reg_sessions (fold session_revoke ss b)) \<subseteq> {p \<in> set (reg_sessions b). snd p \<notin> set ss} \<and>
    set (reg_grants (fold session_revoke ss b)) \<subseteq> set (reg_grants b) \<and>
    turns (fold session_revoke ss b) = turns b \<and>
    br_available (fold session_revoke ss b) = br_available b"
  using assms
proof (induction ss arbitrary: b)
  case (Cons s ss)
  have ok: "reg_ok (session_revoke s b)"
    using Cons.prems later_session_revoke by (rule reg_ok_later) (auto simp: registry_remove_set)
  have "set (reg_sessions (session_revoke s b)) \<subseteq> {p \<in> set (reg_sessions b). snd p \<noteq> s}"
    using Cons.prems by (auto simp: registry_remove_set reg_ok_def)
  moreover have "set (reg_grants (session_revoke s b)) \<subseteq> set (reg_grants b)"
    by (auto simp: session_revoke_def revoke_session_def Let_def)
  ultimately show ?case using Cons.IH [OF ok] by auto
qed simp

definition grants_named :: "'d broker \<Rightarrow> bool" where
  "grants_named b \<longleftrightarrow> (\<forall>g \<in> set (reg_grants b). snd g < length (turns b) \<and>
     tu_digest (turns b ! snd g) = Some (fst g))"

lemma revoke_grant_grants:
  assumes "grants_named b"
  shows "set (reg_grants (revoke_grant t b)) \<subseteq> {g \<in> set (reg_grants b). snd g \<noteq> t}"
    and "grants_named (revoke_grant t b)"
proof -
  show sub: "set (reg_grants (revoke_grant t b)) \<subseteq> {g \<in> set (reg_grants b). snd g \<noteq> t}"
    using assms by (auto simp: revoke_grant_def grants_named_def registry_remove_set Let_def split: option.splits)
  show "grants_named (revoke_grant t b)"
    unfolding grants_named_def
  proof
    fix g assume "g \<in> set (reg_grants (revoke_grant t b))"
    with sub have "g \<in> set (reg_grants b)" "snd g \<noteq> t" by auto
    with assms show "snd g < length (turns (revoke_grant t b)) \<and>
        tu_digest (turns (revoke_grant t b) ! snd g) = Some (fst g)"
      by (auto simp: grants_named_def)
  qed
qed

lemma fold_revoke_grant:
  assumes "grants_named b"
  shows "set (reg_grants (fold revoke_grant ts b)) \<subseteq> {g \<in> set (reg_grants b). snd g \<notin> set ts}"
  using assms
proof (induction ts arbitrary: b)
  case (Cons t ts)
  from Cons.IH [OF revoke_grant_grants(2) [OF Cons.prems]] revoke_grant_grants(1) [OF Cons.prems, of t]
  show ?case by auto
qed simp

lemma fold_revoke_grant_sessions:
  "reg_sessions (fold revoke_grant ts b) = reg_sessions b" "br_available (fold revoke_grant ts b) = br_available b"
  by (induction ts arbitrary: b) simp_all

lemma revoke_all_clears:
  assumes "reg_ok b" and "grants_named b"
  shows "reg_sessions (revoke_all b) = []" and "reg_grants (revoke_all b) = []"
    and "br_available (revoke_all b) = br_available b"
proof -
  let ?c = "fold session_revoke (map snd (reg_sessions b)) b"
  have c: "set (reg_sessions ?c) \<subseteq> {p \<in> set (reg_sessions b). snd p \<notin> set (map snd (reg_sessions b))}"
    "set (reg_grants ?c) \<subseteq> set (reg_grants b)" "turns ?c = turns b" "br_available ?c = br_available b"
    using fold_session_revoke [OF assms(1), of "map snd (reg_sessions b)"] by simp_all
  have "grants_named ?c" using assms(2) c(2,3) by (auto simp: grants_named_def)
  from fold_revoke_grant [OF this, of "map snd (reg_grants b)"] c(2)
  have "set (reg_grants (revoke_all b)) \<subseteq> {}" unfolding revoke_all_def set_map by blast
  then show "reg_grants (revoke_all b) = []" by simp
  have "set (reg_sessions (revoke_all b)) \<subseteq> {}"
    using c(1) unfolding revoke_all_def fold_revoke_grant_sessions set_map by blast
  then show "reg_sessions (revoke_all b) = []" by simp
  show "br_available (revoke_all b) = br_available b"
    using c(4) by (simp add: revoke_all_def fold_revoke_grant_sessions)
qed

lemma life_inv_grants_named: "life_inv x \<Longrightarrow> grants_named (lf x)"
  by (auto simp: life_inv_def grant_ok_def grants_named_def Let_def)

section \<open>A concrete run\<close>

text \<open>
  One registered session, one armed turn, one minted capability, with an identity hash and a constant
  encoding in place of the third-party functions.
\<close>

definition demo_token :: bytes where
  "demo_token = replicate 43 (CHR ''A'')"

definition demo_env :: "unit broker_env" where
  "demo_env = \<lparr>ev_sha256 = (\<lambda>x. x), ev_base64url = (\<lambda>_. demo_token),
     ev_charge = (\<lambda>p n c d. (Inr (), d)), ev_charged_today = (\<lambda>d p. 0)\<rparr>"

definition demo_plan :: registration_plan where
  "demo_plan = \<lparr>rp_stable_provider_id = ''p'', rp_protocol = OpenAiChatCompletions,
     rp_normalized_endpoint = ''https://u/v1'', rp_allow_insecure_http = False, rp_model_id = ''m'',
     rp_limits = DEFAULT_BROKER_LIMITS\<rparr>"

definition demo_binding :: credential_binding where
  "demo_binding = \<lparr>cb_provider_id = ''p'', cb_protocol = OpenAiChatCompletions,
     cb_normalized_endpoint = ''https://u/v1''\<rparr>"

definition demo_lease :: bound_lease where
  "demo_lease = \<lparr>bl_binding = demo_binding, bl_fingerprint = binding_preimage demo_binding, bl_secret = ''k''\<rparr>"

definition demo_session :: session where
  "demo_session = session_inner_new ''id'' demo_plan demo_lease policy_default"

definition demo_broker :: "unit broker" where
  "demo_broker = \<lparr>br_base_url = ''u'', br_now = 0, br_available = True, br_metrics = metrics_new,
                br_day = (), sessions = [], turns = [], reg_sessions = [], reg_grants = []\<rparr>"

definition demo_turn :: turn where
  "demo_turn = turn_inner_new 0 1 3600000000000"

definition demo_armed :: "unit broker" where
  "demo_armed = demo_broker\<lparr>sessions := [demo_session\<lparr>se_slot := SlotArmed, se_gate_held := True, se_next_ordinal := 1\<rparr>],
     turns := [demo_turn], reg_sessions := [(''id'', 0)]\<rparr>"

definition demo_minted :: "unit broker" where
  "demo_minted = demo_armed\<lparr>sessions := [demo_session\<lparr>se_slot := SlotAccessLive, se_gate_held := True, se_next_ordinal := 1\<rparr>],
     turns := [demo_turn\<lparr>tu_digest := Some (TOKEN_DOMAIN @ demo_token), tu_issued := True\<rparr>],
     reg_grants := [(TOKEN_DOMAIN @ demo_token, 0)]\<rparr>"

lemma demo_new: "broker_new ''u'' 0 () = Inr demo_broker"
  by (simp add: broker_new_def demo_broker_def)

lemma demo_register:
  "register_session demo_env (Some ''id'') demo_plan demo_lease policy_default demo_broker =
     (Inr 0, demo_broker\<lparr>sessions := [demo_session], reg_sessions := [(''id'', 0)]\<rparr>)"
proof -
  have "plan_validate demo_plan = Inr ()"
    by (simp add: plan_validate_def demo_plan_def map_err_Inr limits_validate_iff default_limits_ok)
  moreover have "rp_limits demo_plan = sp_limits (policy_default :: unit session_policy)"
    by (simp add: demo_plan_def policy_default_def)
  moreover have "plan_binding demo_plan = Inr demo_binding"
    by (simp add: plan_binding_def demo_plan_def credential_binding_new_def demo_binding_def)
  moreover have "fingerprint (ev_sha256 demo_env) demo_binding = bl_fingerprint demo_lease"
    by (simp add: fingerprint_def demo_env_def demo_lease_def)
  ultimately show ?thesis
    by (simp add: register_session_def fingerprint_matches_def demo_broker_def registry_insert_def demo_session_def)
qed

lemma demo_arm:
  "arm_turn demo_env 0 None (demo_broker\<lparr>sessions := [demo_session], reg_sessions := [(''id'', 0)]\<rparr>) =
     (Inr 0, demo_armed)"
  by (simp add: arm_turn_def demo_armed_def demo_session_def session_inner_new_def Let_def gate_try_acquire_def
      session_remaining_def session_reservations_new_def policy_default_def saturating_sub_def
      DEFAULT_BROKER_LIMITS_def day_exhausted_def next_ordinal_def upd_session_def demo_turn_def arm_not_after_def
      time_saturating_add_def DURATION_MAX_def demo_broker_def)

lemma mint_loop_first:
  assumes "mint_publish (token_digest_of (ev_sha256 e) (encode_token e raw)) t b = Inr (Some b')"
  shows "mint_loop e (Some raw # draws) MAX_TOKEN_RETRIES t b =
    Inr (encode_token e raw, upd_slot (tu_session (turns b ! t)) slot_set_access_live b')"
proof -
  have n: "MAX_TOKEN_RETRIES = Suc 7" by (simp add: MAX_TOKEN_RETRIES_def)
  show ?thesis unfolding n mint_loop.simps(4) by (simp add: Let_def assms)
qed

lemma demo_mint_any:
  "mint_access demo_env [Some raw] 0 demo_armed = (Inr (''u'', demo_token), demo_minted)"
proof -
  have pub: "mint_publish (token_digest_of (ev_sha256 demo_env) (encode_token demo_env raw)) 0 demo_armed
      = Inr (Some (publish (TOKEN_DOMAIN @ demo_token) 0 demo_armed))"
    by (simp add: mint_publish_def demo_armed_def demo_session_def session_inner_new_def session_of_def
        demo_turn_def turn_inner_new_def demo_broker_def encode_token_def demo_env_def token_digest_of_def)
  have "mint_precheck 0 demo_armed = Inr ()"
    by (simp add: mint_precheck_def demo_armed_def demo_session_def session_inner_new_def session_of_def
        demo_turn_def turn_inner_new_def is_expired_def demo_broker_def)
  then have "mint_access demo_env [Some raw] 0 demo_armed =
      (Inr (''u'', encode_token demo_env raw), upd_slot (tu_session (turns demo_armed ! 0))
         slot_set_access_live (publish (TOKEN_DOMAIN @ demo_token) 0 demo_armed))"
    by (simp add: mint_access_def mint_token_def mint_loop_first [OF pub] upd_slot_def)
       (simp add: demo_armed_def demo_broker_def)
  then show ?thesis
    by (simp add: demo_armed_def demo_session_def session_inner_new_def demo_turn_def turn_inner_new_def
        demo_broker_def encode_token_def demo_env_def publish_def registry_insert_def upd_turn_def
        upd_slot_def upd_session_def mark_issued_def demo_minted_def)
qed

lemma demo_reachable_armed:
  "life_reachable demo_env (life_init demo_broker)
     ((life_init demo_broker)\<lparr>lf := demo_armed, phase_of := (\<lambda>_. PGone)(0 := PAttempt)\<rparr>)"
proof -
  let ?x = "life_init demo_broker" and ?b = "demo_broker\<lparr>sessions := [demo_session], reg_sessions := [(''id'', 0)]\<rparr>"
  have "life_step demo_env ?x (?x\<lparr>lf := ?b\<rparr>)"
    using demo_register by (intro life_step.register) (simp add: life_init_def)
  moreover have "life_reachable demo_env (?x\<lparr>lf := ?b\<rparr>)
      (?x\<lparr>lf := demo_armed, phase_of := (phase_of ?x)(0 := PAttempt)\<rparr>)"
    using arm_turn_steps [of demo_env 0 None "?x\<lparr>lf := ?b\<rparr>" 0 demo_armed] demo_arm
    by (simp add: life_init_def)
  ultimately show ?thesis by (simp add: life_init_def step_then)
qed

lemma demo_reachable_minted:
  "life_reachable demo_env (life_init demo_broker)
     ((life_init demo_broker)\<lparr>lf := demo_minted, phase_of := (\<lambda>_. PGone)(0 := PAccess)\<rparr>)"
proof -
  let ?x = "(life_init demo_broker)\<lparr>lf := demo_armed, phase_of := (\<lambda>_. PGone)(0 := PAttempt)\<rparr>"
  have "life_reachable demo_env ?x (?x\<lparr>lf := demo_minted, phase_of := (phase_of ?x)(0 := PAccess)\<rparr>)"
    by (rule mint_access_steps [where draws = "[Some ''x'']" and url = "''u''" and tok = demo_token])
       (simp_all add: demo_mint_any, simp add: demo_armed_def)
  with demo_reachable_armed show ?thesis by (simp add: rtranclp_trans)
qed

section \<open>Properties\<close>

lemma reachable_inv:
  assumes "broker_new url now d = Inr b" and "life_reachable e (life_init b) x"
  shows "life_inv x" and "reg_ok (lf x)"
proof -
  show "life_inv x" by (rule life_reachable_inv [OF assms(2) life_inv_init [OF assms(1)]])
  have "reg_ok (lf (life_init b))"
    using assms(1) by (auto simp: broker_new_def life_init_def reg_ok_def split: if_splits)
  then show "reg_ok (lf x)" by (rule reg_ok_reachable [OF assms(2)])
qed

abbreviation demo_live :: "unit life" where
  "demo_live \<equiv> (life_init demo_broker)\<lparr>lf := demo_minted, phase_of := (\<lambda>_. PGone)(0 := PAccess)\<rparr>"

text \<open>
  C9. Under every interleaving of the broker's critical sections, the capability registry only ever
  resolves to turns that were published under exactly that digest, are not revoked, have not
  published their ledger, still accept reservations, and belong to a session whose revocation has
  not swept the registry: a mint racing a revocation never strands a grant.
\<close>

theorem registry_holds_only_live_turns:
  assumes "broker_new url now d = Inr b" and "life_reachable e (life_init b) x"
    and "map_of (reg_grants (lf x)) digest = Some t"
  shows "t < length (turns (lf x)) \<and> tu_digest (turns (lf x) ! t) = Some digest \<and>
    tu_issued (turns (lf x) ! t) \<and> \<not> tu_revoked (turns (lf x) ! t) \<and>
    tu_finalized (turns (lf x) ! t) = None \<and> \<not> rs_closed (tu_reservations (turns (lf x) ! t)) \<and>
    \<not> purged x (tu_session (turns (lf x) ! t))"
proof -
  note inv = reachable_inv(1) [OF assms(1,2)]
  have g: "(digest, t) \<in> set (reg_grants (lf x))" using assms(3) by (rule map_of_SomeD)
  from inv grant_turn [OF inv g] show ?thesis by (auto simp: life_inv_def turn_ok_def Let_def)
qed

theorem registry_holds_only_live_turns_witness:
  "map_of (reg_grants (lf demo_live)) (TOKEN_DOMAIN @ demo_token) = Some 0 \<and>
   \<not> tu_revoked (turns (lf demo_live) ! 0)"
proof -
  have "map_of (reg_grants (lf demo_live)) (TOKEN_DOMAIN @ demo_token) = Some 0"
    by (simp add: demo_minted_def)
  with registry_holds_only_live_turns [OF demo_new demo_reachable_minted this] show ?thesis by simp
qed

text \<open>
  C22. At most one turn of a session is open, at most one attempt or access handle of a session is
  alive, and the session's turn gate is held exactly while such a handle exists or a turn is being
  armed; a turn whose handle is gone has published its ledger.
\<close>

theorem one_live_turn_per_session:
  assumes "broker_new url now d = Inr b" and "life_reachable e (life_init b) x"
    and "t < length (turns (lf x))" and "t' < length (turns (lf x))"
    and "tu_session (turns (lf x) ! t) = s" and "tu_session (turns (lf x) ! t') = s"
  shows "(tu_finalized (turns (lf x) ! t) = None \<and> tu_finalized (turns (lf x) ! t') = None \<longrightarrow> t = t') \<and>
    (phase_of x t \<noteq> PGone \<and> phase_of x t' \<noteq> PGone \<longrightarrow> t = t') \<and>
    (phase_of x t \<noteq> PGone \<longrightarrow> se_gate_held (sessions (lf x) ! s)) \<and>
    (phase_of x t = PGone \<longrightarrow> tu_finalized (turns (lf x) ! t) \<noteq> None)"
proof -
  note inv = reachable_inv(1) [OF assms(1,2)]
  have s: "s < length (sessions (lf x))" using turn_session_lt [OF inv assms(3)] assms(5) by simp
  note si = session_inv [OF inv s]
  have "tu_finalized (turns (lf x) ! t) = None \<and> tu_finalized (turns (lf x) ! t') = None \<longrightarrow> t = t'"
    using si(1) assms(3-6) by (auto simp: slot_inv_def at_most_one_def open_turns_def)
  moreover have "phase_of x t \<noteq> PGone \<and> phase_of x t' \<noteq> PGone \<longrightarrow> t = t'"
    using si(2) assms(3-6) by (auto simp: gate_inv_def at_most_one_def holders_def)
  moreover have "phase_of x t \<noteq> PGone \<longrightarrow> t \<in> holders x s" using assms(3,5) by (simp add: holders_def)
  moreover have "phase_of x t = PGone \<longrightarrow> tu_finalized (turns (lf x) ! t) \<noteq> None"
    using inv assms(3) by (auto simp: life_inv_def turn_ok_def Let_def)
  ultimately show ?thesis using si(2) by (auto simp: gate_inv_def)
qed

theorem one_live_turn_per_session_witness:
  "phase_of demo_live 0 = PAccess \<and> se_gate_held (sessions (lf demo_live) ! 0)"
proof -
  have "0 < length (turns (lf demo_live))" "tu_session (turns (lf demo_live) ! 0) = 0"
    by (simp_all add: demo_minted_def demo_turn_def turn_inner_new_def)
  with one_live_turn_per_session [OF demo_new demo_reachable_minted this(1) this(1) this(2) this(2)]
  show ?thesis by simp
qed

text \<open>
  Receipts are exact. Finalizing an open turn always publishes its ledger into the session's slot
  (the slot never already holds another one), the ledger carries the turn's ordinal, the outcome and
  the closed counters, and finalizing again changes nothing; and whatever a receipt takes out of the
  slot is the ledger of a finalized turn of that session with the receipt's own ordinal.
\<close>

theorem receipts_are_exact:
  assumes "broker_new url now d = Inr b" and "life_reachable e (life_init b) x"
    and "t < length (turns (lf x))"
  shows "(tu_finalized (turns (lf x) ! t) = None \<longrightarrow>
      (\<exists>b'. turn_finalize t o1 (lf x) = (Some (ledger_of (turns (lf x) ! t) o1), b') \<and>
         se_slot (session_of b' t) = SlotFinalized (ledger_of (turns (lf x) ! t) o1) \<and>
         rs_closed (tu_reservations (turns b' ! t)) \<and> turn_finalize t o2 b' = (None, b'))) \<and>
    (\<forall>l b'. receipt_take t (lf x) = (Some l, b') \<longrightarrow>
      tl_turn_ordinal l = tu_ordinal (turns (lf x) ! t) \<and>
      (\<exists>t' < length (turns (lf x)). tu_session (turns (lf x) ! t') = tu_session (turns (lf x) ! t) \<and>
         tu_finalized (turns (lf x) ! t') = Some (tl_outcome l) \<and>
         l = ledger_of (turns (lf x) ! t') (tl_outcome l)))"
proof -
  note inv = reachable_inv(1) [OF assms(1,2)]
  let ?s = "tu_session (turns (lf x) ! t)"
  have s: "?s < length (sessions (lf x))" by (rule turn_session_lt [OF inv assms(3)])
  have fin: "\<exists>b'. turn_finalize t o1 (lf x) = (Some (ledger_of (turns (lf x) ! t) o1), b') \<and>
      se_slot (session_of b' t) = SlotFinalized (ledger_of (turns (lf x) ! t) o1) \<and>
      rs_closed (tu_reservations (turns b' ! t)) \<and> turn_finalize t o2 b' = (None, b')"
    if op: "tu_finalized (turns (lf x) ! t) = None"
    using open_turn_slot(1) [OF inv assms(3) op] assms(3) s
    by (auto simp: turn_finalize_open [OF op] session_of_def turn_finalize_done)
  have take: "tl_turn_ordinal l = tu_ordinal (turns (lf x) ! t) \<and> l \<in> ledgers x ?s"
    if "receipt_take t (lf x) = (Some l, b')" for l b'
  proof -
    from that have "se_slot (sessions (lf x) ! ?s) = SlotFinalized l \<and>
        tl_turn_ordinal l = tu_ordinal (turns (lf x) ! t)"
      by (cases "se_slot (sessions (lf x) ! ?s)")
         (auto simp: receipt_take_def session_of_def split: prod.splits if_splits)
    with session_inv(1) [OF inv s] show ?thesis by (auto simp: slot_inv_def)
  qed
  from fin take show ?thesis by (fastforce simp: ledgers_def)
qed

theorem receipts_are_exact_witness:
  "\<exists>b'. turn_finalize 0 Revoked (lf demo_live) = (Some (ledger_of (turns (lf demo_live) ! 0) Revoked), b') \<and>
     se_slot (session_of b' 0) = SlotFinalized (ledger_of (turns (lf demo_live) ! 0) Revoked)"
proof -
  have "0 < length (turns (lf demo_live))" "tu_finalized (turns (lf demo_live) ! 0) = None"
    by (simp_all add: demo_minted_def demo_turn_def turn_inner_new_def)
  with receipts_are_exact [OF demo_new demo_reachable_minted, of 0 Revoked] show ?thesis by blast
qed

text \<open>
  A capability that is revoked, expired or whose session is revoked is dead for good: in every
  later state its liveness check, and with it every lookup and every reservation through it, refuses
  as unauthorized. Traffic never extends a capability.
\<close>

theorem dead_capability_stays_dead:
  assumes "broker_new url now d = Inr b" and "life_reachable e (life_init b) x"
    and "t < length (turns (lf x))" and "check_live t (lf x) = Inl Unauthorized"
    and "life_reachable e x y"
  shows "check_live t (lf y) = Inl Unauthorized \<and>
    fst (lookup_capability e presented (lf y)) \<noteq> Inr t \<and>
    fst (turn_reserve_request e t req (lf y)) = Inl Unauthorized"
proof -
  note inv = reachable_inv(1) [OF assms(1,2)]
  have dead: "check_live t (lf y) = Inl Unauthorized"
    using later_dead [OF life_reachable_later [OF assms(5)] assms(3) turn_session_lt [OF inv assms(3)]] assms(4) .
  then have "fst (lookup_capability e presented (lf y)) \<noteq> Inr t"
    by (auto simp: lookup_capability_def check_live_def split: option.splits prod.splits if_splits)
  moreover have "fst (turn_reserve_request e t req (lf y)) = Inl Unauthorized"
    by (simp add: turn_reserve_request_def try_reserve_def dead split: prod.splits)
  ultimately show ?thesis using dead by simp
qed

theorem dead_capability_stays_dead_witness:
  "check_live 0 (revoke_grant 0 (lf demo_live)) = Inl Unauthorized"
proof -
  let ?x = "demo_live\<lparr>lf := revoke_grant 0 (lf demo_live)\<rparr>"
  have t: "0 < length (turns (lf demo_live))" by (simp add: demo_minted_def)
  have "life_reachable demo_env (life_init demo_broker) ?x"
    using demo_reachable_minted life_step.revoke [OF t] by (rule rtranclp.rtrancl_into_rtrancl)
  moreover have "0 < length (turns (lf ?x))" "check_live 0 (lf ?x) = Inl Unauthorized"
    by (simp_all add: check_live_def demo_minted_def)
  ultimately show ?thesis
    using dead_capability_stays_dead [OF demo_new _ _ _ rtranclp.rtrancl_refl] by auto
qed

text \<open>
  A successful lookup changes nothing and resolves to a live turn that was issued under the
  digest of exactly the presented value; any other presented value is refused as unauthorized.
\<close>

theorem lookup_resolves_only_live:
  assumes "broker_new url now d = Inr b" and "life_reachable e (life_init b) x"
    and "lookup_capability e presented (lf x) = (r, b')"
  shows "(\<forall>t. r = Inr t \<longrightarrow> b' = lf x \<and> is_valid_token_shape presented \<and> check_live t (lf x) = Inr () \<and>
      tu_digest (turns (lf x) ! t) = Some (token_digest_of (ev_sha256 e) presented)) \<and>
    (\<forall>err. r = Inl err \<longrightarrow> err = Unauthorized)"
proof -
  note inv = reachable_inv(1) [OF assms(1,2)]
  have "tu_digest (turns (lf x) ! t) = Some (token_digest_of (ev_sha256 e) presented)"
    if "map_of (reg_grants (lf x)) (token_digest_of (ev_sha256 e) presented) = Some t" for t
    using grant_turn(2) [OF inv map_of_SomeD [OF that]] .
  with assms(3) show ?thesis
    by (auto simp: lookup_capability_def check_live_def split: option.splits prod.splits if_splits)
qed

theorem lookup_resolves_only_live_witness:
  "lookup_capability demo_env demo_token (lf demo_live) = (Inr 0, demo_minted) \<and>
   check_live 0 (lf demo_live) = Inr ()"
proof -
  have "lookup_capability demo_env demo_token (lf demo_live) = (Inr 0, demo_minted)"
    by (simp add: lookup_capability_def demo_minted_def is_valid_token_shape_def demo_token_def TOKEN_CHARS_def
        is_base64url_char_def is_ascii_alphanumeric_def is_ascii_alphabetic_def byte_val_def token_digest_of_def
        demo_env_def demo_turn_def turn_inner_new_def session_of_def demo_session_def session_inner_new_def
        is_expired_def demo_armed_def demo_broker_def list_all_iff)
  with lookup_resolves_only_live [OF demo_new demo_reachable_minted this] show ?thesis by simp
qed

text \<open>
  Round trip of a capability: the token handed out by a successful mint is found by the very next
  lookup, which resolves to the same turn, provided the encoder yields 43 base64url characters for
  32 bytes (as the URL-safe unpadded alphabet does). Before the mint the same token resolved to
  nothing.
\<close>

theorem minted_token_resolves:
  assumes "\<And>raw. length raw = TOKEN_BYTES \<Longrightarrow> is_valid_token_shape (ev_base64url e raw)"
    and "\<And>raw. Some raw \<in> set draws \<Longrightarrow> length raw = TOKEN_BYTES"
    and "mint_access e draws t b = (Inr (url, tok), b')"
    and "t < length (turns b)" and "tu_session (turns b ! t) < length (sessions b)"
  shows "lookup_capability e tok b' = (Inr t, b') \<and> lookup_capability e tok b = (Inl Unauthorized, b) \<and>
    url = br_base_url b"
  using assms(3)
proof (rule mint_access_ok)
  fix raw
  let ?d = "token_digest_of (ev_sha256 e) tok" and ?s = "tu_session (turns b ! t)"
  assume raw: "Some raw \<in> set draws" "tok = encode_token e raw" and url: "url = br_base_url b"
    and pre: "mint_precheck t b = Inr ()"
    and pub: "mint_publish ?d t b = Inr (Some (publish ?d t b))"
    and b': "b' = upd_slot ?s slot_set_access_live (publish ?d t b)"
  note p = mint_publish_ok [OF pub]
  have shape: "is_valid_token_shape tok" using assms(1,2) raw by (simp add: encode_token_def)
  have "session_of b' t = (session_of b t)\<lparr>se_slot := slot_set_access_live (se_slot (session_of b t))\<rparr>"
    using assms(4,5) by (simp add: b' session_of_def mark_issued_def)
  moreover have "\<not> is_expired (turns b ! t) (br_now b)" using pre by (auto simp: mint_precheck_def split: if_splits)
  ultimately have "lookup_capability e tok b' = (Inr t, b')"
    using shape p assms(4) by (simp add: lookup_capability_def b' registry_insert_def mark_issued_def is_expired_def)
  moreover have "lookup_capability e tok b = (Inl Unauthorized, b)"
    using p(4) by (simp add: lookup_capability_def)
  ultimately show ?thesis using url by simp
qed

theorem minted_token_resolves_witness:
  "lookup_capability demo_env demo_token demo_minted = (Inr 0, demo_minted) \<and>
   lookup_capability demo_env demo_token demo_armed = (Inl Unauthorized, demo_armed)"
proof -
  have shape: "is_valid_token_shape (ev_base64url demo_env raw)" for raw
    by (simp add: demo_env_def demo_token_def is_valid_token_shape_def TOKEN_CHARS_def is_base64url_char_def
        is_ascii_alphanumeric_def is_ascii_alphabetic_def byte_val_def list_all_iff)
  have draws: "length raw = TOKEN_BYTES" if "Some raw \<in> set [Some (replicate 32 (CHR ''x''))]" for raw
    using that by (simp add: TOKEN_BYTES_def)
  have lt: "0 < length (turns demo_armed)" "tu_session (turns demo_armed ! 0) < length (sessions demo_armed)"
    by (simp_all add: demo_armed_def demo_turn_def turn_inner_new_def)
  have "mint_access demo_env [Some (replicate 32 (CHR ''x''))] 0 demo_armed = (Inr (''u'', demo_token), demo_minted)"
    by (rule demo_mint_any)
  from minted_token_resolves [OF shape draws this lt] show ?thesis by simp
qed

text \<open>
  A mint that fails leaves nothing behind: no grant is published, the turn is finalized and the
  session's turn gate is free again.
\<close>

theorem failed_mint_leaves_no_capability:
  assumes "mint_access e draws t b = (Inl err, b')" and "t < length (turns b)"
    and "tu_session (turns b ! t) < length (sessions b)"
  shows "reg_grants b' = reg_grants b \<and> tu_finalized (turns b' ! t) \<noteq> None \<and>
    \<not> se_gate_held (sessions b' ! tu_session (turns b ! t))"
proof -
  let ?c = "snd (turn_finalize t NoCapability b)"
  have b': "b' = release_turn_gate t ?c"
    using assms(1) by (auto simp: mint_access_def split: sum.splits prod.splits)
  have "tu_session (turns ?c ! t) = tu_session (turns b ! t)" "length (sessions b) \<le> length (sessions ?c)"
    using later_finalize [of b t NoCapability] assms(2) by (auto simp: later_def turn_later_def)
  then show ?thesis
    using turn_finalize_finalized(1) [OF assms(2), of NoCapability] assms(3)
    by (simp add: b' release_turn_gate_def gate_guard_drop_def)
qed

theorem failed_mint_leaves_no_capability_witness:
  "fst (mint_access demo_env [None] 0 demo_armed) = Inl RandomSourceFailure \<and>
   tu_finalized (turns (snd (mint_access demo_env [None] 0 demo_armed)) ! 0) \<noteq> None"
proof -
  have n: "MAX_TOKEN_RETRIES = Suc 7" by (simp add: MAX_TOKEN_RETRIES_def)
  have "mint_precheck 0 demo_armed = Inr ()"
    by (simp add: mint_precheck_def demo_armed_def demo_session_def session_inner_new_def session_of_def
        demo_turn_def turn_inner_new_def is_expired_def demo_broker_def)
  then have "mint_token demo_env [None] 0 demo_armed = Inl RandomSourceFailure"
    unfolding mint_token_def n mint_loop.simps(3) by simp
  then obtain b' where m: "mint_access demo_env [None] 0 demo_armed = (Inl RandomSourceFailure, b')"
    by (simp add: mint_access_def)
  have "0 < length (turns demo_armed)" "tu_session (turns demo_armed ! 0) < length (sessions demo_armed)"
    by (simp_all add: demo_armed_def demo_turn_def turn_inner_new_def)
  from failed_mint_leaves_no_capability [OF m this] m show ?thesis by simp
qed

text \<open>
  Arming a turn either refuses and changes nothing, or creates exactly one fresh turn with the
  next ordinal whose expiry is no later than the adapter's deadline and than the maximum capability
  lifetime from now.
\<close>

theorem arm_turn_all_or_nothing:
  assumes "s < length (sessions b)" and "arm_turn e s deadline b = (r, b')"
  shows "(\<forall>err. r = Inl err \<longrightarrow> b' = b) \<and>
    (\<forall>t. r = Inr t \<longrightarrow> t = length (turns b) \<and> length (turns b') = Suc t \<and>
       tu_ordinal (turns b' ! t) = se_next_ordinal (sessions b ! s) + 1 \<and>
       tu_not_after (turns b' ! t) \<le> br_now b + max_capability_lifetime (sp_limits (se_policy (sessions b ! s))) \<and>
       (\<forall>dl. deadline = Some dl \<longrightarrow> tu_not_after (turns b' ! t) \<le> dl))"
proof (cases r)
  case (Inl err)
  with assms arm_turn_refused show ?thesis by auto
next
  case (Inr t)
  with assms(2) have "arm_turn e s deadline b = (Inr t, b')" by simp
  note a = arm_turn_ok [OF this]
  show ?thesis using Inr
    by (auto simp: a(5,6) turn_inner_new_def arm_not_after_def time_saturating_add_def nth_append split: option.splits)
qed

theorem arm_turn_all_or_nothing_witness:
  "fst (arm_turn demo_env 0 (Some 7) demo_armed) = Inl TurnAlreadyArmed \<and>
   snd (arm_turn demo_env 0 (Some 7) demo_armed) = demo_armed"
proof -
  have "fst (arm_turn demo_env 0 (Some 7) demo_armed) = Inl TurnAlreadyArmed"
    by (simp add: arm_turn_def demo_armed_def demo_session_def session_inner_new_def)
  moreover have "0 < length (sessions demo_armed)" by (simp add: demo_armed_def)
  ultimately show ?thesis
    using arm_turn_all_or_nothing [of 0 demo_armed demo_env "Some 7"]
    by (cases "arm_turn demo_env 0 (Some 7) demo_armed") auto
qed

text \<open>
  Marking the broker unavailable, in whatever state it is, empties the registry of every session
  and every grant: afterwards no presented token resolves, and every registration is refused without
  adding a session, by the registrar as unavailable.
\<close>

theorem unavailable_broker_is_inert:
  assumes "broker_new url now d = Inr b" and "life_reachable e (life_init b) x"
  shows "reg_sessions (mark_unavailable (lf x)) = [] \<and> reg_grants (mark_unavailable (lf x)) = [] \<and>
    live_session_count (mark_unavailable (lf x)) = 0 \<and>
    fst (lookup_capability e presented (mark_unavailable (lf x))) = Inl Unauthorized \<and>
    (\<exists>err. register_session e draw plan lease policy (mark_unavailable (lf x))
       = (Inl err, mark_unavailable (lf x))) \<and>
    registrar_register_session e draw plan lease policy (mark_unavailable (lf x))
       = (Inl Unavailable, mark_unavailable (lf x))"
proof -
  let ?c = "(lf x)\<lparr>br_available := False\<rparr>"
  have "reg_ok ?c" "grants_named ?c"
    using reachable_inv(2) [OF assms] life_inv_grants_named [OF reachable_inv(1) [OF assms]]
    by (simp_all add: reg_ok_def grants_named_def)
  note r = revoke_all_clears [OF this]
  obtain res b' where reg: "register_session e draw plan lease policy (mark_unavailable (lf x)) = (res, b')"
    by fastforce
  then have "\<exists>err. res = Inl err \<and> b' = mark_unavailable (lf x)"
    by (cases rule: register_session_cases) (auto simp: mark_unavailable_def r(3))
  with r reg show ?thesis
    by (auto simp: mark_unavailable_def live_session_count_def lookup_capability_def registrar_register_session_def)
qed

theorem unavailable_broker_is_inert_witness:
  "fst (lookup_capability demo_env demo_token (mark_unavailable (lf demo_live))) = Inl Unauthorized"
  using unavailable_broker_is_inert [OF demo_new demo_reachable_minted] by blast

text \<open>
  Registration takes custody only of a matching lease: a session is created only for a valid
  plan whose limits equal the policy's and whose binding fingerprint equals the lease's, under an id
  no registered session has; every existing session and registry entry is left as it was. A refused
  registration changes nothing.
\<close>

theorem registration_is_guarded:
  assumes "register_session e draw plan lease policy b = (r, b')"
  shows "(\<forall>err. r = Inl err \<longrightarrow> b' = b) \<and>
    (\<forall>s. r = Inr s \<longrightarrow> br_available b \<and> limits_ok (rp_limits plan) \<and> rp_limits plan = sp_limits policy \<and>
      (\<exists>bd. plan_binding plan = Inr bd \<and> bl_fingerprint lease = fingerprint (ev_sha256 e) bd) \<and>
      s = length (sessions b) \<and> (\<exists>i. draw = Some i \<and> map_of (reg_sessions b) i = None \<and>
        map_of (reg_sessions b') i = Some s \<and> se_id (sessions b' ! s) = i \<and>
        (\<forall>j. j \<noteq> i \<longrightarrow> map_of (reg_sessions b') j = map_of (reg_sessions b) j)) \<and>
      se_credential (sessions b' ! s) = Some lease \<and>
      (\<forall>i < length (sessions b). sessions b' ! i = sessions b ! i) \<and> reg_grants b' = reg_grants b)"
  using assms
proof (cases rule: register_session_cases)
  case (refused err)
  then show ?thesis by simp
next
  case (registered i)
  have "limits_ok (rp_limits plan)"
    using registered(5) by (auto simp: plan_validate_def map_err_Inr limits_validate_iff split: if_splits)
  moreover have "map_of (registry_insert i v m) j = (if j = i then Some v else map_of m j)" for j v m
    unfolding registry_insert_def by (induction m) (auto simp: registry_insert_def)
  ultimately show ?thesis using registered by (auto simp: session_inner_new_def nth_append)
qed

theorem registration_is_guarded_witness:
  "\<exists>b'. register_session demo_env (Some ''id'') demo_plan demo_lease policy_default demo_broker = (Inr 0, b') \<and>
     map_of (reg_sessions b') ''id'' = Some 0"
  using registration_is_guarded [OF demo_register] demo_register by auto

section \<open>A race that wedges a session\<close>

text \<open>
  \<open>set_access_live\<close> acts on the session's slot, not on its own turn's: it moves whatever is armed to
  \<open>AccessLive\<close>. A mint that has published its grant but not yet run it can therefore mark the slot of
  the next turn, when the supervisor drops the receipt and re-arms in between. The arming call then
  finds the gate still held, but \<open>abandon_armed\<close> no longer recognises the slot as its own.
\<close>

definition wedged :: "'d life \<Rightarrow> nat \<Rightarrow> bool" where
  "wedged x s \<longleftrightarrow> s < length (sessions (lf x)) \<and> arming x s = Idle \<and>
     se_slot (sessions (lf x) ! s) = SlotAccessLive \<and>
     (\<forall>t < length (turns (lf x)). tu_session (turns (lf x) ! t) = s \<longrightarrow> tu_finalized (turns (lf x) ! t) \<noteq> None)"

lemma wedgedI:
  assumes "wedged x s" and "later (lf x) (lf y)" and "length (turns (lf y)) = length (turns (lf x))"
    and "arming y s = arming x s" and "se_slot (sessions (lf y) ! s) = se_slot (sessions (lf x) ! s)"
  shows "wedged y s"
  using assms by (auto simp: wedged_def later_def turn_later_def)

lemma wedged_same_core: "wedged x s \<Longrightarrow> same_core x y \<Longrightarrow> later (lf x) (lf y) \<Longrightarrow> wedged y s"
  by (rule wedgedI) (auto simp: same_core_def same_session_def wedged_def)

lemma wedged_step:
  assumes "life_step e x y" and w: "wedged x s"
  shows "wedged y s"
proof -
  note l = life_step_later [OF assms(1)]
  have s: "s < length (sessions (lf x))" "se_slot (sessions (lf x) ! s) = SlotAccessLive"
    "arming x s = Idle" using w by (auto simp: wedged_def)
  note core = wedged_same_core [OF w _ l]
  from assms(1) show ?thesis
  proof cases
    case (register draw plan lease policy r b)
    from register(2) show ?thesis
    proof (cases rule: register_session_cases)
      case (refused err)
      with w register(1) show ?thesis by simp
    next
      case (registered i)
      with s l register(1) show ?thesis by (intro wedgedI [OF w l]) (simp_all add: nth_append)
    qed
  next
    case (arm_turn s' ordinal p deadline)
    with s have "s' \<noteq> s" by auto
    with w arm_turn s show ?thesis
      by (auto simp: wedged_def nth_append turn_inner_new_def less_Suc_eq)
  next
    case (no_capability t)
    then show ?thesis using s w
      by (intro wedgedI [OF w l]) (cases "tu_finalized (turns (lf x) ! t) = None";
          auto simp: turn_finalize_open turn_finalize_done wedged_def)+
  next
    case (finalize t outcome)
    then show ?thesis using s w
      by (intro wedgedI [OF w l]) (cases "tu_finalized (turns (lf x) ! t) = None";
          auto simp: turn_finalize_open turn_finalize_done wedged_def)+
  next
    case (take t)
    with s show ?thesis
      by (intro wedgedI [OF w l])
         (auto simp: receipt_take_def session_of_def split: prod.splits)
  next
    case (reserve t req)
    then show ?thesis by (intro core) (simp add: same_core_reserve)
  next
    case (settle_usage t obs)
    then show ?thesis by (intro core) (simp add: same_core_reservation_steps)
  next
    case (settle_bytes t r n)
    then show ?thesis by (intro core) (simp add: same_core_reservation_steps)
  next
    case (acquire t b)
    then show ?thesis by (intro core) (simp add: same_core_reservation_steps)
  next
    case (permit t)
    then show ?thesis by (intro core) (simp add: same_core_reservation_steps)
  next
    case (denied t)
    then show ?thesis by (intro core) (simp add: same_core_reservation_steps)
  next
    case (metric f)
    then show ?thesis by (intro core) (simp add: same_core_flags)
  qed (use s l in \<open>auto intro!: wedgedI [OF w] simp: revoke_session_def mint_publish_def publish_def
        release_turn_gate_def gate_guard_drop_def gate_try_acquire_def revoke_grant_def Let_def
        split: if_splits option.splits\<close>)
qed

lemma wedged_forever: "life_reachable e x y \<Longrightarrow> wedged x s \<Longrightarrow> wedged y s"
  by (induction rule: rtranclp_induct) (auto intro: wedged_step)

lemma wedged_refuses:
  "wedged x s \<Longrightarrow> fst (arm_turn e s deadline (lf x)) \<in> {Inl TurnAlreadyArmed, Inl SessionRevoked}"
  by (auto simp: wedged_def arm_turn_def Let_def)

text \<open>The concrete race: publish, drop the receipt, re-arm, then run \<open>set_access_live\<close>.\<close>

abbreviation race_digest :: bytes where
  "race_digest \<equiv> TOKEN_DOMAIN @ demo_token"

definition race_published :: "unit broker" where
  "race_published = publish race_digest 0 demo_armed"

definition race_dropped :: "unit broker" where
  "race_dropped = receipt_drop 0 race_published"

definition race_marked :: "unit broker" where
  "race_marked = upd_slot 0 slot_set_access_live (upd_slot 0 (\<lambda>_. SlotArmed) race_dropped)"

definition race_final :: "unit broker" where
  "race_final = access_drop False 0 race_marked"

lemmas race_evals = race_published_def publish_def registry_insert_def upd_turn_def mark_issued_def
  demo_armed_def demo_session_def session_inner_new_def demo_turn_def turn_inner_new_def demo_broker_def

lemma race_dropped_eval:
  "se_slot (sessions race_dropped ! 0) = SlotEmpty" "length (sessions race_dropped) = 1"
  "se_gate_held (sessions race_dropped ! 0)" "\<not> se_revoked (sessions race_dropped ! 0)"
  "length (turns race_dropped) = 1" "tu_session (turns race_dropped ! 0) = 0"
  "tu_finalized (turns race_dropped ! 0) \<noteq> None"
  by (simp_all add: race_dropped_def receipt_drop_def supervisor_release_def race_evals Let_def
      turn_finalize_def revoke_grant_def upd_slot_def upd_session_def close_and_snapshot_def
      build_ledger_def turn_ledger_new_def)

lemma race_marked_eval:
  "se_slot (sessions race_marked ! 0) = SlotAccessLive" "length (sessions race_marked) = 1"
  "se_gate_held (sessions race_marked ! 0)" "\<not> se_revoked (sessions race_marked ! 0)"
  "turns race_marked = turns race_dropped"
  using race_dropped_eval by (simp_all add: race_marked_def)

lemma race_final_eval:
  "se_slot (sessions race_final ! 0) = SlotAccessLive" "length (sessions race_final) = 1"
  "\<not> se_gate_held (sessions race_final ! 0)" "\<not> se_revoked (sessions race_final ! 0)"
  "length (turns race_final) = 1" "tu_finalized (turns race_final ! 0) \<noteq> None"
  using race_marked_eval race_dropped_eval
  by (simp_all add: race_final_def access_drop_def revoke_and_finalize_def Let_def turn_finalize_done
      release_turn_gate_def gate_guard_drop_def)

lemma race_run:
  "life_reachable demo_env (life_init demo_broker) ((life_init demo_broker)\<lparr>lf := race_final\<rparr>)"
proof -
  let ?i = "life_init demo_broker" and ?ph = "\<lambda>p. ((\<lambda>_. PGone)(0 := p)) :: nat \<Rightarrow> phase"
  let ?ar = "\<lambda>a. ((\<lambda>_. Idle)(0 := a)) :: nat \<Rightarrow> arm_stage"
  let ?x = "\<lambda>b p a. \<lparr>lf = b, phase_of = ?ph p, arming = ?ar a, purged = (\<lambda>_. False)\<rparr>"
  have init: "phase_of ?i = (\<lambda>_. PGone)" "arming ?i = (\<lambda>_. Idle)" by (simp_all add: life_init_def)
  have armed: "life_reachable demo_env ?i (?x demo_armed PAttempt Idle)"
  proof -
    have "?ar Idle = (\<lambda>_. Idle)" by auto
    with demo_reachable_armed show ?thesis by (simp add: life_init_def)
  qed
  have a: "length (turns demo_armed) = 1" by (simp add: demo_armed_def)
  have pub: "mint_publish race_digest 0 demo_armed = Inr (Some race_published)"
    by (simp add: mint_publish_def race_evals session_of_def)
  have "life_step demo_env (?x demo_armed PAttempt Idle) (?x demo_armed PMinting Idle)"
    using life_step.mint_begin [of 0 "?x demo_armed PAttempt Idle" demo_env] a by simp
  moreover have "life_step demo_env (?x demo_armed PMinting Idle) (?x race_published PPublished Idle)"
    using life_step.mint_grant [of 0 "?x demo_armed PMinting Idle" race_digest race_published demo_env] a pub
    by simp
  moreover have "life_reachable demo_env (?x race_published PPublished Idle) (?x race_dropped PPublished Idle)"
    using receipt_drop_steps [of 0 "?x race_published PPublished Idle" demo_env] a
    by (simp add: race_dropped_def race_published_def)
  moreover have "life_step demo_env (?x race_dropped PPublished Idle)
      (?x (upd_slot 0 (\<lambda>_. SlotArmed) race_dropped) PPublished SlotTaken)"
    using life_step.arm_slot [of 0 "?x race_dropped PPublished Idle" SlotArmed demo_env] race_dropped_eval by simp
  moreover have "life_step demo_env (?x (upd_slot 0 (\<lambda>_. SlotArmed) race_dropped) PPublished SlotTaken)
      (?x race_marked PAccess SlotTaken)"
    using life_step.mint_live [of 0 "?x (upd_slot 0 (\<lambda>_. SlotArmed) race_dropped) PPublished SlotTaken" demo_env]
      race_dropped_eval by (simp add: race_marked_def)
  moreover have "life_step demo_env (?x race_marked PAccess SlotTaken) (?x race_marked PAccess Abandoning)"
    using life_step.arm_gate_busy [of 0 "?x race_marked PAccess SlotTaken" demo_env] race_marked_eval
    by (simp add: gate_try_acquire_def)
  moreover have "life_step demo_env (?x race_marked PAccess Abandoning) (?x race_marked PAccess Idle)"
  proof -
    have "p\<lparr>se_slot := SlotAccessLive\<rparr> = p" if "se_slot p = SlotAccessLive" for p :: session
      using that by (cases p) simp
    note same = this [OF race_marked_eval(1)]
    have "upd_slot 0 slot_abandon_armed race_marked = race_marked"
      by (simp add: upd_slot_def upd_session_def race_marked_eval(1) same)
    with life_step.arm_abandon [of 0 "?x race_marked PAccess Abandoning" demo_env] race_marked_eval show ?thesis
      by simp
  qed
  moreover have "life_reachable demo_env (?x race_marked PAccess Idle) (?x race_final PGone Idle)"
    using access_drop_steps [of 0 "?x race_marked PAccess Idle" demo_env False] race_marked_eval race_dropped_eval
    by (simp add: race_final_def)
  moreover have "?x race_final PGone Idle = ?i\<lparr>lf := race_final\<rparr>" by (simp add: life_init_def fun_eq_iff)
  ultimately show ?thesis using armed by (metis (no_types, lifting) rtranclp.rtrancl_into_rtrancl rtranclp_trans)
qed

text \<open>
  C40. The race above is possible and never heals: a run of the broker's critical sections ends with a
  session that is not revoked, whose only turn has published its ledger and dropped its handle, whose
  gate is free and whose receiver is idle, and yet in every later state arming a turn is refused
  because a prior receipt is supposedly undrained (or because the session was revoked meanwhile).
\<close>

theorem stale_access_live_wedges_session:
  "\<exists>x. life_reachable demo_env (life_init demo_broker) x \<and>
     \<not> se_revoked (sessions (lf x) ! 0) \<and> \<not> se_gate_held (sessions (lf x) ! 0) \<and> arming x 0 = Idle \<and>
     length (turns (lf x)) = 1 \<and> tu_finalized (turns (lf x) ! 0) \<noteq> None \<and> phase_of x 0 = PGone \<and>
     (\<forall>y deadline. life_reachable demo_env x y \<longrightarrow>
        fst (arm_turn demo_env 0 deadline (lf y)) \<in> {Inl TurnAlreadyArmed, Inl SessionRevoked})"
proof -
  let ?x = "(life_init demo_broker)\<lparr>lf := race_final\<rparr>"
  have "wedged ?x 0"
    using race_final_eval by (simp add: wedged_def) (simp add: life_init_def)
  then have "\<forall>y deadline. life_reachable demo_env ?x y \<longrightarrow>
      fst (arm_turn demo_env 0 deadline (lf y)) \<in> {Inl TurnAlreadyArmed, Inl SessionRevoked}"
    using wedged_forever wedged_refuses by blast
  moreover have "arming ?x 0 = Idle" "phase_of ?x 0 = PGone" by (simp_all add: life_init_def)
  ultimately show ?thesis using race_run race_final_eval by (intro exI [of _ ?x]) simp
qed

theorem stale_access_live_wedges_session_witness:
  "\<exists>x :: unit life. \<not> se_revoked (sessions (lf x) ! 0) \<and> \<not> se_gate_held (sessions (lf x) ! 0) \<and>
     fst (arm_turn demo_env 0 None (lf x)) = Inl TurnAlreadyArmed"
proof -
  from stale_access_live_wedges_session obtain x where
      x: "\<not> se_revoked (sessions (lf x) ! 0)" "\<not> se_gate_held (sessions (lf x) ! 0)"
    and "\<forall>y deadline. life_reachable demo_env x y \<longrightarrow>
        fst (arm_turn demo_env 0 deadline (lf y)) \<in> {Inl TurnAlreadyArmed, Inl SessionRevoked}" by blast
  then have "fst (arm_turn demo_env 0 None (lf x)) \<in> {Inl TurnAlreadyArmed, Inl SessionRevoked}" by blast
  moreover have "fst (arm_turn demo_env 0 None (lf x)) \<noteq> Inl SessionRevoked"
    using x(1) by (cases "se_slot (sessions (lf x) ! 0)")
      (auto simp: arm_turn_def Let_def split: option.splits prod.splits)
  ultimately show ?thesis using x by auto
qed

end
