(* ===== verification/Chunked_Filter.thy ===== *)
theory Chunked_Filter
  imports Prelude
begin

text \<open>
  The contract of a component that is fed the bytes of a response body in whatever chunks the network
  delivers. \<open>chunked_filter\<close> says that feeding a concatenation is feeding its parts in turn; its client
  lemmas say that how the body was cut never matters. The streaming redactor and the usage observer
  interpret it.
\<close>

locale chunked_filter =
  fixes feed :: "'a list \<Rightarrow> 's \<Rightarrow> 'o list \<times> 's" and ready :: "'s \<Rightarrow> bool"
  assumes feed_nil: "ready s \<Longrightarrow> feed [] s = ([], s)"
    and feed_append:
      "ready s \<Longrightarrow> feed xs s = (os, t) \<Longrightarrow> feed ys t = (ps, u) \<Longrightarrow> feed (xs @ ys) s = (os @ ps, u)"
    and feed_ready: "ready s \<Longrightarrow> feed xs s = (os, t) \<Longrightarrow> ready t"
begin

fun feed_all :: "'a list list \<Rightarrow> 's \<Rightarrow> 'o list \<times> 's" where
  "feed_all [] s = ([], s)"
| "feed_all (c # cs) s =
     (case feed c s of (os, t) \<Rightarrow> case feed_all cs t of (ps, u) \<Rightarrow> (os @ ps, u))"

lemma feed_all_concat: "ready s \<Longrightarrow> feed_all cs s = feed (concat cs) s"
proof (induction cs arbitrary: s)
  case Nil
  then show ?case by (simp add: feed_nil)
next
  case (Cons c cs)
  obtain os t where f: "feed c s = (os, t)" by fastforce
  with Cons.prems have t: "ready t" by (blast intro: feed_ready)
  obtain ps u where g: "feed (concat cs) t = (ps, u)" by fastforce
  from feed_append [OF Cons.prems f g] Cons.IH [OF t] f g show ?case by simp
qed

lemma chunking_irrelevant:
  "ready s \<Longrightarrow> concat cs = concat ds \<Longrightarrow> feed_all cs s = feed_all ds s"
  by (simp add: feed_all_concat)

end

end
