(* ===== verification/Redactor.thy ===== *)
theory Redactor
  imports Chunked_Filter Credential
begin

text \<open>
  The streaming exact-byte redactor (\<^verbatim>\<open>crates/provider-broker/src/redact.rs\<close>) and the
  exact-credential test it shares with header forwarding (\<^verbatim>\<open>contains_secret\<close> in
  \<^verbatim>\<open>upstream.rs\<close>). The scan is the source's loop, returning what it emits and the tail it
  retains instead of an index. The reference is the one-shot scan of the whole body.
\<close>

section \<open>Exact occurrence\<close>

definition windows :: "nat \<Rightarrow> 'a list \<Rightarrow> 'a list list" where
  "windows n xs = map (\<lambda>i. take n (drop i xs)) [0 ..< length xs + 1 - n]"

definition contains_secret :: "bytes \<Rightarrow> bytes \<Rightarrow> bool" where
  "contains_secret v secret =
     (if secret = [] \<or> length v < length secret then False
      else list_ex (\<lambda>w. w = secret) (windows (length secret) v))"

lemma contains_secret_iff:
  "contains_secret v secret \<longleftrightarrow> secret \<noteq> [] \<and> (\<exists>p q. v = p @ secret @ q)"
proof (cases "secret = [] \<or> length v < length secret")
  case True
  then show ?thesis by (auto simp: contains_secret_def)
next
  case False
  have "(\<exists>i < length v + 1 - length secret. take (length secret) (drop i v) = secret)
      \<longleftrightarrow> (\<exists>p q. v = p @ secret @ q)" (is "?L \<longleftrightarrow> ?R")
  proof
    assume ?L
    then obtain i where "take (length secret) (drop i v) = secret" by blast
    then have "v = take i v @ secret @ drop (length secret) (drop i v)"
      by (metis append_take_drop_id)
    then show ?R by blast
  next
    assume ?R
    then obtain p q where "v = p @ secret @ q" by blast
    then have "length p < length v + 1 - length secret" "take (length secret) (drop (length p) v) = secret"
      by simp_all
    then show ?L by blast
  qed
  moreover have "list_ex (\<lambda>w. w = secret) (windows (length secret) v) \<longleftrightarrow>
      (\<exists>i < length v + 1 - length secret. take (length secret) (drop i v) = secret)"
    by (auto simp: windows_def list_ex_iff) (metis atLeastLessThan_iff image_eqI le0)
  ultimately show ?thesis using False by (simp add: contains_secret_def)
qed

section \<open>The scan and the redactor\<close>

definition REDACTION_MARKER :: bytes where
  "REDACTION_MARKER = ''[redacted-provider-key]''"

text \<open>
  An empty secret is never scanned (both callers test for it first, and the loop would not advance on
  one); the first equation only makes the definition total.
\<close>

function scan :: "bytes \<Rightarrow> bytes \<Rightarrow> bytes \<Rightarrow> bool \<Rightarrow> bytes \<times> bytes" where
  "scan input secret marker flush =
     (if secret = [] then ([], input)
      else if input = [] then ([], [])
      else if length input \<ge> length secret \<and> take (length secret) input = secret then
        (case scan (drop (length secret) input) secret marker flush of (out, r) \<Rightarrow> (marker @ out, r))
      else if length input < length secret \<and> starts_with secret input \<and> \<not> flush then ([], input)
      else (case scan (tl input) secret marker flush of (out, r) \<Rightarrow> (hd input # out, r)))"
  by pat_completeness auto
termination by (relation "measure (\<lambda>(input, secret, marker, flush). length input)") auto

declare scan.simps [simp del]

record redactor =
  rd_secret :: bytes
  rd_replacement :: bytes
  rd_pending :: bytes
  rd_finished :: bool

definition redactor_new :: "bytes \<Rightarrow> redactor" where
  "redactor_new secret =
     \<lparr>rd_secret = secret,
      rd_replacement = (if contains_secret REDACTION_MARKER secret then ''*'' else REDACTION_MARKER),
      rd_pending = [], rd_finished = False\<rparr>"

definition redactor_drain :: "redactor \<Rightarrow> bytes \<times> redactor" where
  "redactor_drain s =
     (if rd_secret s = [] then (rd_pending s, s\<lparr>rd_pending := []\<rparr>)
      else case scan (rd_pending s) (rd_secret s) (rd_replacement s) False of
             (out, tail) \<Rightarrow> (out, s\<lparr>rd_pending := tail\<rparr>))"

definition redactor_push :: "bytes \<Rightarrow> redactor \<Rightarrow> bytes option \<times> redactor" where
  "redactor_push chunk s =
     (if rd_finished s then (None, s)
      else case redactor_drain (s\<lparr>rd_pending := rd_pending s @ chunk\<rparr>) of (out, s') \<Rightarrow> (Some out, s'))"

definition redactor_finish :: "redactor \<Rightarrow> bytes \<times> redactor" where
  "redactor_finish s =
     (if rd_finished s then ([], s)
      else if rd_secret s = [] then (rd_pending s, s\<lparr>rd_finished := True, rd_pending := []\<rparr>)
      else case scan (rd_pending s) (rd_secret s) (rd_replacement s) True of
             (out, _) \<Rightarrow> (out, s\<lparr>rd_finished := True, rd_pending := []\<rparr>))"

section \<open>Cutting the input\<close>

lemma scan_nil [simp]: "scan [] secret marker flush = ([], [])"
  by (simp add: scan.simps)

lemma scan_match:
  "secret \<noteq> [] \<Longrightarrow> scan (secret @ rest) secret marker flush =
     (case scan rest secret marker flush of (out, r) \<Rightarrow> (marker @ out, r))"
  by (subst scan.simps) auto

lemma scan_hold:
  assumes "input \<noteq> []" and "length input < length secret" and "starts_with secret input"
  shows "scan input secret marker False = ([], input)"
  using assms by (subst scan.simps) auto

lemma scan_emit:
  assumes "secret \<noteq> []" and "\<not> starts_with (c # rest) secret"
    and "flush \<or> \<not> (length (c # rest) < length secret \<and> starts_with secret (c # rest))"
  shows "scan (c # rest) secret marker flush =
    (case scan rest secret marker flush of (out, r) \<Rightarrow> (c # out, r))"
  using assms by (subst scan.simps) (auto simp: starts_with_take)

lemma scan_cases:
  assumes "secret \<noteq> []"
  obtains (empty) "input = []"
  | (match) rest where "input = secret @ rest"
  | (hold) "input \<noteq> []" and "length input < length secret" and "starts_with secret input"
  | (emit) c rest where "input = c # rest" and "\<not> starts_with (c # rest) secret"
    and "\<not> (length (c # rest) < length secret \<and> starts_with secret (c # rest))"
proof (cases input)
  case Nil
  then show ?thesis by (rule empty)
next
  case (Cons c rest)
  show ?thesis
  proof (cases "starts_with input secret")
    case True
    then show ?thesis using match by (auto simp: starts_with_iff)
  next
    case False
    with Cons hold emit show ?thesis by blast
  qed
qed

text \<open>The heart of the redactor: scanning what was retained together with what comes next is the same
  as having scanned everything at once.\<close>

lemma scan_append:
  assumes "secret \<noteq> []" and "scan xs secret marker False = (out1, held)"
    and "scan (held @ ys) secret marker flush = (out2, r)"
  shows "scan (xs @ ys) secret marker flush = (out1 @ out2, r)"
  using assms(2,3)
proof (induction "length xs" arbitrary: xs out1 rule: less_induct)
  case less
  from assms(1) show ?case
  proof (cases rule: scan_cases [where input = xs, consumes 1, case_names empty match hold emit])
    case empty
    with less.prems show ?thesis by simp
  next
    case (match rest)
    obtain o1 where s: "scan rest secret marker False = (o1, held)" "out1 = marker @ o1"
      using less.prems(1) match assms(1) by (auto simp: scan_match split: prod.splits)
    have "length rest < length xs" using match assms(1) by simp
    from less.hyps [OF this s(1) less.prems(2)] s match assms(1) show ?thesis
      by (simp add: scan_match)
  next
    case hold
    with less.prems show ?thesis by (simp add: scan_hold)
  next
    case (emit c rest)
    obtain o1 where s: "scan rest secret marker False = (o1, held)" "out1 = c # o1"
      using less.prems(1) emit assms(1) by (auto simp: scan_emit split: prod.splits)
    have no: "\<not> starts_with (c # rest @ ys) secret"
      "\<not> (length (c # rest @ ys) < length secret \<and> starts_with secret (c # rest @ ys))"
    proof -
      show "\<not> starts_with (c # rest @ ys) secret"
      proof
        assume "starts_with (c # rest @ ys) secret"
        then obtain t where t: "(c # rest) @ ys = secret @ t" by (auto simp: starts_with_iff)
        then obtain u where "c # rest = secret @ u \<or> (c # rest) @ u = secret"
          by (auto simp only: append_eq_append_conv2)
        then show False
        proof
          assume "c # rest = secret @ u"
          then show False using emit(2) by (simp add: starts_with_iff)
        next
          assume u: "(c # rest) @ u = secret"
          then show False using emit(2,3) by (cases u) (auto simp: starts_with_iff)
        qed
      qed
      show "\<not> (length (c # rest @ ys) < length secret \<and> starts_with secret (c # rest @ ys))"
        using emit(3) by (auto simp: starts_with_iff)
    qed
    have "length rest < length xs" using emit by simp
    from less.hyps [OF this s(1) less.prems(2)] s no assms(1) emit(1) show ?thesis
      by (simp add: scan_emit)
  qed
qed

lemma scan_held:
  assumes "secret \<noteq> []" and "scan xs secret marker False = (out, held)"
  shows "length held < length secret \<and> starts_with secret held \<and> scan held secret marker False = ([], held)"
  using assms(2)
proof (induction "length xs" arbitrary: xs out rule: less_induct)
  case less
  from assms(1) show ?case
  proof (cases rule: scan_cases [where input = xs, consumes 1, case_names empty match hold emit])
    case empty
    with less.prems assms(1) show ?thesis by simp
  next
    case (match rest)
    obtain o1 where s: "scan rest secret marker False = (o1, held)"
      using less.prems match assms(1) by (auto simp: scan_match split: prod.splits)
    have "length rest < length xs" using match assms(1) by simp
    from less.hyps [OF this s] show ?thesis .
  next
    case hold
    with less.prems assms(1) show ?thesis by (auto simp: scan_hold)
  next
    case (emit c rest)
    then show ?thesis using less assms(1) by (auto simp: scan_emit split: prod.splits)
  qed
qed

section \<open>The redactor as a chunked filter\<close>

definition redactor_feed :: "bytes \<Rightarrow> redactor \<Rightarrow> bytes \<times> redactor" where
  "redactor_feed chunk s = (case redactor_push chunk s of (r, t) \<Rightarrow> (case r of None \<Rightarrow> [] | Some out \<Rightarrow> out, t))"

definition redactor_ready :: "redactor \<Rightarrow> bool" where
  "redactor_ready s \<longleftrightarrow> \<not> rd_finished s \<and>
     (if rd_secret s = [] then rd_pending s = []
      else scan (rd_pending s) (rd_secret s) (rd_replacement s) False = ([], rd_pending s))"

lemma redactor_feed_open:
  assumes "\<not> rd_finished s" and "rd_secret s \<noteq> []"
  shows "redactor_feed chunk s =
    (case scan (rd_pending s @ chunk) (rd_secret s) (rd_replacement s) False of
       (out, tail) \<Rightarrow> (out, s\<lparr>rd_pending := tail\<rparr>))"
  using assms by (simp add: redactor_feed_def redactor_push_def redactor_drain_def split: prod.splits)

lemma redactor_feed_empty_secret:
  "\<not> rd_finished s \<Longrightarrow> rd_secret s = [] \<Longrightarrow> redactor_feed chunk s = (rd_pending s @ chunk, s\<lparr>rd_pending := []\<rparr>)"
  by (simp add: redactor_feed_def redactor_push_def redactor_drain_def)

lemma redactor_feed_append:
  assumes "redactor_ready s" and "redactor_feed xs s = (os, t)" and "redactor_feed ys t = (ps, u)"
  shows "redactor_feed (xs @ ys) s = (os @ ps, u)"
proof (cases "rd_secret s = []")
  case True
  with assms show ?thesis by (auto simp: redactor_ready_def redactor_feed_empty_secret)
next
  case False
  have nf: "\<not> rd_finished s" using assms(1) by (simp add: redactor_ready_def)
  obtain held where a: "scan (rd_pending s @ xs) (rd_secret s) (rd_replacement s) False = (os, held)"
    "t = s\<lparr>rd_pending := held\<rparr>"
    using assms(2) nf False by (auto simp: redactor_feed_open split: prod.splits)
  obtain held' where b: "scan (held @ ys) (rd_secret s) (rd_replacement s) False = (ps, held')"
    "u = s\<lparr>rd_pending := held'\<rparr>"
    using assms(3) nf False a(2) by (auto simp: redactor_feed_open split: prod.splits)
  from scan_append [OF False a(1) b(1)] b(2) nf False show ?thesis by (simp add: redactor_feed_open)
qed

lemma redactor_feed_ready:
  assumes "redactor_ready s" and "redactor_feed xs s = (os, t)"
  shows "redactor_ready t \<and> rd_secret t = rd_secret s \<and> rd_replacement t = rd_replacement s \<and>
    (rd_secret s \<noteq> [] \<longrightarrow> length (rd_pending t) < length (rd_secret s))"
proof (cases "rd_secret s = []")
  case True
  with assms show ?thesis by (auto simp: redactor_ready_def redactor_feed_empty_secret)
next
  case False
  have nf: "\<not> rd_finished s" using assms(1) by (simp add: redactor_ready_def)
  obtain held where a: "scan (rd_pending s @ xs) (rd_secret s) (rd_replacement s) False = (os, held)"
    "t = s\<lparr>rd_pending := held\<rparr>"
    using assms(2) nf False by (auto simp: redactor_feed_open split: prod.splits)
  from scan_held [OF False a(1)] a(2) nf False show ?thesis by (simp add: redactor_ready_def)
qed

lemma redactor_feed_nil: "redactor_ready s \<Longrightarrow> redactor_feed [] s = ([], s)"
  by (cases "rd_secret s = []") (auto simp: redactor_ready_def redactor_feed_open redactor_feed_empty_secret)

interpretation rdf: chunked_filter redactor_feed redactor_ready
  by unfold_locales (auto simp: redactor_feed_nil redactor_feed_append dest: redactor_feed_ready)

lemma redactor_new_ready: "redactor_ready (redactor_new secret)"
  by (simp add: redactor_ready_def redactor_new_def)

section \<open>What comes out\<close>

text \<open>The reference: the whole body scanned at once.\<close>

definition redact_all :: "bytes \<Rightarrow> bytes \<Rightarrow> bytes" where
  "redact_all secret input =
     (if secret = [] then input
      else fst (scan input secret (rd_replacement (redactor_new secret)) True))"

lemma feed_then_finish:
  assumes "redactor_ready s" and "redactor_feed xs s = (os, t)"
  shows "os @ fst (redactor_finish t) =
    (if rd_secret s = [] then xs
     else fst (scan (rd_pending s @ xs) (rd_secret s) (rd_replacement s) True))"
proof (cases "rd_secret s = []")
  case True
  with assms show ?thesis by (auto simp: redactor_ready_def redactor_feed_empty_secret redactor_finish_def)
next
  case False
  have nf: "\<not> rd_finished s" using assms(1) by (simp add: redactor_ready_def)
  obtain held where a: "scan (rd_pending s @ xs) (rd_secret s) (rd_replacement s) False = (os, held)"
    "t = s\<lparr>rd_pending := held\<rparr>"
    using assms(2) nf False by (auto simp: redactor_feed_open split: prod.splits)
  obtain o2 r where b: "scan held (rd_secret s) (rd_replacement s) True = (o2, r)" by fastforce
  from scan_append [OF False a(1), of "[]"] b a(2) nf False show ?thesis
    by (simp add: redactor_finish_def)
qed

text \<open>
  Why nothing leaks: the replacement begins and ends with a byte no credential has, so an occurrence of
  the secret in the output would lie inside one replacement or inside bytes copied from the input at
  a position the scan would have replaced.
\<close>

lemma copied_prefix:
  assumes "secret \<noteq> []" and "marker \<noteq> []" and "hd marker \<notin> set p"
    and "scan input secret marker True = (out, r)" and "starts_with out p"
  shows "starts_with input p"
  using assms(3-5)
proof (induction "length input" arbitrary: input out p rule: less_induct)
  case less
  show ?case
  proof (cases p)
    case (Cons d ds)
    from assms(1) show ?thesis
    proof (cases rule: scan_cases [where input = input, consumes 1, case_names empty match hold emit])
      case empty
      with less.prems Cons show ?thesis by simp
    next
      case (match rest)
      obtain o1 where "out = marker @ o1"
        using less.prems(2) match assms(1) by (auto simp: scan_match split: prod.splits)
      with less.prems(1,3) Cons assms(2) show ?thesis by (cases marker) auto
    next
      case hold
      then obtain c rest where i: "input = c # rest" by (cases input) auto
      with hold have ns: "\<not> starts_with (c # rest) secret"
        by (metis starts_with_length linorder_not_less)
      obtain o1 where o1: "scan rest secret marker True = (o1, r)" "out = c # o1"
        using less.prems(2) i ns assms(1) by (auto simp: scan_emit split: prod.splits)
      have "length rest < length input" using i by simp
      from less.hyps [OF this _ o1(1)] less.prems(1,3) o1(2) Cons i show ?thesis by simp
    next
      case (emit c rest)
      obtain o1 where o1: "scan rest secret marker True = (o1, r)" "out = c # o1"
        using less.prems(2) emit assms(1) by (auto simp: scan_emit split: prod.splits)
      have "length rest < length input" using emit(1) by simp
      from less.hyps [OF this _ o1(1)] less.prems(1,3) o1(2) Cons emit(1) show ?thesis by simp
    qed
  qed simp
qed

lemma contains_cons: "contains_secret (c # v) s \<longleftrightarrow> s \<noteq> [] \<and> starts_with (c # v) s \<or> contains_secret v s"
proof
  assume "contains_secret (c # v) s"
  then obtain p q where "s \<noteq> []" "c # v = p @ s @ q" by (auto simp: contains_secret_iff)
  then show "s \<noteq> [] \<and> starts_with (c # v) s \<or> contains_secret v s"
    by (cases p) (auto simp: contains_secret_iff starts_with_iff)
next
  assume "s \<noteq> [] \<and> starts_with (c # v) s \<or> contains_secret v s"
  then show "contains_secret (c # v) s"
  proof
    assume "s \<noteq> [] \<and> starts_with (c # v) s"
    then show ?thesis by (auto simp: contains_secret_iff starts_with_iff intro: exI [of _ "[]"])
  next
    assume "contains_secret v s"
    then obtain p q where "s \<noteq> []" "c # v = (c # p) @ s @ q" by (auto simp: contains_secret_iff)
    then show ?thesis unfolding contains_secret_iff by blast
  qed
qed

lemma contains_straddle:
  assumes "a \<noteq> []" and "last a \<notin> set s" and "contains_secret (a @ b) s"
  shows "contains_secret a s \<or> contains_secret b s"
  using assms
proof (induction a)
  case (Cons c a)
  show ?case
  proof (cases "a = []")
    case True
    with Cons.prems show ?thesis
      by (cases s) (auto simp: contains_cons)
  next
    case False
    have "starts_with (c # a) s" if "starts_with (c # a @ b) s"
    proof -
      from that obtain u where "(c # a) @ b = s @ u" by (auto simp: starts_with_iff)
      then obtain w where "c # a = s @ w \<or> (c # a) @ w = s \<and> b = w @ u"
        by (auto simp only: append_eq_append_conv2)
      moreover have "(c # a) @ w \<noteq> s"
      proof
        assume "(c # a) @ w = s"
        then have "last (c # a) \<in> set s" by (metis Un_iff last_in_set list.distinct(1) set_append)
        with Cons.prems(2) show False by simp
      qed
      ultimately show ?thesis by (auto simp: starts_with_iff)
    qed
    with Cons False show ?thesis by (auto simp: contains_cons)
  qed
qed simp

lemma scan_hides:
  assumes "secret \<noteq> []" and "marker \<noteq> []" and "hd marker \<notin> set secret" and "last marker \<notin> set secret"
    and "\<not> contains_secret marker secret" and "scan input secret marker True = (out, r)"
  shows "\<not> contains_secret out secret"
  using assms(6)
proof (induction "length input" arbitrary: input out rule: less_induct)
  case less
  have step: "\<not> contains_secret out secret" if i: "input = c # rest" and ns: "\<not> starts_with (c # rest) secret" for c rest
  proof -
    obtain o1 where o1: "scan rest secret marker True = (o1, r)" "out = c # o1"
      using less.prems i ns assms(1) by (auto simp: scan_emit split: prod.splits)
    have "length rest < length input" using i by simp
    then have "\<not> contains_secret o1 secret" using o1(1) by (rule less.hyps)
    moreover have "\<not> starts_with out secret"
      using copied_prefix [OF assms(1-3) less.prems] i ns by auto
    ultimately show ?thesis by (simp add: o1(2) contains_cons)
  qed
  from assms(1) show ?case
  proof (cases rule: scan_cases [where input = input, consumes 1, case_names empty match hold emit])
    case empty
    with less.prems show ?thesis using assms(1) by (simp add: contains_secret_def)
  next
    case (match rest)
    obtain o1 where o1: "scan rest secret marker True = (o1, r)" "out = marker @ o1"
      using less.prems match assms(1) by (auto simp: scan_match split: prod.splits)
    have "length rest < length input" using match assms(1) by simp
    then have "\<not> contains_secret o1 secret" using o1(1) by (rule less.hyps)
    with contains_straddle [OF assms(2,4)] assms(5) o1(2) show ?thesis by blast
  next
    case hold
    then obtain c rest where i: "input = c # rest" by (cases input) auto
    with hold have "\<not> starts_with (c # rest) secret" by (metis starts_with_length linorder_not_less)
    with i show ?thesis by (rule step)
  next
    case (emit c rest)
    then show ?thesis by (intro step)
  qed
qed

lemma key_chars:
  assumes "validate_api_key_value k = Inr ()" and "c \<in> set k"
  shows "is_b64token_char c \<or> c = CHR ''=''"
proof -
  from assms(1) have "scan_api_key k False False = Inr True"
    by (auto simp: validate_api_key_value_def and_then_Inr split: if_splits)
  then obtain base n where "k = base @ replicate n (CHR ''='')" "list_all is_b64token_char base"
    by (auto simp: scan_base)
  with assms(2) show ?thesis by (auto simp: list_all_iff)
qed

lemma key_not_marker:
  assumes "validate_api_key_value k = Inr ()"
  shows "CHR ''['' \<notin> set k" "CHR '']'' \<notin> set k" "CHR ''*'' \<notin> set k" "k \<noteq> []"
  using key_chars [OF assms, of "CHR ''[''"] key_chars [OF assms, of "CHR '']''"]
    key_chars [OF assms, of "CHR ''*''"] assms
  by (auto simp: is_b64token_char_def is_ascii_alphanumeric_def is_ascii_alphabetic_def is_ascii_digit_def
      byte_val_def validate_api_key_value_def)

lemma redact_all_hides:
  assumes "validate_api_key_value secret = Inr ()"
  shows "\<not> contains_secret (redact_all secret input) secret"
proof -
  note k = key_not_marker [OF assms]
  let ?m = "rd_replacement (redactor_new secret)"
  obtain out r where s: "scan input secret ?m True = (out, r)" by fastforce
  have "?m \<noteq> [] \<and> hd ?m \<notin> set secret \<and> last ?m \<notin> set secret \<and> \<not> contains_secret ?m secret"
  proof (cases "contains_secret REDACTION_MARKER secret")
    case True
    have "\<not> contains_secret ''*'' secret"
      using k(3,4) unfolding contains_cons by (cases secret) (auto simp: contains_secret_def)
    with True k show ?thesis by (simp add: redactor_new_def)
  next
    case False
    with k show ?thesis by (simp add: redactor_new_def) (simp add: REDACTION_MARKER_def)
  qed
  with scan_hides [OF k(4) _ _ _ _ s] k(4) s show ?thesis by (simp add: redact_all_def)
qed

lemma scan_transparent:
  assumes "secret \<noteq> []" and "\<not> contains_secret input secret"
  shows "scan input secret marker True = (input, [])"
  using assms(2)
proof (induction input)
  case (Cons c rest)
  then show ?case using assms(1) by (simp add: contains_cons scan_emit)
qed simp

section \<open>Properties\<close>

text \<open>
  C10. The redactor never lets a validated provider key through, however the network cut the body:
  the concatenation of everything it emits for any chunks, the final flush included, contains no
  occurrence of the key, not even one spliced together by replacements.
\<close>

theorem redactor_never_leaks:
  assumes "validate_api_key_value secret = Inr ()"
    and "rdf.feed_all chunks (redactor_new secret) = (out, s)"
  shows "\<not> contains_secret (out @ fst (redactor_finish s)) secret"
proof -
  have f: "redactor_feed (concat chunks) (redactor_new secret) = (out, s)"
    using assms(2) rdf.feed_all_concat [OF redactor_new_ready] by simp
  have "out @ fst (redactor_finish s) = redact_all secret (concat chunks)"
    using feed_then_finish [OF redactor_new_ready f] key_not_marker(4) [OF assms(1)]
    by (simp add: redact_all_def) (simp add: redactor_new_def)
  with redact_all_hides [OF assms(1)] show ?thesis by simp
qed

text \<open>The key split across two chunks; the marker itself would spell it, so the replacement is a star.\<close>

definition demo_redactor :: "bytes \<Rightarrow> redactor" where
  "demo_redactor held = \<lparr>rd_secret = ''provider'', rd_replacement = ''*'', rd_pending = held, rd_finished = False\<rparr>"

lemma demo_redactor_evals:
  "redactor_new ''provider'' = demo_redactor []"
  "redactor_feed ''x pro'' (demo_redactor []) = (''x '', demo_redactor ''pro'')"
  "redactor_feed ''vider p'' (demo_redactor ''pro'') = (''* '', demo_redactor ''p'')"
  "fst (redactor_finish (demo_redactor ''p'')) = ''p''"
  by code_simp+

lemma demo_redactor_run:
  "rdf.feed_all [''x pro'', ''vider p''] (redactor_new ''provider'') = (''x * '', demo_redactor ''p'')"
  by (simp add: demo_redactor_evals)

theorem redactor_never_leaks_witness:
  "rdf.feed_all [''x pro'', ''vider p''] (redactor_new ''provider'') = (''x * '', demo_redactor ''p'') \<and>
   \<not> contains_secret (''x * '' @ fst (redactor_finish (demo_redactor ''p''))) ''provider''"
proof -
  have "validate_api_key_value ''provider'' = Inr ()" by code_simp
  from redactor_never_leaks [OF this demo_redactor_run] demo_redactor_run show ?thesis by simp
qed

text \<open>
  What the redactor emits does not depend on the chunking: it is the one-shot scan of the whole
  body, in which every leftmost occurrence of the key is replaced; a body without the key passes
  unchanged. Between two chunks it holds back fewer bytes than the key has.
\<close>

theorem redactor_matches_one_shot:
  assumes "secret \<noteq> []" and "rdf.feed_all chunks (redactor_new secret) = (out, s)"
  shows "out @ fst (redactor_finish s) = redact_all secret (concat chunks) \<and>
    length (rd_pending s) < length secret \<and>
    (\<not> contains_secret (concat chunks) secret \<longrightarrow> out @ fst (redactor_finish s) = concat chunks)"
proof -
  have sec: "rd_secret (redactor_new secret) = secret" "rd_pending (redactor_new secret) = []"
    by (simp_all add: redactor_new_def)
  have f: "redactor_feed (concat chunks) (redactor_new secret) = (out, s)"
    using assms(2) rdf.feed_all_concat [OF redactor_new_ready] by simp
  have "out @ fst (redactor_finish s) = redact_all secret (concat chunks)"
    using feed_then_finish [OF redactor_new_ready f] assms(1) by (simp add: redact_all_def sec)
  moreover have "length (rd_pending s) < length secret"
    using redactor_feed_ready [OF redactor_new_ready f] assms(1) by (simp add: sec)
  ultimately show ?thesis using scan_transparent [OF assms(1)] assms(1) by (simp add: redact_all_def)
qed

theorem redactor_matches_one_shot_witness:
  "redact_all ''provider'' ''x provider p'' = ''x * p''"
  using redactor_matches_one_shot [OF _ demo_redactor_run] by (simp add: demo_redactor_evals)

end
