(* ===== verification/Sse_Observer.thy ===== *)
theory Sse_Observer
  imports Chunked_Filter Usage_Ledger Json_Value
begin

text \<open>
  The bounded usage observer (\<^verbatim>\<open>crates/provider-broker/src/sse.rs\<close>). JSON parsing is
  \<^verbatim>\<open>serde_json\<close>'s, so the parsers are parameters: \<open>parse_value\<close> for one event, \<open>parse_body\<close> for
  the typed envelope of a whole body (\<open>None\<close> a parse error, \<open>Some None\<close> no \<open>usage\<close> member, otherwise its
  raw text) and \<open>parse_object\<close> for the raw member.
\<close>

section \<open>Usage fields\<close>

datatype parsed = Absent | Valid u64 | Invalid

fun parsed_is_valid :: "parsed \<Rightarrow> bool" where
  "parsed_is_valid (Valid _) = True"
| "parsed_is_valid _ = False"

fun parsed_value :: "parsed \<Rightarrow> u64 option" where
  "parsed_value (Valid v) = Some v"
| "parsed_value _ = None"

definition field_u64 :: "(string \<times> json) list \<Rightarrow> string \<Rightarrow> parsed" where
  "field_u64 m key =
     (case map_of m key of
        None \<Rightarrow> Absent
      | Some v \<Rightarrow> (case as_u64 v of Some n \<Rightarrow> Valid n | None \<Rightarrow> Invalid))"

definition cached_field :: "(string \<times> json) list \<Rightarrow> parsed" where
  "cached_field usage =
     (case map_of usage ''prompt_tokens_details'' of
        None \<Rightarrow> Absent
      | Some details \<Rightarrow>
          (case as_object details of
             Some d \<Rightarrow> field_u64 d ''cached_tokens''
           | None \<Rightarrow> Invalid))"

definition mark_malformed :: "usage_observation \<Rightarrow> usage_observation" where
  "mark_malformed u = u\<lparr>uo_malformed_events := saturating_add (uo_malformed_events u) 1\<rparr>"

definition invalidate_usage :: "usage_observation \<Rightarrow> usage_observation" where
  "invalidate_usage u =
     observation_default\<lparr>uo_malformed_events := saturating_add (uo_malformed_events u) 1\<rparr>"

definition apply_usage :: "(string \<times> json) list \<Rightarrow> usage_observation \<Rightarrow> usage_observation" where
  "apply_usage usage u =
     (let input = field_u64 usage ''prompt_tokens'';
          output = field_u64 usage ''completion_tokens'';
          tot = field_u64 usage ''total_tokens'';
          cached = cached_field usage
      in if input = Invalid then invalidate_usage u
         else if output = Invalid then invalidate_usage u
         else if tot = Invalid then invalidate_usage u
         else if cached = Invalid then invalidate_usage u
         else u\<lparr>uo_input_tokens := parsed_value input, uo_output_tokens := parsed_value output,
                uo_total_tokens := parsed_value tot, uo_cached_tokens := parsed_value cached,
                uo_complete := parsed_is_valid input \<and> parsed_is_valid output \<and> parsed_is_valid tot,
                uo_inconsistent :=
                  (case (tot, input, output) of
                     (Valid t, Valid i, Valid o1) \<Rightarrow>
                       (case checked_add i o1 of Some s \<Rightarrow> t \<noteq> s | None \<Rightarrow> True)
                   | _ \<Rightarrow> False)\<rparr>)"

section \<open>Lines\<close>

definition MAX_SSE_LINE_BYTES :: nat where
  "MAX_SSE_LINE_BYTES = 64 * 1024"

definition MAX_USAGE_JSON_BYTES :: nat where
  "MAX_USAGE_JSON_BYTES = 4 * 1024"

definition strip_carriage_return :: "bytes \<Rightarrow> bytes" where
  "strip_carriage_return line = (if line \<noteq> [] \<and> byte_val (last line) = 13 then butlast line else line)"

definition trim_ascii_whitespace :: "bytes \<Rightarrow> bytes" where
  "trim_ascii_whitespace b =
     rev (dropWhile is_ascii_whitespace (rev (dropWhile is_ascii_whitespace b)))"

definition strip_prefix :: "bytes \<Rightarrow> bytes \<Rightarrow> bytes option" where
  "strip_prefix p line = (if starts_with line p then Some (drop (length p) line) else None)"

definition observe_line :: "(bytes \<Rightarrow> json option) \<Rightarrow> bytes \<Rightarrow> usage_observation \<Rightarrow> usage_observation" where
  "observe_line parse_value line u =
     (case strip_prefix ''data:'' (strip_carriage_return line) of
        None \<Rightarrow> u
      | Some p \<Rightarrow>
          (let payload = trim_ascii_whitespace p
           in if payload = [] \<or> payload = ''[DONE]'' then u
              else case parse_value payload of
                     None \<Rightarrow> mark_malformed u
                   | Some v \<Rightarrow>
                       (case json_get ''usage'' v of
                          None \<Rightarrow> u
                        | Some usage \<Rightarrow>
                            if usage = JNull then u
                            else (case as_object usage of
                                    Some m \<Rightarrow> apply_usage m u
                                  | None \<Rightarrow> mark_malformed u))))"

record sse_observer =
  so_buffer :: bytes
  so_overflowed :: bool
  so_observation :: usage_observation

definition sse_new :: sse_observer where
  "sse_new = \<lparr>so_buffer = [], so_overflowed = False, so_observation = observation_default\<rparr>"

abbreviation newline :: byte where
  "newline \<equiv> CHR 0x0A"

definition observe_byte :: "(bytes \<Rightarrow> json option) \<Rightarrow> byte \<Rightarrow> sse_observer \<Rightarrow> sse_observer" where
  "observe_byte parse_value c s =
     (if c = newline then
        s\<lparr>so_buffer := [], so_observation := observe_line parse_value (so_buffer s) (so_observation s)\<rparr>
      else if length (so_buffer s) \<ge> MAX_SSE_LINE_BYTES then
        s\<lparr>so_buffer := [], so_overflowed := True, so_observation := mark_malformed (so_observation s)\<rparr>
      else s\<lparr>so_buffer := so_buffer s @ [c]\<rparr>)"

definition observe :: "(bytes \<Rightarrow> json option) \<Rightarrow> bytes \<Rightarrow> sse_observer \<Rightarrow> sse_observer" where
  "observe parse_value chunk s = fold (observe_byte parse_value) chunk s"

definition sse_finish :: "(bytes \<Rightarrow> json option) \<Rightarrow> sse_observer \<Rightarrow> sse_observer" where
  "sse_finish parse_value s =
     (if so_buffer s \<noteq> [] then
        s\<lparr>so_buffer := [], so_observation := observe_line parse_value (so_buffer s) (so_observation s)\<rparr>
      else s)"

text \<open>\<^verbatim>\<open>str::trim\<close> on the raw member: JSON text around \<open>null\<close> can only carry ASCII whitespace.\<close>

definition observe_json ::
  "(bytes \<Rightarrow> bytes option option) \<Rightarrow> (bytes \<Rightarrow> (string \<times> json) list option) \<Rightarrow> bytes \<Rightarrow> sse_observer
     \<Rightarrow> bool \<times> sse_observer" where
  "observe_json parse_body parse_object body s =
     (let bad = s\<lparr>so_observation := mark_malformed (so_observation s)\<rparr> in
      if \<not> starts_with (trim_ascii_whitespace body) ''{'' then (False, bad)
      else case parse_body body of
        None \<Rightarrow> (False, bad)
      | Some None \<Rightarrow> (True, s)
      | Some (Some usage) \<Rightarrow>
          if trim_ascii_whitespace usage = ''null'' then (True, s)
          else if length usage > MAX_USAGE_JSON_BYTES then (True, bad)
          else case parse_object usage of
                 None \<Rightarrow> (True, bad)
               | Some m \<Rightarrow> (True, s\<lparr>so_observation := apply_usage m (so_observation s)\<rparr>))"

section \<open>Observations stay sound\<close>

text \<open>
  A complete observation has all three counts, and it is flagged inconsistent exactly when the total
  is not their sum.
\<close>

definition observation_ok :: "usage_observation \<Rightarrow> bool" where
  "observation_ok u \<longleftrightarrow>
     (uo_complete u \<longleftrightarrow> uo_input_tokens u \<noteq> None \<and> uo_output_tokens u \<noteq> None \<and> uo_total_tokens u \<noteq> None) \<and>
     (uo_inconsistent u \<longleftrightarrow> (\<exists>i o1 t. uo_input_tokens u = Some i \<and> uo_output_tokens u = Some o1 \<and>
        uo_total_tokens u = Some t \<and> unat t \<noteq> unat i + unat o1))"

lemma observation_default_ok [simp]: "observation_ok observation_default"
  by (simp add: observation_ok_def observation_default_def)

lemma mark_malformed_ok [simp]: "observation_ok (mark_malformed u) \<longleftrightarrow> observation_ok u"
  by (simp add: observation_ok_def mark_malformed_def)

lemma invalidate_ok [simp]: "observation_ok (invalidate_usage u)"
  by (simp add: observation_ok_def invalidate_usage_def observation_default_def)

lemma checked_sum_differs:
  "(case checked_add i o1 of Some s \<Rightarrow> t \<noteq> s | None \<Rightarrow> True) \<longleftrightarrow> unat t \<noteq> unat i + unat o1"
proof (cases "checked_add i o1")
  case None
  then have "2 ^ 64 \<le> unat i + unat o1" by (simp only: checked_add_None)
  with unat_bound_u64 [of t] None show ?thesis by auto
next
  case (Some s)
  then have "unat s = unat i + unat o1" by (rule checked_add_Some)
  with Some show ?thesis by (simp add: word_unat_eq_iff)
qed

lemma apply_usage_ok:
  assumes "observation_ok u"
  shows "observation_ok (apply_usage m u)"
proof (cases "Invalid \<in> {field_u64 m ''prompt_tokens'', field_u64 m ''completion_tokens'',
    field_u64 m ''total_tokens'', cached_field m}")
  case True
  then show ?thesis by (auto simp: apply_usage_def Let_def)
next
  case False
  define i where "i = field_u64 m ''prompt_tokens''"
  define o1 where "o1 = field_u64 m ''completion_tokens''"
  define t where "t = field_u64 m ''total_tokens''"
  have v: "i \<noteq> Invalid" "o1 \<noteq> Invalid" "t \<noteq> Invalid" "cached_field m \<noteq> Invalid"
    using False by (auto simp: i_def o1_def t_def)
  have "apply_usage m u = u\<lparr>uo_input_tokens := parsed_value i, uo_output_tokens := parsed_value o1,
      uo_total_tokens := parsed_value t, uo_cached_tokens := parsed_value (cached_field m),
      uo_complete := parsed_is_valid i \<and> parsed_is_valid o1 \<and> parsed_is_valid t,
      uo_inconsistent := (case (t, i, o1) of (Valid t, Valid i, Valid o1) \<Rightarrow>
           (case checked_add i o1 of Some s \<Rightarrow> t \<noteq> s | None \<Rightarrow> True) | _ \<Rightarrow> False)\<rparr>"
    using v by (simp add: apply_usage_def Let_def i_def [symmetric] o1_def [symmetric] t_def [symmetric])
  then show ?thesis using v
    by (cases i; cases o1; cases t) (simp_all add: observation_ok_def checked_sum_differs)
qed

lemma observe_line_ok: "observation_ok u \<Longrightarrow> observation_ok (observe_line pv line u)"
  by (auto simp: observe_line_def Let_def apply_usage_ok split: option.splits)

text \<open>A malformed event is never forgotten.\<close>

lemma saturating_succ_pos: "0 < saturating_add n 1"
  by (simp add: word_less_nat_alt unat_saturating_add)

lemma apply_usage_malformed:
  "0 < uo_malformed_events u \<Longrightarrow> 0 < uo_malformed_events (apply_usage m u)"
  by (simp add: apply_usage_def Let_def invalidate_usage_def saturating_succ_pos)

lemma observe_line_malformed:
  "0 < uo_malformed_events u \<Longrightarrow> 0 < uo_malformed_events (observe_line pv line u)"
  by (auto simp: observe_line_def Let_def mark_malformed_def apply_usage_malformed saturating_succ_pos
      split: option.splits)

definition sse_ok :: "sse_observer \<Rightarrow> bool" where
  "sse_ok s \<longleftrightarrow> length (so_buffer s) \<le> MAX_SSE_LINE_BYTES \<and> observation_ok (so_observation s) \<and>
     (so_overflowed s \<longrightarrow> 0 < uo_malformed_events (so_observation s))"

lemma observe_byte_ok: "sse_ok s \<Longrightarrow> sse_ok (observe_byte pv c s)"
  by (auto simp: sse_ok_def observe_byte_def observe_line_ok observe_line_malformed
      mark_malformed_def [THEN arg_cong [where f = uo_malformed_events]] saturating_succ_pos)

lemma observe_ok: "sse_ok s \<Longrightarrow> sse_ok (observe pv chunk s)"
  unfolding observe_def by (induction chunk arbitrary: s) (auto intro: observe_byte_ok)

lemma sse_new_ok: "sse_ok sse_new"
  by (simp add: sse_ok_def sse_new_def)

lemma sse_finish_ok: "sse_ok s \<Longrightarrow> sse_ok (sse_finish pv s)"
  by (auto simp: sse_ok_def sse_finish_def observe_line_ok observe_line_malformed)

section \<open>The observer as a chunked filter\<close>

definition sse_feed :: "(bytes \<Rightarrow> json option) \<Rightarrow> bytes \<Rightarrow> sse_observer \<Rightarrow> unit list \<times> sse_observer" where
  "sse_feed parse_value chunk s = ([], observe parse_value chunk s)"

interpretation ssf: chunked_filter "sse_feed pv" sse_ok for pv
  by unfold_locales (auto simp: sse_feed_def observe_def intro: observe_ok [unfolded observe_def])

section \<open>The line-by-line reference\<close>

text \<open>The body split at its newlines; a final line without one is a line if it is not empty.\<close>

fun split_lines :: "bytes \<Rightarrow> bytes \<Rightarrow> bytes list" where
  "split_lines acc [] = (if acc = [] then [] else [acc])"
| "split_lines acc (c # cs) = (if c = newline then acc # split_lines [] cs else split_lines (acc @ [c]) cs)"

lemma observe_by_lines:
  assumes "\<forall>l \<in> set (split_lines (so_buffer s) body). length l \<le> MAX_SSE_LINE_BYTES"
  shows "so_observation (sse_finish pv (observe pv body s)) =
      fold (observe_line pv) (split_lines (so_buffer s) body) (so_observation s) \<and>
    so_overflowed (sse_finish pv (observe pv body s)) = so_overflowed s"
  using assms
proof (induction body arbitrary: s)
  case Nil
  then show ?case by (simp add: observe_def sse_finish_def)
next
  case (Cons c body)
  show ?case
  proof (cases "c = newline")
    case True
    then have "observe_byte pv c s =
        s\<lparr>so_buffer := [], so_observation := observe_line pv (so_buffer s) (so_observation s)\<rparr>"
      by (simp add: observe_byte_def)
    with Cons.IH [of "observe_byte pv c s"] Cons.prems True show ?thesis by (simp add: observe_def)
  next
    case False
    have "length (so_buffer s) < MAX_SSE_LINE_BYTES"
    proof -
      have "\<exists>l \<in> set (split_lines acc xs). length acc \<le> length l" if "acc \<noteq> []" for acc xs
        using that
      proof (induction xs arbitrary: acc)
        case (Cons d xs)
        show ?case
        proof (cases "d = newline")
          case False
          from Cons.IH [of "acc @ [d]"] obtain l where "l \<in> set (split_lines (acc @ [d]) xs)"
            "length (acc @ [d]) \<le> length l" by auto
          with False show ?thesis by (intro bexI [of _ l]) simp_all
        qed simp
      qed simp
      from this [of "so_buffer s @ [c]" body] Cons.prems False show ?thesis by fastforce
    qed
    with False have "observe_byte pv c s = s\<lparr>so_buffer := so_buffer s @ [c]\<rparr>"
      by (simp add: observe_byte_def)
    with Cons.IH [of "observe_byte pv c s"] Cons.prems False show ?thesis by (simp add: observe_def)
  qed
qed

section \<open>Properties\<close>

text \<open>
  The usage measured from a stream does not depend on how the network cut it: any two chunkings of
  the same bytes leave the observer in the same state, and if no line exceeds the 64 KiB bound the
  observation is that of reading the body line by line.
\<close>

theorem sse_observation_by_lines:
  assumes "\<forall>l \<in> set (split_lines [] (concat chunks)). length l \<le> MAX_SSE_LINE_BYTES"
  shows "so_observation (sse_finish pv (snd (ssf.feed_all pv chunks sse_new))) =
      fold (observe_line pv) (split_lines [] (concat chunks)) observation_default \<and>
    \<not> so_overflowed (sse_finish pv (snd (ssf.feed_all pv chunks sse_new)))"
proof -
  have "snd (ssf.feed_all pv chunks sse_new) = observe pv (concat chunks) sse_new"
    using ssf.feed_all_concat [OF sse_new_ok, of pv chunks] by (simp add: sse_feed_def)
  with observe_by_lines [of sse_new "concat chunks" pv] assms show ?thesis by (simp add: sse_new_def)
qed

definition demo_parse :: "bytes \<Rightarrow> json option" where
  "demo_parse payload = (if payload = ''U'' then
     Some (JObj [(''usage'', JObj [(''prompt_tokens'', JNum (PosInt 3)),
       (''completion_tokens'', JNum (PosInt 4)), (''total_tokens'', JNum (PosInt 9))])]) else None)"

lemma demo_observed:
  "fold (observe_line demo_parse) [''data: U''] observation_default =
     \<lparr>uo_input_tokens = Some 3, uo_output_tokens = Some 4, uo_cached_tokens = None, uo_total_tokens = Some 9,
      uo_complete = True, uo_inconsistent = True, uo_malformed_events = 0\<rparr>"
  by (simp add: observe_line_def strip_prefix_def strip_carriage_return_def trim_ascii_whitespace_def
      is_ascii_whitespace_def byte_val_def demo_parse_def apply_usage_def field_u64_def cached_field_def
      Let_def checked_add_def observation_default_def)

theorem sse_observation_by_lines_witness:
  "uo_total_tokens (so_observation (sse_finish demo_parse
     (snd (ssf.feed_all demo_parse [''da'', ''ta: U''] sse_new)))) = Some 9"
proof -
  have "split_lines [] (concat [''da'', ''ta: U'']) = [''data: U'']" by simp
  with sse_observation_by_lines [of "[''da'', ''ta: U'']" demo_parse] demo_observed show ?thesis
    by (simp add: MAX_SSE_LINE_BYTES_def)
qed

text \<open>
  The observer is bounded and honest: whatever bytes arrive, its buffer never exceeds 64 KiB; once a
  line overflowed or an event was malformed the usage is unknown for good; a report that counts as
  known is complete, is flagged inconsistent exactly when its total differs from the sum of its
  components, and is settled at no less than either figure.
\<close>

theorem sse_observer_is_sound:
  assumes "sse_finish pv (snd (ssf.feed_all pv chunks sse_new)) = s"
  shows "length (so_buffer s) \<le> MAX_SSE_LINE_BYTES \<and>
    (so_overflowed s \<longrightarrow> is_unknown (so_observation s)) \<and>
    (\<not> is_unknown (so_observation s) \<longrightarrow> (\<exists>i o1 t n.
       uo_input_tokens (so_observation s) = Some i \<and> uo_output_tokens (so_observation s) = Some o1 \<and>
       uo_total_tokens (so_observation s) = Some t \<and> conservative_total (so_observation s) = Some n \<and> t \<le> n \<and>
       (uo_inconsistent (so_observation s) \<longleftrightarrow> unat t \<noteq> unat i + unat o1)))"
proof -
  have "snd (ssf.feed_all pv chunks sse_new) = observe pv (concat chunks) sse_new"
    using ssf.feed_all_concat [OF sse_new_ok, of pv chunks] by (simp add: sse_feed_def)
  then have ok: "sse_ok s" using assms sse_finish_ok observe_ok [OF sse_new_ok] by metis
  have "\<exists>i o1 t n. uo_input_tokens (so_observation s) = Some i \<and> uo_output_tokens (so_observation s) = Some o1 \<and>
      uo_total_tokens (so_observation s) = Some t \<and> conservative_total (so_observation s) = Some n \<and> t \<le> n \<and>
      (uo_inconsistent (so_observation s) \<longleftrightarrow> unat t \<noteq> unat i + unat o1)"
    if "\<not> is_unknown (so_observation s)"
  proof -
    from that ok obtain i o1 t where u: "uo_input_tokens (so_observation s) = Some i"
      "uo_output_tokens (so_observation s) = Some o1" "uo_total_tokens (so_observation s) = Some t"
      "uo_inconsistent (so_observation s) \<longleftrightarrow> unat t \<noteq> unat i + unat o1"
      by (auto simp: is_unknown_def sse_ok_def observation_ok_def)
    then obtain n where "conservative_total (so_observation s) = Some n"
      by (cases "checked_add i o1") (auto simp: conservative_total_def Let_def)
    with conservative_total_ge_total [OF this u(3)] u show ?thesis by blast
  qed
  with ok show ?thesis by (auto simp: sse_ok_def is_unknown_def)
qed

theorem sse_observer_is_sound_witness:
  "uo_inconsistent (so_observation (sse_finish demo_parse
     (snd (ssf.feed_all demo_parse [''data: U''] sse_new)))) \<and>
   \<not> is_unknown (so_observation (sse_finish demo_parse (snd (ssf.feed_all demo_parse [''data: U''] sse_new))))"
proof -
  let ?s = "sse_finish demo_parse (snd (ssf.feed_all demo_parse [''data: U''] sse_new))"
  have s: "?s = sse_finish demo_parse (observe demo_parse ''data: U'' sse_new)"
    using ssf.feed_all_concat [OF sse_new_ok, of demo_parse "[''data: U'']"] by (simp add: sse_feed_def)
  have o1: "so_observation ?s = fold (observe_line demo_parse) [''data: U''] observation_default"
    using observe_by_lines [of sse_new "''data: U''" demo_parse] s
    by (simp add: sse_new_def MAX_SSE_LINE_BYTES_def)
  have k: "\<not> is_unknown (so_observation ?s)" unfolding o1 demo_observed by (simp add: is_unknown_def)
  have "uo_input_tokens (so_observation ?s) = Some 3" "uo_output_tokens (so_observation ?s) = Some 4"
    "uo_total_tokens (so_observation ?s) = Some 9" unfolding o1 demo_observed by simp_all
  with sse_observer_is_sound [OF refl, of demo_parse "[''data: U'']"] k show ?thesis by auto
qed

end
