(* ===== verification/Json_Bounded.thy ===== *)
theory Json_Bounded
  imports Prelude
begin

text \<open>
  The bounded JSON parser of \<^verbatim>\<open>crates/provider-broker/src/schema.rs\<close>. The parser's position in the
  byte slice is the list of bytes still to read, and its value counter is threaded through. A Rust
  \<open>String\<close> is its UTF-8 bytes. \<open>str::from_utf8\<close> is the standard library's, modelled by
  \<open>utf8_valid\<close>. Whether a fractional or exponent literal is a finite double is \<^verbatim>\<open>serde_json\<close>'s
  to say: the parameter \<open>finite_float\<close>.
\<close>

section \<open>Values, errors, limits\<close>

definition MAX_JSON_DEPTH :: nat where "MAX_JSON_DEPTH = 64"
definition MAX_JSON_VALUES :: nat where "MAX_JSON_VALUES = 100000"
definition MAX_STRING_BYTES :: nat where "MAX_STRING_BYTES = 1024 * 1024"

datatype schema_error =
    EmptyBody | TrailingData | UnexpectedEof | UnexpectedToken | InvalidNumber | InvalidEscape
  | InvalidUnicodeEscape | RawControlInString | DepthExceeded | ValueLimitExceeded | StringTooLong
  | DuplicateKey

datatype bjson =
    BNull
  | BBool bool
  | BNumber string
  | BString string
  | BArray "bjson list"
  | BObject "(string \<times> bjson) list"

type_synonym 'a parse = "(schema_error, 'a \<times> bytes \<times> nat) result"

section \<open>UTF-8\<close>

definition is_cont :: "byte \<Rightarrow> bool" where
  "is_cont c \<longleftrightarrow> 0x80 \<le> byte_val c \<and> byte_val c \<le> 0xBF"

text \<open>The width of the well-formed sequence at the head of a byte list, if there is one.\<close>

fun utf8_head :: "bytes \<Rightarrow> nat option" where
  "utf8_head [] = None"
| "utf8_head (a # r) =
     (let v = byte_val a in
      if v < 0x80 then Some 1
      else if 0xC2 \<le> v \<and> v \<le> 0xDF then
        (case r of b # _ \<Rightarrow> if is_cont b then Some 2 else None | [] \<Rightarrow> None)
      else if 0xE0 \<le> v \<and> v \<le> 0xEF then
        (case r of b # c # _ \<Rightarrow>
           if is_cont b \<and> is_cont c \<and> (v = 0xE0 \<longrightarrow> 0xA0 \<le> byte_val b) \<and> (v = 0xED \<longrightarrow> byte_val b \<le> 0x9F)
           then Some 3 else None
         | _ \<Rightarrow> None)
      else if 0xF0 \<le> v \<and> v \<le> 0xF4 then
        (case r of b # c # d # _ \<Rightarrow>
           if is_cont b \<and> is_cont c \<and> is_cont d \<and> (v = 0xF0 \<longrightarrow> 0x90 \<le> byte_val b) \<and>
              (v = 0xF4 \<longrightarrow> byte_val b \<le> 0x8F)
           then Some 4 else None
         | _ \<Rightarrow> None)
      else None)"

lemma utf8_head_pos: "utf8_head bs = Some n \<Longrightarrow> 0 < n"
  by (cases bs) (auto simp: Let_def split: if_splits list.splits)

function utf8_valid :: "bytes \<Rightarrow> bool" where
  "utf8_valid bs =
     (if bs = [] then True
      else case utf8_head bs of None \<Rightarrow> False | Some n \<Rightarrow> utf8_valid (drop n bs))"
  by pat_completeness auto
termination
  by (relation "measure length") (auto dest: utf8_head_pos)

declare utf8_valid.simps [simp del]

definition utf8_width :: "byte \<Rightarrow> nat" where
  "utf8_width lead =
     (let v = byte_val lead in
      if v < 0x80 then 1 else if v div 32 = 6 then 2 else if v div 16 = 14 then 3 else 4)"

text \<open>\<open>String::push\<close> of a code point.\<close>

definition utf8_encode :: "nat \<Rightarrow> bytes" where
  "utf8_encode code =
     map char_of
      (if code < 0x80 then [code]
       else if code < 0x800 then [0xC0 + code div 64, 0x80 + code mod 64]
       else if code < 0x10000 then [0xE0 + code div 4096, 0x80 + code div 64 mod 64, 0x80 + code mod 64]
       else [0xF0 + code div 262144, 0x80 + code div 4096 mod 64, 0x80 + code div 64 mod 64,
             0x80 + code mod 64])"

section \<open>Scalars\<close>

definition is_json_space :: "byte \<Rightarrow> bool" where
  "is_json_space c \<longleftrightarrow> byte_val c \<in> {32, 9, 10, 13}"

definition skip_whitespace :: "bytes \<Rightarrow> bytes" where
  "skip_whitespace r = dropWhile is_json_space r"

fun peek :: "bytes \<Rightarrow> byte option" where
  "peek [] = None"
| "peek (c # _) = Some c"

definition count_value :: "nat \<Rightarrow> (schema_error, nat) result" where
  "count_value n = (if n + 1 > MAX_JSON_VALUES then Inl ValueLimitExceeded else Inr (n + 1))"

definition expect_literal :: "bytes \<Rightarrow> bytes \<Rightarrow> (schema_error, bytes) result" where
  "expect_literal lit r = (if starts_with r lit then Inr (drop (length lit) r) else Inl UnexpectedToken)"

definition hex_nibble :: "byte \<Rightarrow> nat option" where
  "hex_nibble c = (let v = byte_val c in
     if 48 \<le> v \<and> v \<le> 57 then Some (v - 48)
     else if 97 \<le> v \<and> v \<le> 102 then Some (v - 97 + 10)
     else if 65 \<le> v \<and> v \<le> 70 then Some (v - 65 + 10)
     else None)"

fun hex_value :: "bytes \<Rightarrow> nat \<Rightarrow> nat option" where
  "hex_value [] v = Some v"
| "hex_value (c # cs) v = (case hex_nibble c of None \<Rightarrow> None | Some n \<Rightarrow> hex_value cs (v * 16 + n))"

definition parse_hex4 :: "bytes \<Rightarrow> (schema_error, nat \<times> bytes) result" where
  "parse_hex4 r =
     (if 4 > length r then Inl UnexpectedEof
      else case hex_value (take 4 r) 0 of
             None \<Rightarrow> Inl InvalidUnicodeEscape
           | Some v \<Rightarrow> Inr (v, drop 4 r))"

text \<open>After \<open>\u\<close>: a scalar value, or a surrogate pair spelled as two escapes.\<close>

definition parse_unicode_escape :: "bytes \<Rightarrow> (schema_error, nat \<times> bytes) result" where
  "parse_unicode_escape r =
     and_then (parse_hex4 r) (\<lambda>(first, r1).
       if 0xD800 \<le> first \<and> first \<le> 0xDBFF then
         (if peek r1 \<noteq> Some (CHR 0x5C) then Inl InvalidUnicodeEscape
          else if peek (tl r1) \<noteq> Some (CHR ''u'') then Inl InvalidUnicodeEscape
          else and_then (parse_hex4 (tl (tl r1))) (\<lambda>(second, r2).
            if \<not> (0xDC00 \<le> second \<and> second \<le> 0xDFFF) then Inl InvalidUnicodeEscape
            else Inr (0x10000 + (first - 0xD800) * 1024 + (second - 0xDC00), r2)))
       else if 0xDC00 \<le> first \<and> first \<le> 0xDFFF then Inl InvalidUnicodeEscape
       else Inr (first, r1))"

definition parse_escape :: "bytes \<Rightarrow> bytes \<Rightarrow> (schema_error, bytes \<times> bytes) result" where
  "parse_escape r out =
     (case r of
        [] \<Rightarrow> Inl UnexpectedEof
      | c # r1 \<Rightarrow>
          if c = CHR 0x22 then Inr (out @ [CHR 0x22], r1)
          else if c = CHR 0x5C then Inr (out @ [CHR 0x5C], r1)
          else if c = CHR ''/'' then Inr (out @ [CHR ''/''], r1)
          else if c = CHR ''b'' then Inr (out @ [CHR 0x08], r1)
          else if c = CHR ''f'' then Inr (out @ [CHR 0x0C], r1)
          else if c = CHR ''n'' then Inr (out @ [CHR 0x0A], r1)
          else if c = CHR ''r'' then Inr (out @ [CHR 0x0D], r1)
          else if c = CHR ''t'' then Inr (out @ [CHR 0x09], r1)
          else if c = CHR ''u'' then
            and_then (parse_unicode_escape r1) (\<lambda>(code, r2). Inr (out @ utf8_encode code, r2))
          else Inl InvalidEscape)"

lemma parse_hex4_length: "parse_hex4 r = Inr (v, r') \<Longrightarrow> length r' < length r"
  by (auto simp: parse_hex4_def split: if_splits option.splits)

lemma parse_unicode_escape_length: "parse_unicode_escape r = Inr (v, r') \<Longrightarrow> length r' < length r"
  by (auto simp: parse_unicode_escape_def and_then_Inr dest!: parse_hex4_length split: if_splits)

lemma parse_escape_length: "parse_escape r out = Inr (out', r') \<Longrightarrow> length r' < length r"
  by (auto simp: parse_escape_def and_then_Inr dest!: parse_unicode_escape_length
      split: list.splits if_splits)

text \<open>The loop of \<^verbatim>\<open>parse_string\<close>, from just after the opening quote.\<close>

function string_loop :: "bytes \<Rightarrow> bytes \<Rightarrow> (schema_error, bytes \<times> bytes) result" where
  "string_loop [] out = Inl UnexpectedEof"
| "string_loop (c # r) out =
     (if c = CHR 0x22 then Inr (out, r)
      else if c = CHR 0x5C then
        (case parse_escape r out of
           Inl e \<Rightarrow> Inl e
         | Inr (out', r') \<Rightarrow>
             if length out' > MAX_STRING_BYTES then Inl StringTooLong else string_loop r' out')
      else if byte_val c \<le> 0x1F then Inl RawControlInString
      else if utf8_width c > length (c # r) then Inl UnexpectedEof
      else if \<not> utf8_valid (take (utf8_width c) (c # r)) then Inl UnexpectedToken
      else if length (out @ take (utf8_width c) (c # r)) > MAX_STRING_BYTES then Inl StringTooLong
      else string_loop (drop (utf8_width c) (c # r)) (out @ take (utf8_width c) (c # r)))"
  by pat_completeness auto
termination
  by (relation "measure (length \<circ> fst)")
     (auto simp: utf8_width_def Let_def dest!: parse_escape_length)

definition parse_string :: "bytes \<Rightarrow> (schema_error, bytes \<times> bytes) result" where
  "parse_string r = string_loop (tl r) []"

section \<open>Numbers\<close>

text \<open>\<open>str::parse\<close> of the integer types: an optional sign, at least one digit, and a value in range.\<close>

fun digits_value :: "bytes \<Rightarrow> nat \<Rightarrow> nat option" where
  "digits_value [] v = Some v"
| "digits_value (c # cs) v =
     (if is_ascii_digit c then digits_value cs (v * 10 + (byte_val c - 48)) else None)"

definition parse_digits :: "bytes \<Rightarrow> nat option" where
  "parse_digits s = (if s = [] then None else digits_value s 0)"

definition parse_u64 :: "bytes \<Rightarrow> u64 option" where
  "parse_u64 s =
     (case parse_digits (if peek s = Some (CHR ''+'') then tl s else s) of
        None \<Rightarrow> None
      | Some v \<Rightarrow> if v < 2 ^ 64 then Some (of_nat v) else None)"

definition parse_i64 :: "bytes \<Rightarrow> int option" where
  "parse_i64 s =
     (if peek s = Some (CHR ''-'') then
        (case parse_digits (tl s) of
           None \<Rightarrow> None
         | Some v \<Rightarrow> if v \<le> 2 ^ 63 then Some (- int v) else None)
      else
        (case parse_digits (if peek s = Some (CHR ''+'') then tl s else s) of
           None \<Rightarrow> None
         | Some v \<Rightarrow> if v < 2 ^ 63 then Some (int v) else None))"

definition number_round_trips :: "(bytes \<Rightarrow> bool) \<Rightarrow> bytes \<Rightarrow> bool" where
  "number_round_trips finite_float text =
     (let integer_lexeme = \<not> (\<exists>b \<in> set text. b \<in> {CHR ''.'', CHR ''e'', CHR ''E''}) in
      if integer_lexeme then parse_i64 text \<noteq> None \<or> parse_u64 text \<noteq> None
      else finite_float text)"

definition next_is_digit :: "bytes \<Rightarrow> bool" where
  "next_is_digit r = (case r of [] \<Rightarrow> False | c # _ \<Rightarrow> is_ascii_digit c)"

definition number_integer :: "bytes \<Rightarrow> (schema_error, bytes) result" where
  "number_integer r =
     (if peek r = Some (CHR ''0'') then Inr (tl r)
      else if next_is_digit r then Inr (dropWhile is_ascii_digit r)
      else Inl InvalidNumber)"

definition number_fraction :: "bytes \<Rightarrow> (schema_error, bytes) result" where
  "number_fraction r =
     (if peek r = Some (CHR ''.'') then
        (if \<not> next_is_digit (tl r) then Inl InvalidNumber
         else Inr (dropWhile is_ascii_digit (tl r)))
      else Inr r)"

definition number_exponent :: "bytes \<Rightarrow> (schema_error, bytes) result" where
  "number_exponent r =
     (if peek r = Some (CHR ''e'') \<or> peek r = Some (CHR ''E'') then
        (let r1 = tl r;
             r2 = (if peek r1 = Some (CHR ''+'') \<or> peek r1 = Some (CHR ''-'') then tl r1 else r1) in
         if \<not> next_is_digit r2 then Inl InvalidNumber else Inr (dropWhile is_ascii_digit r2))
      else Inr r)"

definition parse_number :: "(bytes \<Rightarrow> bool) \<Rightarrow> bytes \<Rightarrow> (schema_error, bytes \<times> bytes) result" where
  "parse_number finite_float r =
     and_then (number_integer (if peek r = Some (CHR ''-'') then tl r else r)) (\<lambda>r1.
     and_then (number_fraction r1) (\<lambda>r2.
     and_then (number_exponent r2) (\<lambda>r3.
       let text = take (length r - length r3) r in
       if \<not> number_round_trips finite_float text then Inl InvalidNumber else Inr (text, r3))))"

lemma length_dropWhile_digit: "next_is_digit r \<Longrightarrow> length (dropWhile is_ascii_digit r) < length r"
  by (cases r) (auto simp: next_is_digit_def length_dropWhile_le le_imp_less_Suc)

lemma number_integer_length: "number_integer r = Inr r' \<Longrightarrow> length r' < length r"
  using length_dropWhile_digit [of r]
  by (cases r) (auto simp: number_integer_def simp del: dropWhile.simps split: if_splits)

lemma number_fraction_length: "number_fraction r = Inr r' \<Longrightarrow> length r' \<le> length r"
  using length_dropWhile_digit [of "tl r"]
  by (cases r) (auto simp: number_fraction_def split: if_splits)

lemma number_exponent_length: "number_exponent r = Inr r' \<Longrightarrow> length r' \<le> length r"
  using length_dropWhile_le [of is_ascii_digit "tl r"] length_dropWhile_le [of is_ascii_digit "tl (tl r)"]
  by (cases r) (auto simp: number_exponent_def Let_def simp del: dropWhile.simps split: if_splits)

lemma parse_number_length: "parse_number ff r = Inr (t, r') \<Longrightarrow> length r' < length r"
proof -
  assume "parse_number ff r = Inr (t, r')"
  then obtain r1 r2 where
    "number_integer (if peek r = Some (CHR ''-'') then tl r else r) = Inr r1"
    "number_fraction r1 = Inr r2" "number_exponent r2 = Inr r'"
    by (auto simp: parse_number_def and_then_Inr Let_def split: if_splits)
  then show ?thesis
    by (auto dest!: number_integer_length number_fraction_length number_exponent_length
        split: if_splits)
qed

lemma string_loop_length: "string_loop r out = Inr (s, r') \<Longrightarrow> length r' < length r"
  by (induction r out rule: string_loop.induct)
     (fastforce split: if_splits sum.splits dest!: parse_escape_length)+

lemma parse_string_length: "parse_string r = Inr (s, r') \<Longrightarrow> r \<noteq> [] \<Longrightarrow> length r' + 1 < length r"
  by (cases r) (auto simp: parse_string_def dest: string_loop_length)

section \<open>The recursive descent\<close>

lemma length_skip_whitespace: "length (skip_whitespace r) \<le> length r"
  by (simp add: skip_whitespace_def length_dropWhile_le)

lemma expect_literal_length:
  "expect_literal lit r = Inr r' \<Longrightarrow> lit \<noteq> [] \<Longrightarrow> length r' < length r"
  by (cases lit) (auto simp: expect_literal_def dest: starts_with_length split: if_splits)

text \<open>The arms of \<^verbatim>\<open>parse_value\<close> for strings, literals and numbers.\<close>

definition parse_scalar :: "(bytes \<Rightarrow> bool) \<Rightarrow> bytes \<Rightarrow> nat \<Rightarrow> bjson parse" where
  "parse_scalar ff r n =
     (if peek r = Some (CHR 0x22) then
        and_then (count_value n) (\<lambda>n1. and_then (parse_string r) (\<lambda>(s, r1). Inr (BString s, r1, n1)))
      else if peek r = Some (CHR ''t'') then
        and_then (expect_literal ''true'' r) (\<lambda>r1. and_then (count_value n) (\<lambda>n1. Inr (BBool True, r1, n1)))
      else if peek r = Some (CHR ''f'') then
        and_then (expect_literal ''false'' r) (\<lambda>r1. and_then (count_value n) (\<lambda>n1. Inr (BBool False, r1, n1)))
      else if peek r = Some (CHR ''n'') then
        and_then (expect_literal ''null'' r) (\<lambda>r1. and_then (count_value n) (\<lambda>n1. Inr (BNull, r1, n1)))
      else if peek r = Some (CHR ''-'') \<or> next_is_digit r then
        and_then (count_value n) (\<lambda>n1. and_then (parse_number ff r) (\<lambda>(t, r1). Inr (BNumber t, r1, n1)))
      else Inl UnexpectedToken)"

lemma parse_scalar_length: "parse_scalar ff r n = Inr (v, r', n') \<Longrightarrow> length r' < length r"
  by (auto simp: parse_scalar_def and_then_Inr split: if_splits
      dest!: expect_literal_length parse_number_length parse_string_length)

text \<open>
  \<open>parse_object\<close> and \<open>parse_array\<close> with their loops; \<open>entries\<close>, \<open>seen\<close> and \<open>items\<close> are the loops'
  locals. A value at depth \<open>d\<close> opens a container at \<open>d + 1\<close>, whose members are values at \<open>d + 1\<close>.
\<close>

function (sequential)
      parse_value :: "(bytes \<Rightarrow> bool) \<Rightarrow> nat \<Rightarrow> bytes \<Rightarrow> nat \<Rightarrow> bjson parse"
  and parse_object :: "(bytes \<Rightarrow> bool) \<Rightarrow> nat \<Rightarrow> bytes \<Rightarrow> nat \<Rightarrow> bjson parse"
  and object_loop :: "(bytes \<Rightarrow> bool) \<Rightarrow> nat \<Rightarrow> bytes \<Rightarrow> nat \<Rightarrow> (string \<times> bjson) list \<Rightarrow> string set \<Rightarrow> bjson parse"
  and parse_array :: "(bytes \<Rightarrow> bool) \<Rightarrow> nat \<Rightarrow> bytes \<Rightarrow> nat \<Rightarrow> bjson parse"
  and array_loop :: "(bytes \<Rightarrow> bool) \<Rightarrow> nat \<Rightarrow> bytes \<Rightarrow> nat \<Rightarrow> bjson list \<Rightarrow> bjson parse"
where
  "parse_value ff depth r n =
     (if depth > MAX_JSON_DEPTH then Inl DepthExceeded
      else
        let r0 = skip_whitespace r in
        case r0 of
          [] \<Rightarrow> Inl UnexpectedEof
        | c # _ \<Rightarrow>
            if c = CHR ''{'' then parse_object ff (depth + 1) r0 n
            else if c = CHR ''['' then parse_array ff (depth + 1) r0 n
            else parse_scalar ff r0 n)"
| "parse_object ff depth r n =
     (if depth > MAX_JSON_DEPTH then Inl DepthExceeded
      else case count_value n of
          Inl e \<Rightarrow> Inl e
        | Inr n1 \<Rightarrow>
            let r1 = skip_whitespace (tl r) in
            if peek r1 = Some (CHR ''}'') then Inr (BObject [], tl r1, n1)
            else object_loop ff depth r1 n1 [] {})"
| "object_loop ff depth r n entries seen =
     (let r0 = skip_whitespace r in
      if peek r0 \<noteq> Some (CHR 0x22) then Inl UnexpectedToken
      else case parse_string r0 of
          Inl e \<Rightarrow> Inl e
        | Inr (key, r1) \<Rightarrow>
            if key \<in> seen then Inl DuplicateKey
            else
              let r2 = skip_whitespace r1 in
              if peek r2 \<noteq> Some (CHR '':'') then Inl UnexpectedToken
              else case parse_value ff depth (tl r2) n of
                  Inl e \<Rightarrow> Inl e
                | Inr (v, r3, n1) \<Rightarrow>
                    let r4 = skip_whitespace r3 in
                    if peek r4 = Some (CHR '','') then
                      object_loop ff depth (tl r4) n1 (entries @ [(key, v)]) (insert key seen)
                    else if peek r4 = Some (CHR ''}'') then Inr (BObject (entries @ [(key, v)]), tl r4, n1)
                    else Inl UnexpectedToken)"
| "parse_array ff depth r n =
     (if depth > MAX_JSON_DEPTH then Inl DepthExceeded
      else case count_value n of
          Inl e \<Rightarrow> Inl e
        | Inr n1 \<Rightarrow>
            let r1 = skip_whitespace (tl r) in
            if peek r1 = Some (CHR '']'') then Inr (BArray [], tl r1, n1)
            else array_loop ff depth r1 n1 [])"
| "array_loop ff depth r n items =
     (case parse_value ff depth r n of
        Inl e \<Rightarrow> Inl e
      | Inr (v, r1, n1) \<Rightarrow>
          let r2 = skip_whitespace r1 in
          if peek r2 = Some (CHR '','') then array_loop ff depth (tl r2) n1 (items @ [v])
          else if peek r2 = Some (CHR '']'') then Inr (BArray (items @ [v]), tl r2, n1)
          else Inl UnexpectedToken)"
  by pat_completeness auto

text \<open>Every branch that returns a value has consumed at least one byte, so the descent ends.\<close>

lemmas skip_tl_length = le_less_trans [OF length_skip_whitespace]

lemma peek_Some_length: "peek r = Some c \<Longrightarrow> length (tl r) < length r"
  by (cases r) auto

lemma tl_skip_length: "peek (skip_whitespace r) = Some c \<Longrightarrow> length (tl (skip_whitespace r)) < length r"
  by (meson length_skip_whitespace less_le_trans peek_Some_length)

lemma key_length:
  assumes "peek (skip_whitespace r) = Some c" "parse_string (skip_whitespace r) = Inr (key, r1)"
    "peek (skip_whitespace r1) = Some c'"
  shows "length (tl (skip_whitespace r1)) + 2 < length r"
proof -
  from assms(1) have "skip_whitespace r \<noteq> []" by (cases "skip_whitespace r") auto
  from parse_string_length [OF assms(2) this] length_skip_whitespace [of r] tl_skip_length [OF assms(3)]
  show ?thesis by linarith
qed

lemma descent_consumes:
  shows "parse_value_parse_object_object_loop_parse_array_array_loop_dom (Inl (Inl (ff, d, r, n))) \<Longrightarrow>
           (\<And>v r' n'. parse_value ff d r n = Inr (v, r', n') \<Longrightarrow> length r' < length r)"
    and "parse_value_parse_object_object_loop_parse_array_array_loop_dom (Inl (Inr (ff, d, r, n))) \<Longrightarrow>
           (\<And>v r' n'. parse_object ff d r n = Inr (v, r', n') \<Longrightarrow> length r' < length r)"
    and "parse_value_parse_object_object_loop_parse_array_array_loop_dom (Inr (Inl (ff, d, r, n, es, seen))) \<Longrightarrow>
           (\<And>v r' n'. object_loop ff d r n es seen = Inr (v, r', n') \<Longrightarrow> length r' < length r)"
    and "parse_value_parse_object_object_loop_parse_array_array_loop_dom (Inr (Inr (Inl (ff, d, r, n)))) \<Longrightarrow>
           (\<And>v r' n'. parse_array ff d r n = Inr (v, r', n') \<Longrightarrow> length r' < length r)"
    and "parse_value_parse_object_object_loop_parse_array_array_loop_dom (Inr (Inr (Inr (ff, d, r, n, items)))) \<Longrightarrow>
           (\<And>v r' n'. array_loop ff d r n items = Inr (v, r', n') \<Longrightarrow> length r' < length r)"
proof (induction ff d r n and ff d r n and ff d r n es seen and ff d r n and ff d r n items
       rule: parse_value_parse_object_object_loop_parse_array_array_loop.pinduct)
  case (1 ff depth r n v r' n')
  from 1(4) have "length r' < length (skip_whitespace r)"
    using 1(2) [OF _ refl] 1(3) [OF _ refl]
    by (subst (asm) parse_value.psimps [OF 1(1)])
       (cases "skip_whitespace r";
        auto simp del: length_Cons simp: Let_def split: if_splits dest: parse_scalar_length)
  then show ?case using length_skip_whitespace [of r] by linarith
next
  case (2 ff depth r n v r' n')
  from 2(3) have "length r' < length (skip_whitespace (tl r))"
    using 2(2) [OF _ _ refl]
    by (subst (asm) parse_object.psimps [OF 2(1)])
       (auto simp: Let_def split: if_splits sum.splits dest: peek_Some_length)
  then show ?case using length_skip_whitespace [of "tl r"] by simp
next
  case (3 ff depth r n es seen v r' n')
  from 3(4) obtain key r1 v1 r3 n1 where key: "peek (skip_whitespace r) = Some (CHR 0x22)"
      "parse_string (skip_whitespace r) = Inr (key, r1)" "key \<notin> seen"
      "peek (skip_whitespace r1) = Some (CHR '':'')"
    and val: "parse_value ff depth (tl (skip_whitespace r1)) n = Inr (v1, r3, n1)"
    and rest: "peek (skip_whitespace r3) = Some (CHR '','') \<and>
        object_loop ff depth (tl (skip_whitespace r3)) n1 (es @ [(key, v1)]) (insert key seen) = Inr (v, r', n')
      \<or> peek (skip_whitespace r3) = Some (CHR ''}'') \<and> r' = tl (skip_whitespace r3)"
    by (subst (asm) object_loop.psimps [OF 3(1)]) (auto simp: Let_def split: if_splits sum.splits)
  from 3(2) [OF refl _ key(2) refl key(3) refl _ val] key have "length r3 < length r"
    using key_length [OF key(1,2,4)] by simp
  moreover from rest have "length r' \<le> length (tl (skip_whitespace r3))"
    using 3(3) [OF refl _ key(2) refl key(3) refl _ val refl refl refl] key by fastforce
  ultimately show ?case using tl_skip_length [of r3] rest by auto
next
  case (4 ff depth r n v r' n')
  from 4(3) have "length r' < length (skip_whitespace (tl r))"
    using 4(2) [OF _ _ refl]
    by (subst (asm) parse_array.psimps [OF 4(1)])
       (auto simp: Let_def split: if_splits sum.splits dest: peek_Some_length)
  then show ?case using length_skip_whitespace [of "tl r"] by simp
next
  case (5 ff depth r n items v r' n')
  from 5(4) obtain v1 r1 n1 where val: "parse_value ff depth r n = Inr (v1, r1, n1)"
    and rest: "peek (skip_whitespace r1) = Some (CHR '','') \<and>
        array_loop ff depth (tl (skip_whitespace r1)) n1 (items @ [v1]) = Inr (v, r', n')
      \<or> peek (skip_whitespace r1) = Some (CHR '']'') \<and> r' = tl (skip_whitespace r1)"
    by (subst (asm) array_loop.psimps [OF 5(1)]) (auto simp: Let_def split: if_splits sum.splits)
  from rest have "length r' \<le> length (tl (skip_whitespace r1))"
    using 5(3) [OF val refl refl refl] by fastforce
  then show ?case using 5(2) [OF val] tl_skip_length [of r1] rest by auto
qed

definition container_measure :: "bytes \<Rightarrow> nat" where
  "container_measure r = (if r = [] then 10 else 4 * length r + 1)"

lemma container_measure_value: "skip_whitespace r = c # cs \<Longrightarrow> container_measure (c # cs) < 4 * length r + 2"
  using length_skip_whitespace [of r] by (simp add: container_measure_def)

lemma container_measure_loop: "4 * length (skip_whitespace (tl r)) + 3 < container_measure r"
  using length_skip_whitespace [of "tl r"] by (cases r) (auto simp: container_measure_def)

termination parse_value
proof (relation "measure (case_sum
      (case_sum (\<lambda>(ff, d, r, n). 4 * length r + 2) (\<lambda>(ff, d, r, n). container_measure r))
      (case_sum (\<lambda>(ff, d, r, n, es, seen). 4 * length r + 3)
        (case_sum (\<lambda>(ff, d, r, n). container_measure r) (\<lambda>(ff, d, r, n, items). 4 * length r + 3))))",
    goal_cases)
  case (6 ff depth r n es seen x p key r1 x' q v y r3 n1 x'')
  then show ?case
    using key_length [of r] descent_consumes(1) [OF 6(13)] tl_skip_length [of r3] by fastforce
next
  case (9 ff depth r n items p v y r1 n1 x)
  then show ?case
    using descent_consumes(1) [OF 9(6)] tl_skip_length [of r1] by fastforce
qed (use key_length container_measure_value container_measure_loop in
      \<open>(fastforce simp del: length_tl)+\<close>)

declare parse_value.simps [simp del] parse_object.simps [simp del] object_loop.simps [simp del]
  parse_array.simps [simp del] array_loop.simps [simp del]

definition parse_bounded :: "(bytes \<Rightarrow> bool) \<Rightarrow> bytes \<Rightarrow> (schema_error, bjson) result" where
  "parse_bounded ff input =
     (if \<not> utf8_valid input then Inl UnexpectedToken
      else
        let r = skip_whitespace input in
        if r = [] then Inl EmptyBody
        else and_then (parse_value ff 0 r 0) (\<lambda>(value, r1, _).
          if skip_whitespace r1 \<noteq> [] then Inl TrailingData else Inr value))"

section \<open>What an accepted body satisfies\<close>

text \<open>\<open>nested_within k\<close>: at most \<open>k\<close> containers on any path. \<open>json_values\<close>: scalars, arrays and objects.\<close>

fun nested_within :: "nat \<Rightarrow> bjson \<Rightarrow> bool" where
  "nested_within k (BArray xs) \<longleftrightarrow> 0 < k \<and> (\<forall>x \<in> set xs. nested_within (k - 1) x)"
| "nested_within k (BObject es) \<longleftrightarrow> 0 < k \<and> (\<forall>e \<in> set es. nested_within (k - 1) (snd e))"
| "nested_within k _ \<longleftrightarrow> True"

fun json_values :: "bjson \<Rightarrow> nat" where
  "json_values (BArray xs) = 1 + sum_list (map json_values xs)"
| "json_values (BObject es) = 1 + sum_list (map (\<lambda>e. json_values (snd e)) es)"
| "json_values _ = 1"

text \<open>Every string and key is within the size limit, every number is representable, and no object
  repeats a key.\<close>

fun json_clean :: "(bytes \<Rightarrow> bool) \<Rightarrow> bjson \<Rightarrow> bool" where
  "json_clean ff (BString s) \<longleftrightarrow> length s \<le> MAX_STRING_BYTES"
| "json_clean ff (BNumber t) \<longleftrightarrow> number_round_trips ff t"
| "json_clean ff (BArray xs) \<longleftrightarrow> (\<forall>x \<in> set xs. json_clean ff x)"
| "json_clean ff (BObject es) \<longleftrightarrow>
     distinct (map fst es) \<and> (\<forall>e \<in> set es. length (fst e) \<le> MAX_STRING_BYTES \<and> json_clean ff (snd e))"
| "json_clean ff _ \<longleftrightarrow> True"

definition accepted :: "(bytes \<Rightarrow> bool) \<Rightarrow> nat \<Rightarrow> nat \<Rightarrow> nat \<Rightarrow> bjson \<Rightarrow> bool" where
  "accepted ff depth n n' v \<longleftrightarrow>
     nested_within (MAX_JSON_DEPTH - depth) v \<and> json_clean ff v \<and> n' = n + json_values v \<and>
     n' \<le> MAX_JSON_VALUES"

lemma string_loop_bound:
  "string_loop r out = Inr (s, r') \<Longrightarrow> length out \<le> MAX_STRING_BYTES \<Longrightarrow> length s \<le> MAX_STRING_BYTES"
proof (induction r out rule: string_loop.induct)
  case (2 c r out)
  then show ?case by (fastforce split: if_splits sum.splits)
qed simp

lemma parse_string_bound: "parse_string r = Inr (s, r') \<Longrightarrow> length s \<le> MAX_STRING_BYTES"
  by (auto simp: parse_string_def dest: string_loop_bound)

lemma parse_number_clean: "parse_number ff r = Inr (t, r') \<Longrightarrow> number_round_trips ff t"
  by (auto simp: parse_number_def and_then_Inr Let_def split: if_splits)

lemma count_value_Inr: "count_value n = Inr n1 \<longleftrightarrow> n1 = n + 1 \<and> n1 \<le> MAX_JSON_VALUES"
  by (auto simp: count_value_def)

lemma parse_scalar_accepted:
  "parse_scalar ff r n = Inr (v, r', n') \<Longrightarrow> accepted ff depth n n' v"
  by (auto simp: parse_scalar_def accepted_def and_then_Inr count_value_Inr split: if_splits
      dest: parse_string_bound parse_number_clean)

lemma descent_accepted:
  shows "(\<And>v r' n'. parse_value ff d r n = Inr (v, r', n') \<Longrightarrow> d \<le> MAX_JSON_DEPTH \<and> accepted ff d n n' v)"
    and "(\<And>v r' n'. parse_object ff d r n = Inr (v, r', n') \<Longrightarrow> 0 < d \<Longrightarrow>
           d \<le> MAX_JSON_DEPTH \<and> accepted ff (d - 1) n n' v)"
    and "(\<And>v r' n'. object_loop ff d r n es seen = Inr (v, r', n') \<Longrightarrow> d \<le> MAX_JSON_DEPTH \<Longrightarrow>
           \<exists>fs. v = BObject (es @ fs) \<and> distinct (map fst fs) \<and> fst ` set fs \<inter> seen = {} \<and>
             (\<forall>f \<in> set fs. length (fst f) \<le> MAX_STRING_BYTES \<and> json_clean ff (snd f) \<and>
                nested_within (MAX_JSON_DEPTH - d) (snd f)) \<and>
             n' = n + sum_list (map (\<lambda>e. json_values (snd e)) fs) \<and> n' \<le> MAX_JSON_VALUES)"
    and "(\<And>v r' n'. parse_array ff d r n = Inr (v, r', n') \<Longrightarrow> 0 < d \<Longrightarrow>
           d \<le> MAX_JSON_DEPTH \<and> accepted ff (d - 1) n n' v)"
    and "(\<And>v r' n'. array_loop ff d r n items = Inr (v, r', n') \<Longrightarrow> d \<le> MAX_JSON_DEPTH \<Longrightarrow>
           \<exists>vs. v = BArray (items @ vs) \<and>
             (\<forall>x \<in> set vs. json_clean ff x \<and> nested_within (MAX_JSON_DEPTH - d) x) \<and>
             n' = n + sum_list (map json_values vs) \<and> n' \<le> MAX_JSON_VALUES)"
proof (induction ff d r n and ff d r n and ff d r n es seen and ff d r n and ff d r n items
       rule: parse_value_parse_object_object_loop_parse_array_array_loop.induct)
  case (1 ff depth r n v r' n')
  then show ?case
    using 1(1) [OF _ refl] 1(2) [OF _ refl]
    by (subst (asm) parse_value.simps)
       (cases "skip_whitespace r";
        auto simp: Let_def split: if_splits dest: parse_scalar_accepted [where depth = depth])
next
  case (2 ff depth r n v r' n')
  show ?case
  proof (cases "peek (skip_whitespace (tl r)) = Some (CHR ''}'')")
    case True
    with 2 show ?thesis
      by (subst (asm) parse_object.simps)
         (auto simp: Let_def accepted_def count_value_Inr split: if_splits sum.splits)
  next
    case False
    with 2(2) obtain n1 where n1: "count_value n = Inr n1" "depth \<le> MAX_JSON_DEPTH"
      and loop: "object_loop ff depth (skip_whitespace (tl r)) n1 [] {} = Inr (v, r', n')"
      by (subst (asm) parse_object.simps) (auto simp: Let_def split: if_splits sum.splits)
    from 2(1) [OF _ n1(1) refl False loop n1(2)] n1 2(3) show ?thesis
      by (auto simp: accepted_def count_value_Inr)
  qed
next
  case (3 ff depth r n es seen v r' n')
  from 3(3) obtain key r1 v1 r3 n1 where key: "peek (skip_whitespace r) = Some (CHR 0x22)"
      "parse_string (skip_whitespace r) = Inr (key, r1)" "key \<notin> seen"
      "peek (skip_whitespace r1) = Some (CHR '':'')"
    and val: "parse_value ff depth (tl (skip_whitespace r1)) n = Inr (v1, r3, n1)"
    and rest: "peek (skip_whitespace r3) = Some (CHR '','') \<and>
        object_loop ff depth (tl (skip_whitespace r3)) n1 (es @ [(key, v1)]) (insert key seen) = Inr (v, r', n')
      \<or> peek (skip_whitespace r3) = Some (CHR ''}'') \<and> v = BObject (es @ [(key, v1)]) \<and> n' = n1"
    by (subst (asm) object_loop.simps) (auto simp: Let_def split: if_splits sum.splits)
  note v1 = 3(1) [OF refl _ key(2) refl key(3) refl _ val]
  from rest show ?case
  proof
    assume more: "peek (skip_whitespace r3) = Some (CHR '','') \<and>
        object_loop ff depth (tl (skip_whitespace r3)) n1 (es @ [(key, v1)]) (insert key seen) = Inr (v, r', n')"
    with 3(2) [OF refl _ key(2) refl key(3) refl _ val refl refl refl] key 3(4) obtain fs where
      "v = BObject (es @ (key, v1) # fs)" "distinct (map fst fs)" "fst ` set fs \<inter> insert key seen = {}"
      "\<forall>f \<in> set fs. length (fst f) \<le> MAX_STRING_BYTES \<and> json_clean ff (snd f) \<and>
         nested_within (MAX_JSON_DEPTH - depth) (snd f)"
      "n' = n1 + sum_list (map (\<lambda>e. json_values (snd e)) fs)" "n' \<le> MAX_JSON_VALUES"
      by fastforce
    with v1 key parse_string_bound [OF key(2)] show ?thesis
      by (intro exI [of _ "(key, v1) # fs"]) (auto simp: accepted_def)
  next
    assume "peek (skip_whitespace r3) = Some (CHR ''}'') \<and> v = BObject (es @ [(key, v1)]) \<and> n' = n1"
    with v1 key parse_string_bound [OF key(2)] show ?thesis
      by (intro exI [of _ "[(key, v1)]"]) (auto simp: accepted_def)
  qed
next
  case (4 ff depth r n v r' n')
  show ?case
  proof (cases "peek (skip_whitespace (tl r)) = Some (CHR '']'')")
    case True
    with 4 show ?thesis
      by (subst (asm) parse_array.simps)
         (auto simp: Let_def accepted_def count_value_Inr split: if_splits sum.splits)
  next
    case False
    with 4(2) obtain n1 where n1: "count_value n = Inr n1" "depth \<le> MAX_JSON_DEPTH"
      and loop: "array_loop ff depth (skip_whitespace (tl r)) n1 [] = Inr (v, r', n')"
      by (subst (asm) parse_array.simps) (auto simp: Let_def split: if_splits sum.splits)
    from 4(1) [OF _ n1(1) refl False loop n1(2)] n1 4(3) show ?thesis
      by (auto simp: accepted_def count_value_Inr)
  qed
next
  case (5 ff depth r n items v r' n')
  from 5(3) obtain v1 r1 n1 where val: "parse_value ff depth r n = Inr (v1, r1, n1)"
    and rest: "peek (skip_whitespace r1) = Some (CHR '','') \<and>
        array_loop ff depth (tl (skip_whitespace r1)) n1 (items @ [v1]) = Inr (v, r', n')
      \<or> peek (skip_whitespace r1) = Some (CHR '']'') \<and> v = BArray (items @ [v1]) \<and> n' = n1"
    by (subst (asm) array_loop.simps) (auto simp: Let_def split: if_splits sum.splits)
  from rest show ?case
  proof
    assume "peek (skip_whitespace r1) = Some (CHR '','') \<and>
        array_loop ff depth (tl (skip_whitespace r1)) n1 (items @ [v1]) = Inr (v, r', n')"
    with 5(2) [OF val refl refl refl] 5(4) obtain vs where
      "v = BArray (items @ v1 # vs)"
      "\<forall>x \<in> set vs. json_clean ff x \<and> nested_within (MAX_JSON_DEPTH - depth) x"
      "n' = n1 + sum_list (map json_values vs)" "n' \<le> MAX_JSON_VALUES"
      by fastforce
    with 5(1) [OF val] show ?thesis
      by (intro exI [of _ "v1 # vs"]) (auto simp: accepted_def)
  next
    assume "peek (skip_whitespace r1) = Some (CHR '']'') \<and> v = BArray (items @ [v1]) \<and> n' = n1"
    with 5(1) [OF val] show ?thesis
      by (intro exI [of _ "[v1]"]) (auto simp: accepted_def)
  qed
qed

lemma parse_bounded_accepted: "parse_bounded ff input = Inr v \<Longrightarrow> accepted ff 0 0 (json_values v) v"
  by (auto simp: parse_bounded_def Let_def and_then_Inr accepted_def split: if_splits
      dest!: descent_accepted(1))

text \<open>
  C33. A body the bounded parser accepts is within every structural limit: at most 64 nested
  containers, at most 100000 values, no string or key over 1 MiB, no object with a repeated key and no
  number that re-serialization would change. The parser is total: it answers every byte string.
\<close>

theorem parsed_body_is_bounded:
  assumes "parse_bounded finite_float body = Inr v"
  shows "nested_within 64 v \<and> json_values v \<le> 100000 \<and> json_clean finite_float v"
  using parse_bounded_accepted [OF assms]
  by (simp add: accepted_def MAX_JSON_DEPTH_def MAX_JSON_VALUES_def)

lemmas json_eval =
  parse_bounded_def utf8_valid.simps skip_whitespace_def is_json_space_def byte_val_def
  parse_value.simps parse_object.simps object_loop.simps parse_array.simps array_loop.simps
  MAX_JSON_DEPTH_def MAX_JSON_VALUES_def MAX_STRING_BYTES_def count_value_def parse_scalar_def
  parse_string_def parse_number_def number_integer_def number_fraction_def number_exponent_def
  next_is_digit_def is_ascii_digit_def number_round_trips_def parse_i64_def parse_digits_def
  expect_literal_def utf8_width_def Let_def

text \<open>The body \<open>{"a":[1,true]}\<close>.\<close>

theorem parsed_body_is_bounded_witness:
  "parse_bounded (\<lambda>_. False) [CHR ''{'', CHR 0x22, CHR ''a'', CHR 0x22, CHR '':'', CHR ''['', CHR ''1'',
       CHR '','', CHR ''t'', CHR ''r'', CHR ''u'', CHR ''e'', CHR '']'', CHR ''}''] =
     Inr (BObject [(''a'', BArray [BNumber ''1'', BBool True])]) \<and>
   nested_within 64 (BObject [(''a'', BArray [BNumber ''1'', BBool True])]) \<and>
   json_values (BObject [(''a'', BArray [BNumber ''1'', BBool True])]) \<le> 100000 \<and>
   json_clean (\<lambda>_. False) (BObject [(''a'', BArray [BNumber ''1'', BBool True])])"
proof -
  have "parse_bounded (\<lambda>_. False) [CHR ''{'', CHR 0x22, CHR ''a'', CHR 0x22, CHR '':'', CHR ''['', CHR ''1'',
       CHR '','', CHR ''t'', CHR ''r'', CHR ''u'', CHR ''e'', CHR '']'', CHR ''}''] =
     Inr (BObject [(''a'', BArray [BNumber ''1'', BBool True])])"
    by (simp add: json_eval)
  with parsed_body_is_bounded [OF this] show ?thesis by simp
qed

end
