(* ===== verification/Chat_Schema.thy ===== *)
theory Chat_Schema
  imports Json_Bounded Json_Value "HOL-Library.AList"
begin

text \<open>
  The closed Chat Completions schema of \<^verbatim>\<open>crates/provider-broker/src/schema.rs\<close>: the validators in
  the order the code has them, the normalized request and the object it is re-serialized as. The
  declarative grammar \<open>request_shape\<close> says which requests the broker serves, and
  \<open>schema_validation_exact\<close> shows that the validators decide exactly that grammar.

  Parameters: \<open>finite_float\<close> as in \<open>Json_Bounded\<close>, \<open>parse_num\<close> for the parser of
  \<^verbatim>\<open>serde_json::Number\<close> and \<open>to_vec\<close> for \<^verbatim>\<open>serde_json::to_vec\<close>. A \<^verbatim>\<open>serde_json\<close> map is the list of
  its members with distinct keys; nothing is claimed about their order.
\<close>

section \<open>Limits and lists\<close>

definition MAX_MESSAGES :: nat where "MAX_MESSAGES = 4096"
definition MAX_TOOLS :: nat where "MAX_TOOLS = 256"

definition ALLOWED_TOP_LEVEL :: "string list" where
  "ALLOWED_TOP_LEVEL =
     [''model'', ''messages'', ''max_tokens'', ''stream'', ''stream_options'', ''tools'', ''tool_choice'']"

definition top_level_field_allowed :: "string \<Rightarrow> bool" where
  "top_level_field_allowed name \<longleftrightarrow> name \<in> set ALLOWED_TOP_LEVEL"

definition ALLOWED_MESSAGE_ROLES :: "string list" where
  "ALLOWED_MESSAGE_ROLES = [''system'', ''user'', ''assistant'', ''tool'']"

definition GENERATION_CONTROL_ALIASES :: "string list" where
  "GENERATION_CONTROL_ALIASES =
     [''max_completion_tokens'', ''max_output_tokens'', ''n'', ''best_of'', ''best_of_n'', ''num_choices'',
      ''candidate_count'']"

definition REMOTE_CONTENT_TYPES :: "string list" where
  "REMOTE_CONTENT_TYPES =
     [''image_url'', ''image'', ''input_image'', ''file'', ''file_id'', ''input_file'', ''input_audio'',
      ''audio'', ''input_audio_url'', ''video'']"

datatype request_rejection =
    Malformed schema_error | NotAnObject | MissingField | UnknownField | ModelMismatch | InvalidMaxTokens
  | InvalidStream | InvalidStreamOptions | InvalidMessage | RemoteContentRefused | InvalidTool | TooManyItems

section \<open>Accessors\<close>

fun bj_object :: "bjson \<Rightarrow> (string \<times> bjson) list option" where
  "bj_object (BObject es) = Some es"
| "bj_object _ = None"

fun bj_array :: "bjson \<Rightarrow> bjson list option" where
  "bj_array (BArray xs) = Some xs"
| "bj_array _ = None"

fun bj_str :: "bjson \<Rightarrow> string option" where
  "bj_str (BString s) = Some s"
| "bj_str _ = None"

fun bj_bool :: "bjson \<Rightarrow> bool option" where
  "bj_bool (BBool b) = Some b"
| "bj_bool _ = None"

definition bj_get :: "bjson \<Rightarrow> string \<Rightarrow> bjson option" where
  "bj_get v key =
     Option.bind (bj_object v) (\<lambda>es. map_option snd (find (\<lambda>e. fst e = key) es))"

definition number_as_u64 :: "string \<Rightarrow> u64 option" where
  "number_as_u64 t =
     (if \<exists>b \<in> set t. b \<in> {CHR ''.'', CHR ''e'', CHR ''E'', CHR ''-''} then None else parse_u64 t)"

section \<open>Validators\<close>

definition validate_stream_options :: "bjson \<Rightarrow> (request_rejection, unit) result" where
  "validate_stream_options value =
     and_then (ok_or (bj_object value) InvalidStreamOptions) (\<lambda>entries.
       for_each (\<lambda>(key, entry).
         if key \<noteq> ''include_usage'' then Inl InvalidStreamOptions
         else and_then (ok_or (bj_bool entry) InvalidStreamOptions) (\<lambda>_. Inr ())) entries)"

definition require_str :: "request_rejection \<Rightarrow> bjson \<Rightarrow> (request_rejection, unit) result" where
  "require_str e v = and_then (ok_or (bj_str v) e) (\<lambda>_. Inr ())"

definition validate_content_part :: "bjson \<Rightarrow> (request_rejection, unit) result" where
  "validate_content_part part =
     and_then (ok_or (bj_object part) InvalidMessage) (\<lambda>entries.
     and_then (ok_or (Option.bind (find (\<lambda>e. fst e = ''type'') entries) (\<lambda>e. bj_str (snd e))) InvalidMessage)
       (\<lambda>kind.
         if kind \<in> set REMOTE_CONTENT_TYPES then Inl RemoteContentRefused
         else if kind = ''text'' then
           for_each (\<lambda>(key, value).
             if key = ''type'' then Inr ()
             else if key = ''text'' then require_str InvalidMessage value
             else Inl InvalidMessage) entries
         else Inl InvalidMessage))"

fun validate_content :: "bjson \<Rightarrow> (request_rejection, unit) result" where
  "validate_content BNull = Inr ()"
| "validate_content (BString _) = Inr ()"
| "validate_content (BArray parts) = for_each validate_content_part parts"
| "validate_content _ = Inl InvalidMessage"

definition validate_function_call :: "bjson \<Rightarrow> (request_rejection, unit) result" where
  "validate_function_call value =
     and_then (ok_or (bj_object value) InvalidMessage) (\<lambda>entries.
       for_each (\<lambda>(key, entry).
         if key = ''name'' then require_str InvalidMessage entry
         else if key = ''arguments'' then require_str InvalidMessage entry
         else Inl InvalidMessage) entries)"

definition validate_tool_calls :: "bjson \<Rightarrow> (request_rejection, unit) result" where
  "validate_tool_calls value =
     and_then (ok_or (bj_array value) InvalidMessage) (\<lambda>calls.
       for_each (\<lambda>call.
         and_then (ok_or (bj_object call) InvalidMessage) (\<lambda>entries.
           for_each (\<lambda>(key, entry).
             if key = ''id'' then require_str InvalidMessage entry
             else if key = ''type'' then
               (if bj_str entry \<noteq> Some ''function'' then Inl InvalidMessage else Inr ())
             else if key = ''function'' then validate_function_call entry
             else Inl InvalidMessage) entries)) calls)"

text \<open>The loop of \<^verbatim>\<open>validate_message\<close> with its local \<open>role\<close>.\<close>

fun message_loop :: "(string \<times> bjson) list \<Rightarrow> string option \<Rightarrow> (request_rejection, string option) result" where
  "message_loop [] role = Inr role"
| "message_loop ((key, value) # es) role =
     (if key = ''role'' then
        and_then (ok_or (bj_str value) InvalidMessage) (\<lambda>r. message_loop es (Some r))
      else if key = ''content'' then and_then (validate_content value) (\<lambda>_. message_loop es role)
      else if key = ''tool_calls'' then and_then (validate_tool_calls value) (\<lambda>_. message_loop es role)
      else if key = ''tool_call_id'' then
        and_then (require_str InvalidMessage value) (\<lambda>_. message_loop es role)
      else Inl InvalidMessage)"

definition validate_message :: "bjson \<Rightarrow> (request_rejection, unit) result" where
  "validate_message message =
     and_then (ok_or (bj_object message) InvalidMessage) (\<lambda>entries.
     and_then (message_loop entries None) (\<lambda>role.
     and_then (ok_or role InvalidMessage) (\<lambda>role.
       if role \<notin> {''system'', ''user'', ''assistant'', ''tool''} then Inl InvalidMessage else Inr ())))"

definition validate_function_schema :: "bjson \<Rightarrow> (request_rejection, unit) result" where
  "validate_function_schema value =
     and_then (ok_or (bj_object value) InvalidTool) (\<lambda>entries.
       for_each (\<lambda>(key, entry).
         if key = ''name'' then require_str InvalidTool entry
         else if key = ''description'' then require_str InvalidTool entry
         else if key = ''parameters'' then
           and_then (ok_or (bj_object entry) InvalidTool) (\<lambda>_. Inr ())
         else Inl InvalidTool) entries)"

definition validate_tool :: "bjson \<Rightarrow> (request_rejection, unit) result" where
  "validate_tool tool =
     and_then (ok_or (bj_object tool) InvalidTool) (\<lambda>entries.
       for_each (\<lambda>(key, value).
         if key = ''type'' then
           (if bj_str value \<noteq> Some ''function'' then Inl InvalidTool else Inr ())
         else if key = ''function'' then validate_function_schema value
         else Inl InvalidTool) entries)"

definition validate_named_function :: "bjson \<Rightarrow> (request_rejection, unit) result" where
  "validate_named_function entry =
     and_then (ok_or (bj_object entry) InvalidTool) (\<lambda>function.
       for_each (\<lambda>(name, value).
         if name \<noteq> ''name'' then Inl InvalidTool else require_str InvalidTool value) function)"

text \<open>The loop of \<^verbatim>\<open>validate_tool_choice\<close> with its locals \<open>has_type\<close> and \<open>has_function\<close>.\<close>

fun tool_choice_loop ::
  "(string \<times> bjson) list \<Rightarrow> bool \<Rightarrow> bool \<Rightarrow> (request_rejection, bool \<times> bool) result" where
  "tool_choice_loop [] has_type has_function = Inr (has_type, has_function)"
| "tool_choice_loop ((key, entry) # es) has_type has_function =
     (if key = ''type'' then
        (if bj_str entry \<noteq> Some ''function'' then Inl InvalidTool
         else tool_choice_loop es True has_function)
      else if key = ''function'' then
        and_then (validate_named_function entry) (\<lambda>_. tool_choice_loop es has_type True)
      else Inl InvalidTool)"

fun validate_tool_choice :: "bjson \<Rightarrow> (request_rejection, unit) result" where
  "validate_tool_choice (BString choice) =
     (if choice \<in> {''auto'', ''none'', ''required''} then Inr () else Inl InvalidTool)"
| "validate_tool_choice (BObject entries) =
     and_then (tool_choice_loop entries False False) (\<lambda>(has_type, has_function).
       if has_type \<and> has_function then Inr () else Inl InvalidTool)"
| "validate_tool_choice _ = Inl InvalidTool"

section \<open>The request\<close>

record chat_request_policy =
  crp_model :: string
  crp_max_output_tokens :: u64

record chat_request =
  cr_model :: string
  cr_stream :: bool
  cr_max_tokens :: u64
  cr_messages :: "bjson list"
  cr_tools :: "bjson list option"
  cr_tool_choice :: "bjson option"

definition check_top_level :: "(string \<times> bjson) list \<Rightarrow> (request_rejection, unit) result" where
  "check_top_level entries =
     for_each (\<lambda>(key, _).
       if key \<in> set ALLOWED_TOP_LEVEL then Inr ()
       else if key \<in> set GENERATION_CONTROL_ALIASES then Inl UnknownField
       else Inl UnknownField) entries"

definition request_max_tokens ::
  "bjson \<Rightarrow> chat_request_policy \<Rightarrow> (request_rejection, u64) result" where
  "request_max_tokens root policy =
     map_sum id (\<lambda>n. min n (crp_max_output_tokens policy))
      (case bj_get root ''max_tokens'' of
         Some (BNumber t) \<Rightarrow>
           ok_or (Option.bind (number_as_u64 t) (\<lambda>v. if v > 0 then Some v else None)) InvalidMaxTokens
       | Some _ \<Rightarrow> Inl InvalidMaxTokens
       | None \<Rightarrow> Inr (crp_max_output_tokens policy))"

definition request_stream :: "bjson \<Rightarrow> (request_rejection, bool) result" where
  "request_stream root =
     (case bj_get root ''stream'' of
        Some value \<Rightarrow> ok_or (bj_bool value) InvalidStream
      | None \<Rightarrow> Inr False)"

definition request_tools :: "bjson \<Rightarrow> (request_rejection, bjson list option) result" where
  "request_tools root =
     (case bj_get root ''tools'' of
        Some (BArray items) \<Rightarrow>
          if length items > MAX_TOOLS then Inl TooManyItems
          else and_then (for_each validate_tool items) (\<lambda>_. Inr (Some items))
      | Some _ \<Rightarrow> Inl InvalidTool
      | None \<Rightarrow> Inr None)"

definition request_tool_choice :: "bjson \<Rightarrow> (request_rejection, bjson option) result" where
  "request_tool_choice root =
     (case bj_get root ''tool_choice'' of
        Some value \<Rightarrow> and_then (validate_tool_choice value) (\<lambda>_. Inr (Some value))
      | None \<Rightarrow> Inr None)"

definition validate_chat_request ::
  "(bytes \<Rightarrow> bool) \<Rightarrow> bytes \<Rightarrow> chat_request_policy \<Rightarrow> (request_rejection, chat_request) result" where
  "validate_chat_request finite_float body policy =
     and_then (map_err Malformed (parse_bounded finite_float body)) (\<lambda>root.
     and_then (ok_or (bj_object root) NotAnObject) (\<lambda>entries.
     and_then (check_top_level entries) (\<lambda>_.
     and_then (ok_or (Option.bind (bj_get root ''model'') bj_str) MissingField) (\<lambda>model.
     and_then (refuse_if (model \<noteq> crp_model policy) ModelMismatch) (\<lambda>_.
     and_then (ok_or (Option.bind (bj_get root ''messages'') bj_array) MissingField) (\<lambda>messages.
     and_then (refuse_if (length messages > MAX_MESSAGES) TooManyItems) (\<lambda>_.
     and_then (for_each validate_message messages) (\<lambda>_.
     and_then (request_max_tokens root policy) (\<lambda>max_tokens.
     and_then (request_stream root) (\<lambda>stream.
     and_then (case bj_get root ''stream_options'' of
                 Some options \<Rightarrow> validate_stream_options options | None \<Rightarrow> Inr ()) (\<lambda>_.
     and_then (request_tools root) (\<lambda>tools.
     and_then (request_tool_choice root) (\<lambda>tool_choice.
       Inr \<lparr>cr_model = model, cr_stream = stream, cr_max_tokens = max_tokens, cr_messages = messages,
            cr_tools = tools, cr_tool_choice = tool_choice\<rparr>)))))))))))))"

section \<open>The outbound object\<close>

fun to_value :: "(string \<Rightarrow> json_number option) \<Rightarrow> bjson \<Rightarrow> json" where
  "to_value pn BNull = JNull"
| "to_value pn (BBool b) = JBool b"
| "to_value pn (BNumber t) = (case pn t of Some k \<Rightarrow> JNum k | None \<Rightarrow> JNull)"
| "to_value pn (BString s) = JStr s"
| "to_value pn (BArray xs) = JArr (map (to_value pn) xs)"
| "to_value pn (BObject es) =
     JObj (foldl (\<lambda>m (k, v). AList.update k v m) [] (map (\<lambda>(k, v). (k, to_value pn v)) es))"

definition outbound_members :: "(string \<Rightarrow> json_number option) \<Rightarrow> chat_request \<Rightarrow> (string \<times> json) list" where
  "outbound_members pn req =
     (let m1 = AList.update ''model'' (JStr (cr_model req)) [];
          m2 = AList.update ''messages'' (JArr (map (to_value pn) (cr_messages req))) m1;
          m3 = AList.update ''max_tokens'' (JNum (PosInt (cr_max_tokens req))) m2;
          m4 = AList.update ''stream'' (JBool (cr_stream req)) m3;
          m5 = (if cr_stream req
                then AList.update ''stream_options''
                       (JObj (AList.update ''include_usage'' (JBool True) [])) m4
                else m4);
          m6 = (case cr_tools req of
                  Some tools \<Rightarrow> AList.update ''tools'' (JArr (map (to_value pn) tools)) m5
                | None \<Rightarrow> m5)
      in case cr_tool_choice req of
           Some choice \<Rightarrow> AList.update ''tool_choice'' (to_value pn choice) m6
         | None \<Rightarrow> m6)"

definition to_json_bytes ::
  "(string \<Rightarrow> json_number option) \<Rightarrow> (json \<Rightarrow> bytes option) \<Rightarrow> chat_request \<Rightarrow> bytes" where
  "to_json_bytes pn to_vec req =
     (case to_vec (JObj (outbound_members pn req)) of Some b \<Rightarrow> b | None \<Rightarrow> [])"

section \<open>The grammar\<close>

text \<open>An object whose every member is in a table of admitted keys and satisfies its key's predicate.\<close>

definition object_of :: "(string \<rightharpoonup> bjson \<Rightarrow> bool) \<Rightarrow> bjson \<Rightarrow> bool" where
  "object_of table v \<longleftrightarrow>
     (case v of
        BObject es \<Rightarrow> \<forall>e \<in> set es. (case table (fst e) of Some p \<Rightarrow> p (snd e) | None \<Rightarrow> False)
      | _ \<Rightarrow> False)"

definition has_key :: "string \<Rightarrow> bjson \<Rightarrow> bool" where
  "has_key k v \<longleftrightarrow> (case v of BObject es \<Rightarrow> k \<in> fst ` set es | _ \<Rightarrow> False)"

definition array_of :: "(bjson \<Rightarrow> bool) \<Rightarrow> bjson \<Rightarrow> bool" where
  "array_of p v \<longleftrightarrow> (case v of BArray xs \<Rightarrow> \<forall>x \<in> set xs. p x | _ \<Rightarrow> False)"

definition is_string :: "bjson \<Rightarrow> bool" where "is_string v \<longleftrightarrow> bj_str v \<noteq> None"
definition is_bool :: "bjson \<Rightarrow> bool" where "is_bool v \<longleftrightarrow> bj_bool v \<noteq> None"
definition is_object :: "bjson \<Rightarrow> bool" where "is_object v \<longleftrightarrow> bj_object v \<noteq> None"

definition literal :: "string list \<Rightarrow> bjson \<Rightarrow> bool" where
  "literal ss v \<longleftrightarrow> (case v of BString s \<Rightarrow> s \<in> set ss | _ \<Rightarrow> False)"

definition text_part :: "bjson \<Rightarrow> bool" where
  "text_part v \<longleftrightarrow> has_key ''type'' v \<and>
     object_of [''type'' \<mapsto> literal [''text''], ''text'' \<mapsto> is_string] v"

definition content_shape :: "bjson \<Rightarrow> bool" where
  "content_shape v \<longleftrightarrow> v = BNull \<or> is_string v \<or> array_of text_part v"

definition function_call_shape :: "bjson \<Rightarrow> bool" where
  "function_call_shape = object_of [''name'' \<mapsto> is_string, ''arguments'' \<mapsto> is_string]"

definition tool_call_shape :: "bjson \<Rightarrow> bool" where
  "tool_call_shape =
     object_of [''id'' \<mapsto> is_string, ''type'' \<mapsto> literal [''function''], ''function'' \<mapsto> function_call_shape]"

definition message_shape :: "bjson \<Rightarrow> bool" where
  "message_shape v \<longleftrightarrow> has_key ''role'' v \<and>
     object_of [''role'' \<mapsto> literal ALLOWED_MESSAGE_ROLES, ''content'' \<mapsto> content_shape,
       ''tool_calls'' \<mapsto> array_of tool_call_shape, ''tool_call_id'' \<mapsto> is_string] v"

definition tool_shape :: "bjson \<Rightarrow> bool" where
  "tool_shape =
     object_of [''type'' \<mapsto> literal [''function''],
       ''function'' \<mapsto> object_of [''name'' \<mapsto> is_string, ''description'' \<mapsto> is_string, ''parameters'' \<mapsto> is_object]]"

definition named_function_shape :: "bjson \<Rightarrow> bool" where
  "named_function_shape = object_of [''name'' \<mapsto> is_string]"

definition tool_choice_shape :: "bjson \<Rightarrow> bool" where
  "tool_choice_shape v \<longleftrightarrow>
     literal [''auto'', ''none'', ''required''] v \<or>
     has_key ''type'' v \<and> has_key ''function'' v \<and>
     object_of [''type'' \<mapsto> literal [''function''], ''function'' \<mapsto> named_function_shape] v"

definition optional :: "(bjson \<Rightarrow> bool) \<Rightarrow> bjson option \<Rightarrow> bool" where
  "optional p x \<longleftrightarrow> (case x of None \<Rightarrow> True | Some v \<Rightarrow> p v)"

definition positive_integer :: "bjson \<Rightarrow> bool" where
  "positive_integer v \<longleftrightarrow>
     (case v of BNumber t \<Rightarrow> (case number_as_u64 t of Some n \<Rightarrow> 0 < n | None \<Rightarrow> False) | _ \<Rightarrow> False)"

text \<open>The requests the broker serves, by the members of the body.\<close>

definition request_shape :: "chat_request_policy \<Rightarrow> (string \<times> bjson) list \<Rightarrow> bool" where
  "request_shape policy es \<longleftrightarrow>
     (\<forall>e \<in> set es. top_level_field_allowed (fst e)) \<and>
     map_of es ''model'' = Some (BString (crp_model policy)) \<and>
     (case map_of es ''messages'' of
        Some (BArray ms) \<Rightarrow> length ms \<le> MAX_MESSAGES \<and> (\<forall>m \<in> set ms. message_shape m)
      | _ \<Rightarrow> False) \<and>
     optional positive_integer (map_of es ''max_tokens'') \<and>
     optional is_bool (map_of es ''stream'') \<and>
     optional (object_of [''include_usage'' \<mapsto> is_bool]) (map_of es ''stream_options'') \<and>
     optional (\<lambda>v. array_of tool_shape v \<and> length (the (bj_array v)) \<le> MAX_TOOLS) (map_of es ''tools'') \<and>
     optional tool_choice_shape (map_of es ''tool_choice'')"

definition normal_request :: "chat_request_policy \<Rightarrow> (string \<times> bjson) list \<Rightarrow> chat_request" where
  "normal_request policy es =
     \<lparr>cr_model = crp_model policy,
      cr_stream = (map_of es ''stream'' = Some (BBool True)),
      cr_max_tokens =
        (case map_of es ''max_tokens'' of
           Some (BNumber t) \<Rightarrow> min (the (number_as_u64 t)) (crp_max_output_tokens policy)
         | _ \<Rightarrow> crp_max_output_tokens policy),
      cr_messages = (case map_of es ''messages'' of Some (BArray ms) \<Rightarrow> ms | _ \<Rightarrow> []),
      cr_tools = Option.bind (map_of es ''tools'') bj_array,
      cr_tool_choice = map_of es ''tool_choice''\<rparr>"

section \<open>The validators decide the grammar\<close>

named_theorems shape_simps \<open>grammar predicates on the constructors\<close>

lemma bj_get_object [simp]: "bj_get (BObject es) k = map_of es k"
  by (induction es) (auto simp: bj_get_def)

lemma bj_find [simp]: "map_option snd (find (\<lambda>e. fst e = k) es) = map_of es k"
  by (induction es) auto

lemma bj_find_bind: "Option.bind (find (\<lambda>e. fst e = k) es) (\<lambda>e. f (snd e)) = Option.bind (map_of es k) f"
  by (induction es) auto

lemma bj_Some [shape_simps]:
  "bj_object v = Some es \<longleftrightarrow> v = BObject es" "bj_array v = Some xs \<longleftrightarrow> v = BArray xs"
  "bj_str v = Some s \<longleftrightarrow> v = BString s" "bj_bool v = Some b \<longleftrightarrow> v = BBool b"
  by (cases v; auto)+

lemma object_of_BObject [shape_simps]:
  "object_of table v \<longleftrightarrow> (\<exists>es. v = BObject es \<and>
     (\<forall>(k, x) \<in> set es. case table k of Some p \<Rightarrow> p x | None \<Rightarrow> False))"
  by (cases v) (auto simp: object_of_def split: option.splits)

lemma array_of_BArray [shape_simps]: "array_of p v \<longleftrightarrow> (\<exists>xs. v = BArray xs \<and> (\<forall>x \<in> set xs. p x))"
  by (cases v) (auto simp: array_of_def)

lemma literal_BString [shape_simps]: "literal ss v \<longleftrightarrow> (\<exists>s \<in> set ss. v = BString s)"
  by (cases v) (auto simp: literal_def)

lemma require_str_Inr [shape_simps]: "require_str e v = Inr u \<longleftrightarrow> is_string v"
  by (auto simp: require_str_def is_string_def and_then_Inr ok_or_Inr)

lemma validate_stream_options_iff [shape_simps]:
  "validate_stream_options v = Inr u \<longleftrightarrow> object_of [''include_usage'' \<mapsto> is_bool] v"
  by (fastforce simp: validate_stream_options_def and_then_Inr ok_or_Inr for_each_Inr shape_simps is_bool_def
      split: if_splits)

lemma validate_function_call_iff [shape_simps]:
  "validate_function_call v = Inr u \<longleftrightarrow> function_call_shape v"
  by (fastforce simp: validate_function_call_def function_call_shape_def and_then_Inr ok_or_Inr for_each_Inr
      shape_simps split: if_splits)

lemma validate_tool_calls_iff [shape_simps]:
  "validate_tool_calls v = Inr u \<longleftrightarrow> array_of tool_call_shape v"
  by (fastforce simp: validate_tool_calls_def tool_call_shape_def and_then_Inr ok_or_Inr for_each_Inr
      shape_simps split: if_splits)

lemma map_of_entry_unique:
  assumes "distinct (map fst es)" "map_of es k = Some v"
  shows "(k, w) \<in> set es \<longleftrightarrow> w = v"
  using assms by (metis map_of_eq_Some_iff option.inject)

lemma text_part_BObject:
  "text_part (BObject es) \<longleftrightarrow> ''type'' \<in> fst ` set es \<and>
     (\<forall>(k, x) \<in> set es. (k = ''type'' \<and> x = BString ''text'') \<or> (k = ''text'' \<and> is_string x))"
proof -
  have entry: "(case [''type'' \<mapsto> literal [''text''], ''text'' \<mapsto> is_string] k of Some p \<Rightarrow> p x | None \<Rightarrow> False)
    \<longleftrightarrow> (k = ''type'' \<and> x = BString ''text'') \<or> (k = ''text'' \<and> is_string x)" for k x
    by (auto simp: literal_BString)
  show ?thesis
    unfolding text_part_def has_key_def object_of_def bjson.case entry split_beta ..
qed

lemma validate_content_part_BObject:
  "validate_content_part (BObject es) = Inr u \<longleftrightarrow> map_of es ''type'' = Some (BString ''text'') \<and>
     (\<forall>(k, x) \<in> set es. k = ''type'' \<or> (k = ''text'' \<and> is_string x))"
  by (fastforce simp: validate_content_part_def ok_or_Inr bj_find_bind and_then_Inr for_each_Inr
      REMOTE_CONTENT_TYPES_def bj_Some require_str_Inr Option.bind_eq_Some_conv split: if_splits)

lemma validate_content_part_iff:
  assumes "json_clean ff v"
  shows "validate_content_part v = Inr u \<longleftrightarrow> text_part v"
proof (cases v)
  case (BObject es)
  with assms have d: "distinct (map fst es)" by simp
  show ?thesis
  proof (cases "map_of es ''type''")
    case None
    then have "''type'' \<notin> fst ` set es" by (simp add: map_of_eq_None_iff)
    with None show ?thesis
      unfolding BObject validate_content_part_BObject text_part_BObject by simp
  next
    case (Some w)
    then have "''type'' \<in> fst ` set es" by (force dest: map_of_SomeD)
    with map_of_entry_unique [OF d Some] Some show ?thesis
      unfolding BObject validate_content_part_BObject text_part_BObject by auto
  qed
qed (auto simp: validate_content_part_def text_part_def has_key_def ok_or_def)

lemma validate_content_iff:
  assumes "json_clean ff v"
  shows "validate_content v = Inr u \<longleftrightarrow> content_shape v"
proof (cases v)
  case (BArray xs)
  with assms validate_content_part_iff show ?thesis
    by (auto simp: content_shape_def is_string_def array_of_def for_each_Inr)
qed (auto simp: content_shape_def is_string_def array_of_def)

definition message_entry :: "string \<Rightarrow> bjson \<Rightarrow> bool" where
  "message_entry k x \<longleftrightarrow>
     (k = ''role'' \<and> is_string x) \<or> (k = ''content'' \<and> validate_content x = Inr ()) \<or>
     (k = ''tool_calls'' \<and> array_of tool_call_shape x) \<or> (k = ''tool_call_id'' \<and> is_string x)"

lemma message_loop_Cons:
  "message_loop ((k, x) # es) role = Inr role' \<longleftrightarrow>
     message_entry k x \<and> message_loop es (if k = ''role'' then bj_str x else role) = Inr role'"
proof -
  consider "k = ''role''" | "k = ''content''" | "k = ''tool_calls''" | "k = ''tool_call_id''"
    | "k \<noteq> ''role''" "k \<noteq> ''content''" "k \<noteq> ''tool_calls''" "k \<noteq> ''tool_call_id''"
    by blast
  then show ?thesis
  proof cases
    case 1
    then show ?thesis by (auto simp: message_entry_def and_then_Inr ok_or_Inr is_string_def)
  qed (simp_all add: message_entry_def and_then_Inr require_str_Inr validate_tool_calls_iff)
qed

declare message_loop.simps(2) [simp del]

lemma message_loop_ok:
  "message_loop es role = Inr role' \<longleftrightarrow>
     (\<forall>(k, x) \<in> set es. message_entry k x) \<and>
     role' = (case map_of (rev es) ''role'' of Some v \<Rightarrow> bj_str v | None \<Rightarrow> role)"
proof (induction es arbitrary: role)
  case (Cons e es)
  obtain k x where "e = (k, x)" by (cases e)
  with Cons.IH show ?case
    by (auto simp: message_loop_Cons map_add_def split: option.splits)
qed auto

definition message_member :: "string \<Rightarrow> bjson \<Rightarrow> bool" where
  "message_member k x \<longleftrightarrow>
     (k = ''role'' \<and> literal ALLOWED_MESSAGE_ROLES x) \<or> (k = ''content'' \<and> content_shape x) \<or>
     (k = ''tool_calls'' \<and> array_of tool_call_shape x) \<or> (k = ''tool_call_id'' \<and> is_string x)"

lemma message_shape_BObject:
  "message_shape (BObject es) \<longleftrightarrow> ''role'' \<in> fst ` set es \<and> (\<forall>(k, x) \<in> set es. message_member k x)"
proof -
  have entry: "(case [''role'' \<mapsto> literal ALLOWED_MESSAGE_ROLES, ''content'' \<mapsto> content_shape,
       ''tool_calls'' \<mapsto> array_of tool_call_shape, ''tool_call_id'' \<mapsto> is_string] k of Some p \<Rightarrow> p x | None \<Rightarrow> False)
    \<longleftrightarrow> message_member k x" for k x
    by (auto simp: message_member_def)
  show ?thesis
    unfolding message_shape_def has_key_def object_of_def bjson.case entry split_beta ..
qed

lemma message_member_entry:
  assumes "json_clean ff x"
  shows "message_member k x \<longleftrightarrow> message_entry k x \<and> (k = ''role'' \<longrightarrow> literal ALLOWED_MESSAGE_ROLES x)"
proof -
  have "literal ALLOWED_MESSAGE_ROLES x \<Longrightarrow> is_string x"
    by (auto simp: literal_BString is_string_def)
  with validate_content_iff [OF assms] show ?thesis
    by (cases "k = ''role''") (auto simp: message_member_def message_entry_def)
qed

lemma roles_literal: "literal ALLOWED_MESSAGE_ROLES v \<longleftrightarrow>
    (\<exists>r \<in> {''system'', ''user'', ''assistant'', ''tool''}. v = BString r)"
  by (simp add: literal_BString ALLOWED_MESSAGE_ROLES_def)

lemma validate_message_BObject:
  assumes "distinct (map fst es)"
  shows "validate_message (BObject es) = Inr u \<longleftrightarrow> (\<forall>(k, x) \<in> set es. message_entry k x) \<and>
     (\<exists>v. map_of es ''role'' = Some v \<and> literal ALLOWED_MESSAGE_ROLES v)"
proof -
  have "map_of (rev es) ''role'' = map_of es ''role''"
    using assms by (subst map_of_inject_set [THEN iffD2]) (simp_all add: rev_map [symmetric])
  then show ?thesis
    by (cases "map_of es ''role''")
       (auto simp: validate_message_def and_then_Inr ok_or_Inr message_loop_ok roles_literal bj_Some split: if_splits)
qed

lemma validate_message_iff:
  assumes "json_clean ff v"
  shows "validate_message v = Inr u \<longleftrightarrow> message_shape v"
proof (cases v)
  case (BObject es)
  with assms have d: "distinct (map fst es)" and c: "(k, x) \<in> set es \<Longrightarrow> json_clean ff x" for k x
    by auto
  show ?thesis
  proof (cases "map_of es ''role''")
    case None
    then have "''role'' \<notin> fst ` set es" by (simp add: map_of_eq_None_iff)
    with None show ?thesis
      unfolding BObject validate_message_BObject [OF d] message_shape_BObject by simp
  next
    case (Some w)
    then have k: "''role'' \<in> fst ` set es" by (force dest: map_of_SomeD)
    have "(\<forall>(j, x) \<in> set es. message_member j x) \<longleftrightarrow>
        (\<forall>(j, x) \<in> set es. message_entry j x) \<and> literal ALLOWED_MESSAGE_ROLES w"
      using message_member_entry [OF c] map_of_entry_unique [OF d Some] by fast
    with Some k show ?thesis
      unfolding BObject validate_message_BObject [OF d] message_shape_BObject by simp
  qed
qed (auto simp: validate_message_def message_shape_def has_key_def ok_or_def)

lemma validate_function_schema_iff [shape_simps]:
  "validate_function_schema v = Inr u \<longleftrightarrow>
     object_of [''name'' \<mapsto> is_string, ''description'' \<mapsto> is_string, ''parameters'' \<mapsto> is_object] v"
  by (fastforce simp: validate_function_schema_def is_object_def and_then_Inr ok_or_Inr for_each_Inr
      shape_simps split: if_splits)

lemma validate_tool_iff [shape_simps]: "validate_tool v = Inr u \<longleftrightarrow> tool_shape v"
  by (fastforce simp: validate_tool_def tool_shape_def and_then_Inr ok_or_Inr for_each_Inr
      shape_simps split: if_splits)

lemma validate_named_function_iff [shape_simps]:
  "validate_named_function v = Inr u \<longleftrightarrow> named_function_shape v"
  by (fastforce simp: validate_named_function_def named_function_shape_def and_then_Inr ok_or_Inr for_each_Inr
      shape_simps split: if_splits)

definition choice_member :: "string \<Rightarrow> bjson \<Rightarrow> bool" where
  "choice_member k x \<longleftrightarrow> (k = ''type'' \<and> x = BString ''function'') \<or> (k = ''function'' \<and> named_function_shape x)"

lemma tool_choice_loop_Cons:
  "tool_choice_loop ((k, x) # es) t f = Inr y \<longleftrightarrow>
     choice_member k x \<and> tool_choice_loop es (t \<or> k = ''type'') (f \<or> k = ''function'') = Inr y"
proof -
  consider "k = ''type''" | "k = ''function''" | "k \<noteq> ''type''" "k \<noteq> ''function''" by blast
  then show ?thesis
    by cases (simp_all add: choice_member_def and_then_Inr validate_named_function_iff bj_Some)
qed

declare tool_choice_loop.simps(2) [simp del]

lemma tool_choice_loop_ok:
  "tool_choice_loop es t f = Inr y \<longleftrightarrow>
     (\<forall>(k, x) \<in> set es. choice_member k x) \<and>
     y = (t \<or> ''type'' \<in> fst ` set es, f \<or> ''function'' \<in> fst ` set es)"
proof (induction es arbitrary: t f)
  case (Cons e es)
  obtain k x where "e = (k, x)" by (cases e)
  with Cons.IH show ?case by (auto simp: tool_choice_loop_Cons)
qed auto

lemma choice_object: "object_of [''type'' \<mapsto> literal [''function''], ''function'' \<mapsto> named_function_shape] (BObject es)
    \<longleftrightarrow> (\<forall>(k, x) \<in> set es. choice_member k x)"
proof -
  have "(case [''type'' \<mapsto> literal [''function''], ''function'' \<mapsto> named_function_shape] k of
           Some p \<Rightarrow> p x | None \<Rightarrow> False) \<longleftrightarrow> choice_member k x" for k x
    by (auto simp: choice_member_def literal_BString)
  then show ?thesis unfolding object_of_def bjson.case split_beta by simp
qed

lemma validate_tool_choice_iff: "validate_tool_choice v = Inr u \<longleftrightarrow> tool_choice_shape v"
proof (cases v)
  case (BObject es)
  then show ?thesis
    unfolding tool_choice_shape_def BObject choice_object
    by (auto simp: has_key_def and_then_Inr tool_choice_loop_ok literal_def split: if_splits)
qed (auto simp: tool_choice_shape_def has_key_def literal_def)

lemma request_max_tokens_iff:
  "request_max_tokens (BObject es) policy = Inr n \<longleftrightarrow>
     optional positive_integer (map_of es ''max_tokens'') \<and> n = cr_max_tokens (normal_request policy es)"
proof (cases "map_of es ''max_tokens''")
  case (Some v)
  then show ?thesis
    by (cases v; cases "number_as_u64 (case v of BNumber t \<Rightarrow> t)")
       (auto simp: request_max_tokens_def optional_def normal_request_def positive_integer_def ok_or_def
         split: if_splits)
qed (auto simp: request_max_tokens_def optional_def normal_request_def)

lemma request_stream_iff:
  "request_stream (BObject es) = Inr b \<longleftrightarrow>
     optional is_bool (map_of es ''stream'') \<and> b = cr_stream (normal_request policy es)"
proof (cases "map_of es ''stream''")
  case (Some v)
  then show ?thesis
    by (cases v) (auto simp: request_stream_def optional_def normal_request_def is_bool_def ok_or_def)
qed (auto simp: request_stream_def optional_def normal_request_def)

lemma request_tools_iff:
  "request_tools (BObject es) = Inr ts \<longleftrightarrow>
     optional (\<lambda>v. array_of tool_shape v \<and> length (the (bj_array v)) \<le> MAX_TOOLS) (map_of es ''tools'') \<and>
     ts = cr_tools (normal_request policy es)"
proof (cases "map_of es ''tools''")
  case (Some v)
  then show ?thesis
    by (cases v) (auto simp: request_tools_def optional_def normal_request_def array_of_def and_then_Inr
        for_each_Inr validate_tool_iff)
qed (auto simp: request_tools_def optional_def normal_request_def)

lemma request_tool_choice_iff:
  "request_tool_choice (BObject es) = Inr c \<longleftrightarrow>
     optional tool_choice_shape (map_of es ''tool_choice'') \<and> c = cr_tool_choice (normal_request policy es)"
  by (cases "map_of es ''tool_choice''")
     (auto simp: request_tool_choice_def optional_def normal_request_def and_then_Inr validate_tool_choice_iff)

lemma check_top_level_iff:
  "check_top_level es = Inr u \<longleftrightarrow> (\<forall>e \<in> set es. top_level_field_allowed (fst e))"
  by (fastforce simp: check_top_level_def for_each_Inr top_level_field_allowed_def split: if_splits)

lemma messages_iff:
  assumes "json_clean ff (BObject es)"
  shows "(\<exists>ms. Option.bind (map_of es ''messages'') bj_array = Some ms \<and> \<not> length ms > MAX_MESSAGES \<and>
        for_each validate_message ms = Inr () \<and> P ms) \<longleftrightarrow>
     (case map_of es ''messages'' of
        Some (BArray ms) \<Rightarrow> length ms \<le> MAX_MESSAGES \<and> (\<forall>m \<in> set ms. message_shape m)
      | _ \<Rightarrow> False) \<and> P (cr_messages (normal_request policy es))"
proof (cases "map_of es ''messages''")
  case (Some v)
  with assms have "json_clean ff v" by (auto dest: map_of_SomeD)
  then have "v = BArray ms \<Longrightarrow> m \<in> set ms \<Longrightarrow> validate_message m = Inr () \<longleftrightarrow> message_shape m" for ms m
    using validate_message_iff [of ff m] by simp
  with Some show ?thesis
    by (cases v) (auto simp: normal_request_def for_each_Inr not_less)
qed auto

lemma validate_object_iff:
  assumes parse: "parse_bounded ff body = Inr (BObject es)"
  shows "validate_chat_request ff body policy = Inr req \<longleftrightarrow>
     request_shape policy es \<and> req = normal_request policy es"
proof -
  have clean: "json_clean ff (BObject es)"
    using parse_bounded_accepted [OF parse] by (simp add: accepted_def)
  have model: "Option.bind (map_of es ''model'') bj_str = Some s \<longleftrightarrow> map_of es ''model'' = Some (BString s)" for s
    by (cases "map_of es ''model''") (auto simp: bj_Some)
  have options: "(case map_of es ''stream_options'' of Some v \<Rightarrow> validate_stream_options v | None \<Rightarrow> Inr ()) = Inr u
      \<longleftrightarrow> optional (object_of [''include_usage'' \<mapsto> is_bool]) (map_of es ''stream_options'')" for u
    by (cases "map_of es ''stream_options''") (simp_all add: optional_def validate_stream_options_iff)
  have norm: "\<lparr>cr_model = crp_model policy, cr_stream = cr_stream (normal_request policy es),
      cr_max_tokens = cr_max_tokens (normal_request policy es), cr_messages = ms,
      cr_tools = cr_tools (normal_request policy es), cr_tool_choice = cr_tool_choice (normal_request policy es)\<rparr>
      = (normal_request policy es)\<lparr>cr_messages := ms\<rparr>" for ms
    by (simp add: normal_request_def)
  have ms: "(\<exists>ms. Option.bind (map_of es ''messages'') bj_array = Some ms \<and> \<not> length ms > MAX_MESSAGES \<and>
        for_each validate_message ms = Inr () \<and> req = (normal_request policy es)\<lparr>cr_messages := ms\<rparr>) \<longleftrightarrow>
     (case map_of es ''messages'' of
        Some (BArray ms) \<Rightarrow> length ms \<le> MAX_MESSAGES \<and> (\<forall>m \<in> set ms. message_shape m)
      | _ \<Rightarrow> False) \<and> req = normal_request policy es"
    using messages_iff [OF clean, where policy = policy and P = "\<lambda>ms. req = (normal_request policy es)\<lparr>cr_messages := ms\<rparr>"]
    by simp
  have "validate_chat_request ff body policy = Inr req \<longleftrightarrow>
     (\<forall>e \<in> set es. top_level_field_allowed (fst e)) \<and> map_of es ''model'' = Some (BString (crp_model policy)) \<and>
     (\<exists>ms. Option.bind (map_of es ''messages'') bj_array = Some ms \<and> \<not> length ms > MAX_MESSAGES \<and>
        for_each validate_message ms = Inr () \<and> req = (normal_request policy es)\<lparr>cr_messages := ms\<rparr>) \<and>
     optional positive_integer (map_of es ''max_tokens'') \<and>
     optional is_bool (map_of es ''stream'') \<and>
     optional (object_of [''include_usage'' \<mapsto> is_bool]) (map_of es ''stream_options'') \<and>
     optional (\<lambda>v. array_of tool_shape v \<and> length (the (bj_array v)) \<le> MAX_TOOLS) (map_of es ''tools'') \<and>
     optional tool_choice_shape (map_of es ''tool_choice'')"
    by (simp add: validate_chat_request_def parse and_then_Inr ok_or_Inr refuse_if_Inr check_top_level_iff
        model options request_max_tokens_iff request_stream_iff [where policy = policy]
        request_tools_iff [where policy = policy] request_tool_choice_iff [where policy = policy] norm
        del: map_of_eq_Some_iff) blast
  then show ?thesis unfolding request_shape_def ms by blast
qed

lemma validate_chat_request_iff:
  "validate_chat_request ff body policy = Inr req \<longleftrightarrow>
     (\<exists>es. parse_bounded ff body = Inr (BObject es) \<and> request_shape policy es \<and> req = normal_request policy es)"
proof (cases "\<exists>es. parse_bounded ff body = Inr (BObject es)")
  case True
  then show ?thesis using validate_object_iff by fastforce
next
  case False
  then have "validate_chat_request ff body policy \<noteq> Inr req"
    by (auto simp: validate_chat_request_def and_then_Inr map_err_Inr ok_or_Inr bj_Some)
  with False show ?thesis by blast
qed

text \<open>
  C12. The validators accept exactly the requests of the closed grammar, and what they return is the
  request's normal form: the model is the grant's, the token limit is the smaller of the asked one and the
  grant's, and messages, tools and tool choice are the ones of the body.
\<close>

theorem schema_validation_exact:
  "validate_chat_request finite_float body policy = Inr req \<longleftrightarrow>
     (\<exists>es. parse_bounded finite_float body = Inr (BObject es) \<and> request_shape policy es \<and>
        req = normal_request policy es)"
  by (rule validate_chat_request_iff)

text \<open>
  A request that passes validation asks for the grant's model and for at least one and at most the
  grant's output tokens, and carries at most 4096 messages, each of the pinned shape, and 256 tools.
\<close>

theorem validated_request_is_capped:
  assumes "validate_chat_request finite_float body policy = Inr req" "0 < crp_max_output_tokens policy"
  shows "cr_model req = crp_model policy \<and>
    0 < cr_max_tokens req \<and> cr_max_tokens req \<le> crp_max_output_tokens policy \<and>
    length (cr_messages req) \<le> 4096 \<and> (\<forall>m \<in> set (cr_messages req). message_shape m) \<and>
    (\<forall>ts. cr_tools req = Some ts \<longrightarrow> length ts \<le> 256)"
proof -
  from assms(1) obtain es where shape: "request_shape policy es" and req: "req = normal_request policy es"
    by (auto simp: validate_chat_request_iff)
  from shape have "length (cr_messages req) \<le> 4096 \<and> (\<forall>m \<in> set (cr_messages req). message_shape m)"
    by (auto simp: request_shape_def req normal_request_def MAX_MESSAGES_def split: option.splits bjson.splits)
  moreover from shape assms(2) have "0 < cr_max_tokens req \<and> cr_max_tokens req \<le> crp_max_output_tokens policy"
    by (auto simp: request_shape_def req normal_request_def optional_def positive_integer_def
        split: option.splits bjson.splits)
  moreover from shape have "\<forall>ts. cr_tools req = Some ts \<longrightarrow> length ts \<le> 256"
    by (auto simp: request_shape_def req normal_request_def optional_def MAX_TOOLS_def bj_Some
        split: option.splits)
  moreover have "cr_model req = crp_model policy" by (simp add: req normal_request_def)
  ultimately show ?thesis by blast
qed

text \<open>
  Content that would make the provider fetch or receive something other than text is never
  forwarded: a request in which any content part of any message has one of the remote types is refused.
\<close>

theorem remote_content_is_refused:
  assumes "parse_bounded finite_float body = Inr (BObject es)" "map_of es ''messages'' = Some (BArray ms)"
    "BObject m \<in> set ms" "map_of m ''content'' = Some (BArray parts)" "BObject part \<in> set parts"
    "map_of part ''type'' = Some (BString kind)" "kind \<in> set REMOTE_CONTENT_TYPES"
  shows "\<not> is_ok (validate_chat_request finite_float body policy)"
proof
  assume "is_ok (validate_chat_request finite_float body policy)"
  then have "request_shape policy es"
    using assms(1) by (auto simp: is_ok_iff validate_chat_request_iff)
  with assms(2,3) have "message_shape (BObject m)" by (auto simp: request_shape_def)
  with map_of_SomeD [OF assms(4)] have "content_shape (BArray parts)"
    by (auto simp: message_shape_BObject message_member_def)
  with assms(5) have "text_part (BObject part)"
    by (auto simp: content_shape_def is_string_def array_of_def)
  with map_of_SomeD [OF assms(6)] have "kind = ''text''"
    by (auto simp: text_part_BObject)
  with assms(7) show False by (simp add: REMOTE_CONTENT_TYPES_def)
qed

text \<open>
  A top-level field outside the allow-list is refused whatever else the body holds, and every
  alternate spelling of the generation controls is outside it.
\<close>

theorem unknown_fields_are_refused:
  assumes "parse_bounded finite_float body = Inr (BObject es)" "key \<in> fst ` set es"
    "\<not> top_level_field_allowed key"
  shows "validate_chat_request finite_float body policy = Inl UnknownField \<and>
    (\<forall>alias \<in> set GENERATION_CONTROL_ALIASES. \<not> top_level_field_allowed alias)"
proof -
  have "check_top_level es = Inl UnknownField"
  proof (cases "check_top_level es")
    case (Inl e)
    have "for_each f xs = Inl e \<Longrightarrow> \<exists>x \<in> set xs. f x = Inl e"
      for f :: "string \<times> bjson \<Rightarrow> (request_rejection, unit) result" and xs
      by (induction xs) (auto simp: and_then_Inl)
    from this [OF Inl [unfolded check_top_level_def]] Inl show ?thesis by (auto split: if_splits)
  next
    case (Inr u)
    with assms(2,3) show ?thesis by (auto simp: check_top_level_iff)
  qed
  with assms(1) have "validate_chat_request finite_float body policy = Inl UnknownField"
    by (simp add: validate_chat_request_def ok_or_def)
  then show ?thesis
    by (simp add: GENERATION_CONTROL_ALIASES_def top_level_field_allowed_def ALLOWED_TOP_LEVEL_def)
qed

text \<open>
  The object that is sent upstream has only allow-listed members, each once. It always carries a
  token limit, the validated messages and, when and only when it streams, the option that makes the
  provider report the usage the broker charges.
\<close>

theorem outbound_request_is_closed:
  "fst ` set (outbound_members pn req) \<subseteq> set ALLOWED_TOP_LEVEL \<and>
   distinct (map fst (outbound_members pn req)) \<and>
   map_of (outbound_members pn req) ''model'' = Some (JStr (cr_model req)) \<and>
   map_of (outbound_members pn req) ''max_tokens'' = Some (JNum (PosInt (cr_max_tokens req))) \<and>
   map_of (outbound_members pn req) ''messages'' = Some (JArr (map (to_value pn) (cr_messages req))) \<and>
   map_of (outbound_members pn req) ''stream'' = Some (JBool (cr_stream req)) \<and>
   map_of (outbound_members pn req) ''stream_options'' =
     (if cr_stream req then Some (JObj [(''include_usage'', JBool True)]) else None) \<and>
   map_of (outbound_members pn req) ''tools'' = map_option (\<lambda>ts. JArr (map (to_value pn) ts)) (cr_tools req) \<and>
   map_of (outbound_members pn req) ''tool_choice'' = map_option (to_value pn) (cr_tool_choice req)"
  by (cases "cr_stream req"; cases "cr_tools req"; cases "cr_tool_choice req")
     (simp_all add: outbound_members_def Let_def top_level_field_allowed_def ALLOWED_TOP_LEVEL_def)

section \<open>Witnesses\<close>

text \<open>A body written with backquotes for the quotation marks.\<close>

definition quoted :: "string \<Rightarrow> bytes" where
  "quoted s = map (\<lambda>c. if c = CHR 0x60 then CHR 0x22 else c) s"

definition demo_policy :: chat_request_policy where
  "demo_policy = \<lparr>crp_model = ''m'', crp_max_output_tokens = 8\<rparr>"

lemma demo_request:
  "validate_chat_request (\<lambda>_. False)
     (quoted ''{`model`:`m`,`max_tokens`:9,`messages`:[{`role`:`user`,`content`:`hi`}]}'') demo_policy =
   Inr \<lparr>cr_model = ''m'', cr_stream = False, cr_max_tokens = 8,
     cr_messages = [BObject [(''role'', BString ''user''), (''content'', BString ''hi'')]],
     cr_tools = None, cr_tool_choice = None\<rparr>"
proof -
  have p: "parse_bounded (\<lambda>_. False)
     (quoted ''{`model`:`m`,`max_tokens`:9,`messages`:[{`role`:`user`,`content`:`hi`}]}'') =
    Inr (BObject [(''model'', BString ''m''), (''max_tokens'', BNumber ''9''),
      (''messages'', BArray [BObject [(''role'', BString ''user''), (''content'', BString ''hi'')]])])"
    by (simp add: quoted_def json_eval)
  show ?thesis
    by (simp add: validate_chat_request_def p ok_or_def check_top_level_def ALLOWED_TOP_LEVEL_def demo_policy_def
        refuse_if_def MAX_MESSAGES_def validate_message_def message_loop.simps request_max_tokens_def
        number_as_u64_def parse_u64_def parse_digits_def is_ascii_digit_def byte_val_def request_stream_def
        request_tools_def request_tool_choice_def)
qed

theorem validated_request_is_capped_witness:
  "validate_chat_request (\<lambda>_. False)
     (quoted ''{`model`:`m`,`max_tokens`:9,`messages`:[{`role`:`user`,`content`:`hi`}]}'') demo_policy =
   Inr \<lparr>cr_model = ''m'', cr_stream = False, cr_max_tokens = 8,
     cr_messages = [BObject [(''role'', BString ''user''), (''content'', BString ''hi'')]],
     cr_tools = None, cr_tool_choice = None\<rparr> \<and> (8 :: u64) \<le> crp_max_output_tokens demo_policy"
proof -
  have "0 < crp_max_output_tokens demo_policy" by (simp add: demo_policy_def)
  from validated_request_is_capped [OF demo_request this] demo_request show ?thesis by simp
qed

theorem remote_content_is_refused_witness:
  "\<not> is_ok (validate_chat_request (\<lambda>_. False)
     (quoted ''{`messages`:[{`content`:[{`type`:`image_url`}]}]}'') demo_policy)"
proof -
  have "parse_bounded (\<lambda>_. False) (quoted ''{`messages`:[{`content`:[{`type`:`image_url`}]}]}'') =
    Inr (BObject [(''messages'', BArray [BObject [(''content'',
      BArray [BObject [(''type'', BString ''image_url'')]])]])])"
    by (simp add: quoted_def json_eval)
  from remote_content_is_refused [OF this, of "[BObject [(''content'', BArray [BObject [(''type'', BString ''image_url'')]])]]"
      "[(''content'', BArray [BObject [(''type'', BString ''image_url'')]])]"
      "[BObject [(''type'', BString ''image_url'')]]" "[(''type'', BString ''image_url'')]" "''image_url''"]
  show ?thesis by (simp add: REMOTE_CONTENT_TYPES_def)
qed

theorem unknown_fields_are_refused_witness:
  "validate_chat_request (\<lambda>_. False) (quoted ''{`n`:2}'') demo_policy = Inl UnknownField"
proof -
  have "parse_bounded (\<lambda>_. False) (quoted ''{`n`:2}'') = Inr (BObject [(''n'', BNumber ''2'')])"
    by (simp add: quoted_def json_eval)
  from unknown_fields_are_refused [OF this, of "''n''"] show ?thesis
    by (simp add: top_level_field_allowed_def ALLOWED_TOP_LEVEL_def)
qed

end
