(* ===== verification/Issue.thy ===== *)
theory Issue
  imports Prelude
begin

text \<open>
  The tracker's issue records (\<^verbatim>\<open>crates/core/src/issue.rs\<close>). Times are instants on the UTC time line
  as integers; \<open>i64\<close> fields on which no arithmetic is done are integers. \<open>str::trim\<close> and
  \<open>str::to_lowercase\<close> follow the Unicode tables of the Rust standard library: they are the two
  fields of \<open>text_ops\<close>, an argument of every operation that normalizes a name.
\<close>

record text_ops =
  trim :: "string \<Rightarrow> string"
  to_lowercase :: "string \<Rightarrow> string"

type_synonym instant = int

record linked_pr_ref =
  lp_owner :: string
  lp_repo :: string
  lp_number :: int
  lp_merged :: bool

record comment =
  cm_id :: string
  cm_body :: string
  cm_created_at :: instant

record blocker_ref =
  bk_id :: "string option"
  bk_identifier :: "string option"
  bk_state :: "string option"

record issue =
  iss_id :: string
  iss_identifier :: string
  iss_title :: string
  iss_description :: "string option"
  iss_priority :: "int option"
  iss_state :: string
  iss_branch_name :: "string option"
  iss_url :: "string option"
  iss_team_id :: string
  iss_labels :: "string list option"
  iss_blocked_by :: "blocker_ref list option"
  iss_created_at :: "instant option"
  iss_updated_at :: "instant option"
  iss_linked_pr :: bool
  iss_latest_pr_activity_at :: "instant option"
  iss_linked_prs :: "linked_pr_ref list option"
  iss_latest_summon_at :: "instant option"
  iss_latest_summon_body :: string
  iss_latest_summon_author :: string
  iss_milestone_id :: string
  iss_milestone_name :: string
  iss_assignee_id :: string
  iss_assignee_name :: string

definition issue_default :: issue where
  "issue_default =
     \<lparr>iss_id = [], iss_identifier = [], iss_title = [], iss_description = None, iss_priority = None,
      iss_state = [], iss_branch_name = None, iss_url = None, iss_team_id = [], iss_labels = None,
      iss_blocked_by = None, iss_created_at = None, iss_updated_at = None, iss_linked_pr = False,
      iss_latest_pr_activity_at = None, iss_linked_prs = None, iss_latest_summon_at = None,
      iss_latest_summon_body = [], iss_latest_summon_author = [], iss_milestone_id = [],
      iss_milestone_name = [], iss_assignee_id = [], iss_assignee_name = []\<rparr>"

definition normalize_state :: "text_ops \<Rightarrow> string \<Rightarrow> string" where
  "normalize_state tx s = to_lowercase tx (trim tx s)"

text \<open>\<open>Option<Vec<T>>::iter().flatten()\<close>: the elements, none for \<open>None\<close>.\<close>

definition elements :: "'a list option \<Rightarrow> 'a list" where
  "elements xs = (case xs of None \<Rightarrow> [] | Some ys \<Rightarrow> ys)"

text \<open>The ASCII instances of the two operations, for concrete evaluations.\<close>

definition ascii_text :: text_ops where
  "ascii_text =
     \<lparr>trim = (\<lambda>s. rev (dropWhile is_ascii_whitespace (rev (dropWhile is_ascii_whitespace s)))),
      to_lowercase = to_ascii_lowercase\<rparr>"

end
