(* ===== verification/Claim_Pool.thy ===== *)
theory Claim_Pool
  imports Issue "HOL-Library.List_Lexorder" "HOL-Library.Char_ord"
begin

text \<open>
  The pool-mode claim protocol (\<^verbatim>\<open>crates/orchestrator/src/claim.rs\<close>): daemons that share a tracker post
  a claim comment, wait, read the comments back and elect one claimant, which assigns the ticket to
  itself and reads the assignee back before it dispatches.

  \<open>claim_pool\<close> awaits a tracker call between any two of its decisions, so it is modelled as the state
  machine the compiler makes of it: \<open>claim_phase\<close> is where it is suspended, \<open>claim_call\<close> the call it
  awaits there and \<open>claim_resume\<close> what it does with the answer. \<open>claim_step\<close> runs any number of daemons
  against one ticket of the shared tracker, with every call able to fail, comments of other people and
  the tracker's clock in between.

  The match of the claim marker is the \<^verbatim>\<open>regex\<close> package's: the parameter \<open>marker\<close> gives the daemon
  identity a body names, if any.
\<close>

section \<open>Claims and the election\<close>

definition CLAIM_SCHEMA_VERSION :: string where "CLAIM_SCHEMA_VERSION = ''1''"

record claim_comment =
  cc_comment_id :: string
  cc_daemon_id :: string
  cc_created_at :: instant

text \<open>The first four bytes are the robot emoji in UTF-8.\<close>

definition build_claim_body :: "string \<Rightarrow> string \<Rightarrow> string" where
  "build_claim_body viewer_id daemon_id =
     [CHR 0xF0, CHR 0x9F, CHR 0xA4, CHR 0x96] @ '' Symphony is claiming this ticket for automated work.'' @
     [CHR 0x0A, CHR 0x0A] @ ''<!-- symphony-claim v'' @ CLAIM_SCHEMA_VERSION @ '' daemon='' @
     viewer_id @ ''/'' @ daemon_id @ '' -->''"

definition parse_claim_comment :: "(string \<Rightarrow> string option) \<Rightarrow> comment \<Rightarrow> claim_comment option" where
  "parse_claim_comment marker c =
     map_option (\<lambda>d. \<lparr>cc_comment_id = cm_id c, cc_daemon_id = d, cc_created_at = cm_created_at c\<rparr>)
       (marker (cm_body c))"

definition parse_claims :: "(string \<Rightarrow> string option) \<Rightarrow> comment list \<Rightarrow> claim_comment list" where
  "parse_claims marker cs = List.map_filter (parse_claim_comment marker) cs"

definition claim_better :: "claim_comment \<Rightarrow> claim_comment \<Rightarrow> bool" where
  "claim_better c b \<longleftrightarrow>
     cc_created_at c < cc_created_at b \<or>
     cc_created_at c = cc_created_at b \<and> cc_comment_id c < cc_comment_id b"

text \<open>The loop of \<^verbatim>\<open>elect_claim_winner\<close> with its local \<open>best\<close>.\<close>

fun elect_loop :: "instant \<Rightarrow> claim_comment list \<Rightarrow> claim_comment option \<Rightarrow> claim_comment option" where
  "elect_loop cutoff [] best = best"
| "elect_loop cutoff (c # cs) best =
     (if cc_created_at c \<le> cutoff then elect_loop cutoff cs best
      else if (case best of None \<Rightarrow> True | Some b \<Rightarrow> claim_better c b) then elect_loop cutoff cs (Some c)
      else elect_loop cutoff cs best)"

definition elect_claim_winner :: "claim_comment list \<Rightarrow> instant \<Rightarrow> int \<Rightarrow> claim_comment option" where
  "elect_claim_winner claims now ttl = elect_loop (now - ttl) claims None"

definition jittered_settle :: "nat \<Rightarrow> nat \<Rightarrow> nat" where
  "jittered_settle base draw =
     (if base = 0 then 0 else base + draw mod (base div 2 + 1))"

definition claim_promote_state :: "text_ops \<Rightarrow> string \<Rightarrow> string set \<Rightarrow> string" where
  "claim_promote_state tx ps active = (if ps \<noteq> [] \<and> normalize_state tx ps \<in> active then ps else [])"

section \<open>The protocol of one daemon\<close>

datatype claim_phase =
    ResolvingViewer
  | Creating string
  | Settling string string
  | Listing string string
  | Deleting string
  | Assigning string string
  | Moving string string
  | ReadingBack string string string
  | Claimed bool string

datatype tracker_call =
    ResolveViewer
  | CreateComment string string
  | Sleep
  | ListComments string
  | DeleteComment string
  | AssignIssue string string
  | MoveIssueState string string string
  | FetchIssueAssignee string

datatype tracker_answer =
    TrackerErr
  | Viewer string
  | CommentId string
  | Comments "comment list"
  | Unit
  | Assignee string

record claim_args =
  ca_daemon_id :: string
  ca_issue :: issue
  ca_promote_state :: string
  ca_ttl :: int
  ca_marker :: "string \<Rightarrow> string option"

fun claim_call :: "claim_args \<Rightarrow> claim_phase \<Rightarrow> tracker_call option" where
  "claim_call a ResolvingViewer = Some ResolveViewer"
| "claim_call a (Creating v) =
     Some (CreateComment (iss_id (ca_issue a)) (build_claim_body v (ca_daemon_id a)))"
| "claim_call a (Settling v c) = Some Sleep"
| "claim_call a (Listing v c) = Some (ListComments (iss_id (ca_issue a)))"
| "claim_call a (Deleting c) = Some (DeleteComment c)"
| "claim_call a (Assigning v c) = Some (AssignIssue (iss_id (ca_issue a)) v)"
| "claim_call a (Moving v c) =
     Some (MoveIssueState (iss_id (ca_issue a)) (iss_team_id (ca_issue a)) (ca_promote_state a))"
| "claim_call a (ReadingBack v c m) = Some (FetchIssueAssignee (iss_id (ca_issue a)))"
| "claim_call a (Claimed won st) = None"

text \<open>\<^verbatim>\<open>delete_claim_comment\<close> returns at once on an empty id.\<close>

definition abandon_claim :: "string \<Rightarrow> claim_phase" where
  "abandon_claim c = (if c = [] then Claimed False [] else Deleting c)"

definition after_assign :: "claim_args \<Rightarrow> string \<Rightarrow> string \<Rightarrow> claim_phase" where
  "after_assign a v c =
     (if ca_promote_state a \<noteq> [] \<and> iss_team_id (ca_issue a) \<noteq> [] then Moving v c else ReadingBack v c [])"

fun claim_resume :: "claim_args \<Rightarrow> instant \<Rightarrow> claim_phase \<Rightarrow> tracker_answer \<Rightarrow> claim_phase" where
  "claim_resume a now ResolvingViewer r =
     (case r of Viewer v \<Rightarrow> Creating v | _ \<Rightarrow> Claimed False [])"
| "claim_resume a now (Creating v) r =
     (case r of CommentId c \<Rightarrow> Settling v c | _ \<Rightarrow> Claimed False [])"
| "claim_resume a now (Settling v c) r = Listing v c"
| "claim_resume a now (Listing v c) r =
     (case r of
        Comments cs \<Rightarrow>
          if map_option cc_comment_id (elect_claim_winner (parse_claims (ca_marker a) cs) now (ca_ttl a)) \<noteq> Some c
          then abandon_claim c
          else Assigning v c
      | _ \<Rightarrow> abandon_claim c)"
| "claim_resume a now (Deleting c) r = Claimed False []"
| "claim_resume a now (Assigning v c) r =
     (case r of Unit \<Rightarrow> after_assign a v c | _ \<Rightarrow> abandon_claim c)"
| "claim_resume a now (Moving v c) r =
     (case r of Unit \<Rightarrow> ReadingBack v c (ca_promote_state a) | _ \<Rightarrow> ReadingBack v c [])"
| "claim_resume a now (ReadingBack v c m) r =
     (case r of
        Assignee x \<Rightarrow> if x \<noteq> v then abandon_claim c else Claimed True m
      | _ \<Rightarrow> abandon_claim c)"
| "claim_resume a now (Claimed won st) r = Claimed won st"

record tagged_issue =
  ti_proj :: "nat option"
  ti_iss :: issue

text \<open>\<open>run i\<close> is what \<open>claim_pool\<close> returned for the \<open>i\<close>-th pick.\<close>

fun claim_winners :: "(bool \<times> string) list \<Rightarrow> tagged_issue list \<Rightarrow> tagged_issue list" where
  "claim_winners ((won, new_state) # rs) (ti # picks) =
     (if \<not> won then claim_winners rs picks
      else (if new_state \<noteq> [] then ti\<lparr>ti_iss := (ti_iss ti)\<lparr>iss_state := new_state\<rparr>\<rparr> else ti) #
           claim_winners rs picks)"
| "claim_winners _ _ = []"

section \<open>The election\<close>

lemma claim_better_irrefl [simp]: "\<not> claim_better c c"
  by (simp add: claim_better_def)

lemma claim_better_trans: "claim_better a b \<Longrightarrow> claim_better b c \<Longrightarrow> claim_better a c"
  by (auto simp: claim_better_def)

lemma claim_better_total: "\<not> claim_better a b \<Longrightarrow> \<not> claim_better b a \<Longrightarrow> cc_comment_id a = cc_comment_id b"
  by (auto simp: claim_better_def)

lemma claim_not_better_trans: "\<not> claim_better a b \<Longrightarrow> \<not> claim_better b c \<Longrightarrow> \<not> claim_better a c"
  by (auto simp: claim_better_def)

definition fresh_claims :: "instant \<Rightarrow> claim_comment list \<Rightarrow> claim_comment set" where
  "fresh_claims cutoff cs = {c \<in> set cs. cutoff < cc_created_at c}"

lemma elect_loop_Some:
  assumes "elect_loop cutoff cs best = Some w"
  shows "(w \<in> fresh_claims cutoff cs \<or> best = Some w) \<and>
    (\<forall>c \<in> fresh_claims cutoff cs. \<not> claim_better c w) \<and> (\<forall>b. best = Some b \<longrightarrow> \<not> claim_better b w)"
  using assms
proof (induction cs arbitrary: best)
  case Nil
  then show ?case by (simp add: fresh_claims_def)
next
  case (Cons c cs)
  consider (stale) "cc_created_at c \<le> cutoff"
    | (worse) b where "cutoff < cc_created_at c" "best = Some b" "\<not> claim_better c b"
    | (better) "cutoff < cc_created_at c" "case best of None \<Rightarrow> True | Some b \<Rightarrow> claim_better c b"
    by (cases best) fastforce+
  then show ?case
  proof cases
    case stale
    with Cons.IH [of best] Cons.prems show ?thesis by (auto simp: fresh_claims_def)
  next
    case (worse b)
    with Cons.prems have "elect_loop cutoff cs (Some b) = Some w" by simp
    from Cons.IH [OF this] worse show ?thesis
      by (auto simp: fresh_claims_def dest: claim_not_better_trans)
  next
    case better
    with Cons.prems have "elect_loop cutoff cs (Some c) = Some w" by simp
    from Cons.IH [OF this] better show ?thesis
      by (auto simp: fresh_claims_def dest: claim_better_trans split: option.splits)
  qed
qed

lemma elect_loop_None: "elect_loop cutoff cs best = None \<longleftrightarrow> best = None \<and> fresh_claims cutoff cs = {}"
  by (induction cutoff cs best rule: elect_loop.induct) (auto simp: fresh_claims_def split: option.splits)

lemma elect_claim_winner_Some:
  assumes "elect_claim_winner cs now ttl = Some w"
  shows "w \<in> fresh_claims (now - ttl) cs" "c \<in> fresh_claims (now - ttl) cs \<Longrightarrow> \<not> claim_better c w"
  using elect_loop_Some [OF assms [unfolded elect_claim_winner_def]] by auto

text \<open>
  The election is a function of the fresh claims alone: whatever order the tracker lists the
  comments in, daemons that read the same fresh claims elect the same one, the earliest with the
  smallest comment id; there is a winner exactly when a claim is fresh.
\<close>

theorem election_is_deterministic:
  assumes "fresh_claims (now - ttl) cs = fresh_claims (now - ttl) ds"
    "inj_on cc_comment_id (fresh_claims (now - ttl) cs)"
  shows "elect_claim_winner cs now ttl = elect_claim_winner ds now ttl \<and>
    (elect_claim_winner cs now ttl = None \<longleftrightarrow> fresh_claims (now - ttl) cs = {}) \<and>
    (\<forall>w c. elect_claim_winner cs now ttl = Some w \<longrightarrow> c \<in> fresh_claims (now - ttl) cs \<longrightarrow>
       cc_created_at w \<le> cc_created_at c \<and>
       (cc_created_at w = cc_created_at c \<longrightarrow> cc_comment_id w \<le> cc_comment_id c))"
proof -
  have none: "elect_claim_winner xs now ttl = None \<longleftrightarrow> fresh_claims (now - ttl) xs = {}" for xs
    by (simp add: elect_claim_winner_def elect_loop_None)
  have "elect_claim_winner cs now ttl = elect_claim_winner ds now ttl"
  proof (cases "elect_claim_winner cs now ttl")
    case None
    then show ?thesis using none assms(1) by metis
  next
    case (Some w)
    then obtain v where v: "elect_claim_winner ds now ttl = Some v"
      using none assms(1) by (metis option.exhaust)
    note w = elect_claim_winner_Some [OF Some] and v' = elect_claim_winner_Some [OF v, folded assms(1)]
    have "cc_comment_id v = cc_comment_id w" using claim_better_total w(2) [OF v'(1)] v'(2) [OF w(1)] by blast
    with assms(2) w(1) v'(1) Some v show ?thesis by (metis inj_onD)
  qed
  moreover have "cc_created_at w \<le> cc_created_at c \<and>
      (cc_created_at w = cc_created_at c \<longrightarrow> cc_comment_id w \<le> cc_comment_id c)"
    if "elect_claim_winner cs now ttl = Some w" "c \<in> fresh_claims (now - ttl) cs" for w c
    using elect_claim_winner_Some(2) [OF that] by (auto simp: claim_better_def)
  ultimately show ?thesis using none by blast
qed

theorem election_is_deterministic_witness:
  "elect_claim_winner [\<lparr>cc_comment_id = ''b'', cc_daemon_id = ''y'', cc_created_at = 5\<rparr>,
       \<lparr>cc_comment_id = ''a'', cc_daemon_id = ''x'', cc_created_at = 5\<rparr>] 6 4 =
   elect_claim_winner [\<lparr>cc_comment_id = ''a'', cc_daemon_id = ''x'', cc_created_at = 5\<rparr>,
       \<lparr>cc_comment_id = ''b'', cc_daemon_id = ''y'', cc_created_at = 5\<rparr>,
       \<lparr>cc_comment_id = ''0'', cc_daemon_id = ''z'', cc_created_at = 1\<rparr>] 6 4"
proof -
  let ?a = "\<lparr>cc_comment_id = ''a'', cc_daemon_id = ''x'', cc_created_at = 5\<rparr>"
  let ?b = "\<lparr>cc_comment_id = ''b'', cc_daemon_id = ''y'', cc_created_at = 5\<rparr>"
  let ?z = "\<lparr>cc_comment_id = ''0'', cc_daemon_id = ''z'', cc_created_at = 1\<rparr>"
  have "fresh_claims (6 - 4) [?b, ?a] = {?a, ?b}" "fresh_claims (6 - 4) [?a, ?b, ?z] = {?a, ?b}"
    by (auto simp: fresh_claims_def)
  with election_is_deterministic [of 6 4 "[?b, ?a]" "[?a, ?b, ?z]"] show ?thesis by simp
qed

section \<open>Many daemons, one ticket\<close>

record claim_world =
  cw_comments :: "comment list"
  cw_used :: "string set"
  cw_assignee :: string
  cw_state :: string
  cw_clock :: instant
  cw_phase :: "nat \<Rightarrow> claim_phase"
  cw_posted :: "nat \<Rightarrow> claim_comment option"

definition set_phase :: "nat \<Rightarrow> claim_phase \<Rightarrow> claim_world \<Rightarrow> claim_world" where
  "set_phase i p w = w\<lparr>cw_phase := (cw_phase w)(i := p)\<rparr>"

text \<open>The phases of a daemon that elected itself and has not given up.\<close>

fun in_lead :: "claim_phase \<Rightarrow> bool" where
  "in_lead (Assigning v c) = True"
| "in_lead (Moving v c) = True"
| "in_lead (ReadingBack v c m) = True"
| "in_lead (Claimed won st) = won"
| "in_lead _ = False"

definition resume :: "(nat \<Rightarrow> claim_args) \<Rightarrow> claim_world \<Rightarrow> nat \<Rightarrow> tracker_answer \<Rightarrow> claim_world" where
  "resume args w i r = set_phase i (claim_resume (args i) (cw_clock w) (cw_phase w i) r) w"

definition awaits :: "(nat \<Rightarrow> claim_args) \<Rightarrow> claim_world \<Rightarrow> nat \<Rightarrow> tracker_call \<Rightarrow> bool" where
  "awaits args w i call \<longleftrightarrow> claim_call (args i) (cw_phase w i) = Some call"

text \<open>
  The tracker's side of each call. A comment gets the tracker's time and an id never used before; the
  settle delay outlasts the instant of the daemon's own comment; and a daemon reads the claims while
  the claim of every daemon in the lead is still within its time to live. Daemon and tracker clocks agree.
\<close>

inductive claim_step :: "(nat \<Rightarrow> claim_args) \<Rightarrow> int \<Rightarrow> claim_world \<Rightarrow> claim_world \<Rightarrow> bool" for args ttl where
  tick: "cw_clock w < t \<Longrightarrow> claim_step args ttl w (w\<lparr>cw_clock := t\<rparr>)"
| other_comment: "cm_id c \<notin> cw_used w \<Longrightarrow> cm_created_at c = cw_clock w \<Longrightarrow>
    claim_step args ttl w (w\<lparr>cw_comments := cw_comments w @ [c], cw_used := insert (cm_id c) (cw_used w)\<rparr>)"
| other_edit: "claim_step args ttl w (w\<lparr>cw_assignee := v, cw_state := s\<rparr>)"
| call_fails: "awaits args w i call \<Longrightarrow> call \<noteq> Sleep \<Longrightarrow> claim_step args ttl w (resume args w i TrackerErr)"
| viewer: "awaits args w i ResolveViewer \<Longrightarrow> claim_step args ttl w (resume args w i (Viewer v))"
| create: "awaits args w i (CreateComment issue body) \<Longrightarrow> c \<noteq> [] \<Longrightarrow> c \<notin> cw_used w \<Longrightarrow>
    claim_step args ttl w
      ((resume args w i (CommentId c))\<lparr>
         cw_comments := cw_comments w @ [\<lparr>cm_id = c, cm_body = body, cm_created_at = cw_clock w\<rparr>],
         cw_used := insert c (cw_used w),
         cw_posted := (cw_posted w)(i := parse_claim_comment (ca_marker (args i))
           \<lparr>cm_id = c, cm_body = body, cm_created_at = cw_clock w\<rparr>)\<rparr>)"
| settle: "awaits args w i Sleep \<Longrightarrow> cw_posted w i = Some p \<Longrightarrow> cc_created_at p < cw_clock w \<Longrightarrow>
    claim_step args ttl w (resume args w i Unit)"
| list: "awaits args w i (ListComments issue) \<Longrightarrow>
    (\<forall>j p. in_lead (cw_phase w j) \<longrightarrow> cw_posted w j = Some p \<longrightarrow> cw_clock w - ttl < cc_created_at p) \<Longrightarrow>
    claim_step args ttl w (resume args w i (Comments (cw_comments w)))"
| delete: "awaits args w i (DeleteComment c) \<Longrightarrow>
    claim_step args ttl w ((resume args w i Unit)\<lparr>cw_comments := filter (\<lambda>x. cm_id x \<noteq> c) (cw_comments w)\<rparr>)"
| assign: "awaits args w i (AssignIssue issue v) \<Longrightarrow>
    claim_step args ttl w ((resume args w i Unit)\<lparr>cw_assignee := v\<rparr>)"
| move: "awaits args w i (MoveIssueState issue team s) \<Longrightarrow>
    claim_step args ttl w ((resume args w i Unit)\<lparr>cw_state := s\<rparr>)"
| read_back: "awaits args w i (FetchIssueAssignee issue) \<Longrightarrow>
    claim_step args ttl w (resume args w i (Assignee (cw_assignee w)))"

definition claim_init :: "claim_world \<Rightarrow> bool" where
  "claim_init w \<longleftrightarrow>
     (\<forall>i. cw_phase w i = ResolvingViewer \<and> cw_posted w i = None) \<and>
     distinct (map cm_id (cw_comments w)) \<and>
     (\<forall>c \<in> set (cw_comments w). cm_id c \<in> cw_used w \<and> cm_created_at c \<le> cw_clock w)"

section \<open>At most one claimant\<close>

text \<open>The daemons of one pool agree on the time to live and on the marker, which every claim body carries.\<close>

definition same_pool :: "(nat \<Rightarrow> claim_args) \<Rightarrow> int \<Rightarrow> (string \<Rightarrow> string option) \<Rightarrow> bool" where
  "same_pool args ttl marker \<longleftrightarrow>
     (\<forall>i v. ca_ttl (args i) = ttl \<and> ca_marker (args i) = marker \<and>
        marker (build_claim_body v (ca_daemon_id (args i))) \<noteq> None)"

fun phase_comment :: "claim_phase \<Rightarrow> string option" where
  "phase_comment (Settling v c) = Some c"
| "phase_comment (Listing v c) = Some c"
| "phase_comment (Deleting c) = Some c"
| "phase_comment (Assigning v c) = Some c"
| "phase_comment (Moving v c) = Some c"
| "phase_comment (ReadingBack v c m) = Some c"
| "phase_comment _ = None"

fun has_settled :: "claim_phase \<Rightarrow> bool" where
  "has_settled (Listing v c) = True"
| "has_settled p = in_lead p"

fun keeps_comment :: "claim_phase \<Rightarrow> bool" where
  "keeps_comment (Settling v c) = True"
| "keeps_comment p = has_settled p"

abbreviation cw_claims :: "(string \<Rightarrow> string option) \<Rightarrow> claim_world \<Rightarrow> claim_comment set" where
  "cw_claims marker w \<equiv> set (parse_claims marker (cw_comments w))"

definition daemon_ok :: "int \<Rightarrow> (string \<Rightarrow> string option) \<Rightarrow> claim_world \<Rightarrow> nat \<Rightarrow> bool" where
  "daemon_ok ttl marker w i \<longleftrightarrow>
     (\<forall>c. phase_comment (cw_phase w i) = Some c \<longrightarrow> (\<exists>p. cw_posted w i = Some p \<and> cc_comment_id p = c)) \<and>
     (keeps_comment (cw_phase w i) \<longrightarrow> (\<exists>p. cw_posted w i = Some p \<and> p \<in> cw_claims marker w)) \<and>
     (has_settled (cw_phase w i) \<longrightarrow> (\<forall>p. cw_posted w i = Some p \<longrightarrow> cc_created_at p < cw_clock w)) \<and>
     (in_lead (cw_phase w i) \<longrightarrow> (\<forall>p c. cw_posted w i = Some p \<longrightarrow> c \<in> cw_claims marker w \<longrightarrow>
        \<not> claim_better c p \<or> cc_created_at c \<le> cw_clock w - ttl))"

definition tracker_ok :: "claim_world \<Rightarrow> bool" where
  "tracker_ok w \<longleftrightarrow>
     distinct (map cm_id (cw_comments w)) \<and>
     (\<forall>c \<in> set (cw_comments w). cm_id c \<in> cw_used w \<and> cm_created_at c \<le> cw_clock w) \<and>
     (\<forall>i p. cw_posted w i = Some p \<longrightarrow> cc_comment_id p \<in> cw_used w) \<and>
     (\<forall>i j p q. cw_posted w i = Some p \<longrightarrow> cw_posted w j = Some q \<longrightarrow> cc_comment_id p = cc_comment_id q \<longrightarrow> i = j)"

definition claim_inv :: "int \<Rightarrow> (string \<Rightarrow> string option) \<Rightarrow> claim_world \<Rightarrow> bool" where
  "claim_inv ttl marker w \<longleftrightarrow> tracker_ok w \<and> (\<forall>i. daemon_ok ttl marker w i)"

lemma set_parse_claims:
  "set (parse_claims marker cs) = {p. \<exists>c \<in> set cs. parse_claim_comment marker c = Some p}"
  by (auto simp: parse_claims_def List.map_filter_def image_iff) force

lemma parse_claim_fields:
  "parse_claim_comment marker c = Some p \<Longrightarrow> cc_comment_id p = cm_id c \<and> cc_created_at p = cm_created_at c"
  by (auto simp: parse_claim_comment_def)

lemma claim_unique:
  assumes "tracker_ok w" "p \<in> cw_claims marker w" "q \<in> cw_claims marker w" "cc_comment_id p = cc_comment_id q"
  shows "p = q"
proof -
  from assms(2,3) obtain c d where cd: "c \<in> set (cw_comments w)" "parse_claim_comment marker c = Some p"
    "d \<in> set (cw_comments w)" "parse_claim_comment marker d = Some q"
    by (auto simp: set_parse_claims)
  with assms(4) have "cm_id c = cm_id d" by (auto dest!: parse_claim_fields)
  with cd assms(1) have "c = d" by (auto simp: tracker_ok_def distinct_map dest: inj_onD)
  with cd show ?thesis by simp
qed

lemma in_lead_settled: "in_lead p \<Longrightarrow> has_settled p"
  by (cases p) auto

lemma has_settled_keeps: "has_settled p \<Longrightarrow> keeps_comment p"
  by (cases p) auto

lemma lead_is_unique:
  assumes inv: "claim_inv ttl marker w" and i: "in_lead (cw_phase w i)" and j: "in_lead (cw_phase w j)"
    and fresh: "\<And>k p. in_lead (cw_phase w k) \<Longrightarrow> cw_posted w k = Some p \<Longrightarrow> k \<in> {i, j} \<Longrightarrow>
      cw_clock w - ttl < cc_created_at p"
  shows "i = j"
proof -
  have "\<exists>p. cw_posted w k = Some p \<and> p \<in> cw_claims marker w" if "in_lead (cw_phase w k)" for k
    using inv in_lead_settled [OF that] has_settled_keeps by (auto simp: claim_inv_def daemon_ok_def)
  with i j obtain p q where p: "cw_posted w i = Some p" "p \<in> cw_claims marker w"
    and q: "cw_posted w j = Some q" "q \<in> cw_claims marker w" by metis
  from inv i j p q fresh have "\<not> claim_better q p" "\<not> claim_better p q"
    by (fastforce simp: claim_inv_def daemon_ok_def)+
  then have "cc_comment_id p = cc_comment_id q" by (rule claim_better_total [rotated])
  with inv p q show ?thesis by (auto simp: claim_inv_def tracker_ok_def)
qed

text \<open>A daemon that does not move keeps its part of the invariant while time passes and comments come and go.\<close>

lemma daemon_ok_frame:
  assumes ok: "daemon_ok ttl marker w i"
    and same: "cw_phase w' i = cw_phase w i" "cw_posted w' i = cw_posted w i" "cw_clock w \<le> cw_clock w'"
    and kept: "\<And>p. cw_posted w i = Some p \<Longrightarrow> keeps_comment (cw_phase w i) \<Longrightarrow> p \<in> cw_claims marker w \<Longrightarrow>
      p \<in> cw_claims marker w'"
    and new: "\<And>c. c \<in> cw_claims marker w' \<Longrightarrow> c \<in> cw_claims marker w \<or> cc_created_at c = cw_clock w"
  shows "daemon_ok ttl marker w' i"
proof -
  have "\<not> claim_better c p \<or> cc_created_at c \<le> cw_clock w' - ttl"
    if lead: "in_lead (cw_phase w i)" and p: "cw_posted w i = Some p" and c: "c \<in> cw_claims marker w'" for p c
  proof (cases "c \<in> cw_claims marker w")
    case True
    with ok lead p same(3) show ?thesis by (fastforce simp: daemon_ok_def)
  next
    case False
    with new [OF c] have "cc_created_at c = cw_clock w" by simp
    moreover from ok p in_lead_settled [OF lead] have "cc_created_at p < cw_clock w"
      by (simp add: daemon_ok_def)
    ultimately show ?thesis by (simp add: claim_better_def)
  qed
  with ok same kept show ?thesis by (fastforce simp: daemon_ok_def)
qed

lemma cw_claims_append:
  "set (parse_claims marker (cs @ [c])) = set (parse_claims marker cs) \<union> set_option (parse_claim_comment marker c)"
  by (auto simp: set_parse_claims)

lemma resume_simps [simp]:
  "cw_comments (resume args w i r) = cw_comments w" "cw_used (resume args w i r) = cw_used w"
  "cw_clock (resume args w i r) = cw_clock w" "cw_posted (resume args w i r) = cw_posted w"
  "cw_phase (resume args w i r) j =
     (if j = i then claim_resume (args i) (cw_clock w) (cw_phase w i) r else cw_phase w j)"
  by (simp_all add: resume_def set_phase_def)

text \<open>The moves that change only the phase of one daemon.\<close>

lemma claim_inv_resume:
  assumes inv: "claim_inv ttl marker w" and ok: "daemon_ok ttl marker (resume args w i r) i"
  shows "claim_inv ttl marker (resume args w i r)"
proof -
  have "daemon_ok ttl marker (resume args w i r) j" if "j \<noteq> i" for j
    by (rule daemon_ok_frame [where w = w]) (use inv that in \<open>simp_all add: claim_inv_def\<close>)
  with ok inv show ?thesis by (simp add: claim_inv_def tracker_ok_def) metis
qed

lemma claim_inv_edit:
  "claim_inv ttl marker w \<Longrightarrow> claim_inv ttl marker (w\<lparr>cw_assignee := v\<rparr>)"
  "claim_inv ttl marker w \<Longrightarrow> claim_inv ttl marker (w\<lparr>cw_state := s\<rparr>)"
  by (simp_all add: claim_inv_def tracker_ok_def daemon_ok_def)

lemma daemon_ok_abandon:
  assumes "daemon_ok ttl marker w i" "phase_comment (cw_phase w i) = Some c"
    "cw_phase w' i = abandon_claim c" "cw_posted w' i = cw_posted w i"
  shows "daemon_ok ttl marker w' i"
  using assms by (auto simp: daemon_ok_def abandon_claim_def)

lemma daemon_ok_lead:
  assumes "daemon_ok ttl marker w i" "in_lead (cw_phase w i)" "in_lead (cw_phase w' i)"
    "phase_comment (cw_phase w' i) \<in> {None, phase_comment (cw_phase w i)}"
    "cw_posted w' i = cw_posted w i" "cw_clock w' = cw_clock w" "cw_comments w' = cw_comments w"
  shows "daemon_ok ttl marker w' i"
  using assms by (auto simp: daemon_ok_def dest: in_lead_settled has_settled_keeps)

lemma awaits_phase:
  "awaits args w i ResolveViewer \<Longrightarrow> cw_phase w i = ResolvingViewer"
  "awaits args w i (CreateComment x b) \<Longrightarrow> \<exists>v. cw_phase w i = Creating v \<and> b = build_claim_body v (ca_daemon_id (args i))"
  "awaits args w i Sleep \<Longrightarrow> \<exists>v c. cw_phase w i = Settling v c"
  "awaits args w i (ListComments x) \<Longrightarrow> \<exists>v c. cw_phase w i = Listing v c"
  "awaits args w i (DeleteComment d) \<Longrightarrow> cw_phase w i = Deleting d"
  "awaits args w i (AssignIssue x v) \<Longrightarrow> \<exists>c. cw_phase w i = Assigning v c"
  "awaits args w i (MoveIssueState x y s) \<Longrightarrow> \<exists>v c. cw_phase w i = Moving v c"
  "awaits args w i (FetchIssueAssignee x) \<Longrightarrow> \<exists>v c m. cw_phase w i = ReadingBack v c m"
  by (cases "cw_phase w i"; simp add: awaits_def)+

text \<open>Phases with a comment have one way back: to the abandonment of that comment.\<close>

lemma daemon_ok_abandoning:
  assumes "daemon_ok ttl marker w i" "claim_resume (args i) (cw_clock w) (cw_phase w i) r = abandon_claim c"
    "phase_comment (cw_phase w i) = Some c"
  shows "daemon_ok ttl marker (resume args w i r) i"
  by (rule daemon_ok_abandon [OF assms(1,3)]) (simp_all add: assms(2))

lemma daemon_ok_idle:
  assumes "phase_comment (cw_phase w i) = None" "\<not> keeps_comment (cw_phase w i)"
  shows "daemon_ok ttl marker w i"
  using assms has_settled_keeps in_lead_settled by (auto simp: daemon_ok_def)

lemma claim_inv_fails:
  assumes inv: "claim_inv ttl marker w" and a: "awaits args w i call" "call \<noteq> Sleep"
  shows "claim_inv ttl marker (resume args w i TrackerErr)"
proof (rule claim_inv_resume [OF inv])
  have ok: "daemon_ok ttl marker w i" using inv by (simp add: claim_inv_def)
  show "daemon_ok ttl marker (resume args w i TrackerErr) i"
  proof (cases "cw_phase w i")
    case (Moving v c)
    then show ?thesis by (intro daemon_ok_lead [OF ok]) simp_all
  qed (use a in \<open>auto simp: awaits_def intro: daemon_ok_idle daemon_ok_abandoning [OF ok]\<close>)
qed

lemma claim_inv_create:
  assumes inv: "claim_inv ttl marker w" and pool: "same_pool args ttl marker"
    and a: "awaits args w i (CreateComment x body)" "c \<notin> cw_used w"
  defines "m \<equiv> \<lparr>cm_id = c, cm_body = body, cm_created_at = cw_clock w\<rparr>"
  shows "claim_inv ttl marker ((resume args w i (CommentId c))\<lparr>cw_comments := cw_comments w @ [m],
    cw_used := insert c (cw_used w), cw_posted := (cw_posted w)(i := parse_claim_comment (ca_marker (args i)) m)\<rparr>)"
    (is "claim_inv _ _ ?w")
proof -
  from a(1) obtain v where v: "cw_phase w i = Creating v" "body = build_claim_body v (ca_daemon_id (args i))"
    using awaits_phase(2) by blast
  from pool have mk: "ca_marker (args i) = marker" and "marker body \<noteq> None"
    by (simp_all add: same_pool_def v(2))
  then obtain p where p: "parse_claim_comment marker m = Some p"
    by (auto simp: parse_claim_comment_def m_def)
  then have pf: "cc_comment_id p = c" "cc_created_at p = cw_clock w"
    by (auto simp: m_def dest: parse_claim_fields)
  have claims: "cw_claims marker ?w = insert p (cw_claims marker w)"
    by (auto simp: cw_claims_append p)
  have w: "tracker_ok w" using inv by (simp add: claim_inv_def)
  have "cc_comment_id q \<noteq> c" if "cw_posted w k = Some q" for k q
    using w a(2) that by (auto simp: tracker_ok_def)
  moreover have "cm_id m = c" "cm_created_at m = cw_clock w" by (simp_all add: m_def)
  ultimately have "tracker_ok ?w"
    using w a(2) pf unfolding tracker_ok_def by (auto simp: mk p)
  moreover have "daemon_ok ttl marker ?w j" for j
  proof (cases "j = i")
    case True
    with v(1) p mk pf claims show ?thesis by (simp add: daemon_ok_def)
  next
    case False
    show ?thesis
      by (rule daemon_ok_frame [where w = w]) (use False inv claims pf in \<open>auto simp: claim_inv_def\<close>)
  qed
  ultimately show ?thesis by (simp add: claim_inv_def)
qed

lemma claim_inv_other_comment:
  assumes "claim_inv ttl marker w" "cm_id c \<notin> cw_used w" "cm_created_at c = cw_clock w"
  shows "claim_inv ttl marker (w\<lparr>cw_comments := cw_comments w @ [c], cw_used := insert (cm_id c) (cw_used w)\<rparr>)"
    (is "claim_inv _ _ ?w")
proof -
  have "tracker_ok ?w" using assms by (fastforce simp: claim_inv_def tracker_ok_def)
  moreover have "daemon_ok ttl marker ?w j" for j
    by (rule daemon_ok_frame [where w = w])
       (use assms in \<open>auto simp: claim_inv_def cw_claims_append dest: parse_claim_fields\<close>)
  ultimately show ?thesis by (simp add: claim_inv_def)
qed

lemma claim_inv_tick:
  assumes "claim_inv ttl marker w" "cw_clock w < t"
  shows "claim_inv ttl marker (w\<lparr>cw_clock := t\<rparr>)"
proof -
  have "daemon_ok ttl marker (w\<lparr>cw_clock := t\<rparr>) j" for j
    by (rule daemon_ok_frame [where w = w]) (use assms in \<open>auto simp: claim_inv_def\<close>)
  with assms show ?thesis by (fastforce simp: claim_inv_def tracker_ok_def)
qed

lemma claim_inv_settle:
  assumes inv: "claim_inv ttl marker w" and a: "awaits args w i Sleep" "cw_posted w i = Some p"
    "cc_created_at p < cw_clock w"
  shows "claim_inv ttl marker (resume args w i Unit)"
proof (rule claim_inv_resume [OF inv])
  from a(1) obtain v c where "cw_phase w i = Settling v c" using awaits_phase(3) by blast
  moreover have "daemon_ok ttl marker w i" using inv by (simp add: claim_inv_def)
  ultimately show "daemon_ok ttl marker (resume args w i Unit) i"
    using a(2,3) by (simp add: daemon_ok_def)
qed

lemma claim_inv_list:
  assumes inv: "claim_inv ttl marker w" and pool: "same_pool args ttl marker"
    and a: "awaits args w i (ListComments x)"
  shows "claim_inv ttl marker (resume args w i (Comments (cw_comments w))) \<and>
    (\<forall>p. in_lead (cw_phase (resume args w i (Comments (cw_comments w))) i) \<longrightarrow> cw_posted w i = Some p \<longrightarrow>
       cw_clock w - ttl < cc_created_at p)"
proof -
  let ?w = "resume args w i (Comments (cw_comments w))"
  from a obtain v c where ph: "cw_phase w i = Listing v c" using awaits_phase(4) by blast
  have ok: "daemon_ok ttl marker w i" using inv by (simp add: claim_inv_def)
  with ph obtain p where p: "cw_posted w i = Some p" "cc_comment_id p = c" "p \<in> cw_claims marker w"
    by (auto simp: daemon_ok_def)
  from pool have m: "ca_ttl (args i) = ttl" "ca_marker (args i) = marker" by (auto simp: same_pool_def)
  let ?win = "elect_claim_winner (parse_claims marker (cw_comments w)) (cw_clock w) ttl"
  have won: "p \<in> fresh_claims (cw_clock w - ttl) (parse_claims marker (cw_comments w)) \<and>
      (\<forall>c \<in> cw_claims marker w. \<not> claim_better c p \<or> cc_created_at c \<le> cw_clock w - ttl)"
    if "map_option cc_comment_id ?win = Some c"
  proof -
    from that obtain q where q: "?win = Some q" "cc_comment_id q = c" by auto
    note e = elect_claim_winner_Some [OF q(1)]
    from e(1) have "q \<in> cw_claims marker w" by (simp add: fresh_claims_def)
    with inv p q(2) have "q = p" by (auto simp: claim_inv_def intro: claim_unique)
    with e show ?thesis by (auto simp: fresh_claims_def linorder_not_le [symmetric])
  qed
  have "daemon_ok ttl marker ?w i"
  proof (cases "map_option cc_comment_id ?win = Some c")
    case True
    with ph m have "cw_phase ?w i = Assigning v c" by simp
    with ok ph p won [OF True] show ?thesis by (auto simp: daemon_ok_def)
  next
    case False
    with ph m show ?thesis by (intro daemon_ok_abandoning [OF ok]) auto
  qed
  then have "claim_inv ttl marker ?w" by (rule claim_inv_resume [OF inv])
  moreover have "cw_clock w - ttl < cc_created_at p'" if "in_lead (cw_phase ?w i)" "cw_posted w i = Some p'" for p'
  proof -
    have "map_option cc_comment_id ?win = Some c"
      using that(1) ph m by (auto simp: abandon_claim_def split: if_splits)
    from won [OF this] that(2) p(1) show ?thesis by (simp add: fresh_claims_def)
  qed
  ultimately show ?thesis by blast
qed

lemma claim_inv_delete:
  assumes inv: "claim_inv ttl marker w" and a: "awaits args w i (DeleteComment c)"
  shows "claim_inv ttl marker ((resume args w i Unit)\<lparr>cw_comments := filter (\<lambda>x. cm_id x \<noteq> c) (cw_comments w)\<rparr>)"
    (is "claim_inv _ _ ?w")
proof -
  from a have ph: "cw_phase w i = Deleting c" by (rule awaits_phase(5))
  moreover have "daemon_ok ttl marker w i" using inv by (simp add: claim_inv_def)
  ultimately obtain p where p: "cw_posted w i = Some p" "cc_comment_id p = c"
    by (auto simp: daemon_ok_def)
  have claims: "cw_claims marker ?w = {q \<in> cw_claims marker w. cc_comment_id q \<noteq> c}"
    by (auto simp: set_parse_claims dest: parse_claim_fields)
  have "tracker_ok ?w"
    using inv by (auto simp: claim_inv_def tracker_ok_def distinct_map_filter)
  moreover have "daemon_ok ttl marker ?w j" for j
  proof (cases "j = i")
    case True
    with ph show ?thesis by (intro daemon_ok_idle) simp_all
  next
    case False
    have own: "cc_comment_id q \<noteq> c" if "cw_posted w j = Some q" for q
      using inv p that False by (auto simp: claim_inv_def tracker_ok_def)
    show ?thesis
      by (rule daemon_ok_frame [where w = w]) (use inv own False claims in \<open>auto simp: claim_inv_def\<close>)
  qed
  ultimately show ?thesis by (simp add: claim_inv_def)
qed

lemma claim_inv_ahead:
  assumes inv: "claim_inv ttl marker w"
  shows "awaits args w i (AssignIssue x v) \<Longrightarrow> claim_inv ttl marker (resume args w i Unit)"
    and "awaits args w i (MoveIssueState x y s) \<Longrightarrow> claim_inv ttl marker (resume args w i Unit)"
    and "awaits args w i (FetchIssueAssignee x) \<Longrightarrow> claim_inv ttl marker (resume args w i (Assignee u))"
proof -
  have ok: "daemon_ok ttl marker w i" using inv by (simp add: claim_inv_def)
  show "claim_inv ttl marker (resume args w i Unit)" if "awaits args w i (AssignIssue x v)"
    by (rule claim_inv_resume [OF inv], rule daemon_ok_lead [OF ok])
       (use awaits_phase(6) [OF that] in \<open>auto simp: after_assign_def split: if_splits\<close>)
  show "claim_inv ttl marker (resume args w i Unit)" if "awaits args w i (MoveIssueState x y s)"
    by (rule claim_inv_resume [OF inv], rule daemon_ok_lead [OF ok])
       (use awaits_phase(7) [OF that] in auto)
  show "claim_inv ttl marker (resume args w i (Assignee u))" if "awaits args w i (FetchIssueAssignee x)"
  proof (rule claim_inv_resume [OF inv])
    from awaits_phase(8) [OF that] obtain v c m where ph: "cw_phase w i = ReadingBack v c m" by blast
    show "daemon_ok ttl marker (resume args w i (Assignee u)) i"
    proof (cases "u = v")
      case True
      with ph show ?thesis by (intro daemon_ok_lead [OF ok]) simp_all
    next
      case False
      with ph show ?thesis by (intro daemon_ok_abandoning [OF ok]) simp_all
    qed
  qed
qed

lemma claim_inv_init: "claim_init w \<Longrightarrow> claim_inv ttl marker w"
  by (auto simp: claim_init_def claim_inv_def tracker_ok_def intro: daemon_ok_idle)

definition one_lead :: "claim_world \<Rightarrow> bool" where
  "one_lead w \<longleftrightarrow> (\<forall>i j. in_lead (cw_phase w i) \<longrightarrow> in_lead (cw_phase w j) \<longrightarrow> i = j)"

text \<open>Only the election puts a daemon in the lead.\<close>

lemma lead_only_by_election:
  assumes "in_lead (claim_resume a now p r)" "\<not> in_lead p"
  shows "\<exists>v c cs. p = Listing v c \<and> r = Comments cs"
  using assms by (cases p; cases r) (auto simp: abandon_claim_def split: if_splits)

lemma one_lead_resume:
  assumes "one_lead w" "\<And>v c cs. cw_phase w i = Listing v c \<Longrightarrow> r \<noteq> Comments cs"
  shows "one_lead (resume args w i r)"
  using assms lead_only_by_election [of "args i" "cw_clock w" "cw_phase w i" r]
  unfolding one_lead_def by (auto split: if_splits)

lemma one_lead_upd [simp]:
  "one_lead (w\<lparr>cw_comments := a\<rparr>) = one_lead w" "one_lead (w\<lparr>cw_used := b\<rparr>) = one_lead w"
  "one_lead (w\<lparr>cw_clock := c\<rparr>) = one_lead w" "one_lead (w\<lparr>cw_posted := d\<rparr>) = one_lead w"
  "one_lead (w\<lparr>cw_assignee := e\<rparr>) = one_lead w" "one_lead (w\<lparr>cw_state := f\<rparr>) = one_lead w"
  by (simp_all add: one_lead_def)

lemma claim_step_inv:
  assumes "claim_step args ttl w w'" "same_pool args ttl marker" "claim_inv ttl marker w" "one_lead w"
  shows "claim_inv ttl marker w' \<and> one_lead w'"
  using assms
proof (induction rule: claim_step.induct)
  case (tick w t)
  then show ?case using claim_inv_tick [of ttl marker w t] by simp
next
  case (other_comment c w)
  then show ?case using claim_inv_other_comment [of ttl marker w c] by simp
next
  case (other_edit w v s)
  then show ?case using claim_inv_edit by simp
next
  case (call_fails w i call)
  then show ?case using claim_inv_fails one_lead_resume by (metis tracker_answer.distinct(5))
next
  case (viewer w i v)
  then have "daemon_ok ttl marker (resume args w i (Viewer v)) i"
    by (intro daemon_ok_idle) (auto dest!: awaits_phase(1))
  with viewer show ?case using claim_inv_resume one_lead_resume by simp
next
  case (create w i issue body c)
  then have "one_lead (resume args w i (CommentId c))" using one_lead_resume by simp
  with create show ?case
    using claim_inv_create [of ttl marker w args i issue body c] by simp
next
  case (settle w i p)
  then show ?case using claim_inv_settle one_lead_resume by simp
next
  case (list w i issue)
  note inv = claim_inv_list [OF list(4) list(3) list(1)]
  let ?w = "resume args w i (Comments (cw_comments w))"
  have fresh: "cw_clock ?w - ttl < cc_created_at p"
    if "in_lead (cw_phase ?w k)" "cw_posted ?w k = Some p" for k p
  proof (cases "k = i")
    case True
    then show ?thesis using conjunct2 [OF inv, rule_format, of p] that by simp
  next
    case False
    then show ?thesis using list(2) [rule_format, of k p] that by simp
  qed
  have "j = k" if "in_lead (cw_phase ?w j)" "in_lead (cw_phase ?w k)" for j k
    by (rule lead_is_unique [OF conjunct1 [OF inv] that]) (rule fresh)
  then have "one_lead ?w" unfolding one_lead_def by blast
  with conjunct1 [OF inv] show ?case ..
next
  case (delete w i c)
  then have "one_lead (resume args w i Unit)" using one_lead_resume by simp
  with delete show ?case using claim_inv_delete [of ttl marker w args i c] by simp
next
  case (assign w i issue v)
  then have "one_lead (resume args w i Unit)" using one_lead_resume by simp
  with assign show ?case using claim_inv_ahead(1) claim_inv_edit(1) by simp
next
  case (move w i issue team s)
  then have "one_lead (resume args w i Unit)" using one_lead_resume by simp
  with move show ?case using claim_inv_ahead(2) claim_inv_edit(2) by simp
next
  case (read_back w i issue)
  then show ?case using claim_inv_ahead(3) one_lead_resume by simp
qed

lemma claim_reachable_inv:
  assumes "(claim_step args ttl)\<^sup>*\<^sup>* w0 w" "claim_init w0" "same_pool args ttl marker"
  shows "claim_inv ttl marker w \<and> one_lead w"
  using assms
proof (induction rule: rtranclp_induct)
  case base
  then show ?case by (simp add: claim_inv_init claim_init_def one_lead_def)
next
  case (step w w')
  then show ?case using claim_step_inv by blast
qed

text \<open>
  The contract of the pool: a ticket's winners are a set, and a daemon may be added only when no other
  is in it. A step of the tracker and the daemons either leaves the winners as they are or adds one so.
\<close>

definition winners :: "claim_world \<Rightarrow> nat set" where
  "winners w = {i. \<exists>st. cw_phase w i = Claimed True st}"

inductive spec_step :: "nat set \<Rightarrow> nat set \<Rightarrow> bool" where
  skip: "spec_step W W"
| win: "W \<subseteq> {i} \<Longrightarrow> spec_step W (insert i W)"

inductive_simps spec_step_iff: "spec_step W W'"

lemma winners_lead: "i \<in> winners w \<Longrightarrow> in_lead (cw_phase w i)"
  by (auto simp: winners_def)

lemma winners_resume:
  "winners (resume args w i r) =
     (if \<exists>st. claim_resume (args i) (cw_clock w) (cw_phase w i) r = Claimed True st
      then insert i (winners w) else winners w - {i})"
  by (auto simp: winners_def split: if_splits)

lemma winner_stays: "i \<in> winners w \<Longrightarrow> i \<in> winners (resume args w i r)"
  by (auto simp: winners_def)

lemma spec_step_resume:
  assumes "one_lead (resume args w i r)"
  shows "spec_step (winners w) (winners (resume args w i r))"
proof (cases "i \<in> winners (resume args w i r)")
  case True
  have "winners w \<subseteq> {i}"
  proof
    fix j assume "j \<in> winners w"
    then have "j \<in> winners (resume args w i r)" using winner_stays [of i] by (cases "j = i") (auto simp: winners_def)
    with True assms winners_lead have "j = i" unfolding one_lead_def by metis
    then show "j \<in> {i}" by simp
  qed
  moreover from True have "winners (resume args w i r) = insert i (winners w)"
    by (auto simp: winners_resume split: if_splits)
  ultimately show ?thesis by (simp add: spec_step.win)
next
  case False
  then have "i \<notin> winners w" using winner_stays by blast
  with False have "winners (resume args w i r) = winners w"
    by (auto simp: winners_resume split: if_splits)
  then show ?thesis by (simp add: spec_step.skip)
qed

lemma winners_upd [simp]:
  "winners (w\<lparr>cw_comments := a\<rparr>) = winners w" "winners (w\<lparr>cw_used := b\<rparr>) = winners w"
  "winners (w\<lparr>cw_clock := c\<rparr>) = winners w" "winners (w\<lparr>cw_posted := d\<rparr>) = winners w"
  "winners (w\<lparr>cw_assignee := e\<rparr>) = winners w" "winners (w\<lparr>cw_state := f\<rparr>) = winners w"
  by (simp_all add: winners_def)

lemma claim_step_spec:
  assumes "claim_step args ttl w w'" "one_lead w'"
  shows "spec_step (winners w) (winners w')"
  using assms
  by (induction rule: claim_step.induct) (simp_all add: spec_step.skip spec_step_resume)


text \<open>One daemon alone: it posts, waits, elects itself, assigns the ticket and reads itself back.\<close>

definition demo_args :: "nat \<Rightarrow> claim_args" where
  "demo_args i = \<lparr>ca_daemon_id = ''d'', ca_issue = issue_default, ca_promote_state = [], ca_ttl = 10,
     ca_marker = (\<lambda>_. Some ''x'')\<rparr>"

definition demo_world :: "comment list \<Rightarrow> string \<Rightarrow> instant \<Rightarrow> claim_phase \<Rightarrow> claim_world" where
  "demo_world cs who now ph =
     \<lparr>cw_comments = cs, cw_used = set (map cm_id cs), cw_assignee = who, cw_state = [], cw_clock = now,
      cw_phase = (\<lambda>i. if i = 0 then ph else ResolvingViewer),
      cw_posted = (\<lambda>i. if i = 0 \<and> cs \<noteq> [] then Some \<lparr>cc_comment_id = ''c'', cc_daemon_id = ''x'', cc_created_at = 0\<rparr> else None)\<rparr>"

definition demo_comment :: comment where
  "demo_comment = \<lparr>cm_id = ''c'', cm_body = build_claim_body ''v'' ''d'', cm_created_at = 0\<rparr>"

lemma demo_resume:
  "resume demo_args (demo_world cs who now ph) 0 r =
   demo_world cs who now (claim_resume (demo_args 0) now ph r)"
  by (rule claim_world.equality) (auto simp: resume_def set_phase_def demo_world_def)

lemma demo_awaits:
  "awaits demo_args (demo_world cs who now ph) 0 call \<longleftrightarrow> claim_call (demo_args 0) ph = Some call"
  by (simp add: awaits_def demo_world_def)

lemma demo_step_create:
  "claim_step demo_args 10 (demo_world [] [] 0 (Creating ''v'')) (demo_world [demo_comment] [] 0 (Settling ''v'' ''c''))"
proof -
  let ?w = "demo_world [] [] 0 (Creating ''v'')"
  let ?m = "\<lparr>cm_id = ''c'', cm_body = build_claim_body ''v'' ''d'', cm_created_at = cw_clock ?w\<rparr>"
  have "(resume demo_args ?w 0 (CommentId ''c''))\<lparr>cw_comments := cw_comments ?w @ [?m], cw_used := insert ''c'' (cw_used ?w),
      cw_posted := (cw_posted ?w)(0 := parse_claim_comment (ca_marker (demo_args 0)) ?m)\<rparr>
    = demo_world [demo_comment] [] 0 (Settling ''v'' ''c'')"
    by (rule claim_world.equality)
       (auto simp: resume_def set_phase_def demo_world_def demo_comment_def demo_args_def parse_claim_comment_def)
  moreover have "awaits demo_args ?w 0 (CreateComment (iss_id (ca_issue (demo_args 0))) (build_claim_body ''v'' ''d''))"
    by (simp add: demo_awaits demo_args_def)
  moreover have "''c'' \<notin> cw_used ?w" by (simp add: demo_world_def)
  ultimately show ?thesis by (metis claim_step.create list.distinct(1))
qed

lemma demo_step_settle:
  "claim_step demo_args 10 (demo_world [demo_comment] [] 1 (Settling ''v'' ''c'')) (demo_world [demo_comment] [] 1 (Listing ''v'' ''c''))"
  using claim_step.settle [of demo_args "demo_world [demo_comment] [] 1 (Settling ''v'' ''c'')" 0
      "\<lparr>cc_comment_id = ''c'', cc_daemon_id = ''x'', cc_created_at = 0\<rparr>" 10]
  by (simp add: demo_awaits demo_resume) (simp add: demo_world_def)

lemma demo_step_list:
  "claim_step demo_args 10 (demo_world [demo_comment] [] 1 (Listing ''v'' ''c'')) (demo_world [demo_comment] [] 1 (Assigning ''v'' ''c''))"
proof -
  let ?w = "demo_world [demo_comment] [] 1 (Listing ''v'' ''c'')"
  have "cw_comments ?w = [demo_comment]" "\<not> in_lead (cw_phase ?w j)" for j
    by (simp_all add: demo_world_def)
  moreover have "claim_resume (demo_args 0) 1 (Listing ''v'' ''c'') (Comments [demo_comment]) = Assigning ''v'' ''c''"
    by (simp add: demo_args_def demo_comment_def parse_claims_def List.map_filter_def parse_claim_comment_def
        elect_claim_winner_def)
  ultimately show ?thesis
    using claim_step.list [of demo_args ?w 0 "iss_id (ca_issue (demo_args 0))" 10]
    by (simp add: demo_awaits demo_resume)
qed

lemma demo_step_assign:
  "claim_step demo_args 10 (demo_world [demo_comment] [] 1 (Assigning ''v'' ''c''))
     (demo_world [demo_comment] ''v'' 1 (ReadingBack ''v'' ''c'' []))"
proof -
  have "(demo_world [demo_comment] [] 1 p)\<lparr>cw_assignee := ''v''\<rparr> = demo_world [demo_comment] ''v'' 1 p" for p
    by (simp add: demo_world_def)
  moreover have "claim_resume (demo_args 0) 1 (Assigning ''v'' ''c'') Unit = ReadingBack ''v'' ''c'' []"
    by (simp add: after_assign_def demo_args_def)
  ultimately show ?thesis
    using claim_step.assign [of demo_args "demo_world [demo_comment] [] 1 (Assigning ''v'' ''c'')" 0
        "iss_id (ca_issue (demo_args 0))" "''v''" 10]
    by (simp add: demo_awaits demo_resume del: claim_resume.simps)
qed

lemma demo_claim_run:
  "(claim_step demo_args 10)\<^sup>*\<^sup>* (demo_world [] [] 0 ResolvingViewer)
     (demo_world [demo_comment] ''v'' 1 (ReadingBack ''v'' ''c'' []))"
proof -
  have "claim_step demo_args 10 (demo_world [] [] 0 ResolvingViewer) (demo_world [] [] 0 (Creating ''v''))"
    using claim_step.viewer [of demo_args "demo_world [] [] 0 ResolvingViewer" 0 10 "''v''"]
    by (simp add: demo_awaits demo_resume)
  moreover have "claim_step demo_args 10 (demo_world [demo_comment] [] 0 (Settling ''v'' ''c''))
      (demo_world [demo_comment] [] 1 (Settling ''v'' ''c''))"
    using claim_step.tick [of "demo_world [demo_comment] [] 0 (Settling ''v'' ''c'')" 1 demo_args 10]
    by (simp add: demo_world_def)
  ultimately show ?thesis
    using demo_step_create demo_step_settle demo_step_list demo_step_assign
    by (meson rtranclp.rtrancl_into_rtrancl rtranclp.rtrancl_refl)
qed


section \<open>Every attempt ends\<close>

text \<open>The calls still to be answered, at most.\<close>

fun claim_rank :: "claim_phase \<Rightarrow> nat" where
  "claim_rank ResolvingViewer = 8"
| "claim_rank (Creating v) = 7"
| "claim_rank (Settling v c) = 6"
| "claim_rank (Listing v c) = 5"
| "claim_rank (Assigning v c) = 4"
| "claim_rank (Moving v c) = 3"
| "claim_rank (ReadingBack v c m) = 2"
| "claim_rank (Deleting c) = 1"
| "claim_rank (Claimed won st) = 0"

definition claim_after :: "claim_args \<Rightarrow> (nat \<Rightarrow> instant \<times> tracker_answer) \<Rightarrow> nat \<Rightarrow> claim_phase" where
  "claim_after a answers n = fold (\<lambda>i p. claim_resume a (fst (answers i)) p (snd (answers i))) [0..<n] ResolvingViewer"

lemma claim_rank_resume: "claim_rank (claim_resume a now p r) \<le> claim_rank p - 1"
  by (cases p; cases r) (simp_all add: abandon_claim_def after_assign_def)

lemma claim_rank_after: "claim_rank (claim_after a answers n) \<le> 8 - n"
proof (induction n)
  case (Suc n)
  then show ?case
    using claim_rank_resume [of a "fst (answers n)" "claim_after a answers n" "snd (answers n)"]
    by (simp add: claim_after_def)
qed (simp add: claim_after_def)

lemma claim_rank_0: "claim_rank p = 0 \<Longrightarrow> \<exists>won st. p = Claimed won st"
  by (cases p) simp_all

lemma claim_after_ended: "claim_after a answers n = Claimed won st \<Longrightarrow> claim_after a answers (n + k) = Claimed won st"
  by (induction k) (simp_all add: claim_after_def)


end
