(* ===== verification/Dispatch.thy ===== *)
theory Dispatch
  imports Issue "HOL-Library.Sorting_Algorithms" "HOL-Library.List_Lexorder" "HOL-Library.Char_ord"
    "HOL-Library.Product_Lexorder"
begin

text \<open>
  The dispatch decisions of the orchestrator: the queue order and the eligibility gate
  (\<^verbatim>\<open>crates/orchestrator/src/dispatch.rs\<close>), slot accounting (\<^verbatim>\<open>concurrency.rs\<close>), the failure backoff
  (\<^verbatim>\<open>backoff.rs\<close>), the reconciliation decision (\<^verbatim>\<open>reconcile.rs\<close>) and the classification of a clean
  worker exit (\<^verbatim>\<open>retry.rs\<close>).

  A \<open>HashSet\<close> is a set. The comparator of the queue is shown to be one in the sense of the library's
  \<open>comparator\<close> locale; \<open>slice::sort_by\<close>, the standard library's stable sort, is the library's \<open>sort\<close>
  over it.
\<close>

section \<open>Order\<close>

definition cmp_of :: "'a :: linorder \<Rightarrow> 'a \<Rightarrow> comp" where
  "cmp_of x y = (if x < y then Less else if y < x then Greater else Equiv)"

fun then_with :: "comp \<Rightarrow> comp \<Rightarrow> comp" where
  "then_with Equiv c = c"
| "then_with Less c = Less"
| "then_with Greater c = Greater"

fun cmp_priority :: "int option \<Rightarrow> int option \<Rightarrow> comp" where
  "cmp_priority None None = Equiv"
| "cmp_priority None (Some _) = Greater"
| "cmp_priority (Some _) None = Less"
| "cmp_priority (Some x) (Some y) = cmp_of x y"

fun cmp_created_time :: "instant option \<Rightarrow> instant option \<Rightarrow> comp" where
  "cmp_created_time None None = Equiv"
| "cmp_created_time None (Some _) = Greater"
| "cmp_created_time (Some _) None = Less"
| "cmp_created_time (Some x) (Some y) = cmp_of x y"

definition dispatch_cmp :: "issue \<Rightarrow> issue \<Rightarrow> comp" where
  "dispatch_cmp a b =
     then_with (cmp_priority (iss_priority a) (iss_priority b))
      (then_with (cmp_created_time (iss_created_at a) (iss_created_at b))
        (cmp_of (iss_identifier a) (iss_identifier b)))"

text \<open>
  The order as a key: priority, then creation time, each with an absent value last, then the
  identifier's bytes.
\<close>

definition absent_last :: "int option \<Rightarrow> nat \<times> int" where
  "absent_last x = (case x of None \<Rightarrow> (1, 0) | Some v \<Rightarrow> (0, v))"

definition dispatch_key :: "issue \<Rightarrow> (nat \<times> int) \<times> (nat \<times> int) \<times> string" where
  "dispatch_key a = (absent_last (iss_priority a), absent_last (iss_created_at a), iss_identifier a)"

lemma cmp_priority_key: "cmp_priority x y = cmp_of (absent_last x) (absent_last y)"
  by (cases x; cases y) (auto simp: absent_last_def cmp_of_def)

lemma cmp_created_time_key: "cmp_created_time x y = cmp_of (absent_last x) (absent_last y)"
  by (cases x; cases y) (auto simp: absent_last_def cmp_of_def)

lemma cmp_of_pair: "cmp_of (a, b) (c, d) = then_with (cmp_of a c) (cmp_of b d)"
  by (auto simp: cmp_of_def)

lemma dispatch_cmp_key: "dispatch_cmp a b = cmp_of (dispatch_key a) (dispatch_key b)"
  by (simp add: dispatch_cmp_def dispatch_key_def cmp_of_pair cmp_priority_key cmp_created_time_key)

interpretation dispatch_order: comparator dispatch_cmp
  by unfold_locales (auto simp: dispatch_cmp_key cmp_of_def split: if_splits)

lift_definition dispatch_comparator :: "issue comparator" is dispatch_cmp
  by unfold_locales

lemma compare_dispatch [simp]: "compare dispatch_comparator = dispatch_cmp"
  by transfer simp

definition sort_for_dispatch :: "issue list \<Rightarrow> issue list" where
  "sort_for_dispatch issues = Sorting_Algorithms.sort dispatch_comparator issues"

lemma dispatch_cmp_Equiv: "dispatch_cmp x y = Equiv \<longleftrightarrow> dispatch_key y = dispatch_key x"
  by (auto simp: dispatch_cmp_key cmp_of_def split: if_splits)

lemma sorted_by_key: "linorder_class.sorted (map dispatch_key xs) \<Longrightarrow> Sorting_Algorithms.sorted dispatch_comparator xs"
  by (induction dispatch_comparator xs rule: Sorting_Algorithms.sorted.induct)
     (auto simp: dispatch_cmp_key cmp_of_def)

lemma sort_for_dispatch_key: "sort_for_dispatch xs = sort_key dispatch_key xs"
  unfolding sort_for_dispatch_def
  by (rule Sorting_Algorithms.sort_eqI)
     (simp_all add: sorted_by_key dispatch_cmp_Equiv sort_key_stable del: set_sort)

section \<open>Eligibility\<close>

definition HUMAN_LABEL :: string where
  "HUMAN_LABEL = ''rhapsody:human''"

definition is_human :: "text_ops \<Rightarrow> issue \<Rightarrow> bool" where
  "is_human tx iss \<longleftrightarrow>
     (let want = normalize_state tx HUMAN_LABEL
      in list_ex (\<lambda>l. normalize_state tx l = want) (elements (iss_labels iss)))"

record eligibility_gate =
  eg_active :: "string set"
  eg_terminal :: "string set"
  eg_required_labels :: "string set"
  eg_mode :: string
  eg_review :: "string set"
  eg_canceled :: "string set"

definition dispatchable_state :: "string \<Rightarrow> string set \<Rightarrow> string set \<Rightarrow> bool" where
  "dispatchable_state st active terminal \<longleftrightarrow> st \<in> active \<and> st \<notin> terminal"

record dispatch_states =
  ds_active :: "string set"
  ds_terminal :: "string set"
  ds_review :: "string set"
  ds_canceled :: "string set"

definition admits :: "text_ops \<Rightarrow> dispatch_states \<Rightarrow> issue \<Rightarrow> bool" where
  "admits tx ds iss = dispatchable_state (normalize_state tx (iss_state iss)) (ds_active ds) (ds_terminal ds)"

definition is_in_review :: "text_ops \<Rightarrow> dispatch_states \<Rightarrow> issue \<Rightarrow> bool" where
  "is_in_review tx ds iss \<longleftrightarrow>
     (let st = normalize_state tx (iss_state iss) in st \<in> ds_review ds \<and> st \<notin> ds_active ds)"

definition dispatch_states_is_empty :: "dispatch_states \<Rightarrow> bool" where
  "dispatch_states_is_empty ds \<longleftrightarrow> ds_active ds = {}"

record eligibility_result =
  er_ok :: bool
  er_blocked_by :: "blocker_ref list"
  er_held_for_human :: bool

definition eligibility_default :: eligibility_result where
  "eligibility_default = \<lparr>er_ok = False, er_blocked_by = [], er_held_for_human = False\<rparr>"

definition has_any_label :: "text_ops \<Rightarrow> issue \<Rightarrow> string set \<Rightarrow> bool" where
  "has_any_label tx iss want \<longleftrightarrow> list_ex (\<lambda>l. normalize_state tx l \<in> want) (elements (iss_labels iss))"

definition DEPENDENCY_MODE_GRAPHITE :: string where "DEPENDENCY_MODE_GRAPHITE = ''graphite''"
definition DEPENDENCY_MODE_DAG :: string where "DEPENDENCY_MODE_DAG = ''dag''"

definition dependency_mode_enabled :: "string \<Rightarrow> bool" where
  "dependency_mode_enabled mode \<longleftrightarrow> mode = DEPENDENCY_MODE_GRAPHITE \<or> mode = DEPENDENCY_MODE_DAG"

definition blocker_cleared ::
  "text_ops \<Rightarrow> blocker_ref \<Rightarrow> string \<Rightarrow> string set \<Rightarrow> string set \<Rightarrow> string set \<Rightarrow> bool" where
  "blocker_cleared tx b mode review terminal canceled =
     (case bk_state b of
        None \<Rightarrow> False
      | Some state \<Rightarrow>
          (let st = normalize_state tx state in
           if \<not> dependency_mode_enabled mode then st \<in> terminal
           else if st \<in> canceled then False
           else if st \<in> terminal then True
           else mode = DEPENDENCY_MODE_GRAPHITE \<and> st \<in> review))"

definition eligibility ::
  "text_ops \<Rightarrow> issue \<Rightarrow> string set \<Rightarrow> string set \<Rightarrow> eligibility_gate \<Rightarrow> eligibility_result" where
  "eligibility tx iss running claimed gate =
     (if iss_id iss = [] \<or> iss_identifier iss = [] \<or> iss_title iss = [] \<or> iss_state iss = []
      then eligibility_default
      else
        let st = normalize_state tx (iss_state iss) in
        if \<not> dispatchable_state st (eg_active gate) (eg_terminal gate) then eligibility_default
        else if iss_id iss \<in> running \<or> iss_id iss \<in> claimed then eligibility_default
        else if is_human tx iss then \<lparr>er_ok = False, er_blocked_by = [], er_held_for_human = True\<rparr>
        else if eg_required_labels gate \<noteq> {} \<and> \<not> has_any_label tx iss (eg_required_labels gate)
        then eligibility_default
        else
          let blocked = (if st = ''todo'' then
                filter (\<lambda>b. \<not> blocker_cleared tx b (eg_mode gate) (eg_review gate) (eg_terminal gate)
                          (eg_canceled gate)) (elements (iss_blocked_by iss))
              else []) in
          if blocked \<noteq> [] then \<lparr>er_ok = False, er_blocked_by = blocked, er_held_for_human = False\<rparr>
          else \<lparr>er_ok = True, er_blocked_by = [], er_held_for_human = False\<rparr>)"

definition eligible ::
  "text_ops \<Rightarrow> issue \<Rightarrow> string set \<Rightarrow> string set \<Rightarrow> eligibility_gate \<Rightarrow> bool" where
  "eligible tx iss running claimed gate = er_ok (eligibility tx iss running claimed gate)"

section \<open>Slots, backoff\<close>

definition global_slots :: "int \<Rightarrow> int \<Rightarrow> int" where
  "global_slots max_concurrent running = (let n = max_concurrent - running in if n > 0 then n else 0)"

definition state_limit :: "text_ops \<Rightarrow> string \<Rightarrow> (string \<rightharpoonup> int) \<Rightarrow> int \<Rightarrow> int" where
  "state_limit tx state per_state glob =
     (case per_state (normalize_state tx state) of Some v \<Rightarrow> v | None \<Rightarrow> glob)"

definition CONTINUATION_DELAY_MS :: int where "CONTINUATION_DELAY_MS = 1000"
definition BASE_BACKOFF_MS :: int where "BASE_BACKOFF_MS = 10000"

text \<open>Where the shift happens it is at most 30, so the left shift of the \<open>i64\<close> base does not wrap.\<close>

definition failure_backoff_ms :: "int \<Rightarrow> int \<Rightarrow> int" where
  "failure_backoff_ms attempt max_backoff_ms =
     (let attempt = (if attempt < 1 then 1 else attempt);
          shift = attempt - 1
      in if shift < 31 then
           (let d = BASE_BACKOFF_MS * 2 ^ nat shift
            in if d > 0 \<and> d < max_backoff_ms then d else max_backoff_ms)
         else max_backoff_ms)"

section \<open>Reconciliation and clean exits\<close>

datatype action_kind = TerminateCleanup | UpdateState

record reconcile_action =
  ra_issue_id :: string
  ra_kind :: action_kind
  ra_new_state :: string

fun reconcile_actions ::
  "text_ops \<Rightarrow> string list \<Rightarrow> issue list \<Rightarrow> string set \<Rightarrow> reconcile_action list" where
  "reconcile_actions tx running_ids [] terminal = []"
| "reconcile_actions tx running_ids (iss # refreshed) terminal =
     (if iss_id iss \<notin> set running_ids then reconcile_actions tx running_ids refreshed terminal
      else if normalize_state tx (iss_state iss) \<in> terminal then
        \<lparr>ra_issue_id = iss_id iss, ra_kind = TerminateCleanup, ra_new_state = iss_state iss\<rparr> #
          reconcile_actions tx running_ids refreshed terminal
      else
        \<lparr>ra_issue_id = iss_id iss, ra_kind = UpdateState, ra_new_state = iss_state iss\<rparr> #
          reconcile_actions tx running_ids refreshed terminal)"

definition OUTCOME_CONTINUED :: string where "OUTCOME_CONTINUED = ''continued''"
definition OUTCOME_COMPLETED :: string where "OUTCOME_COMPLETED = ''completed''"
definition OUTCOME_STOPPED :: string where "OUTCOME_STOPPED = ''stopped''"

definition parked_review_state :: "string set \<Rightarrow> string set \<Rightarrow> string \<Rightarrow> string \<Rightarrow> string option" where
  "parked_review_state review terminal w_st s_st =
     (if w_st \<in> terminal \<or> s_st \<in> terminal then None
      else if w_st \<in> review then Some w_st
      else if s_st \<in> review then Some s_st
      else None)"

definition classify_clean_exit ::
  "text_ops \<Rightarrow> string set \<Rightarrow> string set \<Rightarrow> string set \<Rightarrow> string set \<Rightarrow> bool \<Rightarrow> string \<Rightarrow> string
     \<Rightarrow> string \<times> bool \<times> string" where
  "classify_clean_exit tx active canceled terminal review declared worker_state snap_state =
     (let w_st = normalize_state tx worker_state;
          s_st = normalize_state tx snap_state;
          worker_left = worker_state \<noteq> [] \<and> w_st \<notin> active;
          snap_left = snap_state \<noteq> [] \<and> s_st \<notin> active
      in if \<not> worker_left \<and> \<not> snap_left then (OUTCOME_CONTINUED, False, [])
         else if (w_st \<in> canceled \<and> w_st \<in> terminal) \<or> (s_st \<in> canceled \<and> s_st \<in> terminal)
         then (OUTCOME_STOPPED, True, ''ticket cancelled'')
         else if w_st \<in> terminal \<or> s_st \<in> terminal then (OUTCOME_COMPLETED, True, [])
         else if declared then (OUTCOME_COMPLETED, True, [])
         else if parked_review_state review terminal w_st s_st \<noteq> None then (OUTCOME_COMPLETED, True, [])
         else (OUTCOME_STOPPED, True, ''ticket moved externally''))"

section \<open>Properties\<close>

text \<open>
  The dispatch queue is the stable sort of the candidates by priority, then age, then
  identifier, with an unprioritized or undated ticket after every one that has a value: nothing is
  lost or duplicated, and tickets that compare equal keep the tracker's order.
\<close>

theorem dispatch_queue_is_stable_sort:
  "sort_for_dispatch issues = sort_key dispatch_key issues \<and>
   mset (sort_for_dispatch issues) = mset issues \<and>
   linorder_class.sorted (map dispatch_key (sort_for_dispatch issues)) \<and>
   filter (\<lambda>i. dispatch_cmp x i = Equiv) (sort_for_dispatch issues) = filter (\<lambda>i. dispatch_cmp x i = Equiv) issues"
  by (simp add: sort_for_dispatch_key dispatch_cmp_Equiv sort_key_stable)

text \<open>The gate in declarative form: who is a candidate at all, whom the labels admit, who still blocks.\<close>

definition dispatch_candidate :: "text_ops \<Rightarrow> issue \<Rightarrow> string set \<Rightarrow> string set \<Rightarrow> eligibility_gate \<Rightarrow> bool" where
  "dispatch_candidate tx iss running claimed gate \<longleftrightarrow>
     [] \<notin> {iss_id iss, iss_identifier iss, iss_title iss, iss_state iss} \<and>
     normalize_state tx (iss_state iss) \<in> eg_active gate - eg_terminal gate \<and>
     iss_id iss \<notin> running \<union> claimed"

definition labels_admit :: "text_ops \<Rightarrow> issue \<Rightarrow> eligibility_gate \<Rightarrow> bool" where
  "labels_admit tx iss gate \<longleftrightarrow>
     eg_required_labels gate = {} \<or>
     normalize_state tx ` set (elements (iss_labels iss)) \<inter> eg_required_labels gate \<noteq> {}"

definition uncleared_blockers :: "text_ops \<Rightarrow> issue \<Rightarrow> eligibility_gate \<Rightarrow> blocker_ref list" where
  "uncleared_blockers tx iss gate =
     (if normalize_state tx (iss_state iss) = ''todo''
      then filter (\<lambda>b. \<not> blocker_cleared tx b (eg_mode gate) (eg_review gate) (eg_terminal gate) (eg_canceled gate))
             (elements (iss_blocked_by iss))
      else [])"

lemma has_any_label_iff:
  "has_any_label tx iss want \<longleftrightarrow> normalize_state tx ` set (elements (iss_labels iss)) \<inter> want \<noteq> {}"
  by (auto simp: has_any_label_def list_ex_iff)

lemma eligibility_cases:
  "eligibility tx iss running claimed gate =
     (if \<not> dispatch_candidate tx iss running claimed gate then eligibility_default
      else if is_human tx iss then eligibility_default\<lparr>er_held_for_human := True\<rparr>
      else if \<not> labels_admit tx iss gate then eligibility_default
      else \<lparr>er_ok = (uncleared_blockers tx iss gate = []), er_blocked_by = uncleared_blockers tx iss gate,
            er_held_for_human = False\<rparr>)"
  by (auto simp: eligibility_def eligibility_default_def dispatch_candidate_def labels_admit_def
      uncleared_blockers_def dispatchable_state_def has_any_label_iff Let_def)

text \<open>
  The eligibility verdict is exact. A ticket is dispatched only when it is a candidate the
  labels admit, wears no human label and has no uncleared blocker; it is reported as held for a human
  exactly when it is a candidate with that label; and the reported blockers are the uncleared ones, in
  the ticket's order, and only when nothing else refused it.
\<close>

theorem eligibility_is_exact:
  "(eligible tx iss running claimed gate \<longleftrightarrow>
      dispatch_candidate tx iss running claimed gate \<and> labels_admit tx iss gate \<and>
      uncleared_blockers tx iss gate = [] \<and> \<not> is_human tx iss) \<and>
   (er_held_for_human (eligibility tx iss running claimed gate) \<longleftrightarrow>
      dispatch_candidate tx iss running claimed gate \<and> is_human tx iss) \<and>
   er_blocked_by (eligibility tx iss running claimed gate) =
     (if dispatch_candidate tx iss running claimed gate \<and> labels_admit tx iss gate \<and> \<not> is_human tx iss
      then uncleared_blockers tx iss gate else [])"
  by (auto simp: eligible_def eligibility_cases eligibility_default_def)

lemma blocker_cleared_dag:
  "blocker_cleared tx b DEPENDENCY_MODE_DAG review terminal canceled \<Longrightarrow>
     blocker_cleared tx b DEPENDENCY_MODE_GRAPHITE review terminal canceled \<and>
     (\<not> dependency_mode_enabled mode \<longrightarrow> blocker_cleared tx b mode review terminal canceled)"
  by (auto simp: blocker_cleared_def dependency_mode_enabled_def Let_def DEPENDENCY_MODE_DAG_def
      DEPENDENCY_MODE_GRAPHITE_def split: option.splits if_splits)

lemma uncleared_mono:
  assumes "\<And>b. blocker_cleared tx b (eg_mode g) (eg_review g) (eg_terminal g) (eg_canceled g) \<Longrightarrow>
    blocker_cleared tx b m (eg_review g) (eg_terminal g) (eg_canceled g)"
  shows "uncleared_blockers tx iss g = [] \<Longrightarrow> uncleared_blockers tx iss (g\<lparr>eg_mode := m\<rparr>) = []"
  using assms by (auto simp: uncleared_blockers_def filter_empty_conv split: if_splits)

lemma eligible_mode_mono:
  assumes "eligible tx iss running claimed g"
    and "\<And>b. blocker_cleared tx b (eg_mode g) (eg_review g) (eg_terminal g) (eg_canceled g) \<Longrightarrow>
      blocker_cleared tx b m (eg_review g) (eg_terminal g) (eg_canceled g)"
  shows "eligible tx iss running claimed (g\<lparr>eg_mode := m\<rparr>)"
  using assms(1) uncleared_mono [where m = m, OF assms(2)]
  by (auto simp: eligible_def eligibility_cases eligibility_default_def dispatch_candidate_def
      labels_admit_def split: if_splits)

text \<open>
  The strictest dependency mode is \<open>dag\<close>: a ticket it lets through is also let through under
  \<open>graphite\<close> and with dependencies disabled, everything else being equal.
\<close>

theorem dag_mode_is_strictest:
  assumes "eligible tx iss running claimed gate" "eg_mode gate = DEPENDENCY_MODE_DAG"
    "\<not> dependency_mode_enabled mode"
  shows "eligible tx iss running claimed (gate\<lparr>eg_mode := DEPENDENCY_MODE_GRAPHITE\<rparr>) \<and>
    eligible tx iss running claimed (gate\<lparr>eg_mode := mode\<rparr>)"
  using eligible_mode_mono [OF assms(1)] blocker_cleared_dag assms(2,3) by simp

theorem dag_mode_is_strictest_witness:
  "\<exists>iss gate. eg_mode gate = DEPENDENCY_MODE_DAG \<and> elements (iss_blocked_by iss) \<noteq> [] \<and>
     eligible ascii_text iss {} {} (gate\<lparr>eg_mode := DEPENDENCY_MODE_GRAPHITE\<rparr>) \<and>
     eligible ascii_text iss {} {} (gate\<lparr>eg_mode := ''disabled''\<rparr>)"
proof -
  define iss where "iss = issue_default\<lparr>iss_id := ''1'', iss_identifier := ''A-1'', iss_title := ''t'',
    iss_state := ''Todo'', iss_blocked_by := Some [\<lparr>bk_id = None, bk_identifier = None, bk_state = Some ''Done''\<rparr>]\<rparr>"
  define gate where "gate = \<lparr>eg_active = {''todo''}, eg_terminal = {''done''}, eg_required_labels = {},
    eg_mode = DEPENDENCY_MODE_DAG, eg_review = {}, eg_canceled = {}\<rparr>"
  have "normalize_state ascii_text ''Todo'' = ''todo''" "normalize_state ascii_text ''Done'' = ''done''"
    by code_simp+
  then have "eligible ascii_text iss {} {} gate"
    by (simp add: iss_def gate_def eligible_def eligibility_def issue_default_def elements_def is_human_def
        dispatchable_state_def blocker_cleared_def dependency_mode_enabled_def
        DEPENDENCY_MODE_DAG_def DEPENDENCY_MODE_GRAPHITE_def Let_def)
  then show ?thesis
    using dag_mode_is_strictest [of ascii_text iss "{}" "{}" gate "''disabled''"]
    by (intro exI [of _ iss] exI [of _ gate])
       (simp add: gate_def iss_def elements_def dependency_mode_enabled_def DEPENDENCY_MODE_DAG_def
         DEPENDENCY_MODE_GRAPHITE_def)
qed

lemma failure_backoff_cases:
  "failure_backoff_ms attempt m =
     (if attempt \<le> 31 then min (10000 * 2 ^ nat (max attempt 1 - 1)) m else m)"
proof -
  have "(0 :: int) < 10000 * 2 ^ k" for k by simp
  then show ?thesis
    by (auto simp: failure_backoff_ms_def BASE_BACKOFF_MS_def Let_def min_def max_def)
qed

lemma backoff_doubling: "31 < a \<Longrightarrow> (10000 :: int) * 2 ^ 31 \<le> 10000 * 2 ^ nat (a - 1)"
  by (intro mult_left_mono power_increasing) auto

lemma backoff_mono: "a \<le> b \<Longrightarrow> (10000 :: int) * 2 ^ nat (max a 1 - 1) \<le> 10000 * 2 ^ nat (max b 1 - 1)"
  by (intro mult_left_mono power_increasing) auto

text \<open>
  The failure backoff never exceeds the configured maximum, never shrinks from one attempt to
  the next, is positive whenever the maximum is, and is the documented capped doubling for every
  maximum up to \<open>10000 * 2 ^ 31\<close> milliseconds. Above that maximum the documented formula is not what
  the code computes: at attempt 32 it jumps to the maximum.
\<close>

theorem failure_backoff_is_capped_doubling:
  assumes "attempt \<le> later" "0 < m"
  shows "0 < failure_backoff_ms attempt m \<and> failure_backoff_ms attempt m \<le> m \<and>
    failure_backoff_ms attempt m \<le> failure_backoff_ms later m \<and>
    (m \<le> 10000 * 2 ^ 31 \<longrightarrow> failure_backoff_ms attempt m = min (10000 * 2 ^ nat (max attempt 1 - 1)) m) \<and>
    failure_backoff_ms 32 (10000 * 2 ^ 31 + 1) \<noteq> min (10000 * 2 ^ 31) (10000 * 2 ^ 31 + 1)"
proof -
  have "min (10000 * 2 ^ nat (max attempt 1 - 1)) m = m" if "31 < attempt" "m \<le> 10000 * 2 ^ 31"
    using backoff_doubling [OF that(1)] that by (simp add: max_def)
  then have "m \<le> 10000 * 2 ^ 31 \<longrightarrow> failure_backoff_ms attempt m = min (10000 * 2 ^ nat (max attempt 1 - 1)) m"
    by (auto simp: failure_backoff_cases)
  moreover have "0 < failure_backoff_ms attempt m" "failure_backoff_ms attempt m \<le> m"
    using assms(2) by (simp_all add: failure_backoff_cases)
  moreover have "failure_backoff_ms attempt m \<le> failure_backoff_ms later m"
    using min.mono [OF backoff_mono [OF assms(1)] order_refl, of m] assms(1)
    by (simp add: failure_backoff_cases del: max_less_iff_conj)
  moreover have "failure_backoff_ms 32 (10000 * 2 ^ 31 + 1) = 10000 * 2 ^ 31 + 1"
    by (simp add: failure_backoff_cases)
  ultimately show ?thesis by simp
qed

theorem failure_backoff_is_capped_doubling_witness:
  "failure_backoff_ms 6 300000 = 300000 \<and> failure_backoff_ms 5 300000 = 160000 \<and>
   failure_backoff_ms 5 300000 \<le> failure_backoff_ms 6 300000"
  using failure_backoff_is_capped_doubling [of 5 6 300000]
    failure_backoff_is_capped_doubling [of 6 6 300000] by simp

lemma reconcile_actions_map:
  "reconcile_actions tx running_ids refreshed terminal =
     map (\<lambda>i. \<lparr>ra_issue_id = iss_id i,
               ra_kind = (if normalize_state tx (iss_state i) \<in> terminal then TerminateCleanup else UpdateState),
               ra_new_state = iss_state i\<rparr>)
       (filter (\<lambda>i. iss_id i \<in> set running_ids) refreshed)"
  by (induction refreshed) auto

lemma classify_symmetric:
  "classify_clean_exit tx active canceled terminal review declared w s =
   classify_clean_exit tx active canceled terminal review declared s w"
  by (auto simp: classify_clean_exit_def Let_def parked_review_state_def)

text \<open>
  What a clean exit is recorded as does not depend on which of the two state samples is the
  newer. The claim is kept exactly when neither sample left the active states; an external move is
  blamed only when nothing else explains the exit; and a ticket that reconciliation found in a terminal
  state that is not active is never recorded as continuing or as moved by someone else.
\<close>

theorem clean_exit_is_classified:
  assumes "a \<in> set (reconcile_actions tx running_ids refreshed terminal)" "ra_kind a = TerminateCleanup"
    "terminal \<inter> active = {}" "ra_new_state a \<noteq> []"
  shows "classify_clean_exit tx active canceled terminal review declared w s =
      classify_clean_exit tx active canceled terminal review declared s w \<and>
    (fst (snd (classify_clean_exit tx active canceled terminal review declared w s)) \<longleftrightarrow>
      w \<noteq> [] \<and> normalize_state tx w \<notin> active \<or> s \<noteq> [] \<and> normalize_state tx s \<notin> active) \<and>
    (snd (snd (classify_clean_exit tx active canceled terminal review declared w s)) = ''ticket moved externally'' \<longrightarrow>
      \<not> declared \<and> {normalize_state tx w, normalize_state tx s} \<inter> (terminal \<union> review) = {}) \<and>
    classify_clean_exit tx active canceled terminal review declared w (ra_new_state a)
      \<in> {(OUTCOME_COMPLETED, True, []), (OUTCOME_STOPPED, True, ''ticket cancelled'')}"
proof -
  from assms(1,2) have "normalize_state tx (ra_new_state a) \<in> terminal"
    by (auto simp: reconcile_actions_map split: if_splits)
  with assms(3,4) have "classify_clean_exit tx active canceled terminal review declared w (ra_new_state a)
      \<in> {(OUTCOME_COMPLETED, True, []), (OUTCOME_STOPPED, True, ''ticket cancelled'')}"
    by (auto simp: classify_clean_exit_def Let_def)
  moreover have "snd (snd (classify_clean_exit tx active canceled terminal review declared w s)) = ''ticket moved externally'' \<longrightarrow>
      \<not> declared \<and> {normalize_state tx w, normalize_state tx s} \<inter> (terminal \<union> review) = {}"
    by (simp add: classify_clean_exit_def Let_def parked_review_state_def)
  moreover have "fst (snd (classify_clean_exit tx active canceled terminal review declared w s)) \<longleftrightarrow>
      w \<noteq> [] \<and> normalize_state tx w \<notin> active \<or> s \<noteq> [] \<and> normalize_state tx s \<notin> active"
    by (simp add: classify_clean_exit_def Let_def)
  ultimately show ?thesis using classify_symmetric [of tx active canceled terminal review declared w s] by metis
qed

theorem clean_exit_is_classified_witness:
  "classify_clean_exit ascii_text {''todo''} {} {''done''} {} False ''todo'' ''done'' = (OUTCOME_COMPLETED, True, [])"
proof -
  have norm: "normalize_state ascii_text ''todo'' = ''todo''" "normalize_state ascii_text ''done'' = ''done''"
    by code_simp+
  have "\<lparr>ra_issue_id = ''1'', ra_kind = TerminateCleanup, ra_new_state = ''done''\<rparr> \<in>
    set (reconcile_actions ascii_text [''1''] [issue_default\<lparr>iss_id := ''1'', iss_state := ''done''\<rparr>] {''done''})"
    by (simp add: norm)
  from clean_exit_is_classified [OF this, of "{''todo''}" "{}" "{}" False "''todo''" "''todo''"] norm
  show ?thesis by (auto simp: classify_clean_exit_def)
qed

end
