(* ===== verification/Human_Hold.thy ===== *)
theory Human_Hold
  imports Dispatch
begin

text \<open>
  The human-hold ledger and the two gates that re-engage an author
  (\<^verbatim>\<open>crates/orchestrator/src/dispatch.rs\<close>, with \<open>subject_parked\<close> of \<^verbatim>\<open>leaditems.rs\<close>).

  The ledger's mutex makes every method one step; \<open>ledger_op\<close> lists them and \<open>ledger_run\<close> runs a
  sequence. The gates read the store and parse its timestamps: the store's answers and the RFC 3339
  parser of the \<^verbatim>\<open>chrono\<close> package are the fields of \<open>gate_env\<close>.
\<close>

section \<open>The ledger\<close>

record held_for_human =
  hh_issue_identifier :: string
  hh_title :: string
  hh_project :: string

definition HUMAN_HOLD_CAPACITY :: nat where "HUMAN_HOLD_CAPACITY = 256"

record human_hold_state =
  hs_announced :: "string set"
  hs_claims_announced :: "(string \<times> string) set"
  hs_held :: "held_for_human list"
  hs_labelled :: "string set"
  hs_primed :: bool

definition ledger_default :: human_hold_state where
  "ledger_default = \<lparr>hs_announced = {}, hs_claims_announced = {}, hs_held = [], hs_labelled = {}, hs_primed = False\<rparr>"

text \<open>Insertion into a bounded memory: a full one forgets everything before it takes a new element.\<close>

definition claim_is_news :: "string \<Rightarrow> string \<Rightarrow> human_hold_state \<Rightarrow> bool \<times> human_hold_state" where
  "claim_is_news identifier cause st =
     (let key = (identifier, cause);
          base = (if card (hs_claims_announced st) \<ge> HUMAN_HOLD_CAPACITY \<and> key \<notin> hs_claims_announced st
                  then {} else hs_claims_announced st)
      in (key \<notin> base, st\<lparr>hs_claims_announced := insert key base\<rparr>))"

definition begin_pass :: "bool \<Rightarrow> human_hold_state \<Rightarrow> human_hold_state" where
  "begin_pass read_the_board st =
     (if \<not> read_the_board then st
      else st\<lparr>hs_held := [], hs_labelled := {}, hs_primed := True\<rparr>)"

definition note_human_label :: "string \<Rightarrow> human_hold_state \<Rightarrow> human_hold_state" where
  "note_human_label identifier st = st\<lparr>hs_labelled := insert (to_ascii_lowercase identifier) (hs_labelled st)\<rparr>"

text \<open>The first row with the entry's identifier is replaced; without one the entry is appended.\<close>

fun upsert_held :: "held_for_human \<Rightarrow> held_for_human list \<Rightarrow> held_for_human list" where
  "upsert_held e [] = [e]"
| "upsert_held e (h # hs) =
     (if hh_issue_identifier h = hh_issue_identifier e then e # hs else h # upsert_held e hs)"

definition hold :: "held_for_human \<Rightarrow> human_hold_state \<Rightarrow> bool \<times> human_hold_state" where
  "hold entry st =
     (let i = hh_issue_identifier entry;
          base = (if card (hs_announced st) \<ge> HUMAN_HOLD_CAPACITY \<and> i \<notin> hs_announced st
                  then {} else hs_announced st)
      in (i \<notin> base,
          st\<lparr>hs_labelled := insert (to_ascii_lowercase i) (hs_labelled st),
             hs_announced := insert i base,
             hs_held := upsert_held entry (hs_held st)\<rparr>))"

definition labelled_and_primed :: "human_hold_state \<Rightarrow> string set \<times> bool" where
  "labelled_and_primed st = (hs_labelled st, hs_primed st)"

definition note_human_hold :: "issue \<Rightarrow> string \<Rightarrow> human_hold_state \<Rightarrow> bool \<times> human_hold_state" where
  "note_human_hold iss project st =
     hold \<lparr>hh_issue_identifier = iss_identifier iss, hh_title = iss_title iss, hh_project = project\<rparr> st"

datatype ledger_op =
    BeginPass bool
  | NoteLabel string
  | NoteHold issue string
  | ClaimNews string string

fun ledger_apply :: "ledger_op \<Rightarrow> human_hold_state \<Rightarrow> human_hold_state" where
  "ledger_apply (BeginPass b) st = begin_pass b st"
| "ledger_apply (NoteLabel i) st = note_human_label i st"
| "ledger_apply (NoteHold iss p) st = snd (note_human_hold iss p st)"
| "ledger_apply (ClaimNews i c) st = snd (claim_is_news i c st)"

definition ledger_run :: "ledger_op list \<Rightarrow> human_hold_state" where
  "ledger_run ops = fold ledger_apply ops ledger_default"

text \<open>The operations since the last pass that read the board, and whether there was one.\<close>

fun since_pass :: "ledger_op list \<Rightarrow> ledger_op list \<Rightarrow> ledger_op list" where
  "since_pass [] acc = acc"
| "since_pass (BeginPass True # ops) acc = since_pass ops []"
| "since_pass (p # ops) acc = since_pass ops (acc @ [p])"

fun observed_label :: "ledger_op \<Rightarrow> string option" where
  "observed_label (NoteLabel i) = Some (to_ascii_lowercase i)"
| "observed_label (NoteHold iss p) = Some (to_ascii_lowercase (iss_identifier iss))"
| "observed_label _ = None"

fun reported_hold :: "ledger_op \<Rightarrow> string option" where
  "reported_hold (NoteHold iss p) = Some (iss_identifier iss)"
| "reported_hold _ = None"

definition ledger_inv :: "ledger_op list \<Rightarrow> human_hold_state \<Rightarrow> bool" where
  "ledger_inv ops st \<longleftrightarrow>
     finite (hs_announced st) \<and> card (hs_announced st) \<le> HUMAN_HOLD_CAPACITY \<and>
     finite (hs_claims_announced st) \<and> card (hs_claims_announced st) \<le> HUMAN_HOLD_CAPACITY \<and>
     hs_labelled st = {l. \<exists>p \<in> set (since_pass ops []). observed_label p = Some l} \<and>
     distinct (map hh_issue_identifier (hs_held st)) \<and>
     hh_issue_identifier ` set (hs_held st) = {i. \<exists>p \<in> set (since_pass ops []). reported_hold p = Some i} \<and>
     hs_primed st = (BeginPass True \<in> set ops)"

lemma since_pass_snoc:
  "since_pass (ops @ [p]) acc = (if p = BeginPass True then [] else since_pass ops acc @ [p])"
  by (induction ops acc rule: since_pass.induct) (auto, (cases p; auto)+)

lemma upsert_held_set:
  "hh_issue_identifier ` set (upsert_held e hs) = insert (hh_issue_identifier e) (hh_issue_identifier ` set hs)"
  by (induction hs) auto

lemma upsert_held_distinct:
  "distinct (map hh_issue_identifier hs) \<Longrightarrow> distinct (map hh_issue_identifier (upsert_held e hs))"
proof (induction hs)
  case (Cons h hs)
  then show ?case using upsert_held_set [of e hs] by (auto simp: image_iff)
qed simp

lemma bounded_insert:
  assumes "finite A" "card A \<le> n" "0 < n"
  shows "finite (insert x (if card A \<ge> n \<and> x \<notin> A then {} else A)) \<and>
    card (insert x (if card A \<ge> n \<and> x \<notin> A then {} else A)) \<le> n"
  using assms by (auto simp: card_insert_if)

lemma ledger_inv_begin:
  assumes "ledger_inv ops st"
  shows "ledger_inv (ops @ [BeginPass b]) (begin_pass b st)"
  using assms by (cases b) (auto simp: ledger_inv_def begin_pass_def since_pass_snoc)

lemma ledger_inv_label:
  assumes "ledger_inv ops st"
  shows "ledger_inv (ops @ [NoteLabel i]) (note_human_label i st)"
  using assms by (auto simp: ledger_inv_def note_human_label_def since_pass_snoc)

lemma ledger_inv_claim:
  assumes "ledger_inv ops st"
  shows "ledger_inv (ops @ [ClaimNews i c]) (snd (claim_is_news i c st))"
proof -
  have "0 < HUMAN_HOLD_CAPACITY" by (simp add: HUMAN_HOLD_CAPACITY_def)
  with assms bounded_insert [of "hs_claims_announced st" HUMAN_HOLD_CAPACITY "(i, c)"] show ?thesis
    by (simp add: ledger_inv_def claim_is_news_def since_pass_snoc Let_def)
qed

lemma ledger_inv_hold:
  assumes "ledger_inv ops st"
  shows "ledger_inv (ops @ [NoteHold iss p]) (snd (note_human_hold iss p st))"
proof -
  have "0 < HUMAN_HOLD_CAPACITY" by (simp add: HUMAN_HOLD_CAPACITY_def)
  note bounded = bounded_insert [of "hs_announced st" HUMAN_HOLD_CAPACITY "iss_identifier iss", OF _ _ this]
  have *: "{l. \<exists>q \<in> set (since_pass ops [] @ [NoteHold iss p]). f q = Some l} =
      insert k {l. \<exists>q \<in> set (since_pass ops []). f q = Some l}" if "f (NoteHold iss p) = Some k" for f k
    using that by auto
  show ?thesis
    using assms bounded
    by (simp add: ledger_inv_def note_human_hold_def hold_def since_pass_snoc Let_def upsert_held_set
        upsert_held_distinct * [of observed_label] * [of reported_hold] del: set_append) simp
qed

lemma ledger_inv_step: "ledger_inv ops st \<Longrightarrow> ledger_inv (ops @ [p]) (ledger_apply p st)"
  by (cases p) (simp_all add: ledger_inv_begin ledger_inv_label ledger_inv_claim ledger_inv_hold)

lemma ledger_run_inv: "ledger_inv ops (ledger_run ops)"
proof (induction ops rule: rev_induct)
  case Nil
  then show ?case by (simp add: ledger_inv_def ledger_run_def ledger_default_def HUMAN_HOLD_CAPACITY_def)
next
  case (snoc p ops)
  then show ?case using ledger_inv_step [of ops _ p] by (simp add: ledger_run_def)
qed

text \<open>
  After any sequence of ledger operations, the label set is exactly what was observed since the
  last pass that read the whole board, the console rows are exactly the tickets reported held since
  then, one row each; the set counts as known only once a pass has read the board, and never stops
  counting; and neither memory of what was announced grows past its capacity.
\<close>

theorem human_hold_ledger_is_exact:
  "labelled_and_primed (ledger_run ops) =
     ({l. \<exists>p \<in> set (since_pass ops []). observed_label p = Some l}, BeginPass True \<in> set ops) \<and>
   hh_issue_identifier ` set (hs_held (ledger_run ops)) =
     {i. \<exists>p \<in> set (since_pass ops []). reported_hold p = Some i} \<and>
   distinct (map hh_issue_identifier (hs_held (ledger_run ops))) \<and>
   card (hs_announced (ledger_run ops)) \<le> 256 \<and> card (hs_claims_announced (ledger_run ops)) \<le> 256"
  using ledger_run_inv [of ops] by (simp add: ledger_inv_def labelled_and_primed_def HUMAN_HOLD_CAPACITY_def)

section \<open>Re-engaging an author\<close>

record subject_hold =
  sh_id :: int
  sh_kind :: string

definition BLOCKED_NO_PR_KIND :: string where "BLOCKED_NO_PR_KIND = ''blocked_no_pr''"
definition OUTCOME_INTERRUPTED :: string where "OUTCOME_INTERRUPTED = ''interrupted''"
definition OUTCOME_REFUSED :: string where "OUTCOME_REFUSED = ''refused''"
definition OUTCOME_LIMIT :: string where "OUTCOME_LIMIT = ''limit''"

record run_summary =
  rn_started_at :: string
  rn_ended_at :: string
  rn_outcome :: string

record run_window =
  rw_started_at :: instant
  rw_ended_at :: "instant option"

definition window_contains :: "run_window \<Rightarrow> instant \<Rightarrow> bool" where
  "window_contains w at \<longleftrightarrow>
     at \<ge> rw_started_at w \<and> (case rw_ended_at w of Some e \<Rightarrow> at \<le> e | None \<Rightarrow> True)"

text \<open>A store call answers \<open>None\<close> when it fails.\<close>

record gate_env =
  ge_text :: text_ops
  ge_claimed :: "string set"
  ge_credential_resume :: "string set"
  ge_subject_hold :: "string \<Rightarrow> subject_hold option option"
  ge_subject_resume_pending :: "string \<Rightarrow> bool option"
  ge_issue_history :: "string \<Rightarrow> string \<Rightarrow> int \<Rightarrow> run_summary list option"
  ge_parse_rfc3339 :: "string \<Rightarrow> instant option"

definition subject_parked :: "gate_env \<Rightarrow> string \<Rightarrow> string \<Rightarrow> bool" where
  "subject_parked e subject work =
     (case ge_subject_hold e subject of
        Some (Some h) \<Rightarrow>
          if work = ''lead'' then sh_kind h = ''escalation''
          else if work = ''review'' then sh_kind h \<noteq> ''blocked'' \<and> sh_kind h \<noteq> BLOCKED_NO_PR_KIND
          else True
      | Some None \<Rightarrow> False
      | None \<Rightarrow> True)"

fun window_loop :: "(string \<Rightarrow> instant option) \<Rightarrow> run_summary list \<Rightarrow> run_window option" where
  "window_loop parse [] = None"
| "window_loop parse (r # rs) =
     (if rn_started_at r = [] \<or> rn_outcome r = OUTCOME_INTERRUPTED \<or> rn_outcome r = OUTCOME_REFUSED \<or>
         rn_outcome r = OUTCOME_LIMIT
      then window_loop parse rs
      else case parse (rn_started_at r) of
          None \<Rightarrow> window_loop parse rs
        | Some start \<Rightarrow>
            Some \<lparr>rw_started_at = start,
                  rw_ended_at = (if rn_ended_at r = [] then None else parse (rn_ended_at r))\<rparr>)"

definition last_run_window :: "gate_env \<Rightarrow> string \<Rightarrow> run_window option" where
  "last_run_window e identifier =
     Option.bind (ge_issue_history e identifier [] 10) (window_loop (ge_parse_rfc3339 e))"

definition is_unworked_candidate :: "gate_env \<Rightarrow> issue \<Rightarrow> string set \<Rightarrow> string set \<Rightarrow> bool" where
  "is_unworked_candidate e iss running recovered \<longleftrightarrow>
     iss_id iss \<notin> running \<and> iss_id iss \<notin> ge_claimed e \<and> iss_identifier iss \<notin> recovered \<and>
     \<not> subject_parked e (iss_identifier iss) ''author''"

definition pr_suppressed :: "gate_env \<Rightarrow> issue \<Rightarrow> bool" where
  "pr_suppressed e iss =
     (if subject_parked e (iss_identifier iss) ''author'' then True
      else if iss_id iss \<in> ge_credential_resume e then False
      else if ge_subject_resume_pending e (iss_identifier iss) = Some True then False
      else if \<not> iss_linked_pr iss then False
      else case iss_latest_summon_at iss of
          None \<Rightarrow> True
        | Some summon \<Rightarrow>
            (case last_run_window e (iss_identifier iss) of
               None \<Rightarrow> (case iss_latest_pr_activity_at iss of None \<Rightarrow> False | Some pr \<Rightarrow> summon \<le> pr)
             | Some w \<Rightarrow> (case rw_ended_at w of None \<Rightarrow> True | Some ended \<Rightarrow> summon \<le> ended)))"

definition review_reopen_eligible :: "gate_env \<Rightarrow> issue \<Rightarrow> string set \<Rightarrow> bool" where
  "review_reopen_eligible e iss running =
     (if subject_parked e (iss_identifier iss) ''author'' then False
      else if is_human (ge_text e) iss then False
      else if iss_id iss = [] \<or> iss_identifier iss = [] \<or> iss_team_id iss = [] then False
      else if iss_id iss \<in> running \<or> iss_id iss \<in> ge_claimed e then False
      else case iss_latest_summon_at iss of
          None \<Rightarrow> False
        | Some summon \<Rightarrow>
            (case last_run_window e (iss_identifier iss) of
               None \<Rightarrow> False
             | Some w \<Rightarrow> (case rw_ended_at w of None \<Rightarrow> False | Some ended \<Rightarrow> summon > ended)))"



end
