(* ===== verification/Review_Store.thy ===== *)
theory Review_Store
  imports Human_Hold
begin

text \<open>
  The durable state of the review loop: the watch set, the per-head findings ledger and the review
  bound (\<^verbatim>\<open>crates/store/src/types.rs\<close>, \<^verbatim>\<open>crates/store/src/sqlite.rs\<close>), with the SQL statements
  of each store method as functions on the tables.

  A table is the list of its rows. An \<open>UPDATE ... WHERE\<close> on the primary key maps the matching row,
  an upsert replaces or appends, \<open>ORDER BY\<close> sorts by SQLite's binary collation, which is the
  lexicographic order of the byte strings. \<open>watch_ok\<close> is the well-formedness of the watch table:
  the primary key is unique and every status is one of the documented values.
\<close>

section \<open>Decimal rendering\<close>

text \<open>\<open>Display\<close> of the integer types.\<close>

fun show_nat :: "nat \<Rightarrow> string" where
  "show_nat n =
     (if n < 10 then [char_of (48 + n)] else show_nat (n div 10) @ [char_of (48 + n mod 10)])"

definition show_int :: "int \<Rightarrow> string" where
  "show_int i = (if i < 0 then CHR ''-'' # show_nat (nat (- i)) else show_nat (nat i))"

declare show_nat.simps [simp del]

section \<open>Rows\<close>

record pr_coord =
  pr_owner :: string
  pr_repo :: string
  pr_number :: int

definition pr_display :: "pr_coord \<Rightarrow> string" where
  "pr_display pr = pr_owner pr @ ''/'' @ pr_repo pr @ ''#'' @ show_int (pr_number pr)"

record review_watch_key =
  wk_owner :: string
  wk_repo :: string
  wk_number :: int
  wk_reviewer :: string

record review_watch_row =
  ww_key :: review_watch_key
  ww_author :: string
  ww_introduced_by :: string
  ww_requested_sha :: string
  ww_last_reviewed_sha :: string
  ww_status :: string
  ww_open :: bool

definition REVIEW_STATUS_REQUESTED :: string where "REVIEW_STATUS_REQUESTED = ''requested''"
definition REVIEW_STATUS_IN_FLIGHT :: string where "REVIEW_STATUS_IN_FLIGHT = ''in_flight''"
definition REVIEW_STATUS_REVIEWED :: string where "REVIEW_STATUS_REVIEWED = ''reviewed''"
definition REVIEW_STATUS_APPROVED :: string where "REVIEW_STATUS_APPROVED = ''approved''"
definition REVIEW_STATUS_DROPPED :: string where "REVIEW_STATUS_DROPPED = ''dropped''"
definition REVIEW_STATUS_TRUNCATED :: string where "REVIEW_STATUS_TRUNCATED = ''truncated''"

lemmas review_status_defs = REVIEW_STATUS_REQUESTED_def REVIEW_STATUS_IN_FLIGHT_def
  REVIEW_STATUS_REVIEWED_def REVIEW_STATUS_APPROVED_def REVIEW_STATUS_DROPPED_def REVIEW_STATUS_TRUNCATED_def

definition REVIEW_COMPLETION_APPROVE :: string where "REVIEW_COMPLETION_APPROVE = ''approve''"
definition REVIEW_COMPLETION_CHANGES :: string where "REVIEW_COMPLETION_CHANGES = ''changes''"

record review_completed =
  rv_generation :: int
  rv_sha :: string
  rv_patch_id :: string
  rv_verdict :: string

text \<open>The ticket-bearing origins of a watch row.\<close>

fun strip_prefix_str :: "string \<Rightarrow> string \<Rightarrow> string option" where
  "strip_prefix_str [] s = Some s"
| "strip_prefix_str (p # ps) [] = None"
| "strip_prefix_str (p # ps) (c # cs) = (if p = c then strip_prefix_str ps cs else None)"

definition origin_ticket :: "text_ops \<Rightarrow> string \<Rightarrow> string option" where
  "origin_ticket tx origin =
     (case (case strip_prefix_str ''handoff:'' origin of
              Some t \<Rightarrow> Some t
            | None \<Rightarrow> strip_prefix_str ''adopt:'' origin) of
        None \<Rightarrow> None
      | Some t \<Rightarrow> (let ticket = trim tx t in if ticket = [] then None else Some ticket))"

section \<open>Tables\<close>

text \<open>
  A row of \<^verbatim>\<open>rhapsody_review_watch\<close>: the struct's columns and the four \<^verbatim>\<open>last_completed_*\<close> columns,
  whose defaults are \<open>0\<close> and the empty string.
\<close>

record watch_entry =
  we_row :: review_watch_row
  we_completed :: review_completed

definition no_completion :: review_completed where
  "no_completion = \<lparr>rv_generation = 0, rv_sha = [], rv_patch_id = [], rv_verdict = []\<rparr>"

record head_finding =
  hf_key :: review_watch_key
  hf_head :: string
  hf_rerun :: bool
  hf_dispute_granted :: bool
  hf_dispute_pending :: bool
  hf_dispute_adjudication :: bool

record review_bound_row =
  bd_dispatches :: int
  bd_generation :: int
  bd_evidence_rev :: int

text \<open>
  \<open>st_adjudications\<close> lists the adjudications a repeated dispute queued: the pull request, the head and
  the manager mode, which is \<open>None\<close> when the item goes to the tech lead's queue instead.
\<close>

record review_store =
  st_watch :: "watch_entry list"
  st_findings :: "head_finding list"
  st_bounds :: "string \<Rightarrow> review_bound_row option"
  st_selection :: "review_watch_key \<Rightarrow> string option"
  st_adjudications :: "(string \<times> string \<times> string option) list"

definition store_empty :: review_store where
  "store_empty =
     \<lparr>st_watch = [], st_findings = [], st_bounds = (\<lambda>_. None), st_selection = (\<lambda>_. None), st_adjudications = []\<rparr>"

definition entry_key :: "watch_entry \<Rightarrow> review_watch_key" where
  "entry_key e = ww_key (we_row e)"

text \<open>\<open>UPDATE rhapsody_review_watch SET ... WHERE\<close> the primary key.\<close>

definition update_watch :: "review_watch_key \<Rightarrow> (watch_entry \<Rightarrow> watch_entry) \<Rightarrow> review_store \<Rightarrow> review_store" where
  "update_watch k f st = st\<lparr>st_watch := map (\<lambda>e. if entry_key e = k then f e else e) (st_watch st)\<rparr>"

text \<open>The same on \<^verbatim>\<open>rhapsody_review_head_findings\<close>, whose key is the watch key and a head.\<close>

definition update_finding ::
  "review_watch_key \<Rightarrow> string \<Rightarrow> (head_finding \<Rightarrow> head_finding) \<Rightarrow> review_store \<Rightarrow> review_store" where
  "update_finding k head f st =
     st\<lparr>st_findings := map (\<lambda>h. if hf_key h = k \<and> hf_head h = head then f h else h) (st_findings st)\<rparr>"

definition has_finding :: "review_watch_key \<Rightarrow> string \<Rightarrow> review_store \<Rightarrow> bool" where
  "has_finding k head st \<longleftrightarrow> (\<exists>h \<in> set (st_findings st). hf_key h = k \<and> hf_head h = head)"

definition new_finding :: "review_watch_key \<Rightarrow> string \<Rightarrow> head_finding" where
  "new_finding k head =
     \<lparr>hf_key = k, hf_head = head, hf_rerun = False, hf_dispute_granted = False,
      hf_dispute_pending = False, hf_dispute_adjudication = False\<rparr>"

definition watch_key_order :: "review_watch_row \<Rightarrow> string \<times> string \<times> int \<times> string" where
  "watch_key_order r =
     (wk_owner (ww_key r), wk_repo (ww_key r), wk_number (ww_key r), wk_reviewer (ww_key r))"

section \<open>Store methods\<close>

definition save_review_watch :: "review_watch_row \<Rightarrow> review_store \<Rightarrow> review_store" where
  "save_review_watch w st =
     (if ww_key w \<in> entry_key ` set (st_watch st)
      then update_watch (ww_key w)
             (\<lambda>e. e\<lparr>we_row := (we_row e)\<lparr>ww_author := ww_author w, ww_introduced_by := ww_introduced_by w,
                                       ww_status := ww_status w, ww_open := ww_open w\<rparr>\<rparr>) st
      else st\<lparr>st_watch := st_watch st @ [\<lparr>we_row = w, we_completed = no_completion\<rparr>]\<rparr>)"

definition mark_review_requested :: "review_watch_key \<Rightarrow> string \<Rightarrow> review_store \<Rightarrow> review_store" where
  "mark_review_requested k requested_sha st =
     update_finding k requested_sha (\<lambda>h. h\<lparr>hf_rerun := False, hf_dispute_pending := False\<rparr>)
       (update_watch k
          (\<lambda>e. e\<lparr>we_row := (we_row e)\<lparr>ww_requested_sha := requested_sha, ww_status := REVIEW_STATUS_IN_FLIGHT\<rparr>\<rparr>) st)"

definition mark_review_completed :: "review_watch_key \<Rightarrow> string \<Rightarrow> string \<Rightarrow> review_store \<Rightarrow> review_store" where
  "mark_review_completed k reviewed_sha status st =
     update_watch k
       (\<lambda>e. e\<lparr>we_row := (we_row e)\<lparr>ww_last_reviewed_sha := reviewed_sha, ww_status := status\<rparr>\<rparr>) st"

definition mark_review_truncated :: "review_watch_key \<Rightarrow> review_store \<Rightarrow> review_store" where
  "mark_review_truncated k st =
     update_watch k (\<lambda>e. e\<lparr>we_row := (we_row e)\<lparr>ww_status := REVIEW_STATUS_TRUNCATED\<rparr>\<rparr>) st"

definition drop_review_watch :: "review_watch_key \<Rightarrow> review_store \<Rightarrow> review_store" where
  "drop_review_watch k st =
     update_watch k (\<lambda>e. e\<lparr>we_row := (we_row e)\<lparr>ww_status := REVIEW_STATUS_DROPPED, ww_open := False\<rparr>\<rparr>) st"

definition find_entry :: "review_watch_key \<Rightarrow> review_store \<Rightarrow> watch_entry option" where
  "find_entry k st = find (\<lambda>e. entry_key e = k) (st_watch st)"

definition get_review_watch :: "review_watch_key \<Rightarrow> review_store \<Rightarrow> review_watch_row option" where
  "get_review_watch k st = map_option we_row (find_entry k st)"

definition load_review_watch :: "review_store \<Rightarrow> review_watch_row list" where
  "load_review_watch st = sort_key watch_key_order (map we_row (st_watch st))"

definition is_live :: "review_watch_row \<Rightarrow> bool" where
  "is_live r \<longleftrightarrow> ww_open r \<and> ww_status r \<noteq> REVIEW_STATUS_DROPPED"

definition load_live_review_watch :: "review_store \<Rightarrow> review_watch_row list" where
  "load_live_review_watch st = sort_key watch_key_order (filter is_live (map we_row (st_watch st)))"

definition record_review_completion ::
  "review_watch_key \<Rightarrow> string \<Rightarrow> review_completed \<Rightarrow> review_store \<Rightarrow> review_store" where
  "record_review_completion k status completed st =
     (let st' = update_watch k
            (\<lambda>e. e\<lparr>we_row := (we_row e)\<lparr>ww_last_reviewed_sha := rv_sha completed, ww_status := status\<rparr>,
                   we_completed := completed\<rparr>) st
      in if rv_verdict completed = REVIEW_COMPLETION_CHANGES \<and> rv_sha completed \<noteq> []
         then if has_finding k (rv_sha completed) st'
              then update_finding k (rv_sha completed) (\<lambda>h. h\<lparr>hf_rerun := False, hf_dispute_pending := False\<rparr>) st'
              else st'\<lparr>st_findings := st_findings st' @ [new_finding k (rv_sha completed)]\<rparr>
         else st')"

definition review_completed_of :: "review_watch_key \<Rightarrow> review_store \<Rightarrow> review_completed option" where
  "review_completed_of k st =
     (case find_entry k st of
        None \<Rightarrow> None
      | Some e \<Rightarrow> if rv_verdict (we_completed e) = [] then None else Some (we_completed e))"

definition same_head_findings :: "review_watch_key \<Rightarrow> string \<Rightarrow> review_store \<Rightarrow> bool" where
  "same_head_findings k head st \<longleftrightarrow>
     (\<exists>h \<in> set (st_findings st). hf_key h = k \<and> hf_head h = head \<and> \<not> hf_rerun h \<and> \<not> hf_dispute_pending h)"

definition review_dispute_pending :: "review_watch_key \<Rightarrow> string \<Rightarrow> review_store \<Rightarrow> bool" where
  "review_dispute_pending k head st \<longleftrightarrow>
     (\<exists>h \<in> set (st_findings st). hf_key h = k \<and> hf_head h = head \<and> hf_dispute_pending h)"

definition save_review_selection :: "review_watch_key \<Rightarrow> string \<Rightarrow> review_store \<Rightarrow> review_store" where
  "save_review_selection k reason st = st\<lparr>st_selection := (st_selection st)(k \<mapsto> reason)\<rparr>"

subsection \<open>Disputes\<close>

datatype review_dispute_outcome = Held | Granted | Pending | Adjudication

definition key_display :: "review_watch_key \<Rightarrow> string" where
  "key_display k = wk_owner k @ ''/'' @ wk_repo k @ ''#'' @ show_int (wk_number k)"

text \<open>
  One transaction. \<open>held\<close> is whether the subject of the pull request has an open hold. A return
  before the commit leaves the tables unchanged.
\<close>

definition request_review_dispute ::
  "bool \<Rightarrow> review_watch_key \<Rightarrow> string \<Rightarrow> string option \<Rightarrow> review_store \<Rightarrow> review_dispute_outcome \<times> review_store" where
  "request_review_dispute held k head manager_mode st =
     (if held then (Held, st)
      else
        let st1 = (if has_finding k head st then st else st\<lparr>st_findings := st_findings st @ [new_finding k head]\<rparr>);
            row = (case find (\<lambda>h. hf_key h = k \<and> hf_head h = head) (st_findings st1) of
                     Some h \<Rightarrow> h | None \<Rightarrow> new_finding k head);
            pr = to_ascii_lowercase (key_display k)
        in if hf_dispute_pending row then (Pending, st)
           else if \<not> hf_dispute_granted row
           then (Granted,
                 update_watch k (\<lambda>e. e\<lparr>we_row := (we_row e)\<lparr>ww_status := REVIEW_STATUS_REQUESTED\<rparr>\<rparr>)
                   (update_finding k head (\<lambda>h. h\<lparr>hf_dispute_granted := True, hf_dispute_pending := True\<rparr>) st1))
           else if list_ex (\<lambda>h. to_ascii_lowercase (key_display (hf_key h)) = pr \<and> hf_head h = head \<and>
                                hf_dispute_adjudication h) (st_findings st1)
           then (Adjudication, st1)
           else (Adjudication,
                 st1\<lparr>st_adjudications := st_adjudications st1 @ [(pr, head, manager_mode)],
                     st_findings := map (\<lambda>h. if to_ascii_lowercase (key_display (hf_key h)) = pr \<and> hf_head h = head
                                              then h\<lparr>hf_dispute_adjudication := True\<rparr> else h) (st_findings st1)\<rparr>))"

text \<open>
  The operator's re-run: the ledger rows of the pull request at \<open>head\<close>, or, when no head is known,
  at the head the watch row was last asked about, else the one it last read.
\<close>

definition allow_review_rerun :: "string \<Rightarrow> string \<Rightarrow> review_store \<Rightarrow> review_store" where
  "allow_review_rerun pr head st =
     st\<lparr>st_findings := map (\<lambda>h.
        let wanted = (if head \<noteq> [] then Some head
                      else map_option (\<lambda>e. if ww_requested_sha (we_row e) \<noteq> [] then ww_requested_sha (we_row e)
                                           else ww_last_reviewed_sha (we_row e)) (find_entry (hf_key h) st))
        in if to_ascii_lowercase (key_display (hf_key h)) = to_ascii_lowercase pr \<and> wanted = Some (hf_head h)
           then h\<lparr>hf_rerun := True\<rparr> else h) (st_findings st)\<rparr>"

subsection \<open>The review bound\<close>

definition set_review_rounds :: "string \<Rightarrow> int \<Rightarrow> review_store \<Rightarrow> review_store" where
  "set_review_rounds pr dispatches st =
     st\<lparr>st_bounds := (st_bounds st)(pr \<mapsto>
        (case st_bounds st pr of
           None \<Rightarrow> \<lparr>bd_dispatches = dispatches, bd_generation = 1, bd_evidence_rev = 0\<rparr>
         | Some b \<Rightarrow> b\<lparr>bd_dispatches := dispatches\<rparr>))\<rparr>"

definition ensure_review_generation :: "string \<Rightarrow> review_store \<Rightarrow> review_store" where
  "ensure_review_generation pr st =
     (case st_bounds st pr of
        Some b \<Rightarrow> st
      | None \<Rightarrow> st\<lparr>st_bounds := (st_bounds st)(pr \<mapsto>
                      \<lparr>bd_dispatches = 0, bd_generation = 1, bd_evidence_rev = 0\<rparr>)\<rparr>)"

definition clear_review_bound :: "string \<Rightarrow> review_store \<Rightarrow> review_store" where
  "clear_review_bound pr st = st\<lparr>st_bounds := (st_bounds st)(pr := None)\<rparr>"

definition set_review_evidence_rev :: "string \<Rightarrow> int \<Rightarrow> review_store \<Rightarrow> review_store" where
  "set_review_evidence_rev pr evidence_rev st =
     st\<lparr>st_bounds := (st_bounds st)(pr \<mapsto>
        (case st_bounds st pr of
           None \<Rightarrow> \<lparr>bd_dispatches = 0, bd_generation = 1, bd_evidence_rev = evidence_rev\<rparr>
         | Some b \<Rightarrow> b\<lparr>bd_evidence_rev := evidence_rev\<rparr>))\<rparr>"

section \<open>Well-formedness\<close>

definition review_statuses :: "string set" where
  "review_statuses =
     {REVIEW_STATUS_REQUESTED, REVIEW_STATUS_IN_FLIGHT, REVIEW_STATUS_REVIEWED, REVIEW_STATUS_APPROVED,
      REVIEW_STATUS_DROPPED, REVIEW_STATUS_TRUNCATED}"

definition keys_distinct :: "review_store \<Rightarrow> bool" where
  "keys_distinct st \<longleftrightarrow> distinct (map entry_key (st_watch st))"

definition all_rows :: "(watch_entry \<Rightarrow> bool) \<Rightarrow> review_store \<Rightarrow> bool" where
  "all_rows P st \<longleftrightarrow> (\<forall>e \<in> set (st_watch st). P e)"

definition watch_ok :: "review_store \<Rightarrow> bool" where
  "watch_ok st \<longleftrightarrow> keys_distinct st \<and> all_rows (\<lambda>e. ww_status (we_row e) \<in> review_statuses) st"

text \<open>
  Every property of the rows that an update keeps at the updated row is kept by the table; the
  proofs about the store methods rest on these two rules.
\<close>

lemma all_rowsD: "all_rows P st \<Longrightarrow> e \<in> set (st_watch st) \<Longrightarrow> P e"
  by (simp add: all_rows_def)

lemma all_rows_update:
  assumes "all_rows P st" "\<And>e. e \<in> set (st_watch st) \<Longrightarrow> P e \<Longrightarrow> entry_key e = k \<Longrightarrow> P (f e)"
  shows "all_rows P (update_watch k f st)"
  using assms by (auto simp: all_rows_def update_watch_def)

lemma all_rows_save:
  assumes "all_rows P st"
    and "\<And>e. P e \<Longrightarrow> entry_key e = ww_key w \<Longrightarrow>
      P (e\<lparr>we_row := (we_row e)\<lparr>ww_author := ww_author w, ww_introduced_by := ww_introduced_by w,
                               ww_status := ww_status w, ww_open := ww_open w\<rparr>\<rparr>)"
    and "P \<lparr>we_row = w, we_completed = no_completion\<rparr>"
  shows "all_rows P (save_review_watch w st)"
proof (cases "ww_key w \<in> entry_key ` set (st_watch st)")
  case True
  then show ?thesis using assms(1, 2) by (simp add: save_review_watch_def all_rows_update)
next
  case False
  then show ?thesis using assms(1, 3) by (simp add: save_review_watch_def all_rows_def)
qed

lemma update_finding_watch [simp]: "st_watch (update_finding k h f st) = st_watch st"
  by (simp add: update_finding_def)

lemma all_rows_watch_cong: "st_watch st' = st_watch st \<Longrightarrow> all_rows P st' = all_rows P st"
  by (simp add: all_rows_def)

lemma set_review_rounds_watch [simp]: "st_watch (set_review_rounds pr n st) = st_watch st"
  by (simp add: set_review_rounds_def)

lemma ensure_review_generation_watch [simp]: "st_watch (ensure_review_generation pr st) = st_watch st"
  by (simp add: ensure_review_generation_def split: option.split)

lemma clear_review_bound_watch [simp]: "st_watch (clear_review_bound pr st) = st_watch st"
  by (simp add: clear_review_bound_def)

lemma set_review_evidence_rev_watch [simp]: "st_watch (set_review_evidence_rev pr n st) = st_watch st"
  by (simp add: set_review_evidence_rev_def)

lemma save_review_selection_watch [simp]: "st_watch (save_review_selection k r st) = st_watch st"
  by (simp add: save_review_selection_def)

lemma allow_review_rerun_watch [simp]: "st_watch (allow_review_rerun pr h st) = st_watch st"
  by (simp add: allow_review_rerun_def)

lemma request_review_dispute_watch:
  "st_watch (snd (request_review_dispute held k head mode st)) =
     (if fst (request_review_dispute held k head mode st) = Granted
      then st_watch (update_watch k (\<lambda>e. e\<lparr>we_row := (we_row e)\<lparr>ww_status := REVIEW_STATUS_REQUESTED\<rparr>\<rparr>) st)
      else st_watch st)"
  by (simp add: request_review_dispute_def Let_def update_watch_def)

lemma record_review_completion_watch:
  "st_watch (record_review_completion k status c st) =
     st_watch (update_watch k
       (\<lambda>e. e\<lparr>we_row := (we_row e)\<lparr>ww_last_reviewed_sha := rv_sha c, ww_status := status\<rparr>, we_completed := c\<rparr>) st)"
  by (simp add: record_review_completion_def Let_def)

lemma watch_keys_update:
  assumes "\<And>e. entry_key (f e) = entry_key e"
  shows "map entry_key (st_watch (update_watch k f st)) = map entry_key (st_watch st)"
  using assms by (simp add: update_watch_def comp_def if_distrib cong: if_cong)

lemma watch_keys_save:
  "map entry_key (st_watch (save_review_watch w st)) =
     (if ww_key w \<in> entry_key ` set (st_watch st) then map entry_key (st_watch st)
      else map entry_key (st_watch st) @ [ww_key w])"
proof (cases "ww_key w \<in> entry_key ` set (st_watch st)")
  case True
  then show ?thesis
    by (simp add: save_review_watch_def) (rule watch_keys_update, simp add: entry_key_def)
qed (simp add: save_review_watch_def entry_key_def)

lemma keys_distinct_save: "keys_distinct st \<Longrightarrow> keys_distinct (save_review_watch w st)"
  by (simp add: keys_distinct_def watch_keys_save)

lemma keys_distinct_update:
  "keys_distinct st \<Longrightarrow> (\<And>e. entry_key (f e) = entry_key e) \<Longrightarrow> keys_distinct (update_watch k f st)"
  by (simp only: keys_distinct_def watch_keys_update)

lemma keys_distinct_cong: "st_watch st' = st_watch st \<Longrightarrow> keys_distinct st' = keys_distinct st"
  by (simp add: keys_distinct_def)

lemma find_entry_Some:
  assumes "keys_distinct st"
  shows "find_entry k st = Some e \<longleftrightarrow> e \<in> set (st_watch st) \<and> entry_key e = k"
proof -
  have "find (\<lambda>e. entry_key e = k) es = Some e \<longleftrightarrow> e \<in> set es \<and> entry_key e = k"
    if "distinct (map entry_key es)" for es
    using that by (induction es) (auto simp: image_iff)
  then show ?thesis using assms by (simp add: find_entry_def keys_distinct_def)
qed

lemma set_load_live: "set (load_live_review_watch st) = {r \<in> we_row ` set (st_watch st). is_live r}"
  by (auto simp: load_live_review_watch_def)

lemma set_load: "set (load_review_watch st) = we_row ` set (st_watch st)"
  by (simp add: load_review_watch_def)

end
