(* ===== verification/Review_Loop.thy ===== *)
theory Review_Loop
  imports Review_Store
begin

text \<open>
  The control task's handlers of the review loop: introducing a pull request, dispatching a review,
  a head advance, a review's exit, the operator's re-run, clear and dismiss, and the watcher's
  retirement (\<^verbatim>\<open>crates/orchestrator/src/review.rs\<close>, \<^verbatim>\<open>reviewintro.rs\<close>, \<^verbatim>\<open>reviewwatch.rs\<close>,
  \<^verbatim>\<open>reviewconsole.rs\<close>).

  All of them run on one task, so each is one step on \<open>review_ctl\<close>. Any store call may fail;
  \<open>store_faults\<close> says which ones do, and the handlers continue as the code does. \<open>review_env\<close> holds
  what the handlers read and do not own: the configuration, the store's subject holds, the regular
  expression behind \<open>parse_repo\<close>. Not carried: log lines, the run rows and findings rows a review's
  exit also writes, and the in-memory annotations of the console.
\<close>

section \<open>State and environment\<close>

record project =
  pj_slug :: string
  pj_group :: string
  pj_repo :: string
  pj_disabled :: bool
  pj_landing :: bool

record effective =
  ef_projects :: "project list"
  ef_cfg_repo :: string

record review_run =
  rr_owner :: string
  rr_repo :: string
  rr_number :: int
  rr_reviewer :: string
  rr_author :: string
  rr_team_id :: string
  rr_repo_url :: string
  rr_head_sha :: string
  rr_introduced_by :: string
  rr_prior_sha :: string
  rr_head_patch_id :: string
  rr_generation :: int

record failed_review_attempt =
  fa_obligation :: review_watch_key
  fa_head :: string
  fa_failures :: nat
  fa_next_at :: instant
  fa_reason :: string
  fa_pending_exit :: bool

text \<open>
  \<open>re_now\<close> counts seconds; \<open>re_split_whitespace\<close> is the method of the Rust standard library, which
  follows the Unicode tables.
\<close>

record review_env =
  re_text :: text_ops
  re_split_whitespace :: "string \<Rightarrow> string list"
  re_now :: instant
  re_eff :: "effective option"
  re_parse_repo :: "string \<Rightarrow> (string \<times> string) option"
  re_ticketless :: bool
  re_threshold :: "nat option"
  re_effective_reviewers :: "nat option"
  re_authority_act :: bool
  re_manager_mode :: "string option"
  re_draining :: bool
  re_account_usable :: bool
  re_subject_hold :: "string \<Rightarrow> subject_hold option option"
  re_roster :: "string list"
  re_unselectable :: "string \<Rightarrow> bool"
  re_code_reviewer :: "string \<Rightarrow> bool"

record store_faults =
  sf_load :: bool
  sf_get :: "review_watch_key \<Rightarrow> bool"
  sf_write :: "review_watch_key \<Rightarrow> bool"
  sf_mark :: "review_watch_key \<Rightarrow> bool"
  sf_bound :: bool

record review_ctl =
  rl_store :: review_store
  rl_running :: "string \<Rightarrow> review_run option"
  rl_claimed :: "string set"
  rl_observed :: "pr_coord \<Rightarrow> string option"
  rl_rounds :: "string \<Rightarrow> nat option"
  rl_pending :: "string \<Rightarrow> string list list option"
  rl_attempts :: "review_watch_key \<Rightarrow> failed_review_attempt option"

definition ctl_empty :: review_ctl where
  "ctl_empty =
     \<lparr>rl_store = store_empty, rl_running = (\<lambda>_. None), rl_claimed = {}, rl_observed = (\<lambda>_. None),
      rl_rounds = (\<lambda>_. None), rl_pending = (\<lambda>_. None), rl_attempts = (\<lambda>_. None)\<rparr>"

definition REVIEW_KEY_PREFIX :: string where "REVIEW_KEY_PREFIX = ''pr:''"

definition review_key :: "string \<Rightarrow> string \<Rightarrow> int \<Rightarrow> string \<Rightarrow> string" where
  "review_key owner repo number reviewer =
     REVIEW_KEY_PREFIX @ owner @ ''/'' @ repo @ ''#'' @ show_int number @ ''@'' @ reviewer"

definition watch_key :: "review_run \<Rightarrow> review_watch_key" where
  "watch_key run = \<lparr>wk_owner = rr_owner run, wk_repo = rr_repo run, wk_number = rr_number run, wk_reviewer = rr_reviewer run\<rparr>"

definition run_key :: "review_run \<Rightarrow> string" where
  "run_key run = review_key (rr_owner run) (rr_repo run) (rr_number run) (rr_reviewer run)"

definition key_id :: "review_watch_key \<Rightarrow> string" where
  "key_id k = review_key (wk_owner k) (wk_repo k) (wk_number k) (wk_reviewer k)"

definition run_pr :: "review_run \<Rightarrow> pr_coord" where
  "run_pr run = \<lparr>pr_owner = rr_owner run, pr_repo = rr_repo run, pr_number = rr_number run\<rparr>"

definition churn_key :: "pr_coord \<Rightarrow> string" where
  "churn_key pr = to_ascii_lowercase (pr_display pr)"

definition key_is :: "review_watch_key \<Rightarrow> pr_coord \<Rightarrow> bool" where
  "key_is k pr \<longleftrightarrow>
     eq_ignore_ascii_case (wk_owner k) (pr_owner pr) \<and> eq_ignore_ascii_case (wk_repo k) (pr_repo pr) \<and>
     wk_number k = pr_number pr"

definition row_is :: "review_watch_row \<Rightarrow> pr_coord \<Rightarrow> bool" where
  "row_is row pr \<longleftrightarrow> key_is (ww_key row) pr"

definition live_or_claimed :: "review_ctl \<Rightarrow> string \<Rightarrow> bool" where
  "live_or_claimed c i \<longleftrightarrow> rl_running c i \<noteq> None \<or> i \<in> rl_claimed c"

definition same_owner_repo :: "review_env \<Rightarrow> string \<Rightarrow> string \<Rightarrow> string \<Rightarrow> bool" where
  "same_owner_repo env url owner repo \<longleftrightarrow>
     (case re_parse_repo env url of
        None \<Rightarrow> False
      | Some (r_owner, r_repo) \<Rightarrow> eq_ignore_ascii_case r_owner owner \<and> eq_ignore_ascii_case r_repo repo)"

definition review_repo_is_configured :: "review_env \<Rightarrow> string \<Rightarrow> string \<Rightarrow> bool" where
  "review_repo_is_configured env owner repo \<longleftrightarrow>
     (case re_eff env of
        None \<Rightarrow> False
      | Some eff \<Rightarrow>
          list_ex (\<lambda>p. \<not> pj_disabled p \<and> same_owner_repo env (pj_repo p) owner repo) (ef_projects eff) \<or>
          (ef_projects eff = [] \<and> same_owner_repo env (ef_cfg_repo eff) owner repo))"

definition map_store :: "(review_store \<Rightarrow> review_store) \<Rightarrow> review_ctl \<Rightarrow> review_ctl" where
  "map_store f c = c\<lparr>rl_store := f (rl_store c)\<rparr>"

section \<open>Rounds\<close>

definition REVIEW_ROUNDS_PER_PR_CAP :: nat where "REVIEW_ROUNDS_PER_PR_CAP = 8"

definition reviewers_per_round :: "review_env \<Rightarrow> nat" where
  "reviewers_per_round env = (case re_effective_reviewers env of None \<Rightarrow> 1 | Some n \<Rightarrow> max n 1)"

definition spent :: "review_ctl \<Rightarrow> string \<Rightarrow> nat" where
  "spent c ck = (case rl_rounds c ck of None \<Rightarrow> 0 | Some n \<Rightarrow> n)"

definition rounds_used :: "review_env \<Rightarrow> review_ctl \<Rightarrow> pr_coord \<Rightarrow> nat" where
  "rounds_used env c pr = spent c (churn_key pr) div reviewers_per_round env"

definition round_budget_spent :: "review_env \<Rightarrow> review_ctl \<Rightarrow> pr_coord \<Rightarrow> bool" where
  "round_budget_spent env c pr \<longleftrightarrow>
     spent c (churn_key pr) \<ge> REVIEW_ROUNDS_PER_PR_CAP * reviewers_per_round env"

definition review_exchange_gate_active :: "review_env \<Rightarrow> review_ctl \<Rightarrow> pr_coord \<Rightarrow> bool" where
  "review_exchange_gate_active env c pr \<longleftrightarrow>
     re_authority_act env \<and>
     (case re_threshold env of None \<Rightarrow> False | Some t \<Rightarrow> rounds_used env c pr \<ge> t)"

definition persist_review_rounds :: "store_faults \<Rightarrow> string \<Rightarrow> review_ctl \<Rightarrow> review_ctl" where
  "persist_review_rounds flt ck c =
     (if sf_bound flt then c else map_store (set_review_rounds ck (int (spent c ck))) c)"

definition review_generation :: "store_faults \<Rightarrow> review_watch_key \<Rightarrow> review_ctl \<Rightarrow> int" where
  "review_generation flt k c =
     (if sf_bound flt then 0
      else case st_bounds (rl_store c)
             (churn_key \<lparr>pr_owner = wk_owner k, pr_repo = wk_repo k, pr_number = wk_number k\<rparr>) of
          None \<Rightarrow> 0
        | Some b \<Rightarrow> bd_generation b)"

definition note_review_verdict :: "store_faults \<Rightarrow> review_run \<Rightarrow> review_ctl \<Rightarrow> review_ctl" where
  "note_review_verdict flt run c =
     (let c1 = c\<lparr>rl_attempts := (rl_attempts c)(watch_key run := None)\<rparr>;
          ck = churn_key (run_pr run)
      in if rr_generation run \<noteq> review_generation flt (watch_key run) c1 then c1
         else persist_review_rounds flt ck (c1\<lparr>rl_rounds := (rl_rounds c1)(ck \<mapsto> spent c1 ck + 1)\<rparr>))"

definition standing_heads :: "review_watch_row list \<Rightarrow> pr_coord \<Rightarrow> string list" where
  "standing_heads rows pr =
     sort_key (\<lambda>h. h) (fold (\<lambda>sha heads. if sha \<noteq> [] \<and> sha \<notin> set heads then heads @ [sha] else heads)
       (concat (map (\<lambda>r. [ww_requested_sha r, ww_last_reviewed_sha r])
          (filter (\<lambda>r. row_is r pr \<and> ww_open r \<and> ww_status r \<noteq> REVIEW_STATUS_DROPPED) rows))) [])"

definition converged :: "review_watch_row list \<Rightarrow> pr_coord \<Rightarrow> bool" where
  "converged rows pr \<longleftrightarrow>
     (let live = filter (\<lambda>r. row_is r pr \<and> ww_open r \<and> ww_status r \<noteq> REVIEW_STATUS_DROPPED) rows
      in live \<noteq> [] \<and> list_all (\<lambda>r. ww_status r = REVIEW_STATUS_APPROVED) live)"

definition charged_linked_prs :: "review_ctl \<Rightarrow> issue \<Rightarrow> pr_coord list" where
  "charged_linked_prs c iss =
     filter (\<lambda>pr. rl_rounds c (churn_key pr) \<noteq> None)
       (map (\<lambda>r. \<lparr>pr_owner = lp_owner r, pr_repo = lp_repo r, pr_number = lp_number r\<rparr>) (elements (iss_linked_prs iss)))"

definition note_round :: "review_watch_row list \<Rightarrow> pr_coord \<Rightarrow> review_ctl \<Rightarrow> review_ctl" where
  "note_round rows pr c =
     (let standing = standing_heads rows pr;
          ck = churn_key pr;
          pending = (case rl_pending c ck of None \<Rightarrow> [] | Some p \<Rightarrow> p)
      in if standing = [] then c
         else if list_ex (\<lambda>base. set standing \<subseteq> set base) pending then c\<lparr>rl_pending := (rl_pending c)(ck \<mapsto> pending)\<rparr>
         else c\<lparr>rl_pending := (rl_pending c)(ck \<mapsto> pending @ [standing])\<rparr>)"

definition note_author_round :: "review_env \<Rightarrow> store_faults \<Rightarrow> issue \<Rightarrow> review_ctl \<Rightarrow> review_ctl" where
  "note_author_round env flt iss c =
     (if re_threshold env = None \<or> charged_linked_prs c iss = [] \<or> sf_load flt then c
      else fold (note_round (load_live_review_watch (rl_store c))) (charged_linked_prs c iss) c)"

definition settle_author_round ::
  "review_env \<Rightarrow> store_faults \<Rightarrow> pr_coord \<Rightarrow> string \<Rightarrow> review_ctl \<Rightarrow> review_ctl" where
  "settle_author_round env flt pr head c =
     (let ck = churn_key pr in
      if head = [] then c
      else if re_threshold env = None then c\<lparr>rl_pending := (rl_pending c)(ck := None)\<rparr>
      else case rl_pending c ck of
          None \<Rightarrow> c
        | Some pending \<Rightarrow>
            (let left = filter (\<lambda>base. head \<in> set base) pending
             in if length left = length pending then c
                else persist_review_rounds flt ck
                  (c\<lparr>rl_pending := (rl_pending c)(ck := (if left = [] then None else Some left)),
                     rl_rounds := (rl_rounds c)(ck \<mapsto> spent c ck + reviewers_per_round env)\<rparr>)))"

definition author_round_budget_spent ::
  "review_env \<Rightarrow> store_faults \<Rightarrow> (pr_coord \<Rightarrow> bool) \<Rightarrow> issue \<Rightarrow> review_ctl \<Rightarrow> bool" where
  "author_round_budget_spent env flt adjudicated iss c =
     (case re_threshold env of
        None \<Rightarrow> False
      | Some threshold \<Rightarrow>
          (let charged = charged_linked_prs c iss;
               rows = (if sf_load flt then [] else load_live_review_watch (rl_store c))
           in if charged = [] then False
              else if list_ex adjudicated charged then True
              else list_ex (\<lambda>pr. rounds_used env c pr \<ge> threshold \<and> \<not> converged rows pr) charged))"

section \<open>Attempts that fail\<close>

definition join_space :: "string list \<Rightarrow> string" where
  "join_space ws = concat (map (\<lambda>(i, w). if i = 0 then w else CHR '' '' # w) (enumerate 0 ws))"

text \<open>\<open>chars().take(n)\<close> on a UTF-8 byte string: a byte in \<open>128 .. 191\<close> continues a character.\<close>

fun take_chars :: "nat \<Rightarrow> string \<Rightarrow> string" where
  "take_chars n [] = []"
| "take_chars n (c # cs) =
     (if 128 \<le> byte_val c \<and> byte_val c < 192 then c # take_chars n cs
      else case n of 0 \<Rightarrow> [] | Suc m \<Rightarrow> c # take_chars m cs)"

definition note_failed_review_attempt ::
  "review_env \<Rightarrow> review_watch_key \<Rightarrow> string \<Rightarrow> string \<Rightarrow> review_ctl \<Rightarrow> review_ctl" where
  "note_failed_review_attempt env k head reason c =
     (let failures = (case rl_attempts c k of
                        Some a \<Rightarrow> if fa_head a = head then fa_failures a + 1 else 1
                      | None \<Rightarrow> 1)
      in c\<lparr>rl_attempts := (rl_attempts c)(k \<mapsto>
             \<lparr>fa_obligation = k, fa_head = head, fa_failures = failures,
              fa_next_at = re_now env + (if failures = 1 then 30 else 120),
              fa_reason = take_chars 400 (join_space (re_split_whitespace env reason)),
              fa_pending_exit = False\<rparr>)\<rparr>)"

section \<open>Review round due\<close>

definition review_round_due :: "review_watch_row \<Rightarrow> string \<Rightarrow> bool \<Rightarrow> bool" where
  "review_round_due row head in_flight_now =
     (if \<not> ww_open row \<or> ww_status row = REVIEW_STATUS_DROPPED \<or> head = [] then False
      else if in_flight_now then False
      else if ww_status row = REVIEW_STATUS_REVIEWED \<or> ww_status row = REVIEW_STATUS_APPROVED
      then ww_last_reviewed_sha row \<noteq> head
      else True)"

section \<open>Introduction\<close>

record introduced_pr =
  ip_pr :: pr_coord
  ip_repo_url :: string
  ip_reviewers :: "string list"
  ip_author :: string
  ip_introduced_by :: string
  ip_only_if_unwatched :: bool

datatype review_intro_outcome = Introduced nat | Dormant | AlreadyWatched | Refused string

definition existing_watch_reviewers :: "pr_coord \<Rightarrow> review_ctl \<Rightarrow> string list" where
  "existing_watch_reviewers pr c =
     map (\<lambda>r. wk_reviewer (ww_key r))
       (filter (\<lambda>r. wk_number (ww_key r) = pr_number pr \<and> wk_owner (ww_key r) = pr_owner pr \<and>
                    wk_repo (ww_key r) = pr_repo pr) (load_live_review_watch (rl_store c)))"

definition review_pr_is_watched :: "store_faults \<Rightarrow> pr_coord \<Rightarrow> review_ctl \<Rightarrow> bool" where
  "review_pr_is_watched flt pr c \<longleftrightarrow>
     sf_load flt \<or> list_ex (\<lambda>row. row_is row pr) (load_review_watch (rl_store c))"

definition record_review_selection :: "review_watch_key \<Rightarrow> string \<Rightarrow> review_store \<Rightarrow> review_store" where
  "record_review_selection k reason st =
     (if st_selection st k = Some ''operator'' \<or> st_selection st k = Some reason then st
      else save_review_selection k reason st)"

definition settled_at_current_head :: "string option \<Rightarrow> review_watch_row option \<Rightarrow> bool" where
  "settled_at_current_head observed stored \<longleftrightarrow>
     (case stored of
        None \<Rightarrow> False
      | Some row \<Rightarrow>
          (ww_status row = REVIEW_STATUS_APPROVED \<or> ww_status row = REVIEW_STATUS_REVIEWED) \<and>
          ww_last_reviewed_sha row \<noteq> [] \<and>
          (case observed of None \<Rightarrow> True | Some head \<Rightarrow> head = ww_last_reviewed_sha row))"

definition new_row :: "review_watch_key \<Rightarrow> string \<Rightarrow> string \<Rightarrow> review_watch_row" where
  "new_row k author introduced_by =
     \<lparr>ww_key = k, ww_author = author, ww_introduced_by = introduced_by, ww_requested_sha = [],
      ww_last_reviewed_sha = [], ww_status = REVIEW_STATUS_REQUESTED, ww_open = True\<rparr>"

text \<open>A settled findings row that a handoff disputes; \<open>written\<close> counts the rows armed so far.\<close>

definition dispute_row ::
  "review_env \<Rightarrow> store_faults \<Rightarrow> introduced_pr \<Rightarrow> review_watch_key \<Rightarrow> review_watch_row \<Rightarrow> nat \<times> review_ctl \<Rightarrow> nat \<times> review_ctl" where
  "dispute_row env flt ip k row wc =
     (case re_subject_hold env (pr_display (ip_pr ip)) of
        Some None \<Rightarrow>
          if sf_write flt k then wc
          else (let d = request_review_dispute False k (ww_last_reviewed_sha row) (re_manager_mode env) (rl_store (snd wc))
                in (if fst d = Granted then fst wc + 1 else fst wc, map_store (\<lambda>_. snd d) (snd wc)))
      | _ \<Rightarrow> wc)"

definition introduce_row ::
  "review_env \<Rightarrow> store_faults \<Rightarrow> introduced_pr \<Rightarrow> string option \<Rightarrow> bool \<Rightarrow> string \<Rightarrow> nat \<times> review_ctl \<Rightarrow> nat \<times> review_ctl" where
  "introduce_row env flt ip observed gate_active reviewer wc =
     (let c = snd wc;
          k = \<lparr>wk_owner = pr_owner (ip_pr ip), wk_repo = pr_repo (ip_pr ip), wk_number = pr_number (ip_pr ip),
               wk_reviewer = reviewer\<rparr>;
          stored = get_review_watch k (rl_store c)
      in if live_or_claimed c (key_id k) \<or> sf_get flt k then wc
         else if settled_at_current_head observed stored then
           (case stored of
              Some row \<Rightarrow>
                if ww_status row = REVIEW_STATUS_REVIEWED \<and> starts_with (ip_introduced_by ip) ''handoff:'' \<and>
                   \<not> ip_only_if_unwatched ip
                then dispute_row env flt ip k row wc
                else wc
            | None \<Rightarrow> wc)
         else if gate_active then wc
         else if sf_write flt k then wc
         else (fst wc + 1,
               map_store (\<lambda>st.
                 (if stored = None
                  then record_review_selection k (if re_code_reviewer env reviewer then ''profile rule'' else ''least-loaded'')
                  else id) (save_review_watch (new_row k (ip_author ip) (ip_introduced_by ip)) st)) c))"

definition handle_review_introduce ::
  "review_env \<Rightarrow> store_faults \<Rightarrow> introduced_pr \<Rightarrow> review_ctl \<Rightarrow> review_intro_outcome \<times> review_ctl" where
  "handle_review_introduce env flt ip c =
     (let pr = ip_pr ip; blank = (\<lambda>r. trim (re_text env) r = []) in
      if \<not> re_ticketless env then (Dormant, c)
      else if pr_owner pr = [] \<or> pr_repo pr = [] then (Refused ''pull request has no owner/repo'', c)
      else if pr_number pr \<le> 0 then (Refused ''pull-request number is not positive'', c)
      else if list_all blank (ip_reviewers ip) then (Refused ''no reviewer'', c)
      else if \<not> review_repo_is_configured env (pr_owner pr) (pr_repo pr)
      then (Refused ''no configured project owns the PR's repo'', c)
      else if ip_only_if_unwatched ip \<and> review_pr_is_watched flt pr c then (AlreadyWatched, c)
      else if sf_load flt then (Refused ''the watch set could not be read'', c)
      else
        let existing = existing_watch_reviewers pr c;
            reviewers = (if existing \<noteq> [] then existing else ip_reviewers ip);
            wc = fold (introduce_row env flt ip (rl_observed c pr) (review_exchange_gate_active env c pr))
                   (filter (\<lambda>r. \<not> blank r) reviewers) (0, c)
        in (Introduced (fst wc),
            if sf_bound flt then snd wc else map_store (ensure_review_generation (churn_key pr)) (snd wc)))"

section \<open>Dispatch\<close>

text \<open>
  The tail of a dispatch: the watch-set writes and the hand-over to \<open>dispatch_issue\<close>, whose answer is
  \<open>accepted\<close>.
\<close>

definition establish_generation :: "store_faults \<Rightarrow> review_run \<Rightarrow> review_ctl \<Rightarrow> review_ctl" where
  "establish_generation flt run c =
     (if review_generation flt (watch_key run) c = 0 then persist_review_rounds flt (churn_key (run_pr run)) c else c)"

definition dispatch_writes :: "store_faults \<Rightarrow> review_run \<Rightarrow> review_ctl \<Rightarrow> review_ctl" where
  "dispatch_writes flt run c =
     (let k = watch_key run;
          c1 = (if sf_write flt k then c
                else map_store (save_review_watch (new_row k (rr_author run) (rr_introduced_by run))) c)
      in if sf_mark flt k then c1 else map_store (mark_review_requested k (rr_head_sha run)) c1)"

definition await_exit :: "review_watch_key \<Rightarrow> review_ctl \<Rightarrow> review_ctl" where
  "await_exit k c =
     (case rl_attempts c k of
        None \<Rightarrow> c
      | Some a \<Rightarrow> c\<lparr>rl_attempts := (rl_attempts c)(k \<mapsto> a\<lparr>fa_pending_exit := True\<rparr>)\<rparr>)"

definition finish_review_dispatch ::
  "review_env \<Rightarrow> store_faults \<Rightarrow> bool \<Rightarrow> review_run \<Rightarrow> review_ctl \<Rightarrow> bool \<times> review_ctl" where
  "finish_review_dispatch env flt accepted run c =
     (let k = watch_key run in
      if \<not> re_account_usable env then (False, c)
      else
        let prior = (if sf_get flt k then [] else
                       case get_review_watch k (rl_store c) of None \<Rightarrow> [] | Some row \<Rightarrow> ww_last_reviewed_sha row);
            c1 = establish_generation flt run c;
            run' = run\<lparr>rr_prior_sha := prior, rr_generation := review_generation flt k c1\<rparr>;
            c2 = await_exit k (dispatch_writes flt run c1)
        in if accepted then (True, c2\<lparr>rl_running := (rl_running c2)(run_key run \<mapsto> run')\<rparr>)
           else (rl_running c2 (run_key run) \<noteq> None, c2))"

section \<open>Exit\<close>

definition REVIEW_STATE_APPROVED :: string where "REVIEW_STATE_APPROVED = ''review:approved''"
definition REVIEW_STATE_FINDINGS :: string where "REVIEW_STATE_FINDINGS = ''review:findings''"
definition REVIEW_STATE_UNDECLARED :: string where "REVIEW_STATE_UNDECLARED = ''review:undeclared''"

text \<open>\<open>str::lines\<close>: split at line feeds, with one trailing carriage return dropped per line.\<close>

fun text_lines :: "string \<Rightarrow> string \<Rightarrow> string list" where
  "text_lines acc [] = (if acc = [] then [] else [rev acc])"
| "text_lines acc (c # cs) =
     (if c = CHR 0x0A
      then rev (case acc of CHR 0x0D # r \<Rightarrow> r | _ \<Rightarrow> acc) # text_lines [] cs
      else text_lines (c # acc) cs)"

definition handoff_payloads :: "text_ops \<Rightarrow> string \<Rightarrow> string list" where
  "handoff_payloads tx result_text =
     map (\<lambda>p. to_ascii_lowercase (trim tx p))
       (List.map_filter (\<lambda>ln. strip_prefix_str ''HANDOFF:'' (trim tx ln)) (text_lines [] result_text))"

definition review_exit_state :: "text_ops \<Rightarrow> string \<Rightarrow> string" where
  "review_exit_state tx result_text =
     (let payloads = handoff_payloads tx result_text in
      if ''approved'' \<in> set payloads then REVIEW_STATE_APPROVED
      else if list_ex (\<lambda>p. p = ''findings'' \<or> p = ''not approved'') payloads then REVIEW_STATE_FINDINGS
      else REVIEW_STATE_UNDECLARED)"

definition declared_review_status :: "string \<Rightarrow> string" where
  "declared_review_status exit_state =
     (if exit_state = REVIEW_STATE_APPROVED then REVIEW_STATUS_APPROVED else REVIEW_STATUS_REVIEWED)"

text \<open>The structured block of a review's result, as far as the verdict reads it: its \<open>approve\<close> field.\<close>

definition effective_review_status :: "string \<Rightarrow> bool option \<Rightarrow> string" where
  "effective_review_status exit_state block =
     (if declared_review_status exit_state = REVIEW_STATUS_APPROVED
      then (if block = Some False then REVIEW_STATUS_REVIEWED else REVIEW_STATUS_APPROVED)
      else declared_review_status exit_state)"

definition closed_review_status :: "string \<Rightarrow> string option" where
  "closed_review_status status =
     (if status = REVIEW_STATUS_REVIEWED then Some REVIEW_STATUS_REVIEWED
      else if status = REVIEW_STATUS_APPROVED then Some REVIEW_STATUS_APPROVED
      else None)"

definition completion_record :: "string \<Rightarrow> int \<Rightarrow> string \<Rightarrow> string \<Rightarrow> review_completed option" where
  "completion_record status generation head_sha patch_id =
     (let record = (\<lambda>verdict. \<lparr>rv_generation = generation, rv_sha = head_sha, rv_patch_id = patch_id, rv_verdict = verdict\<rparr>)
      in if status = REVIEW_STATUS_APPROVED then Some (record REVIEW_COMPLETION_APPROVE)
         else if status = REVIEW_STATUS_REVIEWED then Some (record REVIEW_COMPLETION_CHANGES)
         else None)"

definition record_review_completed :: "store_faults \<Rightarrow> review_run \<Rightarrow> string \<Rightarrow> review_ctl \<Rightarrow> review_ctl" where
  "record_review_completed flt run status c =
     (case closed_review_status status of
        None \<Rightarrow> c
      | Some status' \<Rightarrow>
          (case completion_record status' (rr_generation run) (rr_head_sha run) (rr_head_patch_id run) of
             None \<Rightarrow> c
           | Some completed \<Rightarrow>
               if sf_write flt (watch_key run) then c
               else map_store (record_review_completion (watch_key run) status' completed) c))"

definition record_review_truncated :: "store_faults \<Rightarrow> review_run \<Rightarrow> review_ctl \<Rightarrow> review_ctl" where
  "record_review_truncated flt run c =
     (if sf_write flt (watch_key run) then c else map_store (mark_review_truncated (watch_key run)) c)"

record ev_worker_exit =
  ev_failed :: bool
  ev_err_msg :: string
  ev_declared_handoff :: bool
  ev_last_state :: string
  ev_verdict_approve :: "bool option"

definition OUTCOME_FAILED :: string where "OUTCOME_FAILED = ''failed''"

text \<open>The watch set's half of a review's exit, with the outcome and the reason of the run row.\<close>

definition on_review_exit ::
  "review_env \<Rightarrow> store_faults \<Rightarrow> review_run \<Rightarrow> ev_worker_exit \<Rightarrow> review_ctl \<Rightarrow> (string \<times> string) \<times> review_ctl" where
  "on_review_exit env flt run ev c0 =
     (let c = c0\<lparr>rl_claimed := rl_claimed c0 - {run_key run}, rl_running := (rl_running c0)(run_key run := None)\<rparr>;
          parked = (\<lambda>cause. note_failed_review_attempt env (watch_key run) (rr_head_sha run) cause
                              (record_review_truncated flt run c))
      in if ev_failed ev
         then (let reason = (if ev_err_msg ev = [] then ''worker failed'' else ev_err_msg ev)
               in ((OUTCOME_FAILED, reason), parked reason))
         else if \<not> ev_declared_handoff ev
         then ((OUTCOME_COMPLETED, []),
               parked (if re_draining env then ''wound down at a turn boundary for an armed drain''
                       else ''ended on the max_turns backstop''))
         else if ev_last_state ev = REVIEW_STATE_UNDECLARED
         then ((OUTCOME_COMPLETED, []), parked ''review ended without a recognised verdict'')
         else ((OUTCOME_COMPLETED, []),
               settle_author_round env flt (run_pr run) (rr_head_sha run)
                 (note_review_verdict flt run
                   (record_review_completed flt run (effective_review_status (ev_last_state ev) (ev_verdict_approve ev)) c))))"

section \<open>Head advance\<close>

record review_head_advance =
  ha_armed :: nat
  ha_skipped :: "review_watch_key list"

text \<open>One row of the loop; the rows are the ones read when the handler started.\<close>

definition advance_row ::
  "store_faults \<Rightarrow> pr_coord \<Rightarrow> string \<Rightarrow> string list \<Rightarrow> review_watch_row
    \<Rightarrow> review_head_advance \<times> review_ctl \<Rightarrow> review_head_advance \<times> review_ctl" where
  "advance_row flt pr head_sha unchanged_from row ac =
     (let c = snd ac; k = ww_key row in
      if \<not> row_is row pr then ac
      else if \<not> ww_open row \<or> ww_status row = REVIEW_STATUS_DROPPED then ac
      else if head_sha = ww_last_reviewed_sha row \<or> head_sha = ww_requested_sha row then ac
      else if ww_status row = REVIEW_STATUS_REQUESTED \<and> ww_requested_sha row = [] then ac
      else if live_or_claimed c (key_id k) then ac
      else if (ww_status row = REVIEW_STATUS_REVIEWED \<or> ww_status row = REVIEW_STATUS_APPROVED) \<and>
              ww_last_reviewed_sha row \<in> set unchanged_from
      then (if sf_write flt k then ac
            else ((fst ac)\<lparr>ha_skipped := ha_skipped (fst ac) @ [k]\<rparr>,
                  map_store (mark_review_completed k head_sha (ww_status row)) c))
      else if sf_write flt k then ac
      else ((fst ac)\<lparr>ha_armed := ha_armed (fst ac) + 1\<rparr>,
            map_store (save_review_watch (row\<lparr>ww_status := REVIEW_STATUS_REQUESTED, ww_open := True\<rparr>)) c))"

definition handle_review_head_advanced ::
  "review_env \<Rightarrow> store_faults \<Rightarrow> pr_coord \<Rightarrow> string \<Rightarrow> string list \<Rightarrow> review_ctl \<Rightarrow> review_head_advance \<times> review_ctl" where
  "handle_review_head_advanced env flt pr head_sha unchanged_from c =
     (let none = (\<lparr>ha_armed = 0, ha_skipped = []\<rparr>, c) in
      if \<not> re_ticketless env \<or> head_sha = [] then none
      else if \<not> review_repo_is_configured env (pr_owner pr) (pr_repo pr) then none
      else if sf_load flt then none
      else fold (advance_row flt pr head_sha unchanged_from) (load_live_review_watch (rl_store c)) none)"

section \<open>Leaving the watch set\<close>

definition drop_rows :: "store_faults \<Rightarrow> review_watch_row list \<Rightarrow> review_ctl \<Rightarrow> review_ctl" where
  "drop_rows flt rows c =
     fold (\<lambda>row c. if sf_write flt (ww_key row) then c else map_store (drop_review_watch (ww_key row)) c) rows c"

definition forget_attempts :: "pr_coord \<Rightarrow> review_ctl \<Rightarrow> review_ctl" where
  "forget_attempts pr c = c\<lparr>rl_attempts := (\<lambda>k. if key_is k pr then None else rl_attempts c k)\<rparr>"

definition forget_review_bound :: "store_faults \<Rightarrow> pr_coord \<Rightarrow> review_ctl \<Rightarrow> review_ctl" where
  "forget_review_bound flt pr c = (if sf_bound flt then c else map_store (clear_review_bound (churn_key pr)) c)"

definition retire_review_pr :: "store_faults \<Rightarrow> pr_coord \<Rightarrow> review_ctl \<Rightarrow> review_ctl" where
  "retire_review_pr flt pr c =
     (if sf_load flt then c
      else
        let rows = filter (\<lambda>row. row_is row pr \<and> \<not> (\<not> ww_open row \<and> ww_status row = REVIEW_STATUS_DROPPED))
                     (load_review_watch (rl_store c));
            c1 = forget_review_bound flt pr (forget_attempts pr (drop_rows flt rows c))
        in c1\<lparr>rl_rounds := (rl_rounds c1)(churn_key pr := None), rl_pending := (rl_pending c1)(churn_key pr := None),
              rl_observed := (rl_observed c1)(pr := None)\<rparr>)"

datatype review_control_outcome = Applied nat | ControlDormant | ControlRefused string | ControlFailed

definition check_coords :: "text_ops \<Rightarrow> pr_coord \<Rightarrow> string option" where
  "check_coords tx pr =
     (if trim tx (pr_owner pr) = [] \<or> trim tx (pr_repo pr) = [] then Some ''pull request has no owner/repo''
      else if pr_number pr \<le> 0 then Some ''pull-request number is not positive''
      else None)"

definition handle_review_dismiss ::
  "review_env \<Rightarrow> store_faults \<Rightarrow> pr_coord \<Rightarrow> string option \<Rightarrow> review_ctl \<Rightarrow> review_control_outcome \<times> review_ctl" where
  "handle_review_dismiss env flt pr reviewer c =
     (if \<not> re_ticketless env then (ControlDormant, c)
      else case check_coords (re_text env) pr of
          Some why \<Rightarrow> (ControlRefused why, c)
        | None \<Rightarrow>
            if sf_load flt then (ControlFailed, c)
            else
              let mine = filter (\<lambda>r. row_is r pr \<and> \<not> (ww_status r = REVIEW_STATUS_DROPPED \<and> \<not> ww_open r) \<and>
                           (case reviewer of
                              None \<Rightarrow> True
                            | Some name \<Rightarrow> eq_ignore_ascii_case (wk_reviewer (ww_key r)) (trim (re_text env) name)))
                         (load_review_watch (rl_store c));
                  dropped = length (filter (\<lambda>r. \<not> sf_write flt (ww_key r)) mine);
                  c1 = drop_rows flt mine c
              in case mine of
                  [] \<Rightarrow> (ControlRefused ''no watched review of that pull request'', c)
                | first # _ \<Rightarrow>
                    if dropped > 0 \<and> reviewer = None
                    then (let k = ww_key first;
                              dismissed = \<lparr>pr_owner = wk_owner k, pr_repo = wk_repo k, pr_number = wk_number k\<rparr>;
                              c2 = forget_review_bound flt pr c1
                          in (Applied dropped,
                              c2\<lparr>rl_rounds := (rl_rounds c2)(churn_key pr := None),
                                 rl_pending := (rl_pending c2)(churn_key pr := None),
                                 rl_observed := (rl_observed c2)(dismissed := None)\<rparr>))
                    else (Applied dropped, c1))"

section \<open>The operator's re-run and clear\<close>

text \<open>Which row a named re-run selects, or why it is refused.\<close>

definition rerun_selection ::
  "review_env \<Rightarrow> string \<Rightarrow> review_watch_row list \<Rightarrow> string + review_watch_row" where
  "rerun_selection env name mine =
     (if name \<notin> set (re_roster env) then Inl ''unknown reviewer''
      else if list_ex (\<lambda>r. ww_author r = name) mine then Inl ''the author cannot review their own pull request''
      else if re_unselectable env name then Inl ''reviewer cannot be dispatched for this configuration''
      else case mine of
          [] \<Rightarrow> Inl ''no watched origin''
        | origin # _ \<Rightarrow>
            if ww_author origin = [] \<and> \<not> list_ex (\<lambda>r. wk_reviewer (ww_key r) = name) mine
            then Inl ''cannot add a reviewer when the author is unknown''
            else (let k = (ww_key origin)\<lparr>wk_reviewer := name\<rparr>
                  in Inr (case find (\<lambda>r. ww_key r = k) mine of
                            Some r \<Rightarrow> r
                          | None \<Rightarrow> new_row k (ww_author origin) (ww_introduced_by origin))))"

definition rerun_row :: "store_faults \<Rightarrow> review_watch_row \<Rightarrow> nat \<times> review_ctl \<Rightarrow> nat \<times> review_ctl" where
  "rerun_row flt row ac =
     (if live_or_claimed (snd ac) (key_id (ww_key row)) then ac
      else if ww_status row = REVIEW_STATUS_REQUESTED then (fst ac + 1, snd ac)
      else if sf_write flt (ww_key row) then ac
      else (fst ac + 1,
            map_store (save_review_watch (row\<lparr>ww_status := REVIEW_STATUS_REQUESTED, ww_open := True\<rparr>)) (snd ac)))"

definition rerun_rows :: "review_env \<Rightarrow> store_faults \<Rightarrow> pr_coord \<Rightarrow> review_watch_row list \<Rightarrow> review_ctl
    \<Rightarrow> review_control_outcome \<times> review_ctl" where
  "rerun_rows env flt pr mine c =
     (if sf_bound flt then (ControlFailed, c)
      else let c1 = map_store (allow_review_rerun (pr_display pr)
                 (case rl_observed c pr of None \<Rightarrow> [] | Some h \<Rightarrow> h)) c;
          ac = fold (rerun_row flt) mine (0, forget_attempts pr c1);
          ck = churn_key pr
      in (Applied (fst ac),
          if fst ac = 0 then snd ac
          else case rl_rounds (snd ac) ck of
             None \<Rightarrow> snd ac
           | Some n \<Rightarrow> persist_review_rounds flt ck
                (snd ac\<lparr>rl_rounds := (rl_rounds (snd ac))(ck \<mapsto> n - reviewers_per_round env)\<rparr>)))"

definition handle_review_rerun_named ::
  "review_env \<Rightarrow> store_faults \<Rightarrow> pr_coord \<Rightarrow> string option \<Rightarrow> review_ctl \<Rightarrow> review_control_outcome \<times> review_ctl" where
  "handle_review_rerun_named env flt pr reviewer c =
     (if \<not> re_ticketless env then (ControlDormant, c)
      else case check_coords (re_text env) pr of
          Some why \<Rightarrow> (ControlRefused why, c)
        | None \<Rightarrow>
            if \<not> review_repo_is_configured env (pr_owner pr) (pr_repo pr)
            then (ControlRefused ''no configured project owns the PR's repo'', c)
            else if sf_load flt then (ControlFailed, c)
            else
              let mine = filter (\<lambda>r. row_is r pr) (load_live_review_watch (rl_store c))
              in if mine = [] then (ControlRefused ''no live review of that pull request is watched'', c)
                 else case reviewer of
                     None \<Rightarrow> rerun_rows env flt pr mine c
                   | Some name \<Rightarrow>
                       (case rerun_selection env name mine of
                          Inl why \<Rightarrow> (ControlRefused why, c)
                        | Inr selected \<Rightarrow>
                            if sf_write flt (ww_key selected)
                            then (ControlFailed, map_store (save_review_selection (ww_key selected) ''operator'') c)
                            else rerun_rows env flt pr [selected]
                                   (map_store (\<lambda>st. save_review_watch selected
                                      (save_review_selection (ww_key selected) ''operator'' st)) c)))"

text \<open>The generation half of \<^verbatim>\<open>increment_review_generation\<close> and the handler that calls it.\<close>

definition increment_review_generation :: "string \<Rightarrow> review_store \<Rightarrow> review_store" where
  "increment_review_generation pr st =
     st\<lparr>st_bounds := (st_bounds st)(pr \<mapsto>
        (case st_bounds st pr of
           None \<Rightarrow> \<lparr>bd_dispatches = 0, bd_generation = 1, bd_evidence_rev = 0\<rparr>
         | Some b \<Rightarrow> b\<lparr>bd_generation := bd_generation b + 1, bd_dispatches := 0\<rparr>))\<rparr>"

text \<open>
  The operator's clear. \<open>cleared_decision\<close> is whether the adjudication ledger held a decision about the
  pull request.
\<close>

definition handle_review_clear ::
  "review_env \<Rightarrow> store_faults \<Rightarrow> bool \<Rightarrow> pr_coord \<Rightarrow> review_ctl \<Rightarrow> review_control_outcome \<times> review_ctl" where
  "handle_review_clear env flt cleared_decision pr c =
     (if \<not> re_ticketless env then (ControlDormant, c)
      else case check_coords (re_text env) pr of
          Some why \<Rightarrow> (ControlRefused why, c)
        | None \<Rightarrow>
            let ck = churn_key pr;
                c1 = forget_attempts pr (c\<lparr>rl_rounds := (rl_rounds c)(ck := None), rl_pending := (rl_pending c)(ck := None)\<rparr>)
            in if rl_rounds c ck = None \<and> \<not> cleared_decision \<and> \<not> review_pr_is_watched flt pr c
               then (ControlRefused ''no review budget to clear for that pull request'', c1)
               else if sf_bound flt then (ControlFailed, c1)
               else (Applied 1, map_store (increment_review_generation ck) c1))"

section \<open>The watcher's code reviewer\<close>

text \<open>
  Adding a code reviewer to a pull request whose rows have none: \<open>required\<close> is \<open>review_requires_code\<close>,
  \<open>pick\<close> the first code reviewer \<open>rank_reviewers\<close> names.
\<close>

definition ensure_code_review ::
  "review_env \<Rightarrow> store_faults \<Rightarrow> bool \<Rightarrow> (string \<Rightarrow> string option) \<Rightarrow> pr_coord \<Rightarrow> review_watch_row list \<Rightarrow> review_ctl
    \<Rightarrow> review_watch_row list \<times> review_ctl" where
  "ensure_code_review env flt required pick pr rows c =
     (let mine = filter (\<lambda>r. row_is r pr) rows in
      if \<not> review_repo_is_configured env (pr_owner pr) (pr_repo pr) \<or> \<not> required \<or>
         list_ex (\<lambda>r. re_code_reviewer env (wk_reviewer (ww_key r))) mine
      then (rows, c)
      else if \<not> list_ex (\<lambda>r. wk_reviewer (ww_key r) \<in> set (re_roster env)) mine then (rows, c)
      else case mine of
          [] \<Rightarrow> (rows, c)
        | origin # _ \<Rightarrow>
            if ww_author origin = [] then (rows, c)
            else case pick (ww_author origin) of
                None \<Rightarrow> (rows, c)
              | Some name \<Rightarrow>
                  let row = origin\<lparr>ww_key := (ww_key origin)\<lparr>wk_reviewer := name\<rparr>, ww_requested_sha := [],
                                   ww_last_reviewed_sha := [], ww_status := REVIEW_STATUS_REQUESTED\<rparr>
                  in if sf_write flt (ww_key row) then (rows, c)
                     else (rows @ [row],
                           map_store (\<lambda>st. record_review_selection (ww_key row) ''profile rule'' (save_review_watch row st)) c))"

end
