(* ===== verification/Review_Trace.thy ===== *)
theory Review_Trace
  imports Review_Loop
begin

text \<open>
  Every history of the review loop. \<open>review_trace\<close> interleaves the handlers in any order, each under
  its own environment (a hot reload may change the configuration between two steps) and with any
  store failures; \<open>review_ghost\<close> remembers which heads were dispatched to which reviewer, which
  reviews declared an approval, and which head moves were proven to carry the same change.

  The invariant of the watch rows is proved once against the interface \<open>watch_invariant\<close>: any row
  predicate that holds of every row without an approval, and that depends only on the key, the status
  and the reviewed head, survives every handler except the two that write an approval.
\<close>

section \<open>Row predicates\<close>

definition good :: "(watch_entry \<Rightarrow> bool) \<Rightarrow> review_ctl \<Rightarrow> bool" where
  "good P c \<longleftrightarrow> keys_distinct (rl_store c) \<and> all_rows P (rl_store c)"

lemma map_store_simps [simp]:
  "rl_store (map_store f c) = f (rl_store c)" "rl_running (map_store f c) = rl_running c"
  "rl_claimed (map_store f c) = rl_claimed c" "rl_rounds (map_store f c) = rl_rounds c"
  "rl_pending (map_store f c) = rl_pending c" "rl_observed (map_store f c) = rl_observed c"
  "rl_attempts (map_store f c) = rl_attempts c"
  by (simp_all add: map_store_def)

lemma good_update:
  assumes "good P c" "\<And>e. entry_key (f e) = entry_key e"
    and "\<And>e. e \<in> set (st_watch (rl_store c)) \<Longrightarrow> P e \<Longrightarrow> entry_key e = k \<Longrightarrow> P (f e)"
  shows "good P (map_store (update_watch k f) c)"
  using assms by (simp add: good_def keys_distinct_update all_rows_update)

lemma good_fold:
  assumes step: "\<And>x s. x \<in> set xs \<Longrightarrow> good P (g s) \<Longrightarrow> good P (g (f x s))"
  shows "good P (g s) \<Longrightarrow> good P (g (fold f xs s))"
  using step by (induction xs arbitrary: s) simp_all

lemma fold_keeps:
  assumes "\<And>x s. g (f x s) = g s"
  shows "g (fold f xs s) = g s"
  using assms by (induction xs arbitrary: s) simp_all

lemma find_in_set: "find p xs = Some x \<Longrightarrow> x \<in> set xs"
  by (induction xs) (auto split: if_splits)

locale watch_invariant =
  fixes P :: "watch_entry \<Rightarrow> bool"
  assumes idle: "ww_status (we_row e) \<in> review_statuses - {REVIEW_STATUS_APPROVED} \<Longrightarrow> P e"
    and same: "P e \<Longrightarrow> entry_key e' = entry_key e \<Longrightarrow> ww_status (we_row e') = ww_status (we_row e) \<Longrightarrow>
      ww_last_reviewed_sha (we_row e') = ww_last_reviewed_sha (we_row e) \<Longrightarrow> P e'"
begin

lemma idle_status:
  "ww_status (we_row e) = REVIEW_STATUS_REQUESTED \<or> ww_status (we_row e) = REVIEW_STATUS_IN_FLIGHT \<or>
   ww_status (we_row e) = REVIEW_STATUS_TRUNCATED \<or> ww_status (we_row e) = REVIEW_STATUS_DROPPED \<or>
   ww_status (we_row e) = REVIEW_STATUS_REVIEWED \<Longrightarrow> P e"
  by (rule idle) (auto simp: review_statuses_def review_status_defs)

lemma save_requested:
  assumes "good P c" "ww_status w = REVIEW_STATUS_REQUESTED"
  shows "good P (map_store (save_review_watch w) c)"
  using assms unfolding good_def map_store_simps
  by (auto intro!: keys_distinct_save all_rows_save idle_status)

lemma save_same:
  assumes "good P c" "w \<in> we_row ` set (st_watch (rl_store c))"
  shows "good P (map_store (save_review_watch w) c)"
proof -
  from assms(2) obtain e where e: "e \<in> set (st_watch (rl_store c))" "we_row e = w" by auto
  have in_table: "ww_key w \<in> entry_key ` set (st_watch (rl_store c))"
    using e by (auto simp: entry_key_def)
  have only: "x = e" if "x \<in> set (st_watch (rl_store c))" "entry_key x = ww_key w" for x
    using that e assms(1) by (auto simp: good_def keys_distinct_def distinct_map entry_key_def inj_on_def)
  have "map_store (save_review_watch w) c = map_store (update_watch (ww_key w)
      (\<lambda>e. e\<lparr>we_row := (we_row e)\<lparr>ww_author := ww_author w, ww_introduced_by := ww_introduced_by w,
                              ww_status := ww_status w, ww_open := ww_open w\<rparr>\<rparr>)) c"
    using in_table by (simp add: save_review_watch_def map_store_def)
  moreover have "good P \<dots>"
    using assms(1) by (rule good_update) (simp add: entry_key_def, rule same, assumption,
        use only e in \<open>auto simp: entry_key_def\<close>)
  ultimately show ?thesis by simp
qed

lemma mark_requested: "good P c \<Longrightarrow> good P (map_store (mark_review_requested k h) c)"
  using good_update [of P c "\<lambda>e. e\<lparr>we_row := (we_row e)\<lparr>ww_requested_sha := h, ww_status := REVIEW_STATUS_IN_FLIGHT\<rparr>\<rparr>" k]
  by (simp add: mark_review_requested_def good_def keys_distinct_def all_rows_def entry_key_def idle_status)

lemma mark_truncated: "good P c \<Longrightarrow> good P (map_store (mark_review_truncated k) c)"
  unfolding mark_review_truncated_def by (rule good_update) (simp_all add: entry_key_def idle_status)

lemma drop_watch: "good P c \<Longrightarrow> good P (map_store (drop_review_watch k) c)"
  unfolding drop_review_watch_def by (rule good_update) (simp_all add: entry_key_def idle_status)

lemma dispute:
  assumes "good P c"
  shows "good P (map_store (\<lambda>_. snd (request_review_dispute held k head mode (rl_store c))) c)"
proof -
  have "good P (map_store (update_watch k (\<lambda>e. e\<lparr>we_row := (we_row e)\<lparr>ww_status := REVIEW_STATUS_REQUESTED\<rparr>\<rparr>)) c)"
    using assms by (rule good_update) (simp_all add: entry_key_def idle_status)
  with assms show ?thesis
    by (simp add: good_def keys_distinct_def all_rows_def request_review_dispute_watch)
qed

lemma selection_watch [simp]: "st_watch (record_review_selection k r st) = st_watch st"
  by (simp add: record_review_selection_def)

lemma selection: "good P c \<Longrightarrow> good P (map_store (record_review_selection k r) c)"
  by (simp add: good_def keys_distinct_def all_rows_def record_review_selection_def)

subsection \<open>Handlers\<close>

lemma persist: "good P c \<Longrightarrow> good P (persist_review_rounds flt k c)"
  by (simp add: persist_review_rounds_def good_def keys_distinct_def all_rows_def)

lemma introduce_row_good:
  assumes "good P (snd wc)"
  shows "good P (snd (introduce_row env flt ip ob gate r wc))"
proof -
  define k where "k = \<lparr>wk_owner = pr_owner (ip_pr ip), wk_repo = pr_repo (ip_pr ip),
    wk_number = pr_number (ip_pr ip), wk_reviewer = r\<rparr>"
  have "good P (snd (dispute_row env flt ip k row wc))" for row
    using assms by (simp add: dispute_row_def Let_def dispute split: option.split)
  moreover have "good P (map_store (save_review_watch (new_row k a i)) (snd wc))" for a i
    using assms by (rule save_requested) (simp add: new_row_def)
  then have "good P (map_store (save_review_watch (new_row k a i)) (snd wc))"
    "good P (map_store (\<lambda>st. record_review_selection k s (save_review_watch (new_row k a i) st)) (snd wc))" for a i s
    by (simp_all add: good_def keys_distinct_def all_rows_def)
  ultimately show ?thesis
    using assms unfolding introduce_row_def Let_def k_def [symmetric]
    by (simp split: option.split)
qed

lemma introduce_good:
  assumes "good P c"
  shows "good P (snd (handle_review_introduce env flt ip c))"
proof -
  have "good P (snd (fold (introduce_row env flt ip ob gate) rs (0, c)))" for ob gate rs
    by (rule good_fold) (simp_all add: introduce_row_good assms)
  then show ?thesis
    using assms by (simp add: handle_review_introduce_def Let_def)
      (simp add: good_def keys_distinct_def all_rows_def)
qed

lemma dispatch_writes_good: "good P c \<Longrightarrow> good P (dispatch_writes flt run c)"
  by (simp add: dispatch_writes_def Let_def mark_requested save_requested new_row_def)

lemma await_exit_good: "good P (await_exit k c) = good P c"
  by (simp add: await_exit_def good_def split: option.split)

lemma dispatch_good:
  assumes "good P c"
  shows "good P (snd (finish_review_dispatch env flt acc run c))"
proof -
  have "good P (establish_generation flt run c)"
    using assms by (simp add: establish_generation_def persist)
  then have "good P (await_exit k (dispatch_writes flt run (establish_generation flt run c)))" for k
    by (simp add: await_exit_good dispatch_writes_good)
  with assms show ?thesis
    by (simp add: finish_review_dispatch_def Let_def) (simp add: good_def)
qed

lemma drop_rows_good: "good P c \<Longrightarrow> good P (drop_rows flt rows c)"
  unfolding drop_rows_def by (rule good_fold [where g = "\<lambda>c. c"]) (simp_all add: drop_watch)

lemma forget_good: "good P (forget_attempts pr c) = good P c" "good P (forget_review_bound flt pr c) = good P c"
  by (simp_all add: forget_attempts_def forget_review_bound_def good_def keys_distinct_def all_rows_def)

lemma retire_good: "good P c \<Longrightarrow> good P (retire_review_pr flt pr c)"
  using drop_rows_good [of c flt] forget_good
  by (simp add: retire_review_pr_def Let_def) (simp add: good_def)

lemma dismiss_good: "good P c \<Longrightarrow> good P (snd (handle_review_dismiss env flt pr reviewer c))"
proof -
  assume c: "good P c"
  have "good P (c1\<lparr>rl_rounds := a, rl_pending := b, rl_observed := d\<rparr>) = good P c1" for c1 a b d
    by (simp add: good_def)
  with c show ?thesis
    by (simp add: handle_review_dismiss_def Let_def drop_rows_good forget_good split: option.split list.split)
qed

lemma rerun_row_good: "good P (snd ac) \<Longrightarrow> good P (snd (rerun_row flt row ac))"
  by (simp add: rerun_row_def save_requested)

lemma rerun_rows_good:
  assumes "good P c"
  shows "good P (snd (rerun_rows env flt pr mine c))"
proof -
  have "good P (map_store (allow_review_rerun a b) c)" for a b
    using assms by (simp add: good_def keys_distinct_def all_rows_def)
  then have *: "good P (snd (fold (rerun_row flt) mine (0, forget_attempts pr (map_store (allow_review_rerun a b) c))))" for a b
    by (intro good_fold [where g = snd]) (simp_all add: rerun_row_good forget_good)
  have "good P (persist_review_rounds flt k (c1\<lparr>rl_rounds := x\<rparr>))" if "good P c1" for c1 k x
    using that by (intro persist) (simp add: good_def)
  with assms * show ?thesis
    by (simp add: rerun_rows_def Let_def split: option.split)
qed

lemma rerun_selection_source:
  "rerun_selection env name mine = Inr w \<Longrightarrow> w \<in> set mine \<or> ww_status w = REVIEW_STATUS_REQUESTED"
  by (auto simp: rerun_selection_def new_row_def Let_def dest: find_in_set
      split: if_splits list.splits option.splits)

lemma rerun_good:
  assumes "good P c"
  shows "good P (snd (handle_review_rerun_named env flt pr reviewer c))"
proof -
  let ?mine = "filter (\<lambda>r. row_is r pr) (load_live_review_watch (rl_store c))"
  have sel: "good P (map_store (save_review_selection k r) c)" for k r
    using assms by (simp add: good_def keys_distinct_def all_rows_def)
  have "good P (map_store (\<lambda>st. save_review_watch w (save_review_selection k r st)) c)"
    if "rerun_selection env name ?mine = Inr w" for name w k r
  proof -
    have "w \<in> we_row ` set (st_watch (rl_store c)) \<or> ww_status w = REVIEW_STATUS_REQUESTED"
      using rerun_selection_source [OF that] by (auto simp: set_load_live)
    then have "good P (map_store (save_review_watch w) (map_store (save_review_selection k r) c))"
      using sel [of k r] by (auto intro: save_requested save_same)
    then show ?thesis by (simp add: map_store_def)
  qed
  with assms sel show ?thesis
    by (simp add: handle_review_rerun_named_def Let_def rerun_rows_good split: option.split sum.split)
qed

lemma clear_good:
  assumes "good P c"
  shows "good P (snd (handle_review_clear env flt dec pr c))"
proof -
  have "good P (forget_attempts pr (c\<lparr>rl_rounds := a, rl_pending := b\<rparr>))" for a b
    using assms by (simp add: forget_good) (simp add: good_def)
  then show ?thesis
    using assms by (simp add: handle_review_clear_def Let_def split: option.split)
      (simp add: good_def keys_distinct_def all_rows_def increment_review_generation_def)
qed

lemma code_review_good:
  assumes "good P c"
  shows "good P (snd (ensure_code_review env flt required pick pr rows c))"
proof -
  have "good P (map_store (\<lambda>st. record_review_selection k r (save_review_watch w st)) c)"
    if "ww_status w = REVIEW_STATUS_REQUESTED" for w k r
    using save_requested [OF assms that] by (simp add: good_def keys_distinct_def all_rows_def)
  with assms show ?thesis
    by (simp add: ensure_code_review_def Let_def split: list.split option.split)
qed

end
section \<open>Histories\<close>

text \<open>
  What a history has established: the heads dispatched to a reviewer, the heads a reviewer declared an
  approval of, and the head moves of a pull request proven to leave its change the same.
\<close>

record review_ghost =
  gh_dispatched :: "(review_watch_key \<times> string) set"
  gh_approved :: "(review_watch_key \<times> string) set"
  gh_carried :: "(pr_coord \<times> string \<times> string) set"

definition ghost_empty :: review_ghost where
  "ghost_empty = \<lparr>gh_dispatched = {}, gh_approved = {}, gh_carried = {}\<rparr>"

text \<open>A declared approval: the run did not fail, handed off, said so, and its block does not object.\<close>

definition declares_approval :: "ev_worker_exit \<Rightarrow> bool" where
  "declares_approval ev \<longleftrightarrow>
     \<not> ev_failed ev \<and> ev_declared_handoff ev \<and> ev_last_state ev = ''review:approved'' \<and>
     ev_verdict_approve ev \<noteq> Some False"

definition carry :: "review_ghost \<Rightarrow> review_watch_key \<Rightarrow> (string \<times> string) set" where
  "carry g k = {(old, new). \<exists>pr. (pr, old, new) \<in> gh_carried g \<and> key_is k pr}"

inductive review_trace :: "review_ctl \<Rightarrow> review_ghost \<Rightarrow> bool" where
  start: "review_trace ctl_empty ghost_empty"
| introduce: "review_trace c g \<Longrightarrow> review_trace (snd (handle_review_introduce env flt ip c)) g"
| dispatch: "review_trace c g \<Longrightarrow>
    review_trace (snd (finish_review_dispatch env flt accepted run c))
      (g\<lparr>gh_dispatched := insert (watch_key run, rr_head_sha run) (gh_dispatched g)\<rparr>)"
| finish: "review_trace c g \<Longrightarrow> rl_running c i = Some run \<Longrightarrow>
    review_trace (snd (on_review_exit env flt run ev c))
      (g\<lparr>gh_approved := gh_approved g \<union> (if declares_approval ev then {(watch_key run, rr_head_sha run)} else {})\<rparr>)"
| advance: "review_trace c g \<Longrightarrow>
    review_trace (snd (handle_review_head_advanced env flt pr head unchanged c))
      (g\<lparr>gh_carried := gh_carried g \<union> {(pr, old, head) |old. old \<in> set unchanged}\<rparr>)"
| author: "review_trace c g \<Longrightarrow> review_trace (note_author_round env flt iss c) g"
| retire: "review_trace c g \<Longrightarrow> review_trace (retire_review_pr flt pr c) g"
| dismiss: "review_trace c g \<Longrightarrow> review_trace (snd (handle_review_dismiss env flt pr reviewer c)) g"
| rerun: "review_trace c g \<Longrightarrow> review_trace (snd (handle_review_rerun_named env flt pr reviewer c)) g"
| clear: "review_trace c g \<Longrightarrow> review_trace (snd (handle_review_clear env flt decided pr c)) g"
| code: "review_trace c g \<Longrightarrow> review_trace (snd (ensure_code_review env flt required pick pr rows c)) g"
| reconcile: "review_trace c g \<Longrightarrow> review_trace (drop_rows flt rows c) g"
| other: "review_trace c g \<Longrightarrow> rl_running c' \<subseteq>\<^sub>m rl_running c \<Longrightarrow> rl_store c' = rl_store c \<Longrightarrow> review_trace c' g"

text \<open>
  The last rule covers what the rest of the daemon does to the memory the handlers share: claims,
  runs that disappear, a restart, the observed heads.
\<close>

definition row_ok :: "review_ghost \<Rightarrow> watch_entry \<Rightarrow> bool" where
  "row_ok g e \<longleftrightarrow>
     ww_status (we_row e) \<in> review_statuses \<and>
     (ww_status (we_row e) = REVIEW_STATUS_APPROVED \<longrightarrow>
       (\<exists>h. (entry_key e, h) \<in> gh_approved g \<and> (h, ww_last_reviewed_sha (we_row e)) \<in> (carry g (entry_key e))\<^sup>*))"

definition runs_ok :: "review_ghost \<Rightarrow> review_ctl \<Rightarrow> bool" where
  "runs_ok g c \<longleftrightarrow>
     (\<forall>run \<in> ran (rl_running c). (watch_key run, rr_head_sha run) \<in> gh_dispatched g) \<and>
     gh_approved g \<subseteq> gh_dispatched g"

interpretation rok: watch_invariant "row_ok g" for g
proof
  show "row_ok g e" if "ww_status (we_row e) \<in> review_statuses - {REVIEW_STATUS_APPROVED}" for e
    using that by (simp add: row_ok_def)
  show "row_ok g e'" if "row_ok g e" "entry_key e' = entry_key e" "ww_status (we_row e') = ww_status (we_row e)"
    "ww_last_reviewed_sha (we_row e') = ww_last_reviewed_sha (we_row e)" for e e'
    using that by (simp add: row_ok_def)
qed

lemma carry_mono: "gh_carried g \<subseteq> gh_carried g' \<Longrightarrow> carry g k \<subseteq> carry g' k"
  by (auto simp: carry_def)

lemma row_ok_mono:
  assumes "row_ok g e" "gh_approved g \<subseteq> gh_approved g'" "gh_carried g \<subseteq> gh_carried g'"
  shows "row_ok g' e"
  using assms rtrancl_mono [OF carry_mono [OF assms(3)], of "entry_key e"] by (fastforce simp: row_ok_def)

lemma good_mono:
  "good (row_ok g) c \<Longrightarrow> gh_approved g \<subseteq> gh_approved g' \<Longrightarrow> gh_carried g \<subseteq> gh_carried g' \<Longrightarrow> good (row_ok g') c"
  by (auto simp: good_def all_rows_def intro: row_ok_mono)

subsection \<open>The two writers of an approval\<close>

lemma completed_good:
  assumes "good (row_ok g) c" "status = REVIEW_STATUS_APPROVED \<Longrightarrow> (watch_key run, rr_head_sha run) \<in> gh_approved g"
  shows "good (row_ok g) (record_review_completed flt run status c)"
proof (cases "closed_review_status status")
  case (Some s)
  then have s: "s = status" "status = REVIEW_STATUS_REVIEWED \<or> status = REVIEW_STATUS_APPROVED"
    by (auto simp: closed_review_status_def split: if_splits)
  then obtain d where d: "completion_record s (rr_generation run) (rr_head_sha run) (rr_head_patch_id run) = Some d"
    "rv_sha d = rr_head_sha run"
    by (auto simp: completion_record_def Let_def review_status_defs)
  have "good (row_ok g) (map_store (update_watch (watch_key run)
      (\<lambda>e. e\<lparr>we_row := (we_row e)\<lparr>ww_last_reviewed_sha := rv_sha d, ww_status := s\<rparr>, we_completed := d\<rparr>)) c)"
    using assms(1)
  proof (rule good_update)
    show "row_ok g (e\<lparr>we_row := (we_row e)\<lparr>ww_last_reviewed_sha := rv_sha d, ww_status := s\<rparr>, we_completed := d\<rparr>)"
      if "entry_key e = watch_key run" for e
      using that s d assms(2) by (auto simp: row_ok_def review_statuses_def entry_key_def)
  qed (simp add: entry_key_def)
  then show ?thesis
    using assms(1) Some d
    by (simp add: record_review_completed_def good_def keys_distinct_def all_rows_def record_review_completion_watch)
qed (use assms in \<open>simp add: record_review_completed_def\<close>)

lemma effective_approved:
  "effective_review_status s b = REVIEW_STATUS_APPROVED \<longleftrightarrow> s = ''review:approved'' \<and> b \<noteq> Some False"
  by (auto simp: effective_review_status_def declared_review_status_def review_status_defs REVIEW_STATE_APPROVED_def)

lemma rounds_store [simp]:
  "st_watch (rl_store (persist_review_rounds flt k c)) = st_watch (rl_store c)"
  "st_watch (rl_store (note_review_verdict flt run c)) = st_watch (rl_store c)"
  "st_watch (rl_store (settle_author_round env flt pr h c)) = st_watch (rl_store c)"
  "rl_store (note_failed_review_attempt env wk h r c) = rl_store c"
  by (simp_all add: persist_review_rounds_def note_review_verdict_def settle_author_round_def
      note_failed_review_attempt_def Let_def split: option.split)

lemma exit_good:
  assumes "good (row_ok g) c0" "declares_approval ev \<Longrightarrow> (watch_key run, rr_head_sha run) \<in> gh_approved g"
  shows "good (row_ok g) (snd (on_review_exit env flt run ev c0))"
proof -
  let ?c = "c0\<lparr>rl_claimed := rl_claimed c0 - {run_key run}, rl_running := (rl_running c0)(run_key run := None)\<rparr>"
  have c: "good (row_ok g) ?c" using assms(1) by (simp add: good_def)
  then have "good (row_ok g) (record_review_truncated flt run ?c)"
    by (simp add: record_review_truncated_def rok.mark_truncated)
  then have parked: "good (row_ok g) (note_failed_review_attempt env k h r (record_review_truncated flt run ?c))" for k h r
    by (simp add: good_def)
  have "good (row_ok g) (record_review_completed flt run (effective_review_status (ev_last_state ev) (ev_verdict_approve ev)) ?c)"
    if "\<not> ev_failed ev" "ev_declared_handoff ev"
    using c by (rule completed_good) (use that assms(2) in \<open>simp add: effective_approved declares_approval_def\<close>)
  then have "good (row_ok g) (settle_author_round env flt pr h (note_review_verdict flt run
      (record_review_completed flt run (effective_review_status (ev_last_state ev) (ev_verdict_approve ev)) ?c)))"
    if "\<not> ev_failed ev" "ev_declared_handoff ev" for pr h
    using that by (simp add: good_def keys_distinct_def all_rows_def)
  with parked show ?thesis
    by (simp add: on_review_exit_def Let_def)
qed

lemma advance_row_good:
  assumes "good (row_ok g) (snd ac)" "row_ok g \<lparr>we_row = row, we_completed = d\<rparr>"
    and carried: "ww_last_reviewed_sha row \<in> set unchanged \<Longrightarrow> (pr, ww_last_reviewed_sha row, head) \<in> gh_carried g"
  shows "good (row_ok g) (snd (advance_row flt pr head unchanged row ac))"
proof -
  have "good (row_ok g) (map_store (mark_review_completed (ww_key row) head (ww_status row)) (snd ac))"
    if "row_is row pr" "ww_last_reviewed_sha row \<in> set unchanged"
    unfolding mark_review_completed_def using assms(1)
  proof (rule good_update)
    fix e assume e: "entry_key e = ww_key row"
    have "(ww_last_reviewed_sha row, head) \<in> carry g (ww_key row)"
      using that carried by (auto simp: carry_def row_is_def)
    then show "row_ok g (e\<lparr>we_row := (we_row e)\<lparr>ww_last_reviewed_sha := head, ww_status := ww_status row\<rparr>\<rparr>)"
      using assms(2) e by (auto simp: row_ok_def entry_key_def intro: rtrancl_into_rtrancl)
  qed (simp add: entry_key_def)
  moreover have "good (row_ok g) (map_store (save_review_watch (row\<lparr>ww_status := REVIEW_STATUS_REQUESTED, ww_open := True\<rparr>)) (snd ac))"
    using assms(1) by (rule rok.save_requested) simp
  ultimately show ?thesis
    using assms(1) by (simp add: advance_row_def Let_def)
qed

lemma advance_good:
  assumes "good (row_ok g) c" "\<And>old. old \<in> set unchanged \<Longrightarrow> (pr, old, head) \<in> gh_carried g"
  shows "good (row_ok g) (snd (handle_review_head_advanced env flt pr head unchanged c))"
proof -
  have rows: "row_ok g \<lparr>we_row = row, we_completed = no_completion\<rparr>"
    if row: "row \<in> set (load_live_review_watch (rl_store c))" for row
  proof -
    obtain e where "e \<in> set (st_watch (rl_store c))" "we_row e = row"
      using row by (auto simp: set_load_live)
    then show ?thesis
      using assms(1) by (auto simp: good_def all_rows_def row_ok_def entry_key_def)
  qed
  have "good (row_ok g) (snd (fold (advance_row flt pr head unchanged) (load_live_review_watch (rl_store c)) (a, c)))" for a
    by (rule good_fold) (auto intro!: advance_row_good rows assms simp: assms)
  then show ?thesis
    using assms(1) by (simp add: handle_review_head_advanced_def Let_def)
qed

subsection \<open>Runs\<close>

lemma persist_running [simp]: "rl_running (persist_review_rounds flt k c) = rl_running c"
  by (simp add: persist_review_rounds_def)

lemma introduce_running [simp]: "rl_running (snd (handle_review_introduce env flt ip c)) = rl_running c"
proof -
  have "rl_running (snd (introduce_row env flt ip ob gate r wc)) = rl_running (snd wc)" for ob gate r wc
    by (simp add: introduce_row_def dispute_row_def Let_def split: option.split)
  then have "rl_running (snd (fold (introduce_row env flt ip ob gate) rs wc)) = rl_running (snd wc)" for ob gate rs wc
    by (rule fold_keeps [where g = "\<lambda>wc. rl_running (snd wc)"])
  then show ?thesis by (simp add: handle_review_introduce_def Let_def)
qed

lemma advance_running [simp]:
  "rl_running (snd (handle_review_head_advanced env flt pr head unchanged c)) = rl_running c"
proof -
  have "rl_running (snd (advance_row flt pr head unchanged row ac)) = rl_running (snd ac)" for row ac
    by (simp add: advance_row_def Let_def)
  then have "rl_running (snd (fold (advance_row flt pr head unchanged) rows ac)) = rl_running (snd ac)" for rows ac
    by (rule fold_keeps [where g = "\<lambda>ac. rl_running (snd ac)"])
  then show ?thesis by (simp add: handle_review_head_advanced_def Let_def)
qed

lemma drop_rows_running [simp]: "rl_running (drop_rows flt rows c) = rl_running c"
  unfolding drop_rows_def by (rule fold_keeps) simp

lemma rerun_rows_running [simp]: "rl_running (snd (rerun_rows env flt pr mine c)) = rl_running c"
proof -
  have "rl_running (snd (rerun_row flt row ac)) = rl_running (snd ac)" for row ac
    by (simp add: rerun_row_def)
  then have "rl_running (snd (fold (rerun_row flt) rows ac)) = rl_running (snd ac)" for rows ac
    by (rule fold_keeps [where g = "\<lambda>ac. rl_running (snd ac)"])
  then show ?thesis by (simp add: rerun_rows_def Let_def forget_attempts_def split: option.split)
qed

lemma author_running [simp]:
  "rl_running (note_author_round env flt iss c) = rl_running c"
  "rl_store (note_author_round env flt iss c) = rl_store c"
proof -
  have "rl_running (note_round rows pr c) = rl_running c" "rl_store (note_round rows pr c) = rl_store c" for rows pr c
    by (simp_all add: note_round_def Let_def)
  then have "rl_running (fold (note_round rows) prs c) = rl_running c"
    "rl_store (fold (note_round rows) prs c) = rl_store c" for rows prs
    by (simp_all add: fold_keeps)
  then show "rl_running (note_author_round env flt iss c) = rl_running c"
    "rl_store (note_author_round env flt iss c) = rl_store c"
    by (simp_all add: note_author_round_def)
qed

lemma handlers_running [simp]:
  "rl_running (retire_review_pr flt pr c) = rl_running c"
  "rl_running (snd (handle_review_dismiss env flt pr reviewer c)) = rl_running c"
  "rl_running (snd (handle_review_rerun_named env flt pr reviewer c)) = rl_running c"
  "rl_running (snd (handle_review_clear env flt decided pr c)) = rl_running c"
  "rl_running (snd (ensure_code_review env flt required pick pr rows c)) = rl_running c"
  by (simp_all add: retire_review_pr_def handle_review_dismiss_def handle_review_rerun_named_def
      handle_review_clear_def ensure_code_review_def forget_attempts_def forget_review_bound_def Let_def
      split: option.split list.split sum.split)

lemma dispatch_running:
  "ran (rl_running (snd (finish_review_dispatch env flt accepted run c))) \<subseteq>
     ran (rl_running c) \<union> {run' . watch_key run' = watch_key run \<and> rr_head_sha run' = rr_head_sha run}"
proof -
  have "rl_running (await_exit k (dispatch_writes flt run (establish_generation flt run c))) = rl_running c" for k
    by (simp add: await_exit_def dispatch_writes_def establish_generation_def Let_def split: option.split)
  then show ?thesis
    by (auto simp: finish_review_dispatch_def Let_def watch_key_def ran_def split: if_splits)
qed

lemma exit_running:
  "ran (rl_running (snd (on_review_exit env flt run ev c))) \<subseteq> ran (rl_running c)"
proof -
  have "rl_running (settle_author_round env flt pr h c) = rl_running c"
    "rl_running (note_review_verdict flt run c) = rl_running c"
    "rl_running (record_review_completed flt run st c) = rl_running c"
    "rl_running (record_review_truncated flt run c) = rl_running c"
    "rl_running (note_failed_review_attempt env k h r c) = rl_running c" for pr h st k r c
    by (simp_all add: settle_author_round_def note_review_verdict_def record_review_completed_def
        record_review_truncated_def note_failed_review_attempt_def Let_def split: option.split)
  then show ?thesis
    by (auto simp: on_review_exit_def Let_def ran_def split: if_splits)
qed

lemma review_trace_inv: "review_trace c g \<Longrightarrow> good (row_ok g) c \<and> runs_ok g c"
proof (induction rule: review_trace.induct)
  case start
  then show ?case
    by (simp add: good_def keys_distinct_def all_rows_def runs_ok_def ctl_empty_def store_empty_def ghost_empty_def)
next
  case (dispatch c g env flt accepted run)
  let ?g = "g\<lparr>gh_dispatched := insert (watch_key run, rr_head_sha run) (gh_dispatched g)\<rparr>"
  have "good (row_ok ?g) c" using dispatch good_mono [of g c ?g] by simp
  then show ?case
    using dispatch dispatch_running [of env flt accepted run c] by (auto simp: rok.dispatch_good runs_ok_def)
next
  case (finish c g i run env flt ev)
  let ?g = "g\<lparr>gh_approved := gh_approved g \<union> (if declares_approval ev then {(watch_key run, rr_head_sha run)} else {})\<rparr>"
  have "good (row_ok ?g) c" using finish good_mono [of g c ?g] by simp
  then have "good (row_ok ?g) (snd (on_review_exit env flt run ev c))" by (rule exit_good) simp
  then show ?case
    using finish exit_running [of env flt run ev c] by (auto simp: runs_ok_def ran_def)
next
  case (advance c g env flt pr head unchanged)
  let ?g = "g\<lparr>gh_carried := gh_carried g \<union> {(pr, old, head) |old. old \<in> set unchanged}\<rparr>"
  have "good (row_ok ?g) c" using advance good_mono [of g c ?g] by simp
  then have "good (row_ok ?g) (snd (handle_review_head_advanced env flt pr head unchanged c))"
    by (rule advance_good) simp
  then show ?case using advance by (simp add: runs_ok_def)
next
  case (author c g env flt iss)
  then show ?case by (simp add: good_def runs_ok_def)
next
  case (other c g c')
  then have "ran (rl_running c') \<subseteq> ran (rl_running c)"
    by (auto simp: ran_def map_le_def dom_def) metis
  with other show ?case by (auto simp: good_def runs_ok_def)
qed (simp_all add: runs_ok_def rok.introduce_good rok.retire_good rok.dismiss_good rok.rerun_good
    rok.clear_good rok.code_review_good rok.drop_rows_good)

lemma approved_row_earned:
  assumes "review_trace c g" "e \<in> set (st_watch (rl_store c))" "ww_status (we_row e) = REVIEW_STATUS_APPROVED"
  shows "\<exists>h. (entry_key e, h) \<in> gh_approved g \<inter> gh_dispatched g \<and>
    (h, ww_last_reviewed_sha (we_row e)) \<in> (carry g (entry_key e))\<^sup>*"
proof -
  have "row_ok g e" "gh_approved g \<subseteq> gh_dispatched g"
    using review_trace_inv [OF assms(1)] assms(2) by (simp_all add: good_def all_rows_def runs_ok_def)
  with assms(3) show ?thesis by (auto simp: row_ok_def)
qed

section \<open>A concrete history\<close>

text \<open>
  One project, one pull request, one reviewer: introduced, dispatched at \<open>h1\<close>, approved there, and
  moved to \<open>h2\<close> by a merge from the base. \<open>demo_closed\<close> is the history in which the operator
  dismisses the pull request while the review is running.
\<close>

definition demo_review_env :: review_env where
  "demo_review_env =
     \<lparr>re_text = ascii_text, re_split_whitespace = (\<lambda>s. [s]), re_now = 0,
      re_eff = Some \<lparr>ef_projects = [\<lparr>pj_slug = ''p'', pj_group = ''g'', pj_repo = ''u'', pj_disabled = False, pj_landing = False\<rparr>],
                     ef_cfg_repo = []\<rparr>,
      re_parse_repo = (\<lambda>_. Some (''o'', ''r'')), re_ticketless = True, re_threshold = None,
      re_effective_reviewers = Some 1, re_authority_act = False, re_manager_mode = None, re_draining = False,
      re_account_usable = True, re_subject_hold = (\<lambda>_. Some None), re_roster = [''a''],
      re_unselectable = (\<lambda>_. False), re_code_reviewer = (\<lambda>_. True)\<rparr>"

definition no_faults :: store_faults where
  "no_faults = \<lparr>sf_load = False, sf_get = (\<lambda>_. False), sf_write = (\<lambda>_. False), sf_mark = (\<lambda>_. False), sf_bound = False\<rparr>"

definition demo_pr :: pr_coord where "demo_pr = \<lparr>pr_owner = ''o'', pr_repo = ''r'', pr_number = 1\<rparr>"

definition demo_ip :: introduced_pr where
  "demo_ip = \<lparr>ip_pr = demo_pr, ip_repo_url = ''u'', ip_reviewers = [''a''], ip_author = ''b'',
     ip_introduced_by = ''handoff:T-1'', ip_only_if_unwatched = False\<rparr>"

definition demo_run :: review_run where
  "demo_run = \<lparr>rr_owner = ''o'', rr_repo = ''r'', rr_number = 1, rr_reviewer = ''a'', rr_author = ''b'', rr_team_id = [],
     rr_repo_url = ''u'', rr_head_sha = ''h1'', rr_introduced_by = ''handoff:T-1'', rr_prior_sha = [],
     rr_head_patch_id = ''p1'', rr_generation = 1\<rparr>"

definition demo_exit :: ev_worker_exit where
  "demo_exit = \<lparr>ev_failed = False, ev_err_msg = [], ev_declared_handoff = True, ev_last_state = ''review:approved'',
     ev_verdict_approve = None\<rparr>"

definition demo_dispatched :: review_ctl where
  "demo_dispatched =
     snd (finish_review_dispatch demo_review_env no_faults True demo_run (snd (handle_review_introduce demo_review_env no_faults demo_ip ctl_empty)))"

definition demo_approved :: review_ctl where
  "demo_approved = snd (on_review_exit demo_review_env no_faults demo_run demo_exit demo_dispatched)"

definition demo_moved :: review_ctl where
  "demo_moved = snd (handle_review_head_advanced demo_review_env no_faults demo_pr ''h2'' [''h1''] demo_approved)"

definition demo_closed :: review_ctl where
  "demo_closed =
     snd (on_review_exit demo_review_env no_faults demo_run demo_exit (snd (handle_review_dismiss demo_review_env no_faults demo_pr None demo_dispatched)))"

definition demo_key :: review_watch_key where
  "demo_key = \<lparr>wk_owner = ''o'', wk_repo = ''r'', wk_number = 1, wk_reviewer = ''a''\<rparr>"

definition demo_row :: "string \<Rightarrow> string \<Rightarrow> bool \<Rightarrow> watch_entry" where
  "demo_row status reviewed opened =
     \<lparr>we_row = \<lparr>ww_key = demo_key, ww_author = ''b'', ww_introduced_by = ''handoff:T-1'', ww_requested_sha = ''h1'',
               ww_last_reviewed_sha = reviewed, ww_status = status, ww_open = opened\<rparr>,
      we_completed = \<lparr>rv_generation = 1, rv_sha = ''h1'', rv_patch_id = ''p1'', rv_verdict = ''approve''\<rparr>\<rparr>"

lemma demo_dispatched_running: "rl_running demo_dispatched (run_key demo_run) = Some demo_run"
  by code_simp

lemma demo_moved_watch: "st_watch (rl_store demo_moved) = [demo_row ''approved'' ''h2'' True]"
  by code_simp

lemma demo_closed_watch: "st_watch (rl_store demo_closed) = [demo_row ''approved'' ''h1'' False]"
  by code_simp

definition demo_ghost :: "(pr_coord \<times> string \<times> string) set \<Rightarrow> review_ghost" where
  "demo_ghost moves =
     \<lparr>gh_dispatched = {(demo_key, ''h1'')}, gh_approved = {(demo_key, ''h1'')}, gh_carried = moves\<rparr>"

lemma demo_dispatched_trace:
  "review_trace demo_dispatched \<lparr>gh_dispatched = {(demo_key, ''h1'')}, gh_approved = {}, gh_carried = {}\<rparr>"
  using review_trace.dispatch [OF review_trace.introduce [OF review_trace.start],
      of demo_review_env no_faults True demo_run demo_review_env no_faults demo_ip]
  by (simp add: demo_dispatched_def ghost_empty_def watch_key_def demo_key_def demo_run_def)

lemma demo_exit_ghost:
  "declares_approval demo_exit" "watch_key demo_run = demo_key" "rr_head_sha demo_run = ''h1''"
  by (simp_all add: declares_approval_def demo_exit_def watch_key_def demo_key_def demo_run_def)

lemma demo_moved_trace: "review_trace demo_moved (demo_ghost {(demo_pr, ''h1'', ''h2'')})"
proof -
  have "review_trace demo_approved (demo_ghost {})"
    using review_trace.finish [OF demo_dispatched_trace demo_dispatched_running, of demo_review_env no_faults demo_exit]
    by (simp add: demo_approved_def demo_ghost_def demo_exit_ghost)
  from review_trace.advance [OF this, of demo_review_env no_faults demo_pr "''h2''" "[''h1'']"] show ?thesis
    by (simp add: demo_moved_def demo_ghost_def)
qed

lemma demo_closed_trace: "review_trace demo_closed (demo_ghost {})"
proof -
  have "rl_running (snd (handle_review_dismiss demo_review_env no_faults demo_pr None demo_dispatched)) (run_key demo_run) = Some demo_run"
    by (simp add: demo_dispatched_running)
  from review_trace.finish [OF review_trace.dismiss [OF demo_dispatched_trace] this, of demo_review_env no_faults demo_exit]
  show ?thesis by (simp add: demo_closed_def demo_ghost_def demo_exit_ghost)
qed

section \<open>Properties\<close>

text \<open>
  C3. In every history the watch set is well formed: the primary key (pull request, reviewer) is
  unique and every status is one of the six values the daemon understands; every live run is one that
  was dispatched at the head it carries; and a row says \<open>approved\<close> only if its reviewer declared an
  approval at a head from which proven same-change moves lead to the head the row names.
\<close>

theorem watch_set_is_well_formed:
  assumes "review_trace c g"
  shows "watch_ok (rl_store c) \<and>
    (\<forall>run \<in> ran (rl_running c). (watch_key run, rr_head_sha run) \<in> gh_dispatched g) \<and>
    (\<forall>e \<in> set (st_watch (rl_store c)). ww_status (we_row e) = REVIEW_STATUS_APPROVED \<longrightarrow>
       (\<exists>h. (entry_key e, h) \<in> gh_approved g \<inter> gh_dispatched g \<and>
            (h, ww_last_reviewed_sha (we_row e)) \<in> (carry g (entry_key e))\<^sup>*))"
  using review_trace_inv [OF assms] approved_row_earned [OF assms]
  by (simp add: good_def watch_ok_def all_rows_def row_ok_def runs_ok_def)

theorem watch_set_is_well_formed_witness:
  "watch_ok (rl_store demo_moved) \<and>
   (\<exists>h. (demo_key, h) \<in> gh_approved (demo_ghost {(demo_pr, ''h1'', ''h2'')}) \<and>
        (h, ''h2'') \<in> (carry (demo_ghost {(demo_pr, ''h1'', ''h2'')}) demo_key)\<^sup>*)"
  using watch_set_is_well_formed [OF demo_moved_trace]
  by (simp add: demo_moved_watch demo_row_def entry_key_def REVIEW_STATUS_APPROVED_def) blast


text \<open>
  One verdict charges the author's side of the loop at most once: it costs one round exactly when
  some pending author round was recorded at heads that do not include the head just read, retires all
  of those at once, and leaves nothing a second verdict at the same head could charge.
\<close>

theorem author_exchange_is_charged_once:
  assumes "head \<noteq> []" "re_threshold env = Some t" "rl_pending c (churn_key pr) = Some pending"
  shows "spent (settle_author_round env flt pr head c) (churn_key pr) =
      spent c (churn_key pr) + (if \<exists>base \<in> set pending. head \<notin> set base then reviewers_per_round env else 0) \<and>
    spent (settle_author_round env flt pr head (settle_author_round env flt pr head c)) (churn_key pr) =
      spent (settle_author_round env flt pr head c) (churn_key pr)"
proof -
  have all: "length (filter (\<lambda>base. head \<in> set base) pending) = length pending \<longleftrightarrow> (\<forall>base \<in> set pending. head \<in> set base)"
    by (induction pending) (auto simp: le_imp_less_Suc [OF length_filter_le, THEN less_imp_neq])
  show ?thesis
    using assms by (auto simp: settle_author_round_def Let_def all spent_def persist_review_rounds_def)
qed

theorem author_exchange_is_charged_once_witness:
  "spent (settle_author_round (demo_review_env\<lparr>re_threshold := Some 3\<rparr>) no_faults demo_pr ''h2''
     (ctl_empty\<lparr>rl_pending := [churn_key demo_pr \<mapsto> [[''h1'']]]\<rparr>)) (churn_key demo_pr) = 1"
  using author_exchange_is_charged_once [of "''h2''" "demo_review_env\<lparr>re_threshold := Some 3\<rparr>" 3
      "ctl_empty\<lparr>rl_pending := [churn_key demo_pr \<mapsto> [[''h1'']]]\<rparr>" demo_pr "[[''h1'']]" no_faults]
  by (simp add: spent_def ctl_empty_def reviewers_per_round_def demo_review_env_def)

end
