(* ===== verification/Merge_Gate.thy ===== *)
theory Merge_Gate
  imports Review_Trace
begin

text \<open>
  The gates between an approved pull request and a merge: the verdict over the watch rows, the
  manager's approval, the landing lock and the control task's proposal
  (\<^verbatim>\<open>crates/orchestrator/src/automerge.rs\<close>, \<^verbatim>\<open>managerapproval.rs\<close>, and \<open>propose_auto_merge\<close> of
  \<^verbatim>\<open>reviewwatch.rs\<close>).
\<close>

section \<open>The manager's approval\<close>

definition MANAGER_APPROVAL_EFFECTIVE :: string where "MANAGER_APPROVAL_EFFECTIVE = ''effective''"

record approval_scope =
  as_state :: string
  as_generation :: int
  as_patch_id :: string
  as_covered_reviewers :: "string list"
  as_authority_act :: bool

definition is_effective :: "approval_scope \<Rightarrow> int \<Rightarrow> string \<Rightarrow> bool" where
  "is_effective a generation patch_id \<longleftrightarrow>
     as_authority_act a \<and> as_state a = MANAGER_APPROVAL_EFFECTIVE \<and> as_generation a = generation \<and>
     as_patch_id a \<noteq> [] \<and> patch_id \<noteq> [] \<and> as_patch_id a = patch_id"

definition covers :: "approval_scope \<Rightarrow> string \<Rightarrow> int \<Rightarrow> string \<Rightarrow> bool" where
  "covers a reviewer generation patch_id \<longleftrightarrow>
     is_effective a generation patch_id \<and> list_ex (\<lambda>r. r = reviewer) (as_covered_reviewers a)"

record expiry_inputs =
  ei_approval_generation :: int
  ei_approval_patch_id :: string
  ei_approval_membership_hash :: string
  ei_current_generation :: int
  ei_current_patch_id :: string
  ei_current_membership_hash :: string
  ei_blocking_finding_opened :: bool
  ei_hold_applied :: bool
  ei_authority_act :: bool

definition approval_expires :: "expiry_inputs \<Rightarrow> bool" where
  "approval_expires i \<longleftrightarrow>
     ei_current_generation i \<noteq> ei_approval_generation i \<or>
     ei_current_patch_id i \<noteq> ei_approval_patch_id i \<or>
     ei_current_membership_hash i \<noteq> ei_approval_membership_hash i \<or>
     ei_blocking_finding_opened i \<or> ei_hold_applied i \<or> \<not> ei_authority_act i"

record recheck_inputs =
  ri_state :: string
  ri_plan_generation :: int
  ri_current_generation :: int
  ri_plan_evidence_rev :: int
  ri_current_evidence_rev :: int
  ri_hold_applied :: bool
  ri_authority_act :: bool

definition approval_still_effective :: "recheck_inputs \<Rightarrow> bool" where
  "approval_still_effective i \<longleftrightarrow>
     ri_authority_act i \<and> ri_state i = MANAGER_APPROVAL_EFFECTIVE \<and>
     ri_plan_generation i = ri_current_generation i \<and> ri_plan_evidence_rev i = ri_current_evidence_rev i \<and>
     \<not> ri_hold_applied i"

text \<open>The bytes the membership digest is taken of: the sorted names, each followed by a NUL.\<close>

definition membership_preimage :: "string list \<Rightarrow> string" where
  "membership_preimage reviewers = concat (map (\<lambda>r. r @ [CHR 0x00]) (sort_key (\<lambda>r. r) reviewers))"

definition membership_hash :: "(string \<Rightarrow> string) \<Rightarrow> string list \<Rightarrow> string" where
  "membership_hash sha256 reviewers = concat (map hex_byte (sha256 (membership_preimage reviewers)))"

section \<open>The verdict\<close>

datatype auto_merge_refusal = NoHead | NoVerdict | RoundInFlight | ChangesRequested | StaleVerdict | UnknownStatus

definition row_verdict ::
  "string list \<Rightarrow> approval_scope option \<Rightarrow> int \<Rightarrow> string \<Rightarrow> review_watch_row \<Rightarrow> (auto_merge_refusal, string) result" where
  "row_verdict proven approval generation patch_id row =
     (if (case approval of None \<Rightarrow> False | Some a \<Rightarrow> covers a (wk_reviewer (ww_key row)) generation patch_id)
      then Inr (wk_reviewer (ww_key row))
      else if ww_status row = REVIEW_STATUS_APPROVED then
        (if ww_last_reviewed_sha row \<notin> set proven then Inl StaleVerdict else Inr (wk_reviewer (ww_key row)))
      else if ww_status row = REVIEW_STATUS_REVIEWED then Inl ChangesRequested
      else if ww_status row = REVIEW_STATUS_REQUESTED \<or> ww_status row = REVIEW_STATUS_IN_FLIGHT \<or>
              ww_status row = REVIEW_STATUS_TRUNCATED then Inl RoundInFlight
      else Inl UnknownStatus)"

fun verdict_loop ::
  "(review_watch_row \<Rightarrow> (auto_merge_refusal, string) result) \<Rightarrow> review_watch_row list \<Rightarrow> string list
    \<Rightarrow> (auto_merge_refusal, string list) result" where
  "verdict_loop f [] approved_by = Inr approved_by"
| "verdict_loop f (row # rows) approved_by = and_then (f row) (\<lambda>r. verdict_loop f rows (approved_by @ [r]))"

definition auto_merge_verdict_with_proof_and_approval ::
  "text_ops \<Rightarrow> review_watch_row list \<Rightarrow> string \<Rightarrow> string list \<Rightarrow> approval_scope option \<Rightarrow> int \<Rightarrow> string
    \<Rightarrow> (auto_merge_refusal, string list) result" where
  "auto_merge_verdict_with_proof_and_approval tx rows head proven approval generation patch_id =
     (if trim tx head = [] then Inl NoHead
      else if rows = [] then Inl NoVerdict
      else verdict_loop (row_verdict (map (trim tx) proven) approval generation patch_id) rows [])"

definition auto_merge_verdict_with_proof ::
  "text_ops \<Rightarrow> review_watch_row list \<Rightarrow> string \<Rightarrow> string list \<Rightarrow> (auto_merge_refusal, string list) result" where
  "auto_merge_verdict_with_proof tx rows head proven =
     auto_merge_verdict_with_proof_and_approval tx rows head proven None 0 []"

datatype landing_phase =
  WaitingForDeploy | Watching | AwaitingAcceptance | Done | HeldLanding | Reverting | Reopened

record landing_row =
  lr_id :: int
  lr_project_slug :: string
  lr_owner :: string
  lr_repo :: string
  lr_pr :: int
  lr_ticket :: string
  lr_merge_sha :: string
  lr_phase :: landing_phase
  lr_deploy_deadline_s :: int
  lr_watch_until_s :: "int option"
  lr_results_json :: string
  lr_revert_of :: "int option"
  lr_revert_pr :: "int option"
  lr_hold_reason :: "string option"
  lr_updated_at_s :: int

definition revert_merge_verdict ::
  "text_ops \<Rightarrow> landing_row \<Rightarrow> bool \<Rightarrow> bool \<Rightarrow> review_watch_row list \<Rightarrow> string \<Rightarrow> (auto_merge_refusal, string list) result" where
  "revert_merge_verdict tx landing labelled revert_review rows head =
     (if trim tx head = [] then Inl NoHead
      else if \<not> labelled \<or> lr_phase landing \<noteq> Reverting \<or> lr_revert_pr landing = None \<or> lr_revert_of landing \<noteq> None
      then Inl NoVerdict
      else if revert_review then auto_merge_verdict_with_proof tx rows head [head]
      else Inr [''landing recovery''])"

definition ship_row :: "string list \<Rightarrow> review_watch_row \<Rightarrow> (auto_merge_refusal, unit) result" where
  "ship_row proven row =
     (if ww_status row = REVIEW_STATUS_APPROVED then
        (if ww_last_reviewed_sha row \<notin> set proven then Inl StaleVerdict else Inr ())
      else if ww_status row = REVIEW_STATUS_REVIEWED then
        (if ww_last_reviewed_sha row \<notin> set proven then Inl RoundInFlight else Inr ())
      else if ww_status row = REVIEW_STATUS_REQUESTED \<or> ww_status row = REVIEW_STATUS_IN_FLIGHT \<or>
              ww_status row = REVIEW_STATUS_TRUNCATED then Inl RoundInFlight
      else Inl UnknownStatus)"

definition ship_available ::
  "text_ops \<Rightarrow> review_watch_row list \<Rightarrow> string \<Rightarrow> string list \<Rightarrow> (auto_merge_refusal, unit) result" where
  "ship_available tx rows head proven =
     (if trim tx head = [] then Inl NoHead
      else if rows = [] then Inl NoVerdict
      else for_each (ship_row (map (trim tx) proven)) rows)"

section \<open>The landing lock\<close>

datatype landing_merge_state = InFlight | AwaitingObservation | Merged

text \<open>What the lock reads besides the control state: the open landings and the pending operator actions.\<close>

record landing_env =
  le_operator_pending :: "int list"
  le_get_landing :: "int \<Rightarrow> landing_row option option"
  le_open_landing :: "string \<Rightarrow> landing_row option option"
  le_live_watch :: "review_watch_row list option"
  le_observed_open :: "pr_coord \<Rightarrow> bool"

definition landing_lock_groups :: "review_env \<Rightarrow> pr_coord \<Rightarrow> string list" where
  "landing_lock_groups env pr =
     (case re_eff env of
        None \<Rightarrow> []
      | Some eff \<Rightarrow> map pj_group (filter (\<lambda>p. same_owner_repo env (pj_repo p) (pr_owner pr) (pr_repo pr)) (ef_projects eff)))"

definition landing_merge_groups :: "review_env \<Rightarrow> pr_coord \<Rightarrow> string list" where
  "landing_merge_groups env pr =
     (case re_eff env of
        None \<Rightarrow> []
      | Some eff \<Rightarrow> map pj_group
          (filter (\<lambda>p. same_owner_repo env (pj_repo p) (pr_owner pr) (pr_repo pr) \<and> pj_landing p) (ef_projects eff)))"

definition project_by_slug :: "effective \<Rightarrow> string \<Rightarrow> project option" where
  "project_by_slug eff slug = find (\<lambda>p. pj_slug p = slug) (ef_projects eff)"

definition share_group :: "string list \<Rightarrow> string list \<Rightarrow> bool" where
  "share_group gs hs \<longleftrightarrow> list_ex (\<lambda>g. g \<in> set hs) gs"

definition operator_gate :: "landing_env \<Rightarrow> effective \<Rightarrow> string list \<Rightarrow> int \<Rightarrow> (string, unit) result" where
  "operator_gate le eff groups i =
     (case le_get_landing le i of
        None \<Rightarrow> Inl ''store''
      | Some None \<Rightarrow> Inr ()
      | Some (Some row) \<Rightarrow>
          refuse_if (case project_by_slug eff (lr_project_slug row) of None \<Rightarrow> False | Some p \<Rightarrow> pj_group p \<in> set groups)
            ''a landing operator action is in progress for this project'')"

definition open_landing_gate :: "landing_env \<Rightarrow> string list \<Rightarrow> project \<Rightarrow> (string, unit) result" where
  "open_landing_gate le groups p =
     (if pj_group p \<notin> set groups then Inr ()
      else case le_open_landing le (pj_slug p) of
          None \<Rightarrow> Inl ''store''
        | Some landing \<Rightarrow> refuse_if (landing \<noteq> None) ''a landing is in progress for this project'')"

definition sibling_gate :: "review_env \<Rightarrow> landing_env \<Rightarrow> string list \<Rightarrow> review_watch_row \<Rightarrow> (string, unit) result" where
  "sibling_gate env le groups row =
     (let sibling = \<lparr>pr_owner = wk_owner (ww_key row), pr_repo = wk_repo (ww_key row), pr_number = wk_number (ww_key row)\<rparr>
      in refuse_if (share_group (landing_merge_groups env sibling) groups \<and> \<not> le_observed_open le sibling)
           ''landing merge observations are not yet reconciled'')"

type_synonym landing_merges = "(pr_coord \<times> landing_merge_state) list"

definition landing_merge_gate :: "review_env \<Rightarrow> landing_env \<Rightarrow> landing_merges \<Rightarrow> pr_coord \<Rightarrow> (string, unit) result" where
  "landing_merge_gate env le merges pr =
     (case re_eff env of
        None \<Rightarrow> Inr ()
      | Some eff \<Rightarrow>
          (let groups = landing_lock_groups env pr; landing_groups = landing_merge_groups env pr in
           and_then (for_each (operator_gate le eff groups) (le_operator_pending le)) (\<lambda>_.
           and_then (for_each (open_landing_gate le groups) (ef_projects eff)) (\<lambda>_.
           if landing_groups = [] then Inr ()
           else and_then (refuse_if (list_ex (\<lambda>m. share_group (landing_merge_groups env (fst m)) landing_groups) merges)
                           ''a landing is in progress for this project'') (\<lambda>_.
                case le_live_watch le of
                  None \<Rightarrow> Inl ''store''
                | Some rows \<Rightarrow> for_each (sibling_gate env le landing_groups) rows)))))"

definition upsert_merge :: "pr_coord \<Rightarrow> landing_merge_state \<Rightarrow> landing_merges \<Rightarrow> landing_merges" where
  "upsert_merge pr s merges = (pr, s) # filter (\<lambda>m. fst m \<noteq> pr) merges"

text \<open>\<open>cancelled\<close> is the answer of \<open>cancel_landing_merge\<close>.\<close>

definition landing_merge_finished ::
  "bool \<Rightarrow> pr_coord \<Rightarrow> landing_merge_state option \<Rightarrow> landing_merges \<Rightarrow> landing_merges" where
  "landing_merge_finished cancelled pr s merges =
     (case s of
        Some s' \<Rightarrow> map (\<lambda>m. if fst m = pr then (pr, s') else m) merges
      | None \<Rightarrow>
          if \<not> cancelled then map (\<lambda>m. if fst m = pr then (pr, AwaitingObservation) else m) merges
          else filter (\<lambda>m. fst m \<noteq> pr) merges)"

section \<open>The proposal\<close>

record manager_approval_plan =
  mp_intervention_id :: string
  mp_generation :: int
  mp_evidence_rev :: int

record auto_merge_plan =
  ap_pr :: pr_coord
  ap_head :: string
  ap_approved_by :: "string list"
  ap_manager_approval :: "manager_approval_plan option"

record merge_ctl =
  mc_merges :: landing_merges
  mc_landing_refusals :: "(pr_coord \<times> string) set"
  mc_announced :: "string \<Rightarrow> (string \<times> string list) option"
  mc_plans :: "auto_merge_plan list"

definition merge_ctl_empty :: merge_ctl where
  "merge_ctl_empty = \<lparr>mc_merges = [], mc_landing_refusals = {}, mc_announced = (\<lambda>_. None), mc_plans = []\<rparr>"

text \<open>
  The team's merge settings: the installation's value and the overrides per project. The other two
  fields of \<open>propose_env\<close> are the answers of \<open>review_requires_code\<close> and of \<open>reserve_landing_merge\<close>.
\<close>

record teams_review =
  tr_ticketless :: bool
  tr_auto_merge :: bool
  tr_projects :: "(string list \<times> bool option) list"

definition review_auto_merge :: "teams_review \<Rightarrow> bool" where
  "review_auto_merge teams \<longleftrightarrow> tr_ticketless teams \<and> tr_auto_merge teams"

definition review_auto_merge_for :: "text_ops \<Rightarrow> teams_review \<Rightarrow> string \<Rightarrow> bool" where
  "review_auto_merge_for tx teams project_slug =
     (if \<not> tr_ticketless teams then False
      else case find (\<lambda>p. list_ex (\<lambda>s. trim tx s = trim tx project_slug) (fst p)) (tr_projects teams) of
          Some (slugs, Some setting) \<Rightarrow> setting
        | _ \<Rightarrow> tr_auto_merge teams)"

record propose_env =
  pe_teams :: "teams_review option"
  pe_requires_code :: bool
  pe_reserved :: bool

definition MERGE_STATE_DIRTY :: string where "MERGE_STATE_DIRTY = ''DIRTY''"

definition review_project_slugs_for_repo :: "review_env \<Rightarrow> string \<Rightarrow> string \<Rightarrow> string list" where
  "review_project_slugs_for_repo env owner repo =
     (case re_eff env of
        None \<Rightarrow> []
      | Some eff \<Rightarrow> map pj_slug (filter (\<lambda>p. same_owner_repo env (pj_repo p) owner repo) (ef_projects eff)))"

definition review_auto_merge_for_repo :: "review_env \<Rightarrow> propose_env \<Rightarrow> string \<Rightarrow> string \<Rightarrow> bool" where
  "review_auto_merge_for_repo env pe owner repo =
     (case pe_teams pe of
        None \<Rightarrow> False
      | Some teams \<Rightarrow>
          (let slugs = review_project_slugs_for_repo env owner repo
           in if slugs = [] then review_auto_merge teams else list_all (review_auto_merge_for (re_text env) teams) slugs))"

definition held_origin :: "text_ops \<Rightarrow> string set \<Rightarrow> review_watch_row list \<Rightarrow> bool" where
  "held_origin tx held mine \<longleftrightarrow>
     list_ex (\<lambda>row. case origin_ticket tx (ww_introduced_by row) of
                      None \<Rightarrow> False | Some t \<Rightarrow> to_ascii_lowercase t \<in> held) mine"

definition code_review_done :: "review_env \<Rightarrow> string list \<Rightarrow> review_watch_row list \<Rightarrow> bool" where
  "code_review_done env proven mine \<longleftrightarrow>
     list_ex (\<lambda>row. re_code_reviewer env (wk_reviewer (ww_key row)) \<and>
                    (ww_status row = REVIEW_STATUS_REVIEWED \<or> ww_status row = REVIEW_STATUS_APPROVED) \<and>
                    ww_last_reviewed_sha row \<in> set proven) mine"

definition auto_merge_plan_is_news ::
  "pr_coord \<Rightarrow> string \<Rightarrow> string list \<Rightarrow> merge_ctl \<Rightarrow> bool \<times> merge_ctl" where
  "auto_merge_plan_is_news pr head approved_by m =
     (if mc_announced m (churn_key pr) = Some (head, approved_by) then (False, m)
      else (True, m\<lparr>mc_announced := (mc_announced m)(churn_key pr \<mapsto> (head, approved_by))\<rparr>))"

definition push_plan :: "pr_coord \<Rightarrow> string \<Rightarrow> string list \<Rightarrow> merge_ctl \<Rightarrow> merge_ctl" where
  "push_plan pr head approved_by m =
     m\<lparr>mc_plans := mc_plans m @ [\<lparr>ap_pr = pr, ap_head = head, ap_approved_by = approved_by, ap_manager_approval = None\<rparr>]\<rparr>"

definition propose_auto_merge ::
  "review_env \<Rightarrow> landing_env \<Rightarrow> propose_env \<Rightarrow> human_hold_state \<Rightarrow> review_watch_row list \<Rightarrow> pr_coord \<Rightarrow> string
    \<Rightarrow> string \<Rightarrow> string list \<Rightarrow> merge_ctl \<Rightarrow> merge_ctl" where
  "propose_auto_merge env le pe holds mine pr head merge_state proven m =
     (if \<not> review_auto_merge_for_repo env pe (pr_owner pr) (pr_repo pr) then m
      else case landing_merge_gate env le (mc_merges m) pr of
          Inl reason \<Rightarrow> m\<lparr>mc_landing_refusals := insert (pr, head) (mc_landing_refusals m)\<rparr>
        | Inr _ \<Rightarrow>
            if pe_requires_code pe \<and> \<not> code_review_done env proven mine then m
            else if \<not> snd (labelled_and_primed holds) then m
            else if held_origin (re_text env) (fst (labelled_and_primed holds)) mine then m
            else if merge_state = MERGE_STATE_DIRTY then m
            else case auto_merge_verdict_with_proof (re_text env) mine head proven of
                Inl why \<Rightarrow> m
              | Inr approved_by \<Rightarrow>
                  if landing_merge_groups env pr \<noteq> [] \<and> \<not> pe_reserved pe then m
                  else push_plan pr head approved_by
                    (snd (auto_merge_plan_is_news pr head approved_by
                      (if landing_merge_groups env pr \<noteq> []
                       then m\<lparr>mc_merges := upsert_merge pr InFlight (mc_merges m)\<rparr> else m))))"

section \<open>Properties\<close>

definition row_clears :: "string list \<Rightarrow> approval_scope option \<Rightarrow> int \<Rightarrow> string \<Rightarrow> review_watch_row \<Rightarrow> bool" where
  "row_clears proven approval generation patch_id row \<longleftrightarrow>
     (\<exists>a. approval = Some a \<and> as_authority_act a \<and> as_state a = ''effective'' \<and> as_generation a = generation \<and>
          as_patch_id a = patch_id \<and> patch_id \<noteq> [] \<and> wk_reviewer (ww_key row) \<in> set (as_covered_reviewers a)) \<or>
     ww_status row = ''approved'' \<and> ww_last_reviewed_sha row \<in> set proven"

lemma row_verdict_Inr:
  "row_verdict proven approval generation patch_id row = Inr r \<longleftrightarrow>
     row_clears proven approval generation patch_id row \<and> r = wk_reviewer (ww_key row)"
  by (auto simp: row_verdict_def row_clears_def covers_def is_effective_def MANAGER_APPROVAL_EFFECTIVE_def
      review_status_defs list_ex_iff split: option.splits)

lemma verdict_loop_Inr:
  assumes "\<And>row r. f row = Inr r \<longleftrightarrow> P row \<and> r = g row"
  shows "verdict_loop f rows acc = Inr out \<longleftrightarrow> list_all P rows \<and> out = acc @ map g rows"
  using assms by (induction rows arbitrary: acc) (auto simp: and_then_Inr)

lemma verdict_Inr:
  "auto_merge_verdict_with_proof_and_approval tx rows head proven approval generation patch_id = Inr approved_by \<longleftrightarrow>
     trim tx head \<noteq> [] \<and> rows \<noteq> [] \<and> approved_by = map (\<lambda>row. wk_reviewer (ww_key row)) rows \<and>
     list_all (row_clears (map (trim tx) proven) approval generation patch_id) rows"
  by (auto simp: auto_merge_verdict_with_proof_and_approval_def verdict_loop_Inr [OF row_verdict_Inr])

text \<open>
  C23. The merge verdict is exact. It clears a pull request if and only if the head is known, at least
  one reviewer is watching, and every row is satisfied: by an approval at a head proven to carry the
  same change, or by a manager approval that is effective at this very generation and patch and names
  the reviewer. The reviewers are then reported in row order. A \<open>ship\<close> is available if and only if
  every row holds a verdict, approving or not, at a head proven to carry the same change.
\<close>

theorem merge_verdict_is_exact:
  "(auto_merge_verdict_with_proof_and_approval tx rows head proven approval generation patch_id = Inr approved_by \<longleftrightarrow>
     trim tx head \<noteq> [] \<and> rows \<noteq> [] \<and> approved_by = map (\<lambda>row. wk_reviewer (ww_key row)) rows \<and>
     list_all (row_clears (map (trim tx) proven) approval generation patch_id) rows) \<and>
   (is_ok (ship_available tx rows head proven) \<longleftrightarrow>
     trim tx head \<noteq> [] \<and> rows \<noteq> [] \<and>
     list_all (\<lambda>row. ww_status row \<in> {''approved'', ''reviewed''} \<and>
       ww_last_reviewed_sha row \<in> set (map (trim tx) proven)) rows)"
proof -
  have "ship_row p row = Inr () \<longleftrightarrow> ww_status row \<in> {''approved'', ''reviewed''} \<and> ww_last_reviewed_sha row \<in> set p" for p row
    by (auto simp: ship_row_def review_status_defs)
  then have "is_ok (ship_available tx rows head proven) \<longleftrightarrow> trim tx head \<noteq> [] \<and> rows \<noteq> [] \<and>
      list_all (\<lambda>row. ww_status row \<in> {''approved'', ''reviewed''} \<and>
        ww_last_reviewed_sha row \<in> set (map (trim tx) proven)) rows"
    by (simp add: ship_available_def is_ok_iff for_each_Inr list_all_iff)
  with verdict_Inr show ?thesis by blast
qed

lemma proposed_plan:
  assumes "p \<in> set (mc_plans (propose_auto_merge env le pe holds mine pr head merge_state proven m))" "p \<notin> set (mc_plans m)"
  shows "ap_pr p = pr \<and> ap_head p = head \<and> review_auto_merge_for_repo env pe (pr_owner pr) (pr_repo pr) \<and>
    landing_merge_gate env le (mc_merges m) pr = Inr () \<and>
    snd (labelled_and_primed holds) \<and> \<not> held_origin (re_text env) (fst (labelled_and_primed holds)) mine \<and>
    merge_state \<noteq> MERGE_STATE_DIRTY \<and>
    auto_merge_verdict_with_proof (re_text env) mine head proven = Inr (ap_approved_by p)"
  using assms by (auto simp: propose_auto_merge_def push_plan_def auto_merge_plan_is_news_def
      split: if_splits sum.splits)

text \<open>
  C1. Nothing is proposed for a merge that its reviewers did not read. In every history of the review
  loop and of the human-hold ledger, a newly proposed plan is for the pull request and head at hand;
  a pass has read the board; the pull request has a live row; and every live row of it names a reviewer
  in the plan, comes from no ticket labelled for a human since that pass, and goes back to an approval
  its reviewer declared at a head dispatched to them, from which proven same-change moves lead to one
  of the heads proven to carry the proposed change.
\<close>

theorem proposed_merge_was_read:
  assumes "review_trace c g"
    and "p \<in> set (mc_plans (propose_auto_merge env le pe (ledger_run ops)
           (filter (\<lambda>r. row_is r pr) (load_live_review_watch (rl_store c))) pr head merge_state proven m)) - set (mc_plans m)"
  shows "ap_pr p = pr \<and> ap_head p = head \<and> BeginPass True \<in> set ops \<and>
    (\<exists>e \<in> set (st_watch (rl_store c)). is_live (we_row e) \<and> row_is (we_row e) pr) \<and>
    (\<forall>e \<in> set (st_watch (rl_store c)). is_live (we_row e) \<and> row_is (we_row e) pr \<longrightarrow>
       wk_reviewer (entry_key e) \<in> set (ap_approved_by p) \<and>
       (\<forall>t. origin_ticket (re_text env) (ww_introduced_by (we_row e)) = Some t \<longrightarrow>
          (\<forall>q \<in> set (since_pass ops []). observed_label q \<noteq> Some (to_ascii_lowercase t))) \<and>
       (\<exists>h. (entry_key e, h) \<in> gh_approved g \<inter> gh_dispatched g \<and>
          (h, ww_last_reviewed_sha (we_row e)) \<in> (carry g (entry_key e))\<^sup>* \<and>
          ww_last_reviewed_sha (we_row e) \<in> trim (re_text env) ` set proven))"
proof -
  let ?mine = "filter (\<lambda>r. row_is r pr) (load_live_review_watch (rl_store c))"
  note plan = proposed_plan [of p env le pe "ledger_run ops" ?mine pr head merge_state proven m]
  have verdict: "?mine \<noteq> []" "ap_approved_by p = map (\<lambda>row. wk_reviewer (ww_key row)) ?mine"
    "list_all (row_clears (map (trim (re_text env)) proven) None 0 []) ?mine"
    using plan assms(2) by (simp_all add: auto_merge_verdict_with_proof_def verdict_Inr)
  have mine: "set ?mine = {r \<in> we_row ` set (st_watch (rl_store c)). is_live r \<and> row_is r pr}"
    by (auto simp: set_load_live)
  have row: "wk_reviewer (entry_key e) \<in> set (ap_approved_by p) \<and>
      (\<forall>t. origin_ticket (re_text env) (ww_introduced_by (we_row e)) = Some t \<longrightarrow>
          (\<forall>q \<in> set (since_pass ops []). observed_label q \<noteq> Some (to_ascii_lowercase t))) \<and>
      (\<exists>h. (entry_key e, h) \<in> gh_approved g \<inter> gh_dispatched g \<and>
          (h, ww_last_reviewed_sha (we_row e)) \<in> (carry g (entry_key e))\<^sup>* \<and>
          ww_last_reviewed_sha (we_row e) \<in> trim (re_text env) ` set proven)"
    if e: "e \<in> set (st_watch (rl_store c))" "is_live (we_row e)" "row_is (we_row e) pr" for e
  proof -
    have in_mine: "we_row e \<in> set ?mine" using e mine by auto
    have clears: "ww_status (we_row e) = ''approved''" "ww_last_reviewed_sha (we_row e) \<in> trim (re_text env) ` set proven"
      using verdict(3) in_mine by (auto simp: list_all_iff row_clears_def)
    then have "\<exists>h. (entry_key e, h) \<in> gh_approved g \<inter> gh_dispatched g \<and>
        (h, ww_last_reviewed_sha (we_row e)) \<in> (carry g (entry_key e))\<^sup>*"
      using approved_row_earned [OF assms(1) e(1)] by (simp add: REVIEW_STATUS_APPROVED_def)
    moreover have "wk_reviewer (entry_key e) \<in> set (ap_approved_by p)"
      using in_mine verdict(2) by (auto simp: entry_key_def)
    moreover have "observed_label q \<noteq> Some (to_ascii_lowercase t)"
      if "origin_ticket (re_text env) (ww_introduced_by (we_row e)) = Some t" "q \<in> set (since_pass ops [])" for t q
      using plan assms(2) in_mine that ledger_run_inv [of ops]
      by (auto simp: held_origin_def list_ex_iff labelled_and_primed_def ledger_inv_def)
    ultimately show ?thesis using clears(2) by blast
  qed
  have "\<exists>e \<in> set (st_watch (rl_store c)). is_live (we_row e) \<and> row_is (we_row e) pr"
  proof -
    from verdict(1) obtain r where "r \<in> set ?mine" by (cases ?mine) auto
    then show ?thesis unfolding mine by blast
  qed
  moreover have "ap_pr p = pr" "ap_head p = head" "BeginPass True \<in> set ops"
    using plan assms(2) ledger_run_inv [of ops] by (simp_all add: labelled_and_primed_def ledger_inv_def)
  ultimately show ?thesis using row by blast
qed

definition quiet_landings :: landing_env where
  "quiet_landings = \<lparr>le_operator_pending = [], le_get_landing = (\<lambda>_. Some None), le_open_landing = (\<lambda>_. Some None),
     le_live_watch = Some [], le_observed_open = (\<lambda>_. True)\<rparr>"

definition merging :: propose_env where
  "merging = \<lparr>pe_teams = Some \<lparr>tr_ticketless = True, tr_auto_merge = True, tr_projects = []\<rparr>, pe_requires_code = True, pe_reserved = True\<rparr>"

definition demo_proposal :: merge_ctl where
  "demo_proposal = propose_auto_merge demo_review_env quiet_landings merging (ledger_run [BeginPass True])
     (filter (\<lambda>r. row_is r demo_pr) (load_live_review_watch (rl_store demo_moved))) demo_pr ''h2'' ''CLEAN'' [''h2''] merge_ctl_empty"

lemma demo_proposal_plans:
  "mc_plans demo_proposal = [\<lparr>ap_pr = demo_pr, ap_head = ''h2'', ap_approved_by = [''a''], ap_manager_approval = None\<rparr>]"
  unfolding demo_proposal_def load_live_review_watch_def demo_moved_watch by code_simp

theorem proposed_merge_was_read_witness:
  "mc_plans demo_proposal = [\<lparr>ap_pr = demo_pr, ap_head = ''h2'', ap_approved_by = [''a''], ap_manager_approval = None\<rparr>] \<and>
   (\<exists>h. (demo_key, h) \<in> gh_approved (demo_ghost {(demo_pr, ''h1'', ''h2'')}) \<and>
        (h, ''h2'') \<in> (carry (demo_ghost {(demo_pr, ''h1'', ''h2'')}) demo_key)\<^sup>*)"
proof -
  have live: "is_live (we_row (demo_row ''approved'' ''h2'' True))" "row_is (we_row (demo_row ''approved'' ''h2'' True)) demo_pr"
    by code_simp+
  have new: "\<lparr>ap_pr = demo_pr, ap_head = ''h2'', ap_approved_by = [''a''], ap_manager_approval = None\<rparr> \<in>
      set (mc_plans (propose_auto_merge demo_review_env quiet_landings merging (ledger_run [BeginPass True])
        (filter (\<lambda>r. row_is r demo_pr) (load_live_review_watch (rl_store demo_moved))) demo_pr ''h2'' ''CLEAN'' [''h2'']
        merge_ctl_empty)) - set (mc_plans merge_ctl_empty)"
    unfolding demo_proposal_def [symmetric] demo_proposal_plans by (simp add: merge_ctl_empty_def)
  have "\<exists>h. (demo_key, h) \<in> gh_approved (demo_ghost {(demo_pr, ''h1'', ''h2'')}) \<and>
        (h, ''h2'') \<in> (carry (demo_ghost {(demo_pr, ''h1'', ''h2'')}) demo_key)\<^sup>*"
    using proposed_merge_was_read [OF demo_moved_trace new] live
    by (simp add: demo_moved_watch) (auto simp: demo_row_def entry_key_def)
  then show ?thesis using demo_proposal_plans by blast
qed

section \<open>The landing lock excludes\<close>

inductive merge_reach :: "review_env \<Rightarrow> merge_ctl \<Rightarrow> bool" for env where
  start: "merge_reach env merge_ctl_empty"
| propose: "merge_reach env m \<Longrightarrow> merge_reach env (propose_auto_merge env le pe holds mine pr head merge_state proven m)"
| finished: "merge_reach env m \<Longrightarrow> merge_reach env (m\<lparr>mc_merges := landing_merge_finished cancelled pr s (mc_merges m)\<rparr>)"

definition exclusive :: "review_env \<Rightarrow> pr_coord set \<Rightarrow> bool" where
  "exclusive env prs \<longleftrightarrow>
     (\<forall>x \<in> prs. \<forall>y \<in> prs. x \<noteq> y \<longrightarrow> set (landing_merge_groups env x) \<inter> set (landing_merge_groups env y) = {})"

lemma exclusive_subset: "exclusive env prs \<Longrightarrow> prs' \<subseteq> prs \<Longrightarrow> exclusive env prs'"
  by (auto simp: exclusive_def)

lemma exclusive_insert:
  assumes "exclusive env prs" "\<And>x. x \<in> prs \<Longrightarrow> set (landing_merge_groups env x) \<inter> set (landing_merge_groups env pr) = {}"
  shows "exclusive env (insert pr prs)"
  using assms by (auto simp: exclusive_def)

lemma propose_merges:
  "mc_merges (propose_auto_merge env le pe holds mine pr head merge_state proven m) = mc_merges m \<or>
   landing_merge_gate env le (mc_merges m) pr = Inr () \<and> landing_merge_groups env pr \<noteq> [] \<and>
   mc_merges (propose_auto_merge env le pe holds mine pr head merge_state proven m) = upsert_merge pr InFlight (mc_merges m)"
  by (auto simp: propose_auto_merge_def push_plan_def auto_merge_plan_is_news_def split: sum.split)

lemma gate_exclusive:
  assumes "landing_merge_gate env le merges pr = Inr ()" "landing_merge_groups env pr \<noteq> []" "x \<in> fst ` set merges"
  shows "set (landing_merge_groups env x) \<inter> set (landing_merge_groups env pr) = {}"
proof -
  obtain eff where "re_eff env = Some eff"
    using assms(2) by (auto simp: landing_merge_groups_def split: option.splits)
  then have "\<not> list_ex (\<lambda>m. share_group (landing_merge_groups env (fst m)) (landing_merge_groups env pr)) merges"
    using assms(1, 2) by (simp add: landing_merge_gate_def and_then_Inr refuse_if_Inr Let_def)
  then show ?thesis using assms(3) by (auto simp: list_ex_iff share_group_def)
qed

lemma finished_keys:
  "fst ` set (landing_merge_finished cancelled pr s merges) \<subseteq> fst ` set merges"
  "distinct (map fst merges) \<Longrightarrow> distinct (map fst (landing_merge_finished cancelled pr s merges))"
proof -
  have keys: "map fst (map (\<lambda>m. if fst m = pr then (pr, s') else m) merges) = map fst merges" for s' :: landing_merge_state
    by simp
  then have "fst ` set (map (\<lambda>m. if fst m = pr then (pr, s') else m) merges) = fst ` set merges" for s' :: landing_merge_state
    by (metis list.set_map)
  then show "fst ` set (landing_merge_finished cancelled pr s merges) \<subseteq> fst ` set merges"
    by (auto simp: landing_merge_finished_def simp del: set_map split: option.split)
  show "distinct (map fst (landing_merge_finished cancelled pr s merges))" if "distinct (map fst merges)"
    using that keys by (simp add: landing_merge_finished_def distinct_map_filter del: map_map split: option.split)
qed

lemma upsert_merge_keys:
  "fst ` set (upsert_merge pr s merges) \<subseteq> insert pr (fst ` set merges)"
  "distinct (map fst merges) \<Longrightarrow> distinct (map fst (upsert_merge pr s merges))"
  by (auto simp: upsert_merge_def distinct_map_filter)

lemma merge_reach_exclusive:
  "merge_reach env m \<Longrightarrow> exclusive env (fst ` set (mc_merges m)) \<and> distinct (map fst (mc_merges m))"
proof (induction rule: merge_reach.induct)
  case start
  then show ?case by (simp add: exclusive_def merge_ctl_empty_def)
next
  case (propose m le pe holds mine pr head merge_state proven)
  let ?m = "propose_auto_merge env le pe holds mine pr head merge_state proven m"
  show ?case
  proof (cases "mc_merges ?m = mc_merges m")
    case False
    then have gate: "landing_merge_gate env le (mc_merges m) pr = Inr ()" "landing_merge_groups env pr \<noteq> []"
      "mc_merges ?m = upsert_merge pr InFlight (mc_merges m)"
      using propose_merges [of env le pe holds mine pr head merge_state proven m] by blast+
    have "exclusive env (insert pr (fst ` set (mc_merges m)))"
      using propose.IH gate_exclusive [OF gate(1, 2)] by (intro exclusive_insert) auto
    then show ?thesis
      unfolding gate(3) using propose.IH upsert_merge_keys [where pr = pr and s = InFlight and merges = "mc_merges m"]
        exclusive_subset by blast
  qed (use propose in simp)
next
  case (finished m cancelled pr s)
  then show ?case
    using finished_keys [where cancelled = cancelled and pr = pr and s = s and merges = "mc_merges m"]
    by (simp add: exclusive_subset [of env "fst ` set (mc_merges m)"])
qed

text \<open>
  C15. The landing lock excludes: however proposals and the ends of off-loop merges follow each other,
  two distinct pull requests that hold a landing reservation at the same time never share a project
  group, and no pull request is reserved twice.
\<close>

theorem landing_reservations_are_exclusive:
  assumes "merge_reach env m" "x \<in> fst ` set (mc_merges m)" "y \<in> fst ` set (mc_merges m)" "x \<noteq> y"
  shows "set (landing_merge_groups env x) \<inter> set (landing_merge_groups env y) = {} \<and> distinct (map fst (mc_merges m))"
  using merge_reach_exclusive [OF assms(1)] assms(2-) unfolding exclusive_def by blast

text \<open>Two repositories in two groups, both landing: the second proposal goes through beside the first.\<close>

definition two_groups :: review_env where
  "two_groups = demo_review_env\<lparr>re_eff := Some \<lparr>ef_projects =
     [\<lparr>pj_slug = ''p'', pj_group = ''g'', pj_repo = ''r'', pj_disabled = False, pj_landing = True\<rparr>,
      \<lparr>pj_slug = ''q'', pj_group = ''k'', pj_repo = ''s'', pj_disabled = False, pj_landing = True\<rparr>], ef_cfg_repo = []\<rparr>,
     re_parse_repo := (\<lambda>u. Some (''o'', u))\<rparr>"

definition demo_second_pr :: pr_coord where "demo_second_pr = demo_pr\<lparr>pr_repo := ''s''\<rparr>"

definition demo_reservations :: merge_ctl where
  "demo_reservations =
     propose_auto_merge two_groups quiet_landings merging (ledger_run [BeginPass True]) [we_row (demo_row ''approved'' ''h2'' True)]
       demo_second_pr ''h2'' ''CLEAN'' [''h2'']
       (propose_auto_merge two_groups quiet_landings merging (ledger_run [BeginPass True]) [we_row (demo_row ''approved'' ''h2'' True)]
         demo_pr ''h2'' ''CLEAN'' [''h2''] merge_ctl_empty)"

lemma demo_reservations_merges: "map fst (mc_merges demo_reservations) = [demo_second_pr, demo_pr]"
  by code_simp

theorem landing_reservations_are_exclusive_witness:
  "map fst (mc_merges demo_reservations) = [demo_second_pr, demo_pr] \<and>
   set (landing_merge_groups two_groups demo_pr) \<inter> set (landing_merge_groups two_groups demo_second_pr) = {}"
proof -
  have "merge_reach two_groups demo_reservations"
    unfolding demo_reservations_def by (intro merge_reach.intros)
  moreover have "fst ` set (mc_merges demo_reservations) = {demo_second_pr, demo_pr}"
    using demo_reservations_merges by (metis list.set(1, 2) list.set_map)
  moreover have "demo_pr \<noteq> demo_second_pr" by (simp add: demo_second_pr_def demo_pr_def)
  ultimately show ?thesis
    using landing_reservations_are_exclusive [of two_groups demo_reservations demo_pr demo_second_pr] demo_reservations_merges
    by simp
qed

end
