(* ===== verification/Review_Evidence.thy ===== *)
theory Review_Evidence
  imports Review_Loop
begin

text \<open>
  The evidence ledger of a review loop (\<^verbatim>\<open>crates/orchestrator/src/reviewevidence.rs\<close>, and
  \<open>record_review_evidence\<close> of \<^verbatim>\<open>reviewwatch.rs\<close>): the fingerprint of everything a decision was based on,
  the revision that counts its changes, and the predicate that an approval is about the current patch.
\<close>

section \<open>Model\<close>

record evidence_watch_row =
  ew_reviewer :: string
  ew_status :: string
  ew_requested_sha :: string
  ew_last_reviewed_sha :: string
  ew_last_completed :: "review_completed option"

definition evidence_row_of :: "review_watch_row \<Rightarrow> review_completed option \<Rightarrow> evidence_watch_row" where
  "evidence_row_of row completed =
     \<lparr>ew_reviewer = wk_reviewer (ww_key row), ew_status = ww_status row, ew_requested_sha = ww_requested_sha row,
      ew_last_reviewed_sha = ww_last_reviewed_sha row, ew_last_completed = completed\<rparr>"

record evidence_inputs =
  ev_head_sha :: string
  ev_watch_rows :: "evidence_watch_row list"
  ev_findings :: "string list"
  ev_human_hold :: "bool option"
  ev_draft :: "bool option"
  ev_conflict :: "bool option"
  ev_ci :: "string option"
  ev_generation :: int
  ev_marked_comments :: "string list"
  ev_ticket_state :: string

definition ordered_watch_rows :: "evidence_inputs \<Rightarrow> evidence_watch_row list" where
  "ordered_watch_rows i = sort_key ew_reviewer (ev_watch_rows i)"

definition NUL :: char where "NUL = CHR 0x00"
definition NL :: char where "NL = CHR 0x0A"

definition option_bool :: "bool option \<Rightarrow> string" where
  "option_bool v = (case v of None \<Rightarrow> ''unobserved'' | Some True \<Rightarrow> ''true'' | Some False \<Rightarrow> ''false'')"

definition hold_text :: "bool option \<Rightarrow> string" where
  "hold_text v = (case v of None \<Rightarrow> ''unread'' | Some True \<Rightarrow> ''held'' | Some False \<Rightarrow> ''clear'')"

definition ci_text :: "string option \<Rightarrow> string" where
  "ci_text v = (case v of None \<Rightarrow> ''unobserved'' | Some s \<Rightarrow> s)"

definition completed_text :: "review_completed option \<Rightarrow> string" where
  "completed_text c =
     (case c of
        None \<Rightarrow> ''completed=none''
      | Some d \<Rightarrow> ''completed='' @ show_int (rv_generation d) @ NUL # rv_sha d @ NUL # rv_patch_id d @ NUL # rv_verdict d)"

definition row_text :: "evidence_watch_row \<Rightarrow> string" where
  "row_text r =
     ''row='' @ ew_reviewer r @ NUL # ew_status r @ NUL # ew_requested_sha r @ NUL # ew_last_reviewed_sha r @ NUL #
     completed_text (ew_last_completed r)"

definition finding_text :: "string \<Rightarrow> string" where
  "finding_text f = ''finding='' @ f"

definition evidence_fingerprint :: "evidence_inputs \<Rightarrow> string" where
  "evidence_fingerprint i =
     ''head='' @ ev_head_sha i @ NUL #
     ''generation='' @ show_int (ev_generation i) @ NUL #
     ''hold='' @ hold_text (ev_human_hold i) @ NUL #
     ''draft='' @ option_bool (ev_draft i) @ NUL #
     ''conflict='' @ option_bool (ev_conflict i) @ NUL #
     ''ci='' @ ci_text (ev_ci i) @ NUL #
     concat (map (\<lambda>r. row_text r @ [NL]) (ordered_watch_rows i)) @
     concat (map (\<lambda>f. finding_text f @ [NL]) (ev_findings i))"

text \<open>\<open>i64::saturating_add(1)\<close>.\<close>

definition saturating_succ :: "int \<Rightarrow> int" where
  "saturating_succ n = min (n + 1) (2 ^ 63 - 1)"

definition next_evidence_rev :: "string option \<Rightarrow> int \<Rightarrow> string \<Rightarrow> int" where
  "next_evidence_rev previous current_rev new_fingerprint =
     (case previous of
        None \<Rightarrow> current_rev
      | Some prev \<Rightarrow> if prev = new_fingerprint then current_rev else saturating_succ current_rev)"

definition completion_approved_at_current_patch :: "review_completed option \<Rightarrow> int \<Rightarrow> string \<Rightarrow> bool" where
  "completion_approved_at_current_patch completed current_generation current_patch_id =
     (case completed of
        None \<Rightarrow> False
      | Some d \<Rightarrow>
          rv_verdict d = REVIEW_COMPLETION_APPROVE \<and> rv_patch_id d \<noteq> [] \<and> current_patch_id \<noteq> [] \<and>
          rv_patch_id d = current_patch_id \<and> rv_generation d = current_generation)"

record finding_row =
  fr_pr :: string
  fr_generation :: int
  fr_reviewer :: string
  fr_finding_id :: string
  fr_revision :: int
  fr_status :: string

definition finding_token :: "finding_row \<Rightarrow> string" where
  "finding_token f =
     fr_pr f @ ''|'' @ show_int (fr_generation f) @ ''|'' @ fr_reviewer f @ ''|'' @ fr_finding_id f @ ''|'' @
     show_int (fr_revision f) @ ''|'' @ fr_status f"

text \<open>
  The control task's maintenance of the revision. \<open>memo\<close> is the in-memory fingerprint and revision per
  pull request; \<open>findings\<close> is the store's answer, \<open>None\<close> a failed read.
\<close>

definition record_review_evidence ::
  "review_env \<Rightarrow> store_faults \<Rightarrow> human_hold_state \<Rightarrow> finding_row list option \<Rightarrow> pr_coord \<Rightarrow> review_watch_row list
    \<Rightarrow> string \<Rightarrow> bool option \<Rightarrow> bool option \<Rightarrow> (pr_coord \<Rightarrow> (string \<times> int) option) \<Rightarrow> review_store
    \<Rightarrow> (pr_coord \<Rightarrow> (string \<times> int) option) \<times> review_store" where
  "record_review_evidence env flt holds findings pr rows head draft conflict memo st =
     (if \<not> re_ticketless env \<or> sf_bound flt then (memo, st)
      else case findings of
          None \<Rightarrow> (memo, st)
        | Some fs \<Rightarrow>
            (let ck = churn_key pr;
                 mine = filter (\<lambda>r. row_is r pr) rows;
                 (generation, durable_rev) =
                   (case st_bounds st ck of None \<Rightarrow> (0, 0) | Some b \<Rightarrow> (bd_generation b, bd_evidence_rev b));
                 (labelled, primed) = labelled_and_primed holds;
                 held = list_ex (\<lambda>row. case origin_ticket (re_text env) (ww_introduced_by row) of
                                         None \<Rightarrow> False | Some t \<Rightarrow> to_ascii_lowercase t \<in> labelled) mine;
                 inputs = \<lparr>ev_head_sha = head,
                           ev_watch_rows = map (\<lambda>r. evidence_row_of r (review_completed_of (ww_key r) st)) mine,
                           ev_findings = map finding_token fs,
                           ev_human_hold = (if primed then Some held else None),
                           ev_draft = draft, ev_conflict = conflict, ev_ci = None, ev_generation = generation,
                           ev_marked_comments = [], ev_ticket_state = []\<rparr>;
                 fingerprint = evidence_fingerprint inputs;
                 (prev, current_rev) =
                   (case memo pr of
                      Some (fp, r) \<Rightarrow> (if fp = [] then None else Some fp, r)
                    | None \<Rightarrow> (None, durable_rev));
                 next_rev = next_evidence_rev prev current_rev fingerprint
             in if list_ex (\<lambda>r. sf_get flt (ww_key r)) mine then (memo, st)
                else (memo(pr \<mapsto> (fingerprint, next_rev)),
                      if next_rev \<noteq> current_rev then set_review_evidence_rev ck next_rev st else st)))"

section \<open>Decimal rendering is injective\<close>

definition digits_val :: "string \<Rightarrow> nat" where
  "digits_val s = foldl (\<lambda>v c. v * 10 + (of_char c - 48)) 0 s"

lemma digit_char: "n < 10 \<Longrightarrow> of_char (char_of (48 + n) :: char) = (48 + n :: nat)"
  by (simp add: of_char_of)

lemma digits_val_show: "digits_val (show_nat n) = n"
proof (induction n rule: show_nat.induct)
  case (1 n)
  show ?case
  proof (cases "n < 10")
    case True
    then show ?thesis by (subst show_nat.simps) (simp add: digits_val_def digit_char)
  next
    case False
    then show ?thesis
      using 1 [OF False] by (subst show_nat.simps) (simp add: digits_val_def digit_char)
  qed
qed

lemma show_nat_digits: "c \<in> set (show_nat n) \<Longrightarrow> 48 \<le> byte_val c \<and> byte_val c \<le> 57"
proof (induction n rule: show_nat.induct)
  case (1 n)
  show ?case
  proof (cases "n < 10")
    case True
    then show ?thesis using 1(2) by (subst (asm) show_nat.simps) (simp add: byte_val_def digit_char)
  next
    case False
    then show ?thesis
      using 1(1) [OF False] 1(2) by (subst (asm) show_nat.simps) (auto simp: byte_val_def digit_char)
  qed
qed

lemma show_nat_inj: "show_nat m = show_nat n \<Longrightarrow> m = n"
  by (metis digits_val_show)

lemma show_int_chars: "c \<in> set (show_int i) \<Longrightarrow> c = CHR ''-'' \<or> 48 \<le> byte_val c \<and> byte_val c \<le> 57"
  by (auto simp: show_int_def dest: show_nat_digits split: if_splits)

lemma show_int_inj: "show_int i = show_int j \<longleftrightarrow> i = j"
proof
  assume eq: "show_int i = show_int j"
  have minus: "CHR ''-'' # s \<noteq> show_nat n" for s n
  proof
    assume "CHR ''-'' # s = show_nat n"
    then have "CHR ''-'' \<in> set (show_nat n)" by (metis list.set_intros(1))
    then show False using show_nat_digits [of "CHR ''-''" n] by (simp add: byte_val_def)
  qed
  show "i = j"
    using eq minus minus [symmetric]
    by (auto simp: show_int_def dest!: show_nat_inj split: if_splits)
qed simp

lemma show_int_plain: "NUL \<notin> set (show_int i)" "NL \<notin> set (show_int i)"
  using show_int_chars [of NUL i] show_int_chars [of NL i] by (auto simp: NUL_def NL_def byte_val_def)

section \<open>The fingerprint is exact\<close>

text \<open>
  The documented assumption on the inputs: every rendered field is a single line without a NUL, and a
  CI state is not spelled like its absence.
\<close>

definition plain :: "string \<Rightarrow> bool" where
  "plain s \<longleftrightarrow> NUL \<notin> set s \<and> NL \<notin> set s"

definition completed_plain :: "review_completed option \<Rightarrow> bool" where
  "completed_plain c \<longleftrightarrow>
     (case c of None \<Rightarrow> True | Some d \<Rightarrow> plain (rv_sha d) \<and> plain (rv_patch_id d) \<and> plain (rv_verdict d))"

definition row_plain :: "evidence_watch_row \<Rightarrow> bool" where
  "row_plain r \<longleftrightarrow>
     plain (ew_reviewer r) \<and> plain (ew_status r) \<and> plain (ew_requested_sha r) \<and> plain (ew_last_reviewed_sha r) \<and>
     completed_plain (ew_last_completed r)"

definition inputs_plain :: "evidence_inputs \<Rightarrow> bool" where
  "inputs_plain i \<longleftrightarrow>
     plain (ev_head_sha i) \<and> list_all row_plain (ev_watch_rows i) \<and> list_all plain (ev_findings i) \<and>
     (case ev_ci i of None \<Rightarrow> True | Some s \<Rightarrow> plain s \<and> s \<noteq> ''unobserved'') \<and>
     distinct (map ew_reviewer (ev_watch_rows i))"

lemma cut_at:
  assumes "c \<notin> set a" "c \<notin> set b"
  shows "a @ c # x = b @ c # y \<longleftrightarrow> a = b \<and> x = y"
  using assms
proof (induction a arbitrary: b)
  case Nil
  then show ?case by (cases b) auto
next
  case (Cons d a)
  then show ?case by (cases b) auto
qed

lemma cut_never: "c \<notin> set a \<Longrightarrow> a \<noteq> b @ c # y"
  by auto

lemma texts_plain:
  "NUL \<notin> set (hold_text h)" "NUL \<notin> set (option_bool b)"
  by (auto simp: hold_text_def option_bool_def NUL_def split: option.split bool.split)

lemma texts_inj:
  "hold_text h = hold_text h' \<longleftrightarrow> h = h'" "option_bool b = option_bool b' \<longleftrightarrow> b = b'"
  by (auto simp: hold_text_def option_bool_def split: option.splits bool.splits)

lemma completed_text_inj:
  assumes "completed_plain c" "completed_plain d"
  shows "completed_text c = completed_text d \<longleftrightarrow> c = d"
proof -
  have none: "''none'' \<noteq> show_int n @ NUL # x" for n x
    by (rule cut_never) (simp add: NUL_def)
  show ?thesis
    using assms none none [symmetric]
    by (cases c; cases d) (auto simp: completed_text_def completed_plain_def plain_def cut_at show_int_plain show_int_inj)
qed

lemma row_text_inj:
  assumes "row_plain r" "row_plain s"
  shows "row_text r = row_text s \<longleftrightarrow> r = s"
  using assms by (auto simp: row_text_def row_plain_def plain_def cut_at completed_text_inj)

lemma row_text_line: "row_plain r \<Longrightarrow> NL \<notin> set (row_text r)"
  by (auto simp: row_text_def row_plain_def plain_def completed_text_def completed_plain_def
      show_int_plain [unfolded NL_def NUL_def] NL_def NUL_def split: option.splits)

lemma finding_text_line: "plain f \<Longrightarrow> NL \<notin> set (finding_text f)"
  by (auto simp: finding_text_def plain_def NL_def)

lemma lines_inj:
  assumes "\<forall>l \<in> set ls. NL \<notin> set l" "\<forall>l \<in> set ks. NL \<notin> set l"
    "concat (map (\<lambda>l. l @ [NL]) ls) = concat (map (\<lambda>l. l @ [NL]) ks)"
  shows "ls = ks"
  using assms
proof (induction ls arbitrary: ks)
  case Nil
  then show ?case by (cases ks) auto
next
  case (Cons l ls)
  then obtain k ks' where ks: "ks = k # ks'" by (cases ks) auto
  then have "l = k \<and> concat (map (\<lambda>l. l @ [NL]) ls) = concat (map (\<lambda>l. l @ [NL]) ks')"
    using Cons.prems cut_at [of NL l k] by simp
  then show ?case using Cons.IH [of ks'] Cons.prems(1, 2) ks by simp
qed

lemma tagged_inj:
  assumes "\<And>x. x \<in> set as \<union> set as' \<Longrightarrow> hd x = t" "\<And>x. x \<in> set bs \<union> set bs' \<Longrightarrow> hd x \<noteq> t" "as @ bs = as' @ bs'"
  shows "as = as' \<and> bs = bs'"
  using assms
proof (induction as arbitrary: as')
  case Nil
  then show ?case by (cases as') auto
next
  case (Cons a as)
  then obtain a' as'' where "as' = a' # as''" by (cases as') fastforce+
  with Cons show ?case by auto
qed

lemma sorted_rows_eq:
  assumes "distinct (map ew_reviewer rs)" "distinct (map ew_reviewer ss)"
  shows "sort_key ew_reviewer rs = sort_key ew_reviewer ss \<longleftrightarrow> set rs = set ss"
proof
  assume "sort_key ew_reviewer rs = sort_key ew_reviewer ss"
  then have "set (sort_key ew_reviewer rs) = set (sort_key ew_reviewer ss)" by simp
  then show "set rs = set ss" by simp
next
  assume "set rs = set ss"
  then show "sort_key ew_reviewer rs = sort_key ew_reviewer ss"
    using assms by (intro map_sorted_distinct_set_unique [of ew_reviewer]) (auto simp: distinct_map inj_on_def)
qed

lemma fingerprint_parts:
  assumes "inputs_plain i" "inputs_plain j" "evidence_fingerprint i = evidence_fingerprint j"
  shows "ev_head_sha i = ev_head_sha j \<and> ev_generation i = ev_generation j \<and> ev_human_hold i = ev_human_hold j \<and>
    ev_draft i = ev_draft j \<and> ev_conflict i = ev_conflict j \<and> ev_ci i = ev_ci j \<and>
    concat (map (\<lambda>l. l @ [NL]) (map row_text (ordered_watch_rows i) @ map finding_text (ev_findings i))) =
    concat (map (\<lambda>l. l @ [NL]) (map row_text (ordered_watch_rows j) @ map finding_text (ev_findings j)))"
proof -
  have ci: "NUL \<notin> set (ci_text (ev_ci i))" "NUL \<notin> set (ci_text (ev_ci j))"
    using assms(1, 2) by (auto simp: inputs_plain_def ci_text_def plain_def NUL_def split: option.splits)
  have ci_eq: "ci_text (ev_ci i) = ci_text (ev_ci j) \<Longrightarrow> ev_ci i = ev_ci j"
    using assms(1, 2) by (auto simp: inputs_plain_def ci_text_def split: option.splits)
  have head: "NUL \<notin> set (ev_head_sha i)" "NUL \<notin> set (ev_head_sha j)"
    using assms(1, 2) by (auto simp: inputs_plain_def plain_def)
  show ?thesis
    using assms(3) ci_eq
    by (simp add: evidence_fingerprint_def cut_at head ci texts_plain texts_inj show_int_plain show_int_inj comp_def)
qed

definition same_evidence :: "evidence_inputs \<Rightarrow> evidence_inputs \<Rightarrow> bool" where
  "same_evidence i j \<longleftrightarrow>
     ev_head_sha i = ev_head_sha j \<and> ev_generation i = ev_generation j \<and> ev_human_hold i = ev_human_hold j \<and>
     ev_draft i = ev_draft j \<and> ev_conflict i = ev_conflict j \<and> ev_ci i = ev_ci j \<and>
     set (ev_watch_rows i) = set (ev_watch_rows j) \<and> ev_findings i = ev_findings j"

lemma fingerprint_same:
  assumes "inputs_plain i" "inputs_plain j" "same_evidence i j"
  shows "evidence_fingerprint i = evidence_fingerprint j"
proof -
  have "ordered_watch_rows i = ordered_watch_rows j"
    using assms by (simp add: ordered_watch_rows_def inputs_plain_def same_evidence_def sorted_rows_eq)
  then show ?thesis using assms(3) by (simp add: evidence_fingerprint_def same_evidence_def)
qed

lemma fingerprint_lines:
  assumes "inputs_plain i" "inputs_plain j"
    and "concat (map (\<lambda>l. l @ [NL]) (map row_text (ordered_watch_rows i) @ map finding_text (ev_findings i))) =
      concat (map (\<lambda>l. l @ [NL]) (map row_text (ordered_watch_rows j) @ map finding_text (ev_findings j)))"
  shows "set (ev_watch_rows i) = set (ev_watch_rows j) \<and> ev_findings i = ev_findings j"
proof -
  have plain_rows: "\<forall>r \<in> set (ordered_watch_rows k). row_plain r" "\<forall>f \<in> set (ev_findings k). plain f" if "inputs_plain k" for k
    using that by (simp_all add: inputs_plain_def ordered_watch_rows_def list_all_iff)
  have no_newline: "\<forall>l \<in> set (map row_text (ordered_watch_rows k) @ map finding_text (ev_findings k)). NL \<notin> set l"
    if "inputs_plain k" for k
    using plain_rows [OF that] by (auto dest: row_text_line finding_text_line)
  have "map row_text (ordered_watch_rows i) @ map finding_text (ev_findings i) =
      map row_text (ordered_watch_rows j) @ map finding_text (ev_findings j)"
    by (rule lines_inj [OF no_newline [OF assms(1)] no_newline [OF assms(2)] assms(3)])
  then have "map row_text (ordered_watch_rows i) = map row_text (ordered_watch_rows j) \<and>
      map finding_text (ev_findings i) = map finding_text (ev_findings j)"
    by (rule tagged_inj [where t = "CHR ''r''", rotated 2]) (auto simp: row_text_def finding_text_def)
  moreover have "inj_on row_text (set (ordered_watch_rows i) \<union> set (ordered_watch_rows j))"
    using plain_rows(1) [OF assms(1)] plain_rows(1) [OF assms(2)] by (auto simp: inj_on_def row_text_inj)
  moreover have "inj finding_text" by (simp add: inj_on_def finding_text_def)
  ultimately have "ordered_watch_rows i = ordered_watch_rows j" "ev_findings i = ev_findings j"
    by (auto dest: map_inj_on injD [OF inj_mapI])
  moreover from this have "set (ordered_watch_rows i) = set (ordered_watch_rows j)" by simp
  then have "set (ev_watch_rows i) = set (ev_watch_rows j)"
    by (simp add: ordered_watch_rows_def)
  ultimately show ?thesis by blast
qed

text \<open>
  The evidence revision counts exactly the changes of the evidence. On inputs whose fields are
  single lines without a NUL, whose reviewers are distinct and whose CI state is not the very text
  \<open>unobserved\<close>, two observations have the same
  fingerprint if and only if they agree on the head, the generation, the hold, the draft, conflict and
  CI observations, the set of watch rows with their completed reviews, and the findings list; the order
  of the rows, marked comments and the ticket's state make no difference. The revision keeps its value
  on an equal observation and otherwise moves to its saturating successor.
\<close>

theorem evidence_revision_is_exact:
  assumes "inputs_plain i" "inputs_plain j"
  shows "(evidence_fingerprint i = evidence_fingerprint j \<longleftrightarrow> same_evidence i j) \<and>
    next_evidence_rev (Some (evidence_fingerprint i)) current_rev (evidence_fingerprint j) =
      (if same_evidence i j then current_rev else min (current_rev + 1) (2 ^ 63 - 1))"
proof -
  have "same_evidence i j" if "evidence_fingerprint i = evidence_fingerprint j"
    using fingerprint_parts [OF assms that] fingerprint_lines [OF assms] by (simp add: same_evidence_def)
  then show ?thesis
    using fingerprint_same [OF assms] by (auto simp: next_evidence_rev_def saturating_succ_def)
qed

definition demo_inputs :: "string \<Rightarrow> evidence_inputs" where
  "demo_inputs head =
     \<lparr>ev_head_sha = head,
      ev_watch_rows = [\<lparr>ew_reviewer = ''a'', ew_status = ''approved'', ew_requested_sha = ''h1'', ew_last_reviewed_sha = ''h1'',
        ew_last_completed = None\<rparr>],
      ev_findings = [''f''], ev_human_hold = Some False, ev_draft = None, ev_conflict = None, ev_ci = None,
      ev_generation = 1, ev_marked_comments = [], ev_ticket_state = []\<rparr>"

theorem evidence_revision_is_exact_witness:
  "next_evidence_rev (Some (evidence_fingerprint (demo_inputs ''h1''))) 4 (evidence_fingerprint (demo_inputs ''h2'')) = 5 \<and>
   next_evidence_rev (Some (evidence_fingerprint (demo_inputs ''h1''))) 4
     (evidence_fingerprint ((demo_inputs ''h1'')\<lparr>ev_ticket_state := ''Done''\<rparr>)) = 4"
proof -
  have ok: "inputs_plain (demo_inputs ''h1'')" "inputs_plain (demo_inputs ''h2'')"
    "inputs_plain ((demo_inputs ''h1'')\<lparr>ev_ticket_state := ''Done''\<rparr>)"
    by (simp_all add: inputs_plain_def demo_inputs_def plain_def row_plain_def completed_plain_def NUL_def NL_def)
  have "\<not> same_evidence (demo_inputs ''h1'') (demo_inputs ''h2'')"
    "same_evidence (demo_inputs ''h1'') ((demo_inputs ''h1'')\<lparr>ev_ticket_state := ''Done''\<rparr>)"
    by (simp_all add: same_evidence_def demo_inputs_def)
  then show ?thesis
    using conjunct2 [OF evidence_revision_is_exact [OF ok(1, 2), of 4]]
      conjunct2 [OF evidence_revision_is_exact [OF ok(1, 3), of 4]] by simp
qed

end
