(* ===== verification/Credential_Ipc.thy ===== *)
theory Credential_Ipc
  imports Credential
begin

text \<open>
  The vocabulary, the framing and the session state machine of the authenticated credential channel
  between the desktop application and the daemon (\<^verbatim>\<open>crates/credential-ipc/src\<close>: \<^verbatim>\<open>domain.rs\<close>,
  \<^verbatim>\<open>bounds.rs\<close>, \<^verbatim>\<open>wire.rs\<close>, \<^verbatim>\<open>session.rs\<close>, \<^verbatim>\<open>token.rs\<close>).

  A message is turned into bytes and back by \<^verbatim>\<open>serde_json\<close>: the encoder \<open>enc\<close> and the decoder \<open>dec\<close> are
  parameters, and \<open>round_trips\<close> states what the code relies on, that decoding an encoded message gives
  it back. A stream is what its reader can still see of it: the bytes that have arrived and whether the
  peer has closed it, it has failed, or it is merely silent; a reader that must wait for more bytes has
  the result \<open>None\<close>.
\<close>

section \<open>Accounts and bindings\<close>

definition is_ascii_lowercase :: "byte \<Rightarrow> bool" where
  "is_ascii_lowercase c \<longleftrightarrow> 97 \<le> byte_val c \<and> byte_val c \<le> 122"

definition is_id_byte :: "byte \<Rightarrow> bool" where
  "is_id_byte b \<longleftrightarrow> is_ascii_lowercase b \<or> is_ascii_digit b \<or> b = CHR ''-'' \<or> b = CHR ''_''"

definition valid_provider_id :: "string \<Rightarrow> bool" where
  "valid_provider_id i \<longleftrightarrow> i \<noteq> [] \<and> length i \<le> 64 \<and> list_all is_id_byte i \<and> is_ascii_lowercase (hd i)"

definition ONEPASSWORD_ACCOUNT_PREFIX :: string where
  "ONEPASSWORD_ACCOUNT_PREFIX = ''op:v1:''"

text \<open>A credential reference is its derived account string; the error carries the refused id.\<close>

record credential_ref =
  cr_account :: string

definition for_provider :: "string \<Rightarrow> (string, credential_ref) result" where
  "for_provider provider_id =
     (if \<not> valid_provider_id provider_id then Inl provider_id
      else Inr \<lparr>cr_account = ''v1:'' @ provider_id\<rparr>)"

definition for_onepassword :: "string \<Rightarrow> (string, credential_ref) result" where
  "for_onepassword i =
     (if \<not> valid_provider_id i then Inl i
      else Inr \<lparr>cr_account = ONEPASSWORD_ACCOUNT_PREFIX @ i\<rparr>)"

definition strip_account_prefix :: "string \<Rightarrow> string \<Rightarrow> string option" where
  "strip_account_prefix p s = (if starts_with s p then Some (drop (length p) s) else None)"

definition is_valid_credential_account :: "string \<Rightarrow> bool" where
  "is_valid_credential_account account =
     (case strip_account_prefix ONEPASSWORD_ACCOUNT_PREFIX account of
        Some i \<Rightarrow> is_ok (for_onepassword i)
      | None \<Rightarrow>
          (case strip_account_prefix ''v1:'' account of
             Some i \<Rightarrow> is_ok (for_provider i)
           | None \<Rightarrow> False))"

record binding =
  bd_provider_id :: string
  bd_adapter :: string
  bd_base_url :: string

type_synonym revision = u64

definition INITIAL :: revision where "INITIAL = 0"

definition revision_next :: "revision \<Rightarrow> revision" where "revision_next r = r + 1"

definition OPENAI_CHAT_COMPLETIONS_BEARER_V1 :: string where
  "OPENAI_CHAT_COMPLETIONS_BEARER_V1 = ''openai-chat-completions-bearer-v1''"

definition broker_protocol_for_adapter :: "string \<Rightarrow> broker_protocol option" where
  "broker_protocol_for_adapter adapter =
     (if adapter = OPENAI_CHAT_COMPLETIONS_BEARER_V1 then Some OpenAiChatCompletions else None)"

text \<open>The desktop's lease, before it becomes the broker's \<open>bound_lease\<close>.\<close>

record credential_lease =
  le_binding :: binding
  le_value :: string

definition into_broker_lease :: "(bytes \<Rightarrow> bytes) \<Rightarrow> credential_lease \<Rightarrow> (broker_error, bound_lease) result" where
  "into_broker_lease sha256 l =
     and_then (ok_or (broker_protocol_for_adapter (bd_adapter (le_binding l))) InvalidBinding) (\<lambda>protocol.
     and_then (credential_binding_new (bd_provider_id (le_binding l)) protocol (bd_base_url (le_binding l))) (\<lambda>b.
       bound_lease_new sha256 b (le_value l)))"

datatype credential_state =
    Present credential_lease
  | Absent
  | DeniedOrLocked
  | Malformed
  | BindingMismatch
  | OwnerUnavailable
  | OwnerUnauthorized

datatype credential_state_tag =
  TPresent | TAbsent | TDeniedOrLocked | TMalformed | TBindingMismatch | TOwnerUnavailable | TOwnerUnauthorized

fun state_tag :: "credential_state \<Rightarrow> credential_state_tag" where
  "state_tag (Present l) = TPresent"
| "state_tag Absent = TAbsent"
| "state_tag DeniedOrLocked = TDeniedOrLocked"
| "state_tag Malformed = TMalformed"
| "state_tag BindingMismatch = TBindingMismatch"
| "state_tag OwnerUnavailable = TOwnerUnavailable"
| "state_tag OwnerUnauthorized = TOwnerUnauthorized"

record credential_read =
  rd_revision :: revision
  rd_state :: credential_state

definition MAX_CREDENTIAL_ENVELOPE_BYTES :: nat where
  "MAX_CREDENTIAL_ENVELOPE_BYTES = 64 * 1024"

definition validate_envelope_size :: "string \<Rightarrow> (credential_rejection, unit) result" where
  "validate_envelope_size raw =
     (if length raw > MAX_CREDENTIAL_ENVELOPE_BYTES then Inl CredTooLong else Inr ())"

section \<open>Messages and frames\<close>

record lease_payload =
  lp_binding :: binding
  lp_value :: string

definition into_lease_payload :: "credential_lease \<Rightarrow> lease_payload" where
  "into_lease_payload l = \<lparr>lp_binding = le_binding l, lp_value = le_value l\<rparr>"

record bootstrap_message =
  bm_token :: string
  bm_socket_path :: string

record hello_frame =
  hf_token :: string

datatype client_frame = ReadBound (cf_seq: u64) (cf_account: string) (cf_expected: binding)

datatype server_frame =
    ReadBoundResult (sf_seq: u64) (sf_revision: revision) (sf_state: credential_state_tag) (sf_lease: "lease_payload option")
  | RevisionChanged (sf_seq: u64) (sf_revision: revision)

definition MAX_FRAME_BYTES :: u32 where "MAX_FRAME_BYTES = 64 * 1024"

datatype io_kind = UnexpectedEof | ConnectionReset | BrokenPipe | OtherIo

datatype frame_error = Io io_kind | TooLarge u32 u32 | Eof | Decode

datatype stream_end = Closed | Failed io_kind | Silent

record stream =
  arrived :: bytes
  ending :: stream_end

definition to_be_bytes :: "u32 \<Rightarrow> bytes" where
  "to_be_bytes n = map (\<lambda>k. char_of (unat (drop_bit k n))) [24, 16, 8, 0]"

definition from_be_bytes :: "bytes \<Rightarrow> u32" where
  "from_be_bytes bs = foldl (\<lambda>n b. n * 256 + of_nat (byte_val b)) 0 bs"

text \<open>
  \<^verbatim>\<open>read_exact\<close> of \<open>n\<close> bytes: what it returned with what is left, or \<open>None\<close> when it is still waiting.
\<close>

definition read_exact :: "nat \<Rightarrow> stream \<Rightarrow> ((io_kind, bytes) result \<times> stream) option" where
  "read_exact n s =
     (if n \<le> length (arrived s) then Some (Inr (take n (arrived s)), s\<lparr>arrived := drop n (arrived s)\<rparr>)
      else case ending s of
          Closed \<Rightarrow> Some (Inl UnexpectedEof, s\<lparr>arrived := []\<rparr>)
        | Failed e \<Rightarrow> Some (Inl e, s\<lparr>arrived := []\<rparr>)
        | Silent \<Rightarrow> None)"

text \<open>
  \<open>fault\<close> is the write error, if any: how many bytes went out before it, and its kind. The second
  component is what reached the stream.
\<close>

definition write_frame ::
  "('m \<Rightarrow> bytes option) \<Rightarrow> (nat \<times> io_kind) option \<Rightarrow> 'm \<Rightarrow> (frame_error, unit) result \<times> bytes" where
  "write_frame enc fault msg =
     (case enc msg of
        None \<Rightarrow> (Inl Decode, [])
      | Some body \<Rightarrow>
          if 2 ^ 32 \<le> length body then (Inl (TooLarge 0xFFFFFFFF MAX_FRAME_BYTES), [])
          else (let len = of_nat (length body) in
            if len > MAX_FRAME_BYTES then (Inl (TooLarge len MAX_FRAME_BYTES), [])
            else (case fault of
                None \<Rightarrow> (Inr (), to_be_bytes len @ body)
              | Some (n, e) \<Rightarrow> (Inl (Io e), take n (to_be_bytes len @ body)))))"

definition read_frame ::
  "(bytes \<Rightarrow> 'm option) \<Rightarrow> stream \<Rightarrow> ((frame_error, 'm) result \<times> stream) option" where
  "read_frame dec s =
     (case read_exact 4 s of
        None \<Rightarrow> None
      | Some (Inl e, s') \<Rightarrow> Some (Inl (if e = UnexpectedEof then Eof else Io e), s')
      | Some (Inr len_buf, s') \<Rightarrow>
          (let len = from_be_bytes len_buf in
           if len > MAX_FRAME_BYTES then Some (Inl (TooLarge len MAX_FRAME_BYTES), s')
           else case read_exact (unat len) s' of
               None \<Rightarrow> None
             | Some (Inl e, s'') \<Rightarrow> Some (Inl (Io e), s'')
             | Some (Inr body, s'') \<Rightarrow>
                 Some (case dec body of None \<Rightarrow> Inl Decode | Some m \<Rightarrow> Inr m, s'')))"

definition round_trips :: "('m \<Rightarrow> bytes option) \<Rightarrow> (bytes \<Rightarrow> 'm option) \<Rightarrow> bool" where
  "round_trips enc dec \<longleftrightarrow> (\<forall>m b. enc m = Some b \<longrightarrow> dec b = Some m)"

section \<open>Bootstrap tokens\<close>

definition hex_digit :: "nat \<Rightarrow> char" where
  "hex_digit n = (if n < 10 then char_of (48 + n) else char_of (87 + n))"

text \<open>\<open>rnd\<close> stands for the 32 bytes of the operating system's generator.\<close>

definition generate :: "bytes \<Rightarrow> string" where
  "generate rnd = concat (map (\<lambda>b. [hex_digit (byte_val b div 16), hex_digit (byte_val b mod 16)]) rnd)"

section \<open>Sessions\<close>

definition byte_word :: "byte \<Rightarrow> 8 word" where "byte_word c = of_nat (byte_val c)"

definition constant_time_eq :: "string \<Rightarrow> string \<Rightarrow> bool" where
  "constant_time_eq a b =
     (if length a \<noteq> length b then False
      else fold (\<lambda>(x, y) diff. or diff (xor (byte_word x) (byte_word y))) (zip a b) 0 = 0)"

datatype session_error = NotAuthenticated | SessUnauthorized | OutOfOrder u64 u64

record server_session =
  ss_expected_token :: string
  ss_authenticated :: bool
  ss_expected_client_seq :: u64
  ss_next_server_seq :: u64

definition server_session_new :: "string \<Rightarrow> server_session" where
  "server_session_new token =
     \<lparr>ss_expected_token = token, ss_authenticated = False, ss_expected_client_seq = 1, ss_next_server_seq = 1\<rparr>"

definition accept_hello :: "string \<Rightarrow> server_session \<Rightarrow> (session_error, unit) result \<times> server_session" where
  "accept_hello presented s =
     (if ss_authenticated s then (Inl SessUnauthorized, s)
      else if \<not> constant_time_eq (ss_expected_token s) presented then (Inl SessUnauthorized, s)
      else (Inr (), s\<lparr>ss_authenticated := True\<rparr>))"

definition accept_client_seq :: "u64 \<Rightarrow> server_session \<Rightarrow> (session_error, unit) result \<times> server_session" where
  "accept_client_seq n s =
     (if \<not> ss_authenticated s then (Inl NotAuthenticated, s)
      else if n \<noteq> ss_expected_client_seq s then (Inl (OutOfOrder (ss_expected_client_seq s) n), s)
      else (Inr (), s\<lparr>ss_expected_client_seq := ss_expected_client_seq s + 1\<rparr>))"

definition server_next_seq :: "server_session \<Rightarrow> u64 \<times> server_session" where
  "server_next_seq s = (ss_next_server_seq s, s\<lparr>ss_next_server_seq := ss_next_server_seq s + 1\<rparr>)"

record client_session =
  cs_token :: string
  cs_next_client_seq :: u64
  cs_expected_server_seq :: u64

definition client_session_new :: "string \<Rightarrow> client_session" where
  "client_session_new token = \<lparr>cs_token = token, cs_next_client_seq = 1, cs_expected_server_seq = 1\<rparr>"

definition client_next_seq :: "client_session \<Rightarrow> u64 \<times> client_session" where
  "client_next_seq s = (cs_next_client_seq s, s\<lparr>cs_next_client_seq := cs_next_client_seq s + 1\<rparr>)"

definition accept_server_seq :: "u64 \<Rightarrow> client_session \<Rightarrow> (session_error, unit) result \<times> client_session" where
  "accept_server_seq n s =
     (if n \<noteq> cs_expected_server_seq s then (Inl (OutOfOrder (cs_expected_server_seq s) n), s)
      else (Inr (), s\<lparr>cs_expected_server_seq := cs_expected_server_seq s + 1\<rparr>))"

section \<open>Framing\<close>

lemma arrived_upd [simp]: "arrived (s\<lparr>arrived := a\<rparr>) = a" "ending (s\<lparr>arrived := a\<rparr>) = ending s"
  by simp_all

lemma byte_val_char_of [simp]: "byte_val (char_of n) = n mod 256"
  by (simp add: byte_val_def)

lemma unat_byte_of [simp]: "unat (drop_bit k n) = unat (n :: u32) div 2 ^ k"
  by (metis drop_bit_eq_div unat_drop_bit_eq)

lemma base_256:
  fixes n :: nat
  assumes "n < 2 ^ 32"
  shows "((n div 16777216 mod 256 * 256 + n div 65536 mod 256) * 256 + n div 256 mod 256) * 256 + n mod 256 = n"
proof -
  have steps: "n div 16777216 = n div 256 div 256 div 256" "n div 65536 = n div 256 div 256"
    by (simp_all add: div_mult2_eq [symmetric])
  have "n div 256 div 256 div 256 < 256" using assms by (simp add: div_mult2_eq [symmetric] less_mult_imp_div_less)
  then have "n div 256 div 256 div 256 mod 256 * 256 + n div 256 div 256 mod 256 = n div 256 div 256"
    by simp
  then show ?thesis unfolding steps by simp
qed

lemma from_to_be_bytes [simp]: "from_be_bytes (to_be_bytes n) = n"
proof -
  have "from_be_bytes (to_be_bytes n) =
      of_nat (((unat n div 16777216 mod 256 * 256 + unat n div 65536 mod 256) * 256 + unat n div 256 mod 256) * 256
        + unat n mod 256)"
    by (simp add: from_be_bytes_def to_be_bytes_def)
  also have "\<dots> = of_nat (unat n)" by (simp only: base_256 [OF unat_bound_u32])
  finally show ?thesis by simp
qed

lemma length_to_be_bytes [simp]: "length (to_be_bytes n) = 4"
  by (simp add: to_be_bytes_def)

lemma read_exact_append [simp]:
  "length a = n \<Longrightarrow> read_exact n \<lparr>arrived = a @ r, ending = e\<rparr> = Some (Inr a, \<lparr>arrived = r, ending = e\<rparr>)"
  by (simp add: read_exact_def)

text \<open>What \<open>write_frame\<close> put on the stream, in full and in error.\<close>

lemma write_frame_ok:
  "write_frame enc fault m = (Inr u, out) \<longleftrightarrow>
     (\<exists>body. enc m = Some body \<and> length body \<le> 65536 \<and> fault = None \<and> out = to_be_bytes (of_nat (length body)) @ body)"
proof -
  have "of_nat n > MAX_FRAME_BYTES \<longleftrightarrow> n > 65536" if "n < 2 ^ 32" for n
    using that by (simp add: MAX_FRAME_BYTES_def word_less_nat_alt unat_of_nat)
  then show ?thesis
    by (auto simp: write_frame_def Let_def split: option.splits if_splits)
qed

lemma frame_size: "n \<le> 65536 \<Longrightarrow> unat (of_nat n :: u32) = n \<and> \<not> of_nat n > MAX_FRAME_BYTES"
  by (simp add: MAX_FRAME_BYTES_def word_less_nat_alt unat_of_nat)

lemma read_written_frame:
  assumes "round_trips enc dec" "write_frame enc fault m = (Inr u, out)"
  shows "read_frame dec \<lparr>arrived = out @ rest, ending = e\<rparr> = Some (Inr m, \<lparr>arrived = rest, ending = e\<rparr>)"
proof -
  from assms(2) obtain body where b: "enc m = Some body" "length body \<le> 65536"
    "out = to_be_bytes (of_nat (length body)) @ body" by (auto simp: write_frame_ok)
  moreover from assms(1) b(1) have "dec body = Some m" by (simp add: round_trips_def)
  ultimately show ?thesis using frame_size [OF b(2)] by (simp add: read_frame_def Let_def)
qed

text \<open>A stream that holds a frame only in part never gives a message.\<close>

lemma read_partial_frame:
  assumes "write_frame enc fault m = (Inr u, out)" "k < length out"
  shows "read_frame dec \<lparr>arrived = take k out, ending = e\<rparr> =
    (case e of
       Closed \<Rightarrow> Some (Inl (if k < 4 then Eof else Io UnexpectedEof), \<lparr>arrived = [], ending = e\<rparr>)
     | Failed x \<Rightarrow> Some (Inl (if k < 4 \<and> x = UnexpectedEof then Eof else Io x), \<lparr>arrived = [], ending = e\<rparr>)
     | Silent \<Rightarrow> None)"
proof -
  from assms(1) obtain body where b: "length body \<le> 65536" "out = to_be_bytes (of_nat (length body)) @ body"
    by (auto simp: write_frame_ok)
  show ?thesis
  proof (cases "k < 4")
    case True
    with b(2) assms(2) show ?thesis
      by (auto simp: read_frame_def read_exact_def split: stream_end.splits)
  next
    case False
    with b(2) have t: "take k out = to_be_bytes (of_nat (length body)) @ take (k - 4) body" by simp
    have "read_exact 4 \<lparr>arrived = take k out, ending = e\<rparr> =
        Some (Inr (to_be_bytes (of_nat (length body))), \<lparr>arrived = take (k - 4) body, ending = e\<rparr>)"
      unfolding t by simp
    then show ?thesis
      using False assms(2) b(2) frame_size [OF b(1)]
      by (auto simp: read_frame_def read_exact_def Let_def split: stream_end.splits)
  qed
qed

lemma read_oversized_frame:
  assumes "MAX_FRAME_BYTES < n"
  shows "read_frame dec \<lparr>arrived = to_be_bytes n @ rest, ending = e\<rparr> =
    Some (Inl (TooLarge n MAX_FRAME_BYTES), \<lparr>arrived = rest, ending = e\<rparr>)"
  using assms by (simp add: read_frame_def)

fun reads_as :: "(bytes \<Rightarrow> 'm option) \<Rightarrow> stream \<Rightarrow> 'm list \<Rightarrow> stream \<Rightarrow> bool" where
  "reads_as dec s [] t \<longleftrightarrow> s = t"
| "reads_as dec s (m # ms) t \<longleftrightarrow>
     (case read_frame dec s of Some (Inr m', s') \<Rightarrow> m' = m \<and> reads_as dec s' ms t | _ \<Rightarrow> False)"

lemma reads_as_Cons:
  "reads_as dec s (m # ms) t \<longleftrightarrow> (\<exists>s'. read_frame dec s = Some (Inr m, s') \<and> reads_as dec s' ms t)"
  by (auto split: option.splits sum.splits prod.splits)

text \<open>
  C32. Frames survive the wire. Frames written one after the other are read back as the same messages in
  the same order, whatever follows them on the stream; a frame of which only a part has arrived gives no
  message, but an error once the stream has ended and nothing while it is silent; and a declared length
  above 64 KiB is refused with the body left unread.
\<close>

theorem frames_round_trip:
  assumes "round_trips enc dec" "list_all2 (\<lambda>m out. write_frame enc None m = (Inr (), out)) ms outs"
    and "write_frame enc None m = (Inr (), out)" "k < length out" "MAX_FRAME_BYTES < n"
  shows "reads_as dec \<lparr>arrived = concat outs @ rest, ending = e\<rparr> ms \<lparr>arrived = rest, ending = e\<rparr> \<and>
    (case read_frame dec \<lparr>arrived = take k out, ending = e\<rparr> of
       None \<Rightarrow> e = Silent
     | Some (r, s') \<Rightarrow> e \<noteq> Silent \<and> \<not> is_ok r \<and> arrived s' = []) \<and>
    read_frame dec \<lparr>arrived = to_be_bytes n @ rest, ending = e\<rparr> =
      Some (Inl (TooLarge n MAX_FRAME_BYTES), \<lparr>arrived = rest, ending = e\<rparr>)"
proof -
  have "reads_as dec \<lparr>arrived = concat outs @ rest, ending = e\<rparr> ms \<lparr>arrived = rest, ending = e\<rparr>"
    using assms(2)
  proof (induction rule: list_all2_induct)
    case (Cons m ms out outs)
    then show ?case using read_written_frame [OF assms(1) Cons.hyps(1), of "concat outs @ rest" e] by simp
  qed simp
  moreover have "case read_frame dec \<lparr>arrived = take k out, ending = e\<rparr> of
       None \<Rightarrow> e = Silent
     | Some (r, s') \<Rightarrow> e \<noteq> Silent \<and> \<not> is_ok r \<and> arrived s' = []"
    unfolding read_partial_frame [OF assms(3, 4)] by (cases e) simp_all
  ultimately show ?thesis using read_oversized_frame [OF assms(5)] by blast
qed

text \<open>A hello that is its token, over a codec that adds a marker.\<close>

definition demo_hello_enc :: "hello_frame \<Rightarrow> bytes option" where
  "demo_hello_enc h = Some (CHR ''h'' # hf_token h)"

definition demo_hello_dec :: "bytes \<Rightarrow> hello_frame option" where
  "demo_hello_dec b = (case b of CHR ''h'' # t \<Rightarrow> Some \<lparr>hf_token = t\<rparr> | _ \<Rightarrow> None)"

theorem frames_round_trip_witness:
  "read_frame demo_hello_dec \<lparr>arrived = [CHR 0x00, CHR 0x00, CHR 0x00, CHR 0x03] @ ''hok'' @ ''more'', ending = Silent\<rparr> =
     Some (Inr \<lparr>hf_token = ''ok''\<rparr>, \<lparr>arrived = ''more'', ending = Silent\<rparr>)"
proof -
  have rt: "round_trips demo_hello_enc demo_hello_dec"
    by (simp add: round_trips_def demo_hello_enc_def demo_hello_dec_def)
  have w: "write_frame demo_hello_enc None \<lparr>hf_token = ''ok''\<rparr> = (Inr (), [CHR 0x00, CHR 0x00, CHR 0x00, CHR 0x03] @ ''hok'')"
    by (simp add: write_frame_def demo_hello_enc_def MAX_FRAME_BYTES_def to_be_bytes_def) code_simp
  then have "list_all2 (\<lambda>m out. write_frame demo_hello_enc None m = (Inr (), out))
      [\<lparr>hf_token = ''ok''\<rparr>] [[CHR 0x00, CHR 0x00, CHR 0x00, CHR 0x03] @ ''hok'']" by simp
  from conjunct1 [OF frames_round_trip [OF rt this w, of 2 "MAX_FRAME_BYTES + 1" "''more''" Silent]]
  have "reads_as demo_hello_dec \<lparr>arrived = [CHR 0x00, CHR 0x00, CHR 0x00, CHR 0x03] @ ''hok'' @ ''more'', ending = Silent\<rparr>
      [\<lparr>hf_token = ''ok''\<rparr>] \<lparr>arrived = ''more'', ending = Silent\<rparr>"
    by (simp add: MAX_FRAME_BYTES_def)
  then show ?thesis by (simp add: reads_as_Cons del: reads_as.simps(2))
qed

section \<open>Accounts, tokens, sessions\<close>

lemma is_ascii_lowercase_not_colon: "is_id_byte c \<Longrightarrow> c \<noteq> CHR '':''"
  by (auto simp: is_id_byte_def is_ascii_lowercase_def is_ascii_digit_def byte_val_def)

lemma is_valid_credential_account_iff:
  "is_valid_credential_account a \<longleftrightarrow>
     (\<exists>i. valid_provider_id i \<and> (a = ''v1:'' @ i \<or> a = ''op:v1:'' @ i))"
  by (auto simp: is_valid_credential_account_def strip_account_prefix_def starts_with_iff for_provider_def
      for_onepassword_def ONEPASSWORD_ACCOUNT_PREFIX_def split: if_splits)

lemma derived_account_is_valid:
  "for_provider i = Inr r \<Longrightarrow> is_valid_credential_account (cr_account r)"
  "for_onepassword i = Inr r \<Longrightarrow> is_valid_credential_account (cr_account r)"
  by (auto simp: is_valid_credential_account_iff for_provider_def for_onepassword_def
      ONEPASSWORD_ACCOUNT_PREFIX_def split: if_splits)

lemma accounts_disjoint:
  "for_provider i = Inr r \<Longrightarrow> for_onepassword j = Inr q \<Longrightarrow> cr_account r \<noteq> cr_account q"
  by (auto simp: for_provider_def for_onepassword_def ONEPASSWORD_ACCOUNT_PREFIX_def split: if_splits)

lemma byte_word_inj: "byte_word x = byte_word y \<longleftrightarrow> x = y"
proof
  assume "byte_word x = byte_word y"
  then have "unat (byte_word x) = unat (byte_word y)" by simp
  then show "x = y" using byte_val_lt [of x] byte_val_lt [of y]
    by (simp add: byte_word_def unat_of_nat byte_val_def)
qed simp

lemma fold_or_0:
  "fold (\<lambda>(x, y) diff. or diff (f x y)) zs (d :: 8 word) = 0 \<longleftrightarrow> d = 0 \<and> (\<forall>(x, y) \<in> set zs. f x y = 0)"
  by (induction zs arbitrary: d) (auto simp: or_eq_0_iff)

lemma xor_eq_0: "xor x y = 0 \<longleftrightarrow> x = (y :: 8 word)"
  by (auto simp: bit_eq_iff bit_xor_iff)

lemma constant_time_eq_iff [simp]: "constant_time_eq a b \<longleftrightarrow> a = b"
proof -
  have "(\<forall>(x, y) \<in> set (zip a b). xor (byte_word x) (byte_word y) = 0) \<longleftrightarrow> a = b" if "length a = length b"
    using that by (induction a b rule: list_induct2) (auto simp: xor_eq_0 byte_word_inj)
  then show ?thesis by (auto simp: constant_time_eq_def fold_or_0)
qed

lemma hex_digit_inj: "m < 16 \<Longrightarrow> n < 16 \<Longrightarrow> hex_digit m = hex_digit n \<longleftrightarrow> m = n"
  by (auto simp: hex_digit_def char_of_eq_iff take_bit_eq_mod split: if_splits)

lemma generate_inj: "generate a = generate b \<longleftrightarrow> a = b"
proof
  assume "generate a = generate b"
  then show "a = b"
  proof (induction a arbitrary: b)
    case (Cons x a)
    then obtain y b' where "b = y # b'" by (cases b) (auto simp: generate_def)
    with Cons have "byte_val x div 16 = byte_val y div 16 \<and> byte_val x mod 16 = byte_val y mod 16 \<and> a = b'"
      using byte_val_lt [of x] byte_val_lt [of y]
      by (auto simp: generate_def hex_digit_inj less_mult_imp_div_less)
    then have "byte_val x = byte_val y \<and> a = b'" by (metis div_mult_mod_eq)
    with \<open>b = y # b'\<close> show ?case by (simp add: byte_val_def)
  qed (cases b; simp add: generate_def)
qed simp

lemma generate_length: "length (generate rnd) = 2 * length rnd"
  by (induction rnd) (simp_all add: generate_def)

section \<open>A codec\<close>

text \<open>
  A small codec that round-trips, for the instances of the theorems: a number in unary, every character of
  a text marked, each ended by a full stop.
\<close>

definition put_nat :: "nat \<Rightarrow> bytes" where "put_nat n = replicate n (CHR ''1'') @ ''.''"

fun get_nat :: "bytes \<Rightarrow> nat \<times> bytes" where
  "get_nat (c # r) = (if c = CHR ''1'' then (case get_nat r of (n, r') \<Rightarrow> (Suc n, r')) else (0, r))"
| "get_nat [] = (0, [])"

fun put_str :: "string \<Rightarrow> bytes" where
  "put_str [] = ''.''"
| "put_str (c # s) = CHR ''x'' # c # put_str s"

fun get_str :: "bytes \<Rightarrow> string \<times> bytes" where
  "get_str (m # c # r) = (if m = CHR ''x'' then (case get_str r of (s, r') \<Rightarrow> (c # s, r')) else ([], c # r))"
| "get_str [m] = ([], [])"
| "get_str [] = ([], [])"

lemma get_put_nat [simp]: "get_nat (put_nat n @ r) = (n, r)"
  by (induction n) (simp_all add: put_nat_def)

lemma get_put_str [simp]: "get_str (put_str s @ r) = (s, r)"
proof (induction s)
  case Nil
  show ?case by (cases r) simp_all
qed simp

definition put_binding :: "binding \<Rightarrow> bytes" where
  "put_binding b = put_str (bd_provider_id b) @ put_str (bd_adapter b) @ put_str (bd_base_url b)"

definition get_binding :: "bytes \<Rightarrow> binding \<times> bytes" where
  "get_binding s =
     (case get_str s of (p, s1) \<Rightarrow> case get_str s1 of (a, s2) \<Rightarrow> case get_str s2 of (u, s3) \<Rightarrow>
        (\<lparr>bd_provider_id = p, bd_adapter = a, bd_base_url = u\<rparr>, s3))"

lemma get_put_binding [simp]: "get_binding (put_binding b @ r) = (b, r)"
  by (simp add: get_binding_def put_binding_def)

end
