(* ===== verification/Credential_Owner.thy ===== *)
theory Credential_Owner
  imports Credential_Ipc
begin

text \<open>
  The owner of one stored credential. The locale \<open>credential_owner\<close> is the contract of the trait
  \<^verbatim>\<open>CredentialOwner\<close> (\<^verbatim>\<open>crates/credential-ipc/src/owner.rs\<close>): a compare-and-swap register that holds a
  bound value. The provider is the desktop's \<^verbatim>\<open>ProviderCredentialOwner\<close>
  (\<^verbatim>\<open>desktop/src-tauri/src/provider_credential.rs\<close>): one Keychain item with a JSON envelope in it, and a
  revision in memory, every operation under one lock.

  The Keychain is the item's content, \<open>None\<close> when there is no entry; a call that the Keychain refuses
  fails without changing the item, and which calls are refused is the argument \<open>kf\<close> of each operation.
  The JSON codec of the envelope is the parameter \<open>ec\<close>.
\<close>

section \<open>Outcomes\<close>

datatype mutation_outcome = Advanced revision | AlreadyAbsent revision

datatype mutation_error =
  StaleRevision revision | PreconditionFailed | MutDeniedOrLocked | InvalidValue credential_rejection

datatype credential_status = Configured | Unconfigured | Unavailable

datatype owner_op =
    ORead binding
  | OStatus
  | OConnect revision binding string
  | OReplace revision binding string
  | ORebind revision binding
  | ORemove revision

datatype owner_answer =
    AnsRead credential_read
  | AnsStatus credential_status
  | AnsMut "(mutation_error, mutation_outcome) result"

fun expected_of :: "owner_op \<Rightarrow> revision option" where
  "expected_of (OConnect r b v) = Some r"
| "expected_of (OReplace r b v) = Some r"
| "expected_of (ORebind r b) = Some r"
| "expected_of (ORemove r) = Some r"
| "expected_of _ = None"

section \<open>The contract\<close>

text \<open>
  The abstract register: what is stored, as a caller may know of it, and what a mutation makes of it.
\<close>

datatype stored = SAbsent | SMalformed | SPresent binding string

fun apply_op :: "owner_op \<Rightarrow> stored \<Rightarrow> stored option" where
  "apply_op (OConnect r b v) SAbsent = Some (SPresent b v)"
| "apply_op (OReplace r b v) (SPresent b' w) = (if b' = b then Some (SPresent b v) else None)"
| "apply_op (ORebind r b) (SPresent b' v) = Some (SPresent b v)"
| "apply_op (ORemove r) s = Some SAbsent"
| "apply_op _ _ = None"

fun view :: "binding \<Rightarrow> stored \<Rightarrow> credential_state" where
  "view b SAbsent = Absent"
| "view b SMalformed = Malformed"
| "view b (SPresent b' v) = (if b' = b then Present \<lparr>le_binding = b', le_value = v\<rparr> else BindingMismatch)"

text \<open>
  One operation of the compare-and-swap register at revision \<open>r\<close>: \<open>r0\<close> is the revision it worked at,
  which an availability transition observed by the operation may have advanced by one.
\<close>

fun cas_answer :: "owner_op \<Rightarrow> owner_answer \<Rightarrow> stored \<Rightarrow> revision \<Rightarrow> stored \<Rightarrow> revision \<Rightarrow> bool" where
  "cas_answer (ORead b) (AnsRead rd) s r0 s' r' \<longleftrightarrow>
     s' = s \<and> r' = r0 \<and> rd_revision rd = r0 \<and> rd_state rd \<in> {DeniedOrLocked, view b s}"
| "cas_answer OStatus (AnsStatus a) s r0 s' r' \<longleftrightarrow>
     s' = s \<and> r' = r0 \<and> (a = Configured \<longrightarrow> (\<exists>b v. s = SPresent b v)) \<and> (a = Unconfigured \<longrightarrow> s = SAbsent)"
| "cas_answer op (AnsMut (Inr out)) s r0 s' r' \<longleftrightarrow>
     expected_of op = Some r0 \<and> apply_op op s = Some s' \<and>
     (if s = SAbsent \<and> s' = SAbsent then r' = r0 \<and> out = AlreadyAbsent r0
      else r' = revision_next r0 \<and> out = Advanced r')"
| "cas_answer op (AnsMut (Inl (StaleRevision q))) s r0 s' r' \<longleftrightarrow>
     s' = s \<and> r' = r0 \<and> q = r0 \<and> expected_of op \<notin> {None, Some r0}"
| "cas_answer op (AnsMut (Inl PreconditionFailed)) s r0 s' r' \<longleftrightarrow>
     s' = s \<and> r' = r0 \<and> expected_of op = Some r0 \<and> apply_op op s = None"
| "cas_answer op (AnsMut (Inl e)) s r0 s' r' \<longleftrightarrow> s' = s \<and> r' = r0 \<and> expected_of op \<noteq> None"
| "cas_answer op ans s r0 s' r' \<longleftrightarrow> False"

definition cas_allows :: "owner_op \<Rightarrow> owner_answer \<Rightarrow> stored \<times> revision \<Rightarrow> stored \<times> revision \<Rightarrow> bool" where
  "cas_allows op ans x y \<longleftrightarrow>
     (\<exists>r0 \<in> {snd x, revision_next (snd x)}. cas_answer op ans (fst x) r0 (fst y) (snd y))"

fun run_ops :: "('f \<Rightarrow> owner_op \<Rightarrow> 'o \<Rightarrow> owner_answer \<times> 'o) \<Rightarrow> ('f \<times> owner_op) list \<Rightarrow> 'o \<Rightarrow> 'o" where
  "run_ops exec [] x = x"
| "run_ops exec ((f, op) # ops) x = run_ops exec ops (snd (exec f op x))"

lemma cas_answer_revision:
  "cas_answer op ans s r0 s' r' \<Longrightarrow> r' = r0 \<or> r' = r0 + 1"
  by (induction op ans s r0 s' r' rule: cas_answer.induct) (auto simp: revision_next_def split: if_splits)

lemma cas_allows_revision: "cas_allows op ans x y \<Longrightarrow> \<exists>k \<le> 2. snd y = snd x + of_nat k"
proof -
  assume "cas_allows op ans x y"
  then consider "snd y = snd x + of_nat 0" | "snd y = snd x + of_nat 1" | "snd y = snd x + of_nat 2"
    by (auto simp: cas_allows_def revision_next_def dest: cas_answer_revision)
  then show ?thesis by cases (blast intro: order_refl zero_le_numeral one_le_numeral)+
qed

locale credential_owner =
  fixes oinv :: "'o \<Rightarrow> bool" and stored :: "'o \<Rightarrow> stored" and rev_of :: "'o \<Rightarrow> revision"
    and exec :: "'f \<Rightarrow> owner_op \<Rightarrow> 'o \<Rightarrow> owner_answer \<times> 'o"
  assumes exec_refines:
      "oinv x \<Longrightarrow> exec f op x = (ans, y) \<Longrightarrow> cas_allows op ans (stored x, rev_of x) (stored y, rev_of y)"
    and exec_inv: "oinv x \<Longrightarrow> exec f op x = (ans, y) \<Longrightarrow> oinv y"
begin

lemma run_inv: "oinv x \<Longrightarrow> oinv (run_ops exec ops x)"
proof (induction ops arbitrary: x)
  case (Cons fo ops)
  then show ?case using exec_inv [OF Cons.prems surjective_pairing] by (cases fo) simp
qed simp

lemma run_revision:
  "oinv x \<Longrightarrow> \<exists>k \<le> 2 * length ops. rev_of (run_ops exec ops x) = rev_of x + of_nat k"
proof (induction ops arbitrary: x)
  case (Cons fo ops)
  obtain f op where fo: "fo = (f, op)" by (cases fo)
  obtain ans y where e: "exec f op x = (ans, y)" by (cases "exec f op x")
  obtain j where j: "j \<le> 2" "rev_of y = rev_of x + of_nat j"
    using cas_allows_revision [OF exec_refines [OF Cons.prems e]] by auto
  obtain k where "k \<le> 2 * length ops" "rev_of (run_ops exec ops y) = rev_of y + of_nat k"
    using Cons.IH [OF exec_inv [OF Cons.prems e]] by blast
  with j e fo show ?case by (intro exI [of _ "j + k"]) (simp add: add.assoc)
qed simp

text \<open>Of two mutations made at the same revision at most one is applied.\<close>

lemma one_winner:
  assumes "oinv x" "exec f op x = (AnsMut (Inr (Advanced q)), y)" "length ops < 2 ^ 62"
    and "exec f' op' (run_ops exec ops y) = (AnsMut (Inr out), z)"
  shows "expected_of op' \<noteq> expected_of op"
proof
  assume same: "expected_of op' = expected_of op"
  have "oinv y" using exec_inv assms(1, 2) by blast
  obtain r where r: "expected_of op = Some r" "rev_of y = r + 1"
    using exec_refines [OF assms(1, 2)] by (auto simp: cas_allows_def revision_next_def split: if_splits)
  obtain k where k: "k \<le> 2 * length ops" "rev_of (run_ops exec ops y) = r + 1 + of_nat k"
    using run_revision [OF \<open>oinv y\<close>, of ops] r(2) by auto
  have "r \<in> {r + 1 + of_nat k, r + 1 + of_nat k + 1}"
    using exec_refines [OF run_inv [OF \<open>oinv y\<close>] assms(4)] same r(1) k(2)
    by (auto simp: cas_allows_def revision_next_def)
  then have "of_nat (k + 1) = (0 :: u64) \<or> of_nat (k + 2) = (0 :: u64)"
    by (auto simp: add.assoc)
  moreover have "unat (of_nat n :: u64) = n" if "n \<le> 2 * length ops + 2" for n
    using that assms(3) by (simp add: unat_of_nat)
  ultimately show False using k(1) by (metis Suc_eq_plus1 add_2_eq_Suc' add_is_0 add_le_mono1 nat.distinct(1) unat_0 add_leD1 le_add1 add_mono one_le_numeral)
qed

end

section \<open>The Keychain-backed owner\<close>

record envelope =
  en_version :: u32
  en_kind :: string
  en_value :: string
  en_binding :: binding

definition ENVELOPE_VERSION :: u32 where "ENVELOPE_VERSION = 1"
definition ENVELOPE_KIND :: string where "ENVELOPE_KIND = ''api_key''"

record envelope_codec =
  ec_enc :: "envelope \<Rightarrow> string option"
  ec_dec :: "string \<Rightarrow> envelope option"

datatype snapshot = NDeniedOrLocked | NMalformed | NAbsent | NPresent envelope

record owner_state =
  os_revision :: revision
  os_last_reachable :: "bool option"
  os_item :: "string option"

record keyring_faults =
  kf_get :: bool
  kf_set :: bool
  kf_delete :: bool

definition owner_new :: "string option \<Rightarrow> owner_state" where
  "owner_new item = \<lparr>os_revision = INITIAL, os_last_reachable = None, os_item = item\<rparr>"

definition classify_item :: "envelope_codec \<Rightarrow> string option \<Rightarrow> snapshot" where
  "classify_item ec item =
     (case item of
        None \<Rightarrow> NAbsent
      | Some raw \<Rightarrow>
          if raw = [] then NAbsent
          else case ec_dec ec raw of
              Some env \<Rightarrow>
                if en_version env = ENVELOPE_VERSION \<and> en_kind env = ENVELOPE_KIND then NPresent env else NMalformed
            | None \<Rightarrow> NMalformed)"

definition locked_snapshot ::
  "envelope_codec \<Rightarrow> keyring_faults \<Rightarrow> owner_state \<Rightarrow> (revision \<times> snapshot) \<times> owner_state" where
  "locked_snapshot ec kf st =
     (let snapshot = (if kf_get kf then NDeniedOrLocked else classify_item ec (os_item st));
          reachable = (snapshot \<noteq> NDeniedOrLocked);
          rv = (case os_last_reachable st of
                   Some prev \<Rightarrow> if prev \<noteq> reachable then revision_next (os_revision st) else os_revision st
                 | None \<Rightarrow> os_revision st)
      in ((rv, snapshot), st\<lparr>os_revision := rv, os_last_reachable := Some reachable\<rparr>))"

definition owner_read_bound ::
  "envelope_codec \<Rightarrow> keyring_faults \<Rightarrow> binding \<Rightarrow> owner_state \<Rightarrow> credential_read \<times> owner_state" where
  "owner_read_bound ec kf expected_binding st =
     (case locked_snapshot ec kf st of ((rv, snapshot), st') \<Rightarrow>
       (\<lparr>rd_revision = rv,
         rd_state =
           (case snapshot of
              NDeniedOrLocked \<Rightarrow> DeniedOrLocked
            | NMalformed \<Rightarrow> Malformed
            | NAbsent \<Rightarrow> Absent
            | NPresent env \<Rightarrow>
                if en_binding env = expected_binding
                then Present \<lparr>le_binding = en_binding env, le_value = en_value env\<rparr>
                else BindingMismatch)\<rparr>, st'))"

definition owner_status :: "envelope_codec \<Rightarrow> keyring_faults \<Rightarrow> owner_state \<Rightarrow> credential_status \<times> owner_state" where
  "owner_status ec kf st =
     (case locked_snapshot ec kf st of ((_, snapshot), st') \<Rightarrow>
       (case snapshot of NPresent _ \<Rightarrow> Configured | NAbsent \<Rightarrow> Unconfigured | _ \<Rightarrow> Unavailable, st'))"

text \<open>The item after \<open>store_envelope\<close>, or its refusal.\<close>

definition store_envelope ::
  "envelope_codec \<Rightarrow> keyring_faults \<Rightarrow> binding \<Rightarrow> string \<Rightarrow> (mutation_error, string) result" where
  "store_envelope ec kf b v =
     and_then (map_err InvalidValue (validate_api_key_value v)) (\<lambda>_.
     and_then (ok_or (ec_enc ec \<lparr>en_version = ENVELOPE_VERSION, en_kind = ENVELOPE_KIND, en_value = v, en_binding = b\<rparr>)
       MutDeniedOrLocked) (\<lambda>raw.
     and_then (map_err InvalidValue (validate_envelope_size raw)) (\<lambda>_.
     and_then (refuse_if (kf_set kf) MutDeniedOrLocked) (\<lambda>_. Inr raw))))"

text \<open>The tail of every mutation that stores: write, then advance the revision.\<close>

definition store_and_advance ::
  "envelope_codec \<Rightarrow> keyring_faults \<Rightarrow> binding \<Rightarrow> string \<Rightarrow> owner_state
    \<Rightarrow> (mutation_error, mutation_outcome) result \<times> owner_state" where
  "store_and_advance ec kf b v st =
     (case store_envelope ec kf b v of
        Inl e \<Rightarrow> (Inl e, st)
      | Inr raw \<Rightarrow>
          (Inr (Advanced (revision_next (os_revision st))),
           st\<lparr>os_item := Some raw, os_revision := revision_next (os_revision st)\<rparr>))"

definition owner_connect ::
  "envelope_codec \<Rightarrow> keyring_faults \<Rightarrow> revision \<Rightarrow> binding \<Rightarrow> string \<Rightarrow> owner_state
    \<Rightarrow> (mutation_error, mutation_outcome) result \<times> owner_state" where
  "owner_connect ec kf expected_revision b v st =
     (case locked_snapshot ec kf st of ((rv, snapshot), st') \<Rightarrow>
        if snapshot = NDeniedOrLocked then (Inl MutDeniedOrLocked, st')
        else if rv \<noteq> expected_revision then (Inl (StaleRevision rv), st')
        else if snapshot \<noteq> NAbsent then (Inl PreconditionFailed, st')
        else store_and_advance ec kf b v st')"

definition owner_replace ::
  "envelope_codec \<Rightarrow> keyring_faults \<Rightarrow> revision \<Rightarrow> binding \<Rightarrow> string \<Rightarrow> owner_state
    \<Rightarrow> (mutation_error, mutation_outcome) result \<times> owner_state" where
  "owner_replace ec kf expected_revision current_binding new_value st =
     (case locked_snapshot ec kf st of ((rv, snapshot), st') \<Rightarrow>
        if snapshot = NDeniedOrLocked then (Inl MutDeniedOrLocked, st')
        else if rv \<noteq> expected_revision then (Inl (StaleRevision rv), st')
        else if \<not> (case snapshot of NPresent env \<Rightarrow> en_binding env = current_binding | _ \<Rightarrow> False)
        then (Inl PreconditionFailed, st')
        else store_and_advance ec kf current_binding new_value st')"

definition owner_rebind ::
  "envelope_codec \<Rightarrow> keyring_faults \<Rightarrow> revision \<Rightarrow> binding \<Rightarrow> owner_state
    \<Rightarrow> (mutation_error, mutation_outcome) result \<times> owner_state" where
  "owner_rebind ec kf expected_revision new_binding st =
     (case locked_snapshot ec kf st of ((rv, snapshot), st') \<Rightarrow>
        if snapshot = NDeniedOrLocked then (Inl MutDeniedOrLocked, st')
        else if rv \<noteq> expected_revision then (Inl (StaleRevision rv), st')
        else case snapshot of
            NPresent env \<Rightarrow> store_and_advance ec kf new_binding (en_value env) st'
          | _ \<Rightarrow> (Inl PreconditionFailed, st'))"

definition owner_remove ::
  "envelope_codec \<Rightarrow> keyring_faults \<Rightarrow> revision \<Rightarrow> owner_state
    \<Rightarrow> (mutation_error, mutation_outcome) result \<times> owner_state" where
  "owner_remove ec kf expected_revision st =
     (case locked_snapshot ec kf st of ((rv, snapshot), st') \<Rightarrow>
        if snapshot = NDeniedOrLocked then (Inl MutDeniedOrLocked, st')
        else if rv \<noteq> expected_revision then (Inl (StaleRevision rv), st')
        else if snapshot = NAbsent then (Inr (AlreadyAbsent rv), st')
        else if kf_delete kf then (Inl MutDeniedOrLocked, st')
        else (Inr (Advanced (revision_next (os_revision st'))),
              st'\<lparr>os_item := None, os_revision := revision_next (os_revision st')\<rparr>))"

text \<open>
  \<open>ProviderCredentialOwner\<close>: the derived account, the codec it was built with, and the state under its
  lock together with the Keychain item.
\<close>

record provider_owner =
  po_account :: string
  po_codec :: envelope_codec
  po_state :: owner_state

fun owner_exec :: "keyring_faults \<Rightarrow> owner_op \<Rightarrow> provider_owner \<Rightarrow> owner_answer \<times> provider_owner" where
  "owner_exec kf (ORead b) o1 =
     map_prod AnsRead (\<lambda>st. o1\<lparr>po_state := st\<rparr>) (owner_read_bound (po_codec o1) kf b (po_state o1))"
| "owner_exec kf OStatus o1 =
     map_prod AnsStatus (\<lambda>st. o1\<lparr>po_state := st\<rparr>) (owner_status (po_codec o1) kf (po_state o1))"
| "owner_exec kf (OConnect r b v) o1 =
     map_prod AnsMut (\<lambda>st. o1\<lparr>po_state := st\<rparr>) (owner_connect (po_codec o1) kf r b v (po_state o1))"
| "owner_exec kf (OReplace r b v) o1 =
     map_prod AnsMut (\<lambda>st. o1\<lparr>po_state := st\<rparr>) (owner_replace (po_codec o1) kf r b v (po_state o1))"
| "owner_exec kf (ORebind r b) o1 =
     map_prod AnsMut (\<lambda>st. o1\<lparr>po_state := st\<rparr>) (owner_rebind (po_codec o1) kf r b (po_state o1))"
| "owner_exec kf (ORemove r) o1 =
     map_prod AnsMut (\<lambda>st. o1\<lparr>po_state := st\<rparr>) (owner_remove (po_codec o1) kf r (po_state o1))"

section \<open>The owner keeps the contract\<close>

definition codec_ok :: "envelope_codec \<Rightarrow> bool" where
  "codec_ok ec \<longleftrightarrow> round_trips (ec_enc ec) (ec_dec ec) \<and> (\<forall>e. ec_enc ec e \<noteq> Some [])"

definition owner_ok :: "provider_owner \<Rightarrow> bool" where "owner_ok o1 \<longleftrightarrow> codec_ok (po_codec o1)"

fun stored_view :: "snapshot \<Rightarrow> stored" where
  "stored_view (NPresent env) = SPresent (en_binding env) (en_value env)"
| "stored_view NAbsent = SAbsent"
| "stored_view _ = SMalformed"

definition owner_stored :: "provider_owner \<Rightarrow> stored" where
  "owner_stored o1 = stored_view (classify_item (po_codec o1) (os_item (po_state o1)))"

definition owner_rev :: "provider_owner \<Rightarrow> revision" where "owner_rev o1 = os_revision (po_state o1)"

lemma locked_snapshot_fields:
  assumes "locked_snapshot ec kf st = ((rv, sn), st')"
  shows "os_item st' = os_item st" "os_revision st' = rv" "rv \<in> {os_revision st, revision_next (os_revision st)}"
    "sn = (if kf_get kf then NDeniedOrLocked else classify_item ec (os_item st))"
  using assms by (auto simp: locked_snapshot_def Let_def split: option.splits if_splits)

lemma classify_not_denied [simp]: "classify_item ec item \<noteq> NDeniedOrLocked"
  by (auto simp: classify_item_def split: option.splits)

lemma classify_stored:
  assumes "codec_ok ec" "store_envelope ec kf b v = Inr raw"
  shows "classify_item ec (Some raw) = NPresent \<lparr>en_version = ENVELOPE_VERSION, en_kind = ENVELOPE_KIND, en_value = v, en_binding = b\<rparr>"
  using assms by (auto simp: store_envelope_def classify_item_def codec_ok_def round_trips_def result_simps)

lemma classify_None [simp]: "classify_item ec None = NAbsent"
  by (simp add: classify_item_def)

lemma stored_view_SAbsent: "sn \<noteq> NDeniedOrLocked \<Longrightarrow> stored_view sn = SAbsent \<longleftrightarrow> sn = NAbsent"
  by (cases sn) simp_all

lemma store_and_advance_cas:
  assumes "codec_ok ec" "expected_of op = Some (os_revision st')"
    "apply_op op s = Some (SPresent b v)" "stored_view (classify_item ec (os_item st')) = s"
  shows "cas_answer op (AnsMut (fst (store_and_advance ec kf b v st'))) s (os_revision st')
    (stored_view (classify_item ec (os_item (snd (store_and_advance ec kf b v st')))))
    (os_revision (snd (store_and_advance ec kf b v st')))"
proof (cases "store_envelope ec kf b v")
  case (Inl e)
  then have "(\<exists>x. e = InvalidValue x) \<or> e = MutDeniedOrLocked"
    by (auto simp: store_envelope_def result_simps)
  with Inl assms show ?thesis by (cases op) (auto simp: store_and_advance_def)
next
  case (Inr raw)
  with assms show ?thesis by (cases op) (auto simp: store_and_advance_def classify_stored)
qed

lemma map_prod_eq: "map_prod f g p = (a, b) \<longleftrightarrow> a = f (fst p) \<and> b = g (snd p)"
  by (cases p) auto

lemmas owner_defs = owner_read_bound_def owner_status_def owner_connect_def owner_replace_def owner_rebind_def
  owner_remove_def

lemma owner_exec_refines:
  assumes ok: "owner_ok x" and e: "owner_exec kf op x = (ans, y)"
  shows "cas_allows op ans (owner_stored x, owner_rev x) (owner_stored y, owner_rev y)"
proof -
  obtain rv sn st where l: "locked_snapshot (po_codec x) kf (po_state x) = ((rv, sn), st)"
    by (metis prod.exhaust)
  note g = locked_snapshot_fields [OF l]
  have sn: "classify_item (po_codec x) (os_item (po_state x)) = sn" if "sn \<noteq> NDeniedOrLocked"
    using g(4) that by (auto split: if_splits)
  note f = g(1-3) sn
  note sac = store_and_advance_cas [OF ok [unfolded owner_ok_def], of _ st _ _ _ kf, unfolded g(1, 2)]
  have "cas_answer op ans (owner_stored x) rv (owner_stored y) (owner_rev y)"
  proof (cases op)
    case (OConnect r b v)
    show ?thesis
    proof (cases "sn = NAbsent \<and> rv = r")
      case True
      with OConnect e l f sac [of op _ b v] show ?thesis
        by (auto simp: owner_defs owner_stored_def owner_rev_def map_prod_eq split: if_splits)
    next
      case False
      with OConnect e l f show ?thesis
        by (cases sn) (auto simp: owner_defs owner_stored_def owner_rev_def map_prod_eq split: if_splits)
    qed
  next
    case (OReplace r b v)
    show ?thesis
    proof (cases "rv = r \<and> (\<exists>env. sn = NPresent env \<and> en_binding env = b)")
      case True
      with OReplace e l f sac [of op _ b v] show ?thesis
        by (auto simp: owner_defs owner_stored_def owner_rev_def map_prod_eq split: if_splits)
    next
      case False
      with OReplace e l f show ?thesis
        by (cases sn) (auto simp: owner_defs owner_stored_def owner_rev_def map_prod_eq split: if_splits)
    qed
  next
    case (ORebind r b)
    show ?thesis
    proof (cases "rv = r \<and> (\<exists>env. sn = NPresent env)")
      case True
      then obtain env where "sn = NPresent env" by blast
      with True ORebind e l f sac [of op _ b "en_value env"] show ?thesis
        by (auto simp: owner_defs owner_stored_def owner_rev_def map_prod_eq split: if_splits)
    next
      case False
      with ORebind e l f show ?thesis
        by (cases sn) (auto simp: owner_defs owner_stored_def owner_rev_def map_prod_eq split: if_splits)
    qed
  next
    case (ORemove r)
    with e l f show ?thesis
      by (cases sn) (auto simp: owner_defs owner_stored_def owner_rev_def map_prod_eq split: if_splits)
  qed (use e l f in \<open>auto simp: owner_defs owner_stored_def owner_rev_def split: snapshot.splits if_splits\<close>)
  with f(3) show ?thesis by (auto simp: cas_allows_def owner_rev_def)
qed

lemma owner_exec_codec: "po_codec (snd (owner_exec kf op x)) = po_codec x"
  by (cases op) (simp_all add: map_prod_def split: prod.splits)

interpretation ko: credential_owner owner_ok owner_stored owner_rev owner_exec
proof unfold_locales
  show "owner_ok x \<Longrightarrow> owner_exec f op x = (ans, y) \<Longrightarrow> owner_ok y" for x f op ans y
    using owner_exec_codec [of f op x] by (simp add: owner_ok_def)
qed (rule owner_exec_refines)

definition envelope_of :: "binding \<Rightarrow> string \<Rightarrow> envelope" where
  "envelope_of b v = \<lparr>en_version = ENVELOPE_VERSION, en_kind = ENVELOPE_KIND, en_value = v, en_binding = b\<rparr>"

lemma store_envelope_Inr:
  "store_envelope ec kf b v = Inr raw \<longleftrightarrow>
     validate_api_key_value v = Inr () \<and> ec_enc ec (envelope_of b v) = Some raw \<and> length raw \<le> 65536 \<and> \<not> kf_set kf"
  by (auto simp: store_envelope_def envelope_of_def validate_envelope_size_def MAX_CREDENTIAL_ENVELOPE_BYTES_def
      result_simps split: if_splits)

lemma owner_connect_ok:
  assumes "classify_item ec (os_item st) = NAbsent" "os_last_reachable st \<noteq> Some False" "\<not> kf_get kf"
    "store_envelope ec kf b v = Inr raw"
  shows "owner_connect ec kf (os_revision st) b v st =
    (Inr (Advanced (revision_next (os_revision st))),
     \<lparr>os_revision = revision_next (os_revision st), os_last_reachable = Some True, os_item = Some raw\<rparr>)"
  using assms by (cases st) (auto simp: owner_connect_def locked_snapshot_def store_and_advance_def split: option.splits)

section \<open>Properties\<close>

text \<open>
  C13. The desktop's owner implements its contract, the compare-and-swap register, under every pattern of
  Keychain refusals: a read answers with the revision it worked at and either the register's view under
  the expected binding or \<open>DeniedOrLocked\<close>, so a value leaves only under exactly its own binding; a
  mutation succeeds only at that revision and in the right state, stores exactly what was asked and
  advances the revision by one; every refusal names its reason and leaves the stored credential alone.
\<close>

theorem owner_refines_cas_register:
  assumes "codec_ok (po_codec x)" "owner_exec kf op x = (ans, y)"
  shows "cas_allows op ans (owner_stored x, owner_rev x) (owner_stored y, owner_rev y)"
  using assms by (intro ko.exec_refines) (simp_all add: owner_ok_def)

definition demo_envelope_codec :: envelope_codec where
  "demo_envelope_codec =
     \<lparr>ec_enc = (\<lambda>e. Some (put_nat (unat (en_version e)) @ put_str (en_kind e) @ put_str (en_value e) @ put_binding (en_binding e))),
      ec_dec = (\<lambda>s. case get_nat s of (n, s1) \<Rightarrow> case get_str s1 of (k, s2) \<Rightarrow> case get_str s2 of (v, s3) \<Rightarrow>
        case get_binding s3 of (b, s4) \<Rightarrow>
          Some \<lparr>en_version = of_nat n, en_kind = k, en_value = v, en_binding = b\<rparr>)\<rparr>"

lemma demo_envelope_codec_ok: "codec_ok demo_envelope_codec"
proof -
  have "get_binding (put_binding b) = (b, [])" for b using get_put_binding [of b "[]"] by simp
  moreover have "put_nat n \<noteq> []" for n by (simp add: put_nat_def)
  ultimately show ?thesis by (simp add: codec_ok_def round_trips_def demo_envelope_codec_def)
qed

definition demo_place :: binding where
  "demo_place = \<lparr>bd_provider_id = ''p'', bd_adapter = OPENAI_CHAT_COMPLETIONS_BEARER_V1, bd_base_url = ''u''\<rparr>"

definition demo_owner :: provider_owner where
  "demo_owner = \<lparr>po_account = ''v1:p'', po_codec = demo_envelope_codec, po_state = owner_new None\<rparr>"

definition no_keyring_faults :: keyring_faults where
  "no_keyring_faults = \<lparr>kf_get = False, kf_set = False, kf_delete = False\<rparr>"

definition demo_raw :: string where
  "demo_raw = the (ec_enc demo_envelope_codec (envelope_of demo_place ''k''))"

definition demo_connected :: provider_owner where
  "demo_connected = demo_owner\<lparr>po_state := \<lparr>os_revision = 1, os_last_reachable = Some True, os_item = Some demo_raw\<rparr>\<rparr>"

lemma demo_store: "store_envelope demo_envelope_codec no_keyring_faults demo_place ''k'' = Inr demo_raw"
proof -
  have "length demo_raw = 93" by code_simp
  moreover have "validate_api_key_value ''k'' = Inr ()"
    by (simp add: validate_api_key_value_def MAX_API_KEY_BYTES_def is_b64token_char_def is_ascii_alphanumeric_def
        is_ascii_alphabetic_def byte_val_def)
  ultimately show ?thesis
    by (simp add: store_envelope_Inr no_keyring_faults_def demo_raw_def demo_envelope_codec_def)
qed

lemma demo_connect:
  "owner_exec no_keyring_faults (OConnect 0 demo_place ''k'') demo_owner = (AnsMut (Inr (Advanced 1)), demo_connected)"
  using owner_connect_ok [of demo_envelope_codec "owner_new None" no_keyring_faults demo_place "''k''" demo_raw] demo_store
  by (simp add: demo_owner_def demo_connected_def owner_new_def INITIAL_def revision_next_def no_keyring_faults_def)

lemma demo_connected_stored: "owner_stored demo_connected = SPresent demo_place ''k''"
  using classify_stored [OF demo_envelope_codec_ok demo_store]
  by (simp add: owner_stored_def demo_connected_def demo_owner_def)

theorem owner_refines_cas_register_witness:
  "cas_allows (OConnect 0 demo_place ''k'') (AnsMut (Inr (Advanced 1))) (SAbsent, 0) (SPresent demo_place ''k'', 1)"
  using owner_refines_cas_register [OF _ demo_connect] demo_envelope_codec_ok demo_connected_stored
  by (simp add: owner_stored_def owner_rev_def demo_owner_def demo_connected_def owner_new_def INITIAL_def)

text \<open>
  Of two mutations prepared at the same revision at most one is applied, whatever happens in between:
  once one has advanced the register, another at that revision is refused after any number of further
  operations and Keychain failures below \<open>2 ^ 62\<close>.
\<close>

theorem stale_mutation_is_refused:
  assumes "codec_ok (po_codec x)" "owner_exec kf op x = (AnsMut (Inr (Advanced q)), y)" "length ops < 2 ^ 62"
    and "expected_of op' = expected_of op"
  shows "\<exists>e. fst (owner_exec kf' op' (run_ops owner_exec ops y)) = AnsMut (Inl e)"
proof -
  obtain ans z where e: "owner_exec kf' op' (run_ops owner_exec ops y) = (ans, z)" by fastforce
  have ok: "owner_ok x" using assms(1) by (simp add: owner_ok_def)
  have "expected_of op \<noteq> None"
    using owner_refines_cas_register [OF assms(1, 2)] by (auto simp: cas_allows_def)
  then obtain r where "ans = AnsMut r" using e assms(4) by (cases op') (auto simp: map_prod_eq)
  moreover have "ans \<noteq> AnsMut (Inr out)" for out
    using ko.one_winner [OF ok assms(2, 3)] e assms(4) by blast
  ultimately show ?thesis using e by (cases r) auto
qed

theorem stale_mutation_is_refused_witness:
  "\<exists>e. fst (owner_exec no_keyring_faults (ORemove 0) (run_ops owner_exec [(no_keyring_faults, ORemove 1)] demo_connected)) = AnsMut (Inl e)"
  using stale_mutation_is_refused [OF _ demo_connect, of "[(no_keyring_faults, ORemove 1)]" "ORemove 0" no_keyring_faults]
    demo_envelope_codec_ok by (simp add: demo_owner_def)

text \<open>
  What is connected reads back. At an absent item whose Keychain was last reachable, connecting a
  well-shaped key at the current revision succeeds and advances the revision by one; a later read answers
  with exactly that revision and, for exactly that binding, exactly that key, and for any other binding
  with a mismatch that discloses nothing.
\<close>

theorem connected_credential_reads_back:
  assumes "codec_ok (po_codec x)" "owner_stored x = SAbsent" "os_last_reachable (po_state x) \<noteq> Some False"
    "\<not> kf_get kf" "store_envelope (po_codec x) kf b v = Inr raw" "\<not> kf_get kf'"
  shows "\<exists>y. owner_exec kf (OConnect (owner_rev x) b v) x = (AnsMut (Inr (Advanced (revision_next (owner_rev x)))), y) \<and>
    fst (owner_exec kf' (ORead b') y) =
      AnsRead \<lparr>rd_revision = revision_next (owner_rev x),
        rd_state = (if b' = b then Present \<lparr>le_binding = b, le_value = v\<rparr> else BindingMismatch)\<rparr>"
proof -
  have "classify_item (po_codec x) (os_item (po_state x)) = NAbsent"
    using assms(2) stored_view_SAbsent by (auto simp: owner_stored_def)
  note c = owner_connect_ok [OF this assms(3-5)] and s = classify_stored [OF assms(1, 5)]
  show ?thesis
    using c s assms(6)
    by (intro exI [of _ "x\<lparr>po_state := \<lparr>os_revision = revision_next (owner_rev x), os_last_reachable = Some True, os_item = Some raw\<rparr>\<rparr>"])
      (auto simp: owner_rev_def owner_read_bound_def locked_snapshot_def Let_def)
qed

theorem connected_credential_reads_back_witness:
  "fst (owner_exec no_keyring_faults (ORead demo_place) demo_connected) =
     AnsRead \<lparr>rd_revision = 1, rd_state = Present \<lparr>le_binding = demo_place, le_value = ''k''\<rparr>\<rparr>"
  using connected_credential_reads_back [of demo_owner no_keyring_faults demo_place "''k''" demo_raw no_keyring_faults demo_place]
    demo_envelope_codec_ok demo_store demo_connect
  by (simp add: demo_owner_def owner_stored_def owner_rev_def owner_new_def no_keyring_faults_def INITIAL_def revision_next_def)

end
