(* ===== verification/Credential_Channel.thy ===== *)
theory Credential_Channel
  imports Credential_Owner
begin

text \<open>
  The two ends of the credential channel. The desktop's listener
  (\<^verbatim>\<open>desktop/src-tauri/src/credential_bootstrap.rs\<close>) is a state machine: every accepted connection runs the
  task \<open>serve_one\<close>, cut at its awaits and at the points where another thread can act, so that hellos, the
  single serving slot, requests, owner mutations, shutdown and replies interleave in any order. The daemon's
  client and its resolver (\<^verbatim>\<open>crates/rhapsodyd/src/credential_client.rs\<close>) are functions of what the stream
  holds for them.

  Connections are numbered in the order of their acceptance. The lookup from account to owner is a map.
\<close>

section \<open>The listener\<close>

datatype conn_phase =
    AwaitHello
  | AwaitSlot
  | Serving
  | Checking string binding credential_read
  | Writing string binding revision server_frame
  | Ended

record connection =
  cn_phase :: conn_phase
  cn_session :: server_session

record listener =
  ls_token :: string
  ls_cancelled :: bool
  ls_slot :: "nat option"
  ls_conns :: "connection list"
  ls_owners :: "string \<rightharpoonup> provider_owner"
  ls_observed :: "string \<rightharpoonup> revision"

definition upd_conn :: "nat \<Rightarrow> connection \<Rightarrow> listener \<Rightarrow> listener" where
  "upd_conn i c l = l\<lparr>ls_conns := (ls_conns l)[i := c]\<rparr>"

text \<open>Returning from \<open>serve_one\<close> closes the stream and drops the permit, if it was held.\<close>

definition end_conn :: "nat \<Rightarrow> listener \<Rightarrow> listener" where
  "end_conn i l =
     (upd_conn i ((ls_conns l ! i)\<lparr>cn_phase := Ended\<rparr>) l)
       \<lparr>ls_slot := (if ls_slot l = Some i then None else ls_slot l)\<rparr>"

definition accept_connection :: "listener \<Rightarrow> listener" where
  "accept_connection l =
     l\<lparr>ls_conns := ls_conns l @ [\<lparr>cn_phase = AwaitHello, cn_session = server_session_new (ls_token l)\<rparr>]\<rparr>"

text \<open>\<open>ListenerShutdown::shutdown\<close>, an accept error and the drop of the listener's future all set the token.\<close>

definition cancel :: "listener \<Rightarrow> listener" where
  "cancel l = l\<lparr>ls_cancelled := True\<rparr>"

text \<open>The hello read, \<open>None\<close> when it failed or timed out.\<close>

definition conn_hello :: "nat \<Rightarrow> hello_frame option \<Rightarrow> listener \<Rightarrow> listener" where
  "conn_hello i h l =
     (case h of
        None \<Rightarrow> end_conn i l
      | Some hello \<Rightarrow>
          (case accept_hello (hf_token hello) (cn_session (ls_conns l ! i)) of
             (Inl e, s) \<Rightarrow> end_conn i l
           | (Inr _, s) \<Rightarrow> upd_conn i \<lparr>cn_phase = AwaitSlot, cn_session = s\<rparr> l))"

definition conn_permit :: "nat \<Rightarrow> listener \<Rightarrow> listener" where
  "conn_permit i l = (upd_conn i ((ls_conns l ! i)\<lparr>cn_phase := Serving\<rparr>) l)\<lparr>ls_slot := Some i\<rparr>"

text \<open>One request up to and including the owner's read; \<open>None\<close> is a failed read of the frame.\<close>

definition conn_request :: "nat \<Rightarrow> keyring_faults \<Rightarrow> client_frame option \<Rightarrow> listener \<Rightarrow> listener" where
  "conn_request i kf f l =
     (case f of
        None \<Rightarrow> end_conn i l
      | Some (ReadBound n account expected) \<Rightarrow>
          (case accept_client_seq n (cn_session (ls_conns l ! i)) of
             (Inl e, s) \<Rightarrow> end_conn i l
           | (Inr _, s) \<Rightarrow>
               if \<not> is_valid_credential_account account then end_conn i l
               else (case ls_owners l account of
                   None \<Rightarrow> end_conn i l
                 | Some ow \<Rightarrow>
                     (case owner_read_bound (po_codec ow) kf expected (po_state ow) of (rd, st) \<Rightarrow>
                        (upd_conn i \<lparr>cn_phase = Checking account expected rd, cn_session = s\<rparr> l)
                          \<lparr>ls_owners := (ls_owners l)(account \<mapsto> ow\<lparr>po_state := st\<rparr>)\<rparr>))))"

definition split_state :: "credential_state \<Rightarrow> credential_state_tag \<times> lease_payload option" where
  "split_state s =
     (state_tag s, case s of Present l \<Rightarrow> Some (into_lease_payload l) | _ \<Rightarrow> None)"

text \<open>The cancellation check after the read, and the frame it lets through.\<close>

definition conn_check :: "nat \<Rightarrow> listener \<Rightarrow> listener" where
  "conn_check i l =
     (case cn_phase (ls_conns l ! i) of
        Checking account expected rd \<Rightarrow>
          if ls_cancelled l then end_conn i l
          else (case split_state (rd_state rd) of (tag, lease) \<Rightarrow>
                case server_next_seq (cn_session (ls_conns l ! i)) of (n, s) \<Rightarrow>
                  upd_conn i \<lparr>cn_phase = Writing account expected (rd_revision rd)
                      (ReadBoundResult n (rd_revision rd) tag lease), cn_session = s\<rparr> l)
      | _ \<Rightarrow> l)"

definition record_observed :: "string \<Rightarrow> revision \<Rightarrow> (string \<rightharpoonup> revision) \<Rightarrow> (string \<rightharpoonup> revision)" where
  "record_observed account r m =
     (case m account of
        None \<Rightarrow> m(account \<mapsto> r)
      | Some q \<Rightarrow> if r > q then m(account \<mapsto> r) else m)"

text \<open>The write of the frame and its outcome.\<close>

definition conn_written :: "nat \<Rightarrow> bool \<Rightarrow> listener \<Rightarrow> listener" where
  "conn_written i ok l =
     (case cn_phase (ls_conns l ! i) of
        Writing account expected r f \<Rightarrow>
          if \<not> ok then end_conn i l
          else (upd_conn i ((ls_conns l ! i)\<lparr>cn_phase := Serving\<rparr>) l)\<lparr>ls_observed := record_observed account r (ls_observed l)\<rparr>
      | _ \<Rightarrow> l)"

section \<open>The client\<close>

datatype client_error =
  CFrame frame_error | CSession session_error | CIo io_kind | CTimeout | CPoisoned

record wire_codec =
  wc_hello_enc :: "hello_frame \<Rightarrow> bytes option"
  wc_hello_dec :: "bytes \<Rightarrow> hello_frame option"
  wc_client_enc :: "client_frame \<Rightarrow> bytes option"
  wc_client_dec :: "bytes \<Rightarrow> client_frame option"
  wc_server_enc :: "server_frame \<Rightarrow> bytes option"
  wc_server_dec :: "bytes \<Rightarrow> server_frame option"
  wc_boot_dec :: "bytes \<Rightarrow> bootstrap_message option"

type_synonym write_fault = "(nat \<times> io_kind) option"

record credential_client =
  cl_session :: client_session
  cl_poisoned :: bool

text \<open>A read that is still waiting when the timeout fires has the result \<open>None\<close>.\<close>

definition read_bootstrap :: "wire_codec \<Rightarrow> stream \<Rightarrow> bootstrap_message option" where
  "read_bootstrap wc stdin =
     (case read_frame (wc_boot_dec wc) stdin of Some (Inr m, _) \<Rightarrow> Some m | _ \<Rightarrow> None)"

definition handshake ::
  "wire_codec \<Rightarrow> write_fault \<Rightarrow> string \<Rightarrow> (client_error, credential_client) result \<times> bytes" where
  "handshake wc fault token =
     (let s = client_session_new token in
      case write_frame (wc_hello_enc wc) fault \<lparr>hf_token = cs_token s\<rparr> of
        (Inl e, out) \<Rightarrow> (Inl (CFrame e), out)
      | (Inr _, out) \<Rightarrow> (Inr \<lparr>cl_session = s, cl_poisoned = False\<rparr>, out))"

fun to_domain_state :: "credential_state_tag \<Rightarrow> lease_payload option \<Rightarrow> credential_state" where
  "to_domain_state TPresent (Some l) = Present \<lparr>le_binding = lp_binding l, le_value = lp_value l\<rparr>"
| "to_domain_state TPresent None = Malformed"
| "to_domain_state TAbsent _ = Absent"
| "to_domain_state TDeniedOrLocked _ = DeniedOrLocked"
| "to_domain_state TMalformed _ = Malformed"
| "to_domain_state TBindingMismatch _ = BindingMismatch"
| "to_domain_state TOwnerUnavailable _ = OwnerUnavailable"
| "to_domain_state TOwnerUnauthorized _ = OwnerUnauthorized"

lemma read_frame_consumes:
  "read_frame dec s = Some (Inr m, s') \<Longrightarrow> length (arrived s') < length (arrived s)"
  by (auto simp: read_frame_def read_exact_def Let_def split: option.splits sum.splits prod.splits if_splits stream_end.splits)

function await_reply ::
  "wire_codec \<Rightarrow> client_session \<Rightarrow> stream \<Rightarrow> (client_error, credential_read) result \<times> client_session" where
  "await_reply wc cs s =
     (case read_frame (wc_server_dec wc) s of
        None \<Rightarrow> (Inl CTimeout, cs)
      | Some (Inl e, s') \<Rightarrow> (Inl (CFrame e), cs)
      | Some (Inr (ReadBoundResult n r tag lease), s') \<Rightarrow>
          (case accept_server_seq n cs of
             (Inl e, cs') \<Rightarrow> (Inl (CSession e), cs')
           | (Inr _, cs') \<Rightarrow> (Inr \<lparr>rd_revision = r, rd_state = to_domain_state tag lease\<rparr>, cs'))
      | Some (Inr (RevisionChanged n r), s') \<Rightarrow>
          (case accept_server_seq n cs of
             (Inl e, cs') \<Rightarrow> (Inl (CSession e), cs')
           | (Inr _, cs') \<Rightarrow> await_reply wc cs' s'))"
  by pat_completeness auto
termination
  by (relation "measure (\<lambda>(wc, cs, s). length (arrived s))") (auto dest: read_frame_consumes)

declare await_reply.simps [simp del]

text \<open>
  One call: \<open>fault\<close> is the write error of the request and \<open>inbound\<close> what the stream will have brought when
  the answer is awaited. The last component is what the call wrote.
\<close>

definition client_read_bound ::
  "wire_codec \<Rightarrow> write_fault \<Rightarrow> string \<Rightarrow> binding \<Rightarrow> stream \<Rightarrow> credential_client
    \<Rightarrow> ((client_error, credential_read) result \<times> credential_client) \<times> bytes" where
  "client_read_bound wc fault account expected inbound c =
     (if cl_poisoned c then ((Inl CPoisoned, c), [])
      else case client_next_seq (cl_session c) of (n, cs) \<Rightarrow>
        case write_frame (wc_client_enc wc) fault (ReadBound n account expected) of
          (Inl e, out) \<Rightarrow> ((Inl (CFrame e), \<lparr>cl_session = cs, cl_poisoned = True\<rparr>), out)
        | (Inr _, out) \<Rightarrow>
            (case await_reply wc cs inbound of
               (Inr rd, cs') \<Rightarrow> ((Inr rd, \<lparr>cl_session = cs', cl_poisoned = False\<rparr>), out)
             | (Inl e, cs') \<Rightarrow> ((Inl e, \<lparr>cl_session = cs', cl_poisoned = True\<rparr>), out)))"

definition unavailable_read :: credential_read where
  "unavailable_read = \<lparr>rd_revision = INITIAL, rd_state = OwnerUnavailable\<rparr>"

fun is_owner_closed :: "client_error \<Rightarrow> bool" where
  "is_owner_closed (CFrame Eof) = True"
| "is_owner_closed (CFrame (Io e)) = (e = ConnectionReset \<or> e = BrokenPipe)"
| "is_owner_closed _ = False"

definition classify_read_bound_failure :: "client_error \<Rightarrow> credential_read" where
  "classify_read_bound_failure e =
     (if is_owner_closed e then \<lparr>rd_revision = INITIAL, rd_state = OwnerUnauthorized\<rparr> else unavailable_read)"

text \<open>\<open>connected\<close> tells whether the socket could be opened.\<close>

definition read_over_channel ::
  "wire_codec \<Rightarrow> bool \<Rightarrow> write_fault \<Rightarrow> write_fault \<Rightarrow> bootstrap_message \<Rightarrow> string \<Rightarrow> binding \<Rightarrow> stream \<Rightarrow> credential_read" where
  "read_over_channel wc connected hfault rfault msg account expected inbound =
     (if \<not> connected then unavailable_read
      else case fst (handshake wc hfault (bm_token msg)) of
          Inl e \<Rightarrow> unavailable_read
        | Inr c \<Rightarrow>
            (case fst (fst (client_read_bound wc rfault account expected inbound c)) of
               Inr rd \<Rightarrow> rd
             | Inl e \<Rightarrow> classify_read_bound_failure e))"

section \<open>The resolver\<close>

datatype reachability = Answered | Unreachable | Unauthorised

record availability_state =
  av_generation :: revision
  av_last :: "reachability option"
  av_high_water :: "revision option"

definition availability_default :: availability_state where
  "availability_default = \<lparr>av_generation = INITIAL, av_last = None, av_high_water = None\<rparr>"

record credential_resolver =
  rs_state :: "string \<rightharpoonup> availability_state"
  rs_channel :: "bootstrap_message option option"

definition resolver_new :: credential_resolver where
  "resolver_new = \<lparr>rs_state = Map.empty, rs_channel = None\<rparr>"

definition learn_bootstrap :: "wire_codec \<Rightarrow> stream \<Rightarrow> credential_resolver \<Rightarrow> credential_resolver" where
  "learn_bootstrap wc stdin r =
     (if rs_channel r = None then r\<lparr>rs_channel := Some (read_bootstrap wc stdin)\<rparr> else r)"

definition adopt_bootstrap :: "bootstrap_message option \<Rightarrow> credential_resolver \<Rightarrow> credential_resolver" where
  "adopt_bootstrap m r = (if rs_channel r = None then r\<lparr>rs_channel := Some m\<rparr> else r)"

fun reach_class :: "credential_state \<Rightarrow> reachability" where
  "reach_class OwnerUnavailable = Unreachable"
| "reach_class OwnerUnauthorized = Unauthorised"
| "reach_class _ = Answered"

record observed_read =
  ob_read :: credential_read
  ob_generation :: revision

definition observe_state :: "credential_read \<Rightarrow> availability_state \<Rightarrow> availability_state" where
  "observe_state rd st =
     (let class = reach_class (rd_state rd) in
      \<lparr>av_generation = (case av_last st of
           Some prev \<Rightarrow> if prev \<noteq> class then revision_next (av_generation st) else av_generation st
         | None \<Rightarrow> av_generation st),
       av_last = Some class,
       av_high_water =
         (if class = Answered then
            Some (case av_high_water st of Some p \<Rightarrow> max p (rd_revision rd) | None \<Rightarrow> rd_revision rd)
          else av_high_water st)\<rparr>)"

definition resolver_observe :: "string \<Rightarrow> credential_read \<Rightarrow> credential_resolver \<Rightarrow> observed_read \<times> credential_resolver" where
  "resolver_observe account rd r =
     (let st = observe_state rd (case rs_state r account of Some s \<Rightarrow> s | None \<Rightarrow> availability_default) in
      (\<lparr>ob_read = \<lparr>rd_revision = (if reach_class (rd_state rd) = Answered then rd_revision rd else INITIAL),
                   rd_state = rd_state rd\<rparr>,
        ob_generation = av_generation st\<rparr>,
       r\<lparr>rs_state := (rs_state r)(account \<mapsto> st)\<rparr>))"

definition high_water :: "string \<Rightarrow> credential_resolver \<Rightarrow> revision option" where
  "high_water account r = (case rs_state r account of Some st \<Rightarrow> av_high_water st | None \<Rightarrow> None)"

definition resolver_read_bound ::
  "wire_codec \<Rightarrow> bool \<Rightarrow> write_fault \<Rightarrow> write_fault \<Rightarrow> string \<Rightarrow> binding \<Rightarrow> stream \<Rightarrow> credential_resolver
    \<Rightarrow> observed_read \<times> credential_resolver" where
  "resolver_read_bound wc connected hfault rfault account expected inbound r =
     resolver_observe account
       (case rs_channel r of
          Some (Some msg) \<Rightarrow> read_over_channel wc connected hfault rfault msg account expected inbound
        | _ \<Rightarrow> unavailable_read) r"

end
