(* ===== verification/Channel_Trace.thy ===== *)
theory Channel_Trace
  imports Credential_Channel
begin

text \<open>
  Every history of the credential channel. \<open>channel\<close> interleaves the steps of any number of connections, of
  the listener's shutdown and of the desktop's own operations on the credentials, in any order; three ghost
  components remember who presented which token, what each account ever held at which revision, and which
  frames were handed to a connection for writing. The peers are arbitrary: every hello and every request may
  carry anything.

  On top of it: what a lease on the wire proves, what a shutdown stops, and the whole exchange between the
  daemon and the desktop as bytes.
\<close>

section \<open>Histories\<close>

record channel_ghost =
  cg_hellos :: "(nat \<times> string) set"
  cg_held :: "(string \<times> stored \<times> revision) set"
  cg_sent :: "(nat \<times> string \<times> binding \<times> server_frame) list"

definition phase_of_conn :: "listener \<Rightarrow> nat \<Rightarrow> conn_phase" where
  "phase_of_conn l i = cn_phase (ls_conns l ! i)"

definition held_by :: "string \<Rightarrow> provider_owner \<Rightarrow> string \<times> stored \<times> revision" where
  "held_by account ow = (account, owner_stored ow, owner_rev ow)"

definition ghost_held :: "listener \<Rightarrow> (string \<times> stored \<times> revision) set" where
  "ghost_held l = {held_by a ow | a ow. ls_owners l a = Some ow}"

text \<open>The desktop's own operation on the credential of an account.\<close>

definition owner_acts :: "string \<Rightarrow> keyring_faults \<Rightarrow> owner_op \<Rightarrow> listener \<Rightarrow> listener" where
  "owner_acts account kf op l =
     (case ls_owners l account of
        None \<Rightarrow> l
      | Some ow \<Rightarrow> l\<lparr>ls_owners := (ls_owners l)(account \<mapsto> snd (owner_exec kf op ow))\<rparr>)"

definition listener_init :: "string \<Rightarrow> (string \<rightharpoonup> provider_owner) \<Rightarrow> listener" where
  "listener_init token owners =
     \<lparr>ls_token = token, ls_cancelled = False, ls_slot = None, ls_conns = [], ls_owners = owners, ls_observed = Map.empty\<rparr>"

fun is_checking :: "conn_phase \<Rightarrow> bool" where
  "is_checking (Checking a b rd) = True"
| "is_checking _ = False"

fun is_writing :: "conn_phase \<Rightarrow> bool" where
  "is_writing (Writing a b r f) = True"
| "is_writing _ = False"

fun frame_in :: "nat \<Rightarrow> conn_phase \<Rightarrow> (nat \<times> string \<times> binding \<times> server_frame) list" where
  "frame_in i (Writing a b r f) = [(i, a, b, f)]"
| "frame_in i _ = []"

inductive channel_step :: "listener \<times> channel_ghost \<Rightarrow> listener \<times> channel_ghost \<Rightarrow> bool" where
  accept: "channel_step (l, g) (accept_connection l, g)"
| shutdown: "channel_step (l, g) (cancel l, g)"
| give_up: "i < length (ls_conns l) \<Longrightarrow> ls_cancelled l \<Longrightarrow> phase_of_conn l i \<in> {AwaitHello, AwaitSlot, Serving} \<Longrightarrow>
    channel_step (l, g) (end_conn i l, g)"
| hello: "i < length (ls_conns l) \<Longrightarrow> phase_of_conn l i = AwaitHello \<Longrightarrow>
    channel_step (l, g) (conn_hello i h l,
      g\<lparr>cg_hellos := cg_hellos g \<union> (case h of None \<Rightarrow> {} | Some f \<Rightarrow> {(i, hf_token f)})\<rparr>)"
| permit: "i < length (ls_conns l) \<Longrightarrow> phase_of_conn l i = AwaitSlot \<Longrightarrow> ls_slot l = None \<Longrightarrow>
    channel_step (l, g) (conn_permit i l, g)"
| request: "i < length (ls_conns l) \<Longrightarrow> phase_of_conn l i = Serving \<Longrightarrow>
    channel_step (l, g) (conn_request i kf f l, g\<lparr>cg_held := cg_held g \<union> ghost_held (conn_request i kf f l)\<rparr>)"
| check: "i < length (ls_conns l) \<Longrightarrow> is_checking (phase_of_conn l i) \<Longrightarrow>
    channel_step (l, g) (conn_check i l, g)"
| written: "i < length (ls_conns l) \<Longrightarrow> is_writing (phase_of_conn l i) \<Longrightarrow>
    channel_step (l, g) (conn_written i ok l, g\<lparr>cg_sent := cg_sent g @ frame_in i (phase_of_conn l i)\<rparr>)"
| owner: "channel_step (l, g) (owner_acts a kf op l, g\<lparr>cg_held := cg_held g \<union> ghost_held (owner_acts a kf op l)\<rparr>)"

definition channel_start :: "string \<Rightarrow> (string \<rightharpoonup> provider_owner) \<Rightarrow> listener \<times> channel_ghost" where
  "channel_start token owners =
     (let l = listener_init token owners in (l, \<lparr>cg_hellos = {}, cg_held = ghost_held l, cg_sent = []\<rparr>))"

abbreviation channel :: "string \<Rightarrow> (string \<rightharpoonup> provider_owner) \<Rightarrow> listener \<times> channel_ghost \<Rightarrow> bool" where
  "channel token owners x \<equiv> channel_step\<^sup>*\<^sup>* (channel_start token owners) x"

section \<open>The invariant\<close>

text \<open>What a frame may say: a lease only of what the account held, under the binding that was asked for.\<close>

definition frame_ok :: "(string \<times> stored \<times> revision) set \<Rightarrow> string \<Rightarrow> binding \<Rightarrow> server_frame \<Rightarrow> bool" where
  "frame_ok held a b f \<longleftrightarrow>
     (case f of
        ReadBoundResult n r tag lease \<Rightarrow>
          (\<forall>p. lease = Some p \<longrightarrow> tag = TPresent \<and> lp_binding p = b \<and> (a, SPresent b (lp_value p), r) \<in> held) \<and>
          (tag = TPresent \<longrightarrow> lease \<noteq> None)
      | RevisionChanged n r \<Rightarrow> False)"

definition read_ok :: "(string \<times> stored \<times> revision) set \<Rightarrow> string \<Rightarrow> binding \<Rightarrow> credential_read \<Rightarrow> bool" where
  "read_ok held a b rd \<longleftrightarrow>
     (\<forall>l. rd_state rd = Present l \<longrightarrow> le_binding l = b \<and> (a, SPresent b (le_value l), rd_revision rd) \<in> held)"

definition sent_on :: "nat \<Rightarrow> (nat \<times> string \<times> binding \<times> server_frame) list \<Rightarrow> server_frame list" where
  "sent_on i fs = map (\<lambda>(_, _, _, f). f) (filter (\<lambda>x. fst x = i) fs)"

definition numbered :: "server_frame list \<Rightarrow> bool" where
  "numbered fs \<longleftrightarrow> map sf_seq fs = map of_nat [1..<Suc (length fs)]"

fun phase_ok :: "(string \<times> stored \<times> revision) set \<Rightarrow> conn_phase \<Rightarrow> bool" where
  "phase_ok held (Checking a b rd) \<longleftrightarrow> read_ok held a b rd"
| "phase_ok held (Writing a b r f) \<longleftrightarrow> frame_ok held a b f \<and> sf_revision f = r"
| "phase_ok held _ \<longleftrightarrow> True"

definition needs_slot :: "conn_phase \<Rightarrow> bool" where
  "needs_slot p \<longleftrightarrow> p \<notin> {AwaitHello, AwaitSlot, Ended}"

definition conn_ok :: "string \<Rightarrow> channel_ghost \<Rightarrow> nat \<Rightarrow> connection \<Rightarrow> bool" where
  "conn_ok token g i c \<longleftrightarrow>
     ss_expected_token (cn_session c) = token \<and>
     (ss_authenticated (cn_session c) \<longrightarrow> (i, token) \<in> cg_hellos g) \<and>
     (cn_phase c \<notin> {AwaitHello, Ended} \<longrightarrow> ss_authenticated (cn_session c)) \<and>
     phase_ok (cg_held g) (cn_phase c) \<and>
     numbered (sent_on i (cg_sent g @ frame_in i (cn_phase c))) \<and>
     (cn_phase c \<noteq> Ended \<longrightarrow>
       ss_next_server_seq (cn_session c) = of_nat (Suc (length (sent_on i (cg_sent g @ frame_in i (cn_phase c))))))"

fun entry_ok :: "string \<Rightarrow> channel_ghost \<Rightarrow> nat \<Rightarrow> nat \<times> string \<times> binding \<times> server_frame \<Rightarrow> bool" where
  "entry_ok token g n (i, a, b, f) \<longleftrightarrow> i < n \<and> (i, token) \<in> cg_hellos g \<and> frame_ok (cg_held g) a b f"

definition channel_inv :: "string \<Rightarrow> listener \<times> channel_ghost \<Rightarrow> bool" where
  "channel_inv token x \<longleftrightarrow>
     (case x of (l, g) \<Rightarrow>
        ls_token l = token \<and>
        (\<forall>i < length (ls_conns l). conn_ok token g i (ls_conns l ! i)) \<and>
        (\<forall>i < length (ls_conns l). needs_slot (phase_of_conn l i) \<longrightarrow> ls_slot l = Some i) \<and>
        (\<forall>e \<in> set (cg_sent g). entry_ok token g (length (ls_conns l)) e) \<and>
        ghost_held l \<subseteq> cg_held g \<and> (\<forall>a ow. ls_owners l a = Some ow \<longrightarrow> owner_ok ow))"

lemma sent_on_append [simp]: "sent_on i (xs @ ys) = sent_on i xs @ sent_on i ys"
  by (simp add: sent_on_def)

lemma sent_on_frame_in [simp]: "i \<noteq> j \<Longrightarrow> sent_on j (frame_in i p) = []"
  by (cases p) (simp_all add: sent_on_def)

lemma sent_on_simps [simp]: "sent_on i [] = []" "sent_on i [(i, a, b, f)] = [f]"
  by (simp_all add: sent_on_def)

lemma numbered_simps [simp]:
  "numbered []" "numbered (fs @ [f]) \<longleftrightarrow> numbered fs \<and> sf_seq f = of_nat (Suc (length fs))"
  by (simp_all add: numbered_def)

lemma frame_ok_mono: "frame_ok held a b f \<Longrightarrow> held \<subseteq> held' \<Longrightarrow> frame_ok held' a b f"
  by (cases f; hypsubst; unfold frame_ok_def server_frame.case subset_iff; blast)

lemma phase_ok_mono: "phase_ok held p \<Longrightarrow> held \<subseteq> held' \<Longrightarrow> phase_ok held' p"
  by (cases p) (auto simp: read_ok_def frame_ok_mono [of held _ _ _ held'])

definition ghost_le :: "nat \<Rightarrow> channel_ghost \<Rightarrow> channel_ghost \<Rightarrow> bool" where
  "ghost_le i g g' \<longleftrightarrow>
     cg_hellos g \<subseteq> cg_hellos g' \<and> cg_held g \<subseteq> cg_held g' \<and> (\<forall>j. j \<noteq> i \<longrightarrow> sent_on j (cg_sent g') = sent_on j (cg_sent g))"

lemma conn_ok_mono: "conn_ok token g j c \<Longrightarrow> ghost_le i g g' \<Longrightarrow> j \<noteq> i \<Longrightarrow> conn_ok token g' j c"
  by (auto simp: conn_ok_def ghost_le_def intro: phase_ok_mono)

lemma channel_inv_upd:
  assumes inv: "channel_inv token (l, g)" and i: "i < length (ls_conns l)" and le: "ghost_le i g g'"
    and l': "ls_token l' = ls_token l" "ls_conns l' = (ls_conns l)[i := c]"
    and c: "conn_ok token g' i c" "needs_slot (cn_phase c) \<Longrightarrow> ls_slot l' = Some i"
    and slot: "\<And>j. j \<noteq> i \<Longrightarrow> ls_slot l = Some j \<Longrightarrow> ls_slot l' = Some j"
    and sent: "set (cg_sent g') \<subseteq> set (cg_sent g) \<union> {(i, a, b, f) | a b f. (i, token) \<in> cg_hellos g \<and> frame_ok (cg_held g) a b f}"
    and held: "ghost_held l' \<subseteq> cg_held g'" and own: "\<And>a ow. ls_owners l' a = Some ow \<Longrightarrow> owner_ok ow"
  shows "channel_inv token (l', g')"
proof -
  have sub: "cg_hellos g \<subseteq> cg_hellos g'" "cg_held g \<subseteq> cg_held g'" using le by (auto simp: ghost_le_def)
  have "conn_ok token g' j (ls_conns l' ! j)" if "j < length (ls_conns l')" for j
    using inv i c(1) that conn_ok_mono [OF _ le, of token j] by (cases "j = i") (auto simp: channel_inv_def l')
  moreover have "ls_slot l' = Some j" if "j < length (ls_conns l')" "needs_slot (phase_of_conn l' j)" for j
    using inv i c(2) slot that by (cases "j = i") (auto simp: channel_inv_def l' phase_of_conn_def)
  moreover have "entry_ok token g' (length (ls_conns l')) e" if "e \<in> set (cg_sent g')" for e
  proof (cases "e \<in> set (cg_sent g)")
    case True
    with inv have "entry_ok token g (length (ls_conns l)) e" by (simp add: channel_inv_def)
    with sub show ?thesis by (cases e) (auto simp: l' intro: frame_ok_mono)
  next
    case False
    with that sent obtain a b f where "e = (i, a, b, f)" "(i, token) \<in> cg_hellos g" "frame_ok (cg_held g) a b f"
      by blast
    with i sub show ?thesis by (auto simp: l' intro: frame_ok_mono)
  qed
  ultimately show ?thesis using inv held own by (simp add: channel_inv_def l')
qed

lemma ghost_le_refl [simp]: "ghost_le i g g"
  by (simp add: ghost_le_def)

lemma channel_inv_end:
  assumes inv: "channel_inv token (l, g)" and i: "i < length (ls_conns l)" and le: "ghost_le i g g'"
    and sent: "sent_on i (cg_sent g') = sent_on i (cg_sent g @ frame_in i (phase_of_conn l i))"
      "set (cg_sent g') \<subseteq> set (cg_sent g) \<union> {(i, a, b, f) | a b f. (i, token) \<in> cg_hellos g \<and> frame_ok (cg_held g) a b f}"
    and held: "ghost_held l \<subseteq> cg_held g'"
  shows "channel_inv token (end_conn i l, g')"
proof (rule channel_inv_upd [OF inv i le])
  show "conn_ok token g' i ((ls_conns l ! i)\<lparr>cn_phase := Ended\<rparr>)"
    using inv i le sent(1) by (auto simp: channel_inv_def conn_ok_def ghost_le_def phase_of_conn_def)
qed (use inv sent(2) held in \<open>auto simp: end_conn_def upd_conn_def needs_slot_def channel_inv_def ghost_held_def\<close>)

lemma owner_read_ok:
  assumes "owner_ok ow" "owner_read_bound (po_codec ow) kf b (po_state ow) = (rd, st)"
    and "held_by a (ow\<lparr>po_state := st\<rparr>) \<in> held"
  shows "read_ok held a b rd"
proof -
  have "owner_exec kf (ORead b) ow = (AnsRead rd, ow\<lparr>po_state := st\<rparr>)" using assms(2) by simp
  from ko.exec_refines [OF assms(1) this] have
    "owner_stored (ow\<lparr>po_state := st\<rparr>) = owner_stored ow" "owner_rev (ow\<lparr>po_state := st\<rparr>) = rd_revision rd"
    "rd_state rd \<in> {DeniedOrLocked, view b (owner_stored ow)}"
    by (auto simp: cas_allows_def)
  then show ?thesis
    using assms(3) by (cases "owner_stored ow") (auto simp: read_ok_def held_by_def split: if_splits)
qed

lemma channel_inv_conn: "channel_inv token (l, g) \<Longrightarrow> i < length (ls_conns l) \<Longrightarrow> conn_ok token g i (ls_conns l ! i)"
  by (simp add: channel_inv_def)

lemma channel_inv_owner:
  "channel_inv token (l, g) \<Longrightarrow> ls_owners l a = Some ow \<Longrightarrow> owner_ok ow \<and> held_by a ow \<in> cg_held g"
  unfolding channel_inv_def ghost_held_def by blast

lemma hello_inv:
  assumes "channel_inv token (l, g)" "i < length (ls_conns l)" "phase_of_conn l i = AwaitHello"
  shows "channel_inv token (conn_hello i h l,
    g\<lparr>cg_hellos := cg_hellos g \<union> (case h of None \<Rightarrow> {} | Some f \<Rightarrow> {(i, hf_token f)})\<rparr>)" (is "channel_inv token (_, ?g)")
proof -
  have le: "ghost_le i g ?g" by (auto simp: ghost_le_def)
  note c = channel_inv_conn [OF assms(1, 2)]
  have ended: "channel_inv token (end_conn i l, ?g)"
    by (rule channel_inv_end [OF assms(1, 2) le]) (use assms in \<open>auto simp: channel_inv_def\<close>)
  show ?thesis
  proof (cases "\<exists>f s. h = Some f \<and> accept_hello (hf_token f) (cn_session (ls_conns l ! i)) = (Inr (), s)")
    case False
    then show ?thesis using ended by (auto simp: conn_hello_def split: option.splits prod.splits sum.splits)
  next
    case True
    then obtain f s where h: "h = Some f" "accept_hello (hf_token f) (cn_session (ls_conns l ! i)) = (Inr (), s)" by blast
    have tok: "hf_token f = token" "s = (cn_session (ls_conns l ! i))\<lparr>ss_authenticated := True\<rparr>"
      using h(2) c by (auto simp: accept_hello_def conn_ok_def split: if_splits)
    have "channel_inv token (upd_conn i \<lparr>cn_phase = AwaitSlot, cn_session = s\<rparr> l, ?g)"
    proof (rule channel_inv_upd [OF assms(1, 2) le])
      show "conn_ok token ?g i \<lparr>cn_phase = AwaitSlot, cn_session = s\<rparr>"
        using c h(1) tok assms(3) by (auto simp: conn_ok_def phase_of_conn_def)
    qed (use assms(1) in \<open>auto simp: upd_conn_def needs_slot_def channel_inv_def ghost_held_def\<close>)
    then show ?thesis using h by (simp add: conn_hello_def)
  qed
qed

lemma permit_inv:
  assumes "channel_inv token (l, g)" "i < length (ls_conns l)" "phase_of_conn l i = AwaitSlot" "ls_slot l = None"
  shows "channel_inv token (conn_permit i l, g)"
proof (rule channel_inv_upd [OF assms(1, 2) ghost_le_refl])
  show "conn_ok token g i ((ls_conns l ! i)\<lparr>cn_phase := Serving\<rparr>)"
    using channel_inv_conn [OF assms(1, 2)] assms(3) by (auto simp: conn_ok_def phase_of_conn_def)
qed (use assms in \<open>auto simp: conn_permit_def upd_conn_def channel_inv_def ghost_held_def\<close>)

lemma request_inv:
  assumes inv: "channel_inv token (l, g)" and i: "i < length (ls_conns l)" and p: "phase_of_conn l i = Serving"
  shows "channel_inv token (conn_request i kf f l, g\<lparr>cg_held := cg_held g \<union> ghost_held (conn_request i kf f l)\<rparr>)"
proof -
  have le: "ghost_le i g (g\<lparr>cg_held := cg_held g \<union> H\<rparr>)" for H by (auto simp: ghost_le_def)
  note c = channel_inv_conn [OF inv i]
  have ended: "channel_inv token (end_conn i l, g\<lparr>cg_held := cg_held g \<union> H\<rparr>)" for H
    by (rule channel_inv_end [OF inv i le]) (use inv p in \<open>auto simp: channel_inv_def\<close>)
  show ?thesis
  proof (cases "\<exists>n a b s ow. f = Some (ReadBound n a b) \<and> accept_client_seq n (cn_session (ls_conns l ! i)) = (Inr (), s) \<and>
      is_valid_credential_account a \<and> ls_owners l a = Some ow")
    case False
    then have "conn_request i kf f l = end_conn i l"
      by (auto simp: conn_request_def split: option.splits client_frame.splits prod.splits sum.splits)
    then show ?thesis using ended by simp
  next
    case True
    then obtain n a b s ow where f: "f = Some (ReadBound n a b)" "is_valid_credential_account a" "ls_owners l a = Some ow"
      and s: "accept_client_seq n (cn_session (ls_conns l ! i)) = (Inr (), s)" by blast
    obtain rd st where r: "owner_read_bound (po_codec ow) kf b (po_state ow) = (rd, st)" by fastforce
    let ?l = "(upd_conn i \<lparr>cn_phase = Checking a b rd, cn_session = s\<rparr> l)\<lparr>ls_owners := (ls_owners l)(a \<mapsto> ow\<lparr>po_state := st\<rparr>)\<rparr>"
    have l: "conn_request i kf f l = ?l" using f s r by (simp add: conn_request_def)
    have own: "owner_ok ow" using channel_inv_owner [OF inv f(3)] by blast
    have "held_by a (ow\<lparr>po_state := st\<rparr>) \<in> cg_held g \<union> ghost_held ?l" by (auto simp: ghost_held_def)
    note rok = owner_read_ok [OF own r this]
    have "channel_inv token (?l, g\<lparr>cg_held := cg_held g \<union> ghost_held ?l\<rparr>)"
    proof (rule channel_inv_upd [OF inv i le])
      show "conn_ok token (g\<lparr>cg_held := cg_held g \<union> ghost_held ?l\<rparr>) i \<lparr>cn_phase = Checking a b rd, cn_session = s\<rparr>"
        using c p s rok by (auto simp: conn_ok_def phase_of_conn_def accept_client_seq_def split: if_splits)
    qed (use inv p own i in \<open>auto simp: upd_conn_def channel_inv_def needs_slot_def owner_ok_def split: if_splits\<close>)
    then show ?thesis by (simp add: l)
  qed
qed

lemma check_inv:
  assumes inv: "channel_inv token (l, g)" and i: "i < length (ls_conns l)" and p: "is_checking (phase_of_conn l i)"
  shows "channel_inv token (conn_check i l, g)"
proof -
  from p obtain a b rd where ph: "cn_phase (ls_conns l ! i) = Checking a b rd"
    by (cases "phase_of_conn l i") (auto simp: phase_of_conn_def)
  note c = channel_inv_conn [OF inv i]
  show ?thesis
  proof (cases "ls_cancelled l")
    case True
    then have "conn_check i l = end_conn i l" by (simp add: conn_check_def ph)
    moreover have "channel_inv token (end_conn i l, g)"
      by (rule channel_inv_end [OF inv i ghost_le_refl]) (use inv ph in \<open>auto simp: channel_inv_def phase_of_conn_def\<close>)
    ultimately show ?thesis by simp
  next
    case False
    let ?f = "ReadBoundResult (ss_next_server_seq (cn_session (ls_conns l ! i))) (rd_revision rd)
      (fst (split_state (rd_state rd))) (snd (split_state (rd_state rd)))"
    let ?c = "\<lparr>cn_phase = Writing a b (rd_revision rd) ?f, cn_session = snd (server_next_seq (cn_session (ls_conns l ! i)))\<rparr>"
    have l: "conn_check i l = upd_conn i ?c l" using False by (simp add: conn_check_def ph server_next_seq_def split: prod.splits)
    have "frame_ok (cg_held g) a b ?f"
      using c ph by (cases "rd_state rd") (auto simp: conn_ok_def read_ok_def frame_ok_def split_state_def into_lease_payload_def)
    then have "conn_ok token g i ?c"
      using c ph by (auto simp: conn_ok_def server_next_seq_def)
    then have "channel_inv token (upd_conn i ?c l, g)"
      by (rule channel_inv_upd [OF inv i ghost_le_refl, rotated 2])
        (use inv ph i in \<open>auto simp: upd_conn_def channel_inv_def needs_slot_def phase_of_conn_def ghost_held_def\<close>)
    then show ?thesis by (simp add: l)
  qed
qed

lemma written_inv:
  assumes inv: "channel_inv token (l, g)" and i: "i < length (ls_conns l)" and p: "is_writing (phase_of_conn l i)"
  shows "channel_inv token (conn_written i ok l, g\<lparr>cg_sent := cg_sent g @ frame_in i (phase_of_conn l i)\<rparr>)"
    (is "channel_inv token (_, ?g)")
proof -
  from p obtain a b r f where ph: "cn_phase (ls_conns l ! i) = Writing a b r f"
    by (cases "phase_of_conn l i") (auto simp: phase_of_conn_def)
  note c = channel_inv_conn [OF inv i]
  have le: "ghost_le i g ?g" by (auto simp: ghost_le_def)
  have new: "set (cg_sent ?g) \<subseteq> set (cg_sent g) \<union> {(i, a, b, f) | a b f. (i, token) \<in> cg_hellos g \<and> frame_ok (cg_held g) a b f}"
    using c ph by (auto simp: phase_of_conn_def conn_ok_def)
  show ?thesis
  proof (cases ok)
    case False
    then have "conn_written i ok l = end_conn i l" by (simp add: conn_written_def ph)
    moreover have "channel_inv token (end_conn i l, ?g)"
      by (rule channel_inv_end [OF inv i le _ new]) (use inv in \<open>auto simp: channel_inv_def\<close>)
    ultimately show ?thesis by simp
  next
    case True
    have "conn_ok token ?g i ((ls_conns l ! i)\<lparr>cn_phase := Serving\<rparr>)"
      using c ph by (auto simp: conn_ok_def phase_of_conn_def)
    then show ?thesis
      by (rule channel_inv_upd [OF inv i le, rotated 2])
        (use inv ph i True new in \<open>auto simp: conn_written_def upd_conn_def channel_inv_def needs_slot_def phase_of_conn_def ghost_held_def\<close>)
  qed
qed

lemma accept_inv:
  assumes inv: "channel_inv token (l, g)"
  shows "channel_inv token (accept_connection l, g)"
proof -
  let ?n = "length (ls_conns l)"
  have old: "entry_ok token g ?n e" if "e \<in> set (cg_sent g)" for e
    using inv that by (simp add: channel_inv_def)
  then have none: "sent_on ?n (cg_sent g) = []" by (fastforce simp: sent_on_def filter_empty_conv)
  have "(?n, token) \<in> cg_hellos g \<or> True" by simp
  have "entry_ok token g (Suc ?n) e" if "e \<in> set (cg_sent g)" for e
    using old [OF that] by (cases e) auto
  moreover have "conn_ok token g i (ls_conns (accept_connection l) ! i)" if "i < Suc ?n" for i
    using inv that none by (cases "i = ?n")
      (auto simp: channel_inv_def accept_connection_def conn_ok_def server_session_new_def nth_append less_Suc_eq)
  moreover have "ls_slot l = Some i" if "i < Suc ?n" "needs_slot (phase_of_conn (accept_connection l) i)" for i
    using inv that by (cases "i = ?n")
      (auto simp: channel_inv_def accept_connection_def phase_of_conn_def needs_slot_def nth_append less_Suc_eq)
  ultimately show ?thesis
    using inv by (simp add: channel_inv_def accept_connection_def ghost_held_def)
qed

lemma owner_acts_inv:
  assumes inv: "channel_inv token (l, g)"
  shows "channel_inv token (owner_acts a kf op l, g\<lparr>cg_held := cg_held g \<union> ghost_held (owner_acts a kf op l)\<rparr>)"
    (is "channel_inv token (?l, ?g)")
proof -
  have same: "ls_conns ?l = ls_conns l" "ls_token ?l = ls_token l" "ls_slot ?l = ls_slot l"
    by (simp_all add: owner_acts_def split: option.splits)
  have "conn_ok token ?g i (ls_conns l ! i)" if "i < length (ls_conns l)" for i
    using channel_inv_conn [OF inv that] by (auto simp: conn_ok_def intro: phase_ok_mono)
  moreover have "entry_ok token ?g (length (ls_conns l)) e" if "e \<in> set (cg_sent g)" for e
  proof -
    have "entry_ok token g (length (ls_conns l)) e" using inv that by (simp add: channel_inv_def)
    then show ?thesis by (cases e) (auto intro: frame_ok_mono)
  qed
  moreover have "owner_ok ow" if "ls_owners ?l b = Some ow" for b ow
  proof (cases "ls_owners l a")
    case None
    with that show ?thesis using channel_inv_owner [OF inv] by (auto simp: owner_acts_def)
  next
    case (Some o1)
    then have "owner_ok (snd (owner_exec kf op o1))"
      using channel_inv_owner [OF inv Some] ko.exec_inv [OF _ surjective_pairing] by blast
    with that Some show ?thesis using channel_inv_owner [OF inv] by (auto simp: owner_acts_def split: if_splits)
  qed
  ultimately show ?thesis using inv by (simp add: channel_inv_def same phase_of_conn_def)
qed

lemma channel_step_inv: "channel_step x y \<Longrightarrow> channel_inv token x \<Longrightarrow> channel_inv token y"
proof (induction rule: channel_step.induct)
  case (give_up i l g)
  then show ?case by (intro channel_inv_end) (auto simp: channel_inv_def)
next
  case (shutdown l g)
  then show ?case by (simp add: channel_inv_def cancel_def phase_of_conn_def ghost_held_def)
qed (simp_all add: accept_inv hello_inv permit_inv request_inv check_inv written_inv owner_acts_inv)

lemma channel_start_inv:
  assumes "\<And>a ow. owners a = Some ow \<Longrightarrow> codec_ok (po_codec ow)"
  shows "channel_inv token (channel_start token owners)"
  using assms by (auto simp: channel_start_def channel_inv_def listener_init_def owner_ok_def Let_def)

lemma channel_reach_inv:
  assumes "channel token owners x" "\<And>a ow. owners a = Some ow \<Longrightarrow> codec_ok (po_codec ow)"
  shows "channel_inv token x"
  using assms(1)
  by (induction rule: rtranclp_induct) (simp_all add: channel_start_inv [OF assms(2)] channel_step_inv)

section \<open>After a shutdown\<close>

definition in_writing :: "listener \<Rightarrow> nat set" where
  "in_writing l = {i. i < length (ls_conns l) \<and> is_writing (phase_of_conn l i)}"

lemma in_writing_upd:
  "ls_conns l' = (ls_conns l)[i := c] \<Longrightarrow> \<not> is_writing (cn_phase c) \<Longrightarrow> i < length (ls_conns l) \<Longrightarrow>
     in_writing l' = in_writing l - {i}"
  by (auto simp: in_writing_def phase_of_conn_def nth_list_update split: if_splits)

lemma conns_after:
  "\<exists>c. ls_conns (end_conn i l) = (ls_conns l)[i := c] \<and> \<not> is_writing (cn_phase c)"
  "\<exists>c. ls_conns (conn_hello i h l) = (ls_conns l)[i := c] \<and> \<not> is_writing (cn_phase c)"
  "\<exists>c. ls_conns (conn_permit i l) = (ls_conns l)[i := c] \<and> \<not> is_writing (cn_phase c)"
  "\<exists>c. ls_conns (conn_request i kf f l) = (ls_conns l)[i := c] \<and> \<not> is_writing (cn_phase c)"
  "ls_cancelled l \<Longrightarrow> is_checking (phase_of_conn l i) \<Longrightarrow>
     \<exists>c. ls_conns (conn_check i l) = (ls_conns l)[i := c] \<and> \<not> is_writing (cn_phase c)"
  "is_writing (phase_of_conn l i) \<Longrightarrow>
     \<exists>c. ls_conns (conn_written i ok l) = (ls_conns l)[i := c] \<and> \<not> is_writing (cn_phase c)"
  by (auto simp: end_conn_def upd_conn_def conn_hello_def conn_permit_def conn_request_def conn_check_def conn_written_def
      phase_of_conn_def split: option.splits prod.splits sum.splits client_frame.splits conn_phase.splits)

lemma cancelled_after [simp]:
  "ls_cancelled (end_conn i l) = ls_cancelled l" "ls_cancelled (conn_hello i h l) = ls_cancelled l"
  "ls_cancelled (conn_permit i l) = ls_cancelled l" "ls_cancelled (conn_request i kf f l) = ls_cancelled l"
  "ls_cancelled (conn_check i l) = ls_cancelled l" "ls_cancelled (conn_written i ok l) = ls_cancelled l"
  "ls_cancelled (cancel l)" "ls_cancelled (accept_connection l) = ls_cancelled l" "ls_cancelled (owner_acts a kf op l) = ls_cancelled l"
  by (auto simp: end_conn_def upd_conn_def conn_hello_def conn_permit_def conn_request_def conn_check_def conn_written_def
      accept_connection_def cancel_def owner_acts_def split: option.splits prod.splits sum.splits client_frame.splits
      conn_phase.splits)

lemma in_writing_other:
  "in_writing (accept_connection l) = in_writing l" "in_writing (cancel l) = in_writing l"
  "in_writing (owner_acts a kf op l) = in_writing l"
  by (auto simp: in_writing_def phase_of_conn_def accept_connection_def cancel_def owner_acts_def nth_append
      less_Suc_eq split: option.splits if_splits)

text \<open>
  Once the token is set it stays set, no connection enters the write any more, and a frame goes out only by
  leaving it.
\<close>

lemma cancelled_step:
  assumes "channel_step x y" "ls_cancelled (fst x)"
  shows "ls_cancelled (fst y) \<and>
    (in_writing (fst y) \<subseteq> in_writing (fst x) \<and> cg_sent (snd y) = cg_sent (snd x) \<or>
     (\<exists>i \<in> in_writing (fst x). in_writing (fst y) = in_writing (fst x) - {i} \<and>
        (\<exists>e. fst e = i \<and> cg_sent (snd y) = cg_sent (snd x) @ [e])))"
  using assms
proof (induction rule: channel_step.induct)
  case (written i l g ok)
  then obtain a b r f where ph: "phase_of_conn l i = Writing a b r f" by (cases "phase_of_conn l i") auto
  obtain c where "ls_conns (conn_written i ok l) = (ls_conns l)[i := c]" "\<not> is_writing (cn_phase c)"
    using conns_after(6) [OF written.hyps(2)] by blast
  moreover have "i \<in> in_writing l" using written.hyps by (simp add: in_writing_def)
  ultimately show ?case using written ph by (auto simp: in_writing_upd)
next
  case (give_up i l g)
  then show ?case using conns_after(1) [of i l] by (auto simp: in_writing_upd)
next
  case (hello i l g h)
  then show ?case using conns_after(2) [of i h l] by (auto simp: in_writing_upd)
next
  case (permit i l g)
  then show ?case using conns_after(3) [of i l] by (auto simp: in_writing_upd)
next
  case (request i l g kf f)
  then show ?case using conns_after(4) [of i kf f l] by (auto simp: in_writing_upd)
next
  case (check i l g)
  then show ?case using conns_after(5) [of l i] by (auto simp: in_writing_upd)
qed (simp_all add: in_writing_other)

lemma cancelled_run:
  assumes "channel_step\<^sup>*\<^sup>* x y" "ls_cancelled (fst x)" "finite (in_writing (fst x))"
  shows "ls_cancelled (fst y) \<and> (\<exists>rest. cg_sent (snd y) = cg_sent (snd x) @ rest \<and>
    fst ` set rest \<subseteq> in_writing (fst x) \<and> length rest + card (in_writing (fst y)) \<le> card (in_writing (fst x)) \<and>
    in_writing (fst y) \<subseteq> in_writing (fst x))"
  using assms
proof (induction rule: rtranclp_induct)
  case (step y z)
  then obtain rest where r: "cg_sent (snd y) = cg_sent (snd x) @ rest" "fst ` set rest \<subseteq> in_writing (fst x)"
    "length rest + card (in_writing (fst y)) \<le> card (in_writing (fst x))" "in_writing (fst y) \<subseteq> in_writing (fst x)"
    and c: "ls_cancelled (fst y)" by auto
  have fin: "finite (in_writing (fst y))" using r(4) step.prems(2) finite_subset by blast
  from cancelled_step [OF step.hyps(2) c] have "ls_cancelled (fst z)" by blast
  from cancelled_step [OF step.hyps(2) c] consider
      "in_writing (fst z) \<subseteq> in_writing (fst y)" "cg_sent (snd z) = cg_sent (snd y)"
    | e where "fst e \<in> in_writing (fst y)" "in_writing (fst z) = in_writing (fst y) - {fst e}"
      "cg_sent (snd z) = cg_sent (snd y) @ [e]" by blast
  then have "\<exists>rest. cg_sent (snd z) = cg_sent (snd x) @ rest \<and>
    fst ` set rest \<subseteq> in_writing (fst x) \<and> length rest + card (in_writing (fst z)) \<le> card (in_writing (fst x)) \<and>
    in_writing (fst z) \<subseteq> in_writing (fst x)"
  proof cases
    case 1
    with r card_mono [OF fin 1(1)] show ?thesis by (intro exI [of _ rest]) auto
  next
    case 2
    have "Suc (card (in_writing (fst z))) = card (in_writing (fst y))"
      unfolding 2(2) using fin 2(1) by (rule card_Suc_Diff1)
    with r 2 show ?thesis by (intro exI [of _ "rest @ [e]"]) auto
  qed
  with \<open>ls_cancelled (fst z)\<close> show ?case by blast
qed simp

lemma one_in_writing:
  assumes "channel_inv token (l, g)"
  shows "finite (in_writing l) \<and> card (in_writing l) \<le> 1"
proof -
  have "is_writing p \<Longrightarrow> needs_slot p" for p by (cases p) (simp_all add: needs_slot_def)
  then have "in_writing l \<subseteq> {i. ls_slot l = Some i}"
    using assms by (auto simp: channel_inv_def in_writing_def)
  also have "\<dots> \<subseteq> set_option (ls_slot l)" by auto
  finally have "in_writing l \<subseteq> set_option (ls_slot l)" .
  moreover have "finite (set_option (ls_slot l)) \<and> card (set_option (ls_slot l)) \<le> 1" by (cases "ls_slot l") auto
  ultimately show ?thesis by (meson card_mono finite_subset le_trans)
qed

section \<open>What a lease proves\<close>

text \<open>
  C7. In every history of the channel, whatever its peers send, a frame is handed only to a connection that
  presented the launch's token; it carries a lease only for the account and under the binding of the request
  it answers, with a value that account held under exactly that binding at exactly the revision the frame
  names; the frames of a connection are numbered one, two, three; and no two connections are served at once.
\<close>

theorem lease_is_the_bound_credential:
  assumes "channel token owners (l, g)" "\<forall>a ow. owners a = Some ow \<longrightarrow> codec_ok (po_codec ow)"
    and "(i, a, b, f) \<in> set (cg_sent g)"
  shows "(i, token) \<in> cg_hellos g \<and>
    (\<exists>n r tag lease. f = ReadBoundResult n r tag lease \<and> (tag = TPresent \<longleftrightarrow> lease \<noteq> None) \<and>
       (\<forall>p. lease = Some p \<longrightarrow> lp_binding p = b \<and> (a, SPresent b (lp_value p), r) \<in> cg_held g)) \<and>
    map sf_seq (sent_on i (cg_sent g)) = map of_nat [1..<Suc (length (sent_on i (cg_sent g)))] \<and>
    (\<forall>j k. j < length (ls_conns l) \<longrightarrow> k < length (ls_conns l) \<longrightarrow>
       needs_slot (phase_of_conn l j) \<longrightarrow> needs_slot (phase_of_conn l k) \<longrightarrow> j = k)"
proof -
  have inv: "channel_inv token (l, g)" using channel_reach_inv [OF assms(1)] assms(2) by blast
  have "entry_ok token g (length (ls_conns l)) (i, a, b, f)"
    using inv assms(3) by (simp add: channel_inv_def del: entry_ok.simps)
  then have e: "i < length (ls_conns l)" "(i, token) \<in> cg_hellos g" "frame_ok (cg_held g) a b f" by simp_all
  have "numbered (sent_on i (cg_sent g))"
    using channel_inv_conn [OF inv e(1)] by (cases "cn_phase (ls_conns l ! i)") (auto simp: conn_ok_def)
  moreover have slot: "ls_slot l = Some j" if "j < length (ls_conns l)" "needs_slot (phase_of_conn l j)" for j
    using inv that by (simp add: channel_inv_def)
  have "j = k" if "j < length (ls_conns l)" "k < length (ls_conns l)" "needs_slot (phase_of_conn l j)"
    "needs_slot (phase_of_conn l k)" for j k
    using slot [OF that(1, 3)] slot [OF that(2, 4)] by simp
  ultimately show ?thesis
    using e(2, 3) by (cases f) (auto simp: frame_ok_def numbered_def)
qed

text \<open>
  C29. A shutdown revokes the channel. From the moment the cancellation token is set at most one more frame
  goes out, and only on a connection that had already passed the check after its owner read; a read still in
  flight is never answered.
\<close>

theorem shutdown_revokes_the_channel:
  assumes "channel token owners (l, g)" "\<forall>a ow. owners a = Some ow \<longrightarrow> codec_ok (po_codec ow)"
    and "ls_cancelled l" "channel_step\<^sup>*\<^sup>* (l, g) (l', g')"
  shows "\<exists>rest. cg_sent g' = cg_sent g @ rest \<and> length rest \<le> 1 \<and>
    (\<forall>e \<in> set rest. is_writing (phase_of_conn l (fst e)))"
proof -
  have inv: "channel_inv token (l, g)" using channel_reach_inv [OF assms(1)] assms(2) by blast
  obtain rest where r: "cg_sent g' = cg_sent g @ rest" "fst ` set rest \<subseteq> in_writing l"
    "length rest + card (in_writing l') \<le> card (in_writing l)"
    using cancelled_run [OF assms(4)] assms(3) one_in_writing [OF inv] by auto
  moreover have "length rest \<le> 1" using r(3) one_in_writing [OF inv] by linarith
  moreover have "is_writing (phase_of_conn l (fst e))" if "e \<in> set rest" for e
    using r(2) that by (auto simp: in_writing_def)
  ultimately show ?thesis by blast
qed

section \<open>A history\<close>

definition demo_owners :: "string \<rightharpoonup> provider_owner" where "demo_owners = [''v1:p'' \<mapsto> demo_connected]"

definition demo_l1 :: listener where
  "demo_l1 = conn_permit 0 (conn_hello 0 (Some \<lparr>hf_token = ''t''\<rparr>) (accept_connection (listener_init ''t'' demo_owners)))"

definition demo_l2 :: listener where
  "demo_l2 = conn_request 0 no_keyring_faults (Some (ReadBound 1 ''v1:p'' demo_place)) demo_l1"

definition demo_l3 :: listener where "demo_l3 = conn_check 0 demo_l2"

definition demo_lease_frame :: server_frame where
  "demo_lease_frame = ReadBoundResult 1 1 TPresent (Some \<lparr>lp_binding = demo_place, lp_value = ''k''\<rparr>)"

lemma demo_read:
  "owner_read_bound demo_envelope_codec no_keyring_faults demo_place (po_state demo_connected) =
     (\<lparr>rd_revision = 1, rd_state = Present \<lparr>le_binding = demo_place, le_value = ''k''\<rparr>\<rparr>, po_state demo_connected)"
  using classify_stored [OF demo_envelope_codec_ok demo_store]
  by (simp add: owner_read_bound_def locked_snapshot_def demo_connected_def demo_owner_def no_keyring_faults_def Let_def)

lemma demo_account: "is_valid_credential_account ''v1:p''"
  by code_simp

lemma demo_l1_eq:
  "demo_l1 = (listener_init ''t'' demo_owners)\<lparr>ls_slot := Some 0,
     ls_conns := [\<lparr>cn_phase = Serving, cn_session = (server_session_new ''t'')\<lparr>ss_authenticated := True\<rparr>\<rparr>]\<rparr>"
  by (simp add: demo_l1_def conn_permit_def conn_hello_def accept_connection_def listener_init_def upd_conn_def
      accept_hello_def server_session_new_def)

lemma demo_l2_eq:
  "demo_l2 = demo_l1\<lparr>ls_conns := [\<lparr>cn_phase = Checking ''v1:p'' demo_place
       \<lparr>rd_revision = 1, rd_state = Present \<lparr>le_binding = demo_place, le_value = ''k''\<rparr>\<rparr>,
     cn_session = (server_session_new ''t'')\<lparr>ss_authenticated := True, ss_expected_client_seq := 2\<rparr>\<rparr>]\<rparr>"
  using demo_read demo_account
  by (simp add: demo_l2_def demo_l1_eq conn_request_def accept_client_seq_def server_session_new_def listener_init_def
      upd_conn_def demo_owners_def demo_connected_def demo_owner_def)

lemma demo_l3_eq:
  "demo_l3 = demo_l1\<lparr>ls_conns := [\<lparr>cn_phase = Writing ''v1:p'' demo_place 1 demo_lease_frame,
     cn_session = (server_session_new ''t'')\<lparr>ss_authenticated := True, ss_expected_client_seq := 2, ss_next_server_seq := 2\<rparr>\<rparr>]\<rparr>"
  by (simp add: demo_l3_def demo_l2_eq demo_l1_eq conn_check_def split_state_def server_next_seq_def server_session_new_def
      listener_init_def upd_conn_def demo_lease_frame_def into_lease_payload_def)

lemma demo_owners_ok: "\<forall>a ow. demo_owners a = Some ow \<longrightarrow> codec_ok (po_codec ow)"
  using demo_envelope_codec_ok by (auto simp: demo_owners_def demo_connected_def demo_owner_def)

lemma demo_history: "\<exists>g. channel ''t'' demo_owners (demo_l3, g) \<and> cg_sent g = []"
proof -
  let ?l = "listener_init ''t'' demo_owners" and ?h = "\<lparr>hf_token = ''t''\<rparr>"
  obtain g0 where start: "channel_start ''t'' demo_owners = (?l, g0)" "cg_sent g0 = []"
    by (simp add: channel_start_def Let_def)
  have "channel_step (?l, g0) (accept_connection ?l, g0)" by (rule channel_step.accept)
  moreover have "channel_step (accept_connection ?l, g0) (conn_hello 0 (Some ?h) (accept_connection ?l),
      g0\<lparr>cg_hellos := cg_hellos g0 \<union> {(0, ''t'')}\<rparr>)" (is "channel_step _ (?l1, ?g1)")
    using channel_step.hello [of 0 "accept_connection ?l" g0 "Some ?h"]
    by (simp add: accept_connection_def listener_init_def phase_of_conn_def)
  moreover have "channel_step (?l1, ?g1) (demo_l1, ?g1)"
    using channel_step.permit [of 0 ?l1 ?g1]
    by (simp add: demo_l1_def conn_hello_def accept_connection_def listener_init_def phase_of_conn_def upd_conn_def
        accept_hello_def server_session_new_def)
  moreover have "channel_step (demo_l1, ?g1) (demo_l2, ?g1\<lparr>cg_held := cg_held ?g1 \<union> ghost_held demo_l2\<rparr>)" (is "channel_step _ (_, ?g2)")
    using channel_step.request [of 0 demo_l1 ?g1 no_keyring_faults "Some (ReadBound 1 ''v1:p'' demo_place)"]
    by (simp add: demo_l2_def demo_l1_eq phase_of_conn_def)
  moreover have "channel_step (demo_l2, ?g2) (demo_l3, ?g2)"
    using channel_step.check [of 0 demo_l2 ?g2] by (simp add: demo_l3_def demo_l2_eq phase_of_conn_def)
  ultimately have "channel ''t'' demo_owners (demo_l3, ?g2)"
    unfolding start by (meson rtranclp.rtrancl_into_rtrancl rtranclp.rtrancl_refl)
  then show ?thesis using start(2) by (intro exI [of _ ?g2]) simp
qed

theorem lease_is_the_bound_credential_witness:
  "\<exists>l g. channel ''t'' demo_owners (l, g) \<and> (0, ''v1:p'', demo_place, demo_lease_frame) \<in> set (cg_sent g) \<and>
     (0, ''t'') \<in> cg_hellos g \<and> (''v1:p'', SPresent demo_place ''k'', 1) \<in> cg_held g"
proof -
  obtain g where g: "channel ''t'' demo_owners (demo_l3, g)" using demo_history by blast
  let ?g = "g\<lparr>cg_sent := cg_sent g @ [(0, ''v1:p'', demo_place, demo_lease_frame)]\<rparr>"
  have "channel_step (demo_l3, g) (conn_written 0 True demo_l3, ?g)"
    using channel_step.written [of 0 demo_l3 g True] by (simp add: demo_l3_eq phase_of_conn_def)
  with g have h: "channel ''t'' demo_owners (conn_written 0 True demo_l3, ?g)" by (rule rtranclp.rtrancl_into_rtrancl)
  moreover have mem: "(0, ''v1:p'', demo_place, demo_lease_frame) \<in> set (cg_sent ?g)" by simp
  ultimately show ?thesis
    using lease_is_the_bound_credential [OF h demo_owners_ok mem] by (intro exI conjI) (auto simp: demo_lease_frame_def)
qed

theorem shutdown_revokes_the_channel_witness:
  "\<exists>g. channel ''t'' demo_owners (cancel demo_l3, g) \<and>
     (\<forall>l' g'. channel_step\<^sup>*\<^sup>* (cancel demo_l3, g) (l', g') \<longrightarrow> length (cg_sent g') \<le> 1)"
proof -
  obtain g where g: "channel ''t'' demo_owners (demo_l3, g)" "cg_sent g = []" using demo_history by blast
  have c: "channel ''t'' demo_owners (cancel demo_l3, g)"
    using g(1) channel_step.shutdown [of demo_l3 g] by (rule rtranclp.rtrancl_into_rtrancl)
  moreover have "length (cg_sent g') \<le> 1" if "channel_step\<^sup>*\<^sup>* (cancel demo_l3, g) (l', g')" for l' g'
    using shutdown_revokes_the_channel [OF c demo_owners_ok _ that] g(2) by (auto simp: cancel_def)
  ultimately show ?thesis by blast
qed

end
