(* ===== verification/Channel_Exchange.thy ===== *)
theory Channel_Exchange
  imports Channel_Trace
begin

text \<open>
  The channel end to end: the bytes the daemon writes, the desktop's connection reading them and answering,
  and the daemon reading the answer (\<^verbatim>\<open>read_over_channel\<close> against \<^verbatim>\<open>serve_one\<close>); then what the daemon's
  resolver makes of a sequence of reads.
\<close>

section \<open>One exchange\<close>

definition request_bytes_of :: "wire_codec \<Rightarrow> string \<Rightarrow> string \<Rightarrow> binding \<Rightarrow> bytes" where
  "request_bytes_of wc token account expected =
     snd (write_frame (wc_hello_enc wc) None \<lparr>hf_token = token\<rparr>) @
     snd (write_frame (wc_client_enc wc) None (ReadBound 1 account expected))"

definition ok_part :: "('e, 'a) result \<Rightarrow> 'a option" where
  "ok_part r = (case r of Inl _ \<Rightarrow> None | Inr x \<Rightarrow> Some x)"

lemma ok_part_simps [simp]: "ok_part (Inl e) = None" "ok_part (Inr x) = Some x"
  by (simp_all add: ok_part_def)

text \<open>
  The task \<open>serve_one\<close> of connection \<open>i\<close> up to its first answer, over the bytes that arrive for it: the
  listener after it and the bytes it wrote.
\<close>

definition serve_first :: "wire_codec \<Rightarrow> keyring_faults \<Rightarrow> nat \<Rightarrow> stream \<Rightarrow> listener \<Rightarrow> listener \<times> bytes" where
  "serve_first wc kf i inbound l =
     (case read_frame (wc_hello_dec wc) inbound of
        None \<Rightarrow> (conn_hello i None l, [])
      | Some (h, s1) \<Rightarrow>
          (let l1 = conn_hello i (ok_part h) l in
           if phase_of_conn l1 i = Ended then (l1, [])
           else (let l2 = conn_permit i l1 in
             case read_frame (wc_client_dec wc) s1 of
               None \<Rightarrow> (l2, [])
             | Some (f, s2) \<Rightarrow>
                 (let l3 = conn_check i (conn_request i kf (ok_part f) l2) in
                  case phase_of_conn l3 i of
                    Writing a b r frame \<Rightarrow>
                      (case write_frame (wc_server_enc wc) None frame of (res, out) \<Rightarrow> (conn_written i (is_ok res) l3, out))
                  | _ \<Rightarrow> (l3, [])))))"

text \<open>What the daemon then sees of the stream: the answer, and its end if the desktop closed it.\<close>

definition answer_stream :: "nat \<Rightarrow> listener \<times> bytes \<Rightarrow> stream" where
  "answer_stream i x = \<lparr>arrived = snd x, ending = (if phase_of_conn (fst x) i = Ended then Closed else Silent)\<rparr>"

definition codecs_ok :: "wire_codec \<Rightarrow> bool" where
  "codecs_ok wc \<longleftrightarrow>
     round_trips (wc_hello_enc wc) (wc_hello_dec wc) \<and> round_trips (wc_client_enc wc) (wc_client_dec wc) \<and>
     round_trips (wc_server_enc wc) (wc_server_dec wc)"

definition reply_frame :: "u64 \<Rightarrow> credential_read \<Rightarrow> server_frame" where
  "reply_frame n rd =
     ReadBoundResult n (rd_revision rd) (fst (split_state (rd_state rd))) (snd (split_state (rd_state rd)))"

lemma to_domain_split [simp]: "to_domain_state (fst (split_state s)) (snd (split_state s)) = s"
  by (cases s) (auto simp: split_state_def into_lease_payload_def)

lemma phase_end [simp]: "i < length (ls_conns l) \<Longrightarrow> phase_of_conn (end_conn i l) i = Ended"
  by (simp add: phase_of_conn_def end_conn_def upd_conn_def)

lemma await_closed:
  "await_reply wc cs \<lparr>arrived = [], ending = Closed\<rparr> = (Inl (CFrame Eof), cs)"
  by (simp add: await_reply.simps read_frame_def read_exact_def)

lemma await_answer:
  assumes "codecs_ok wc" "write_frame (wc_server_enc wc) None (reply_frame n rd) = (Inr u, out)"
    "cs_expected_server_seq cs = n"
  shows "fst (await_reply wc cs \<lparr>arrived = out, ending = e\<rparr>) = Inr rd"
proof -
  have "read_frame (wc_server_dec wc) \<lparr>arrived = out @ [], ending = e\<rparr> = Some (Inr (reply_frame n rd), \<lparr>arrived = [], ending = e\<rparr>)"
    using assms by (intro read_written_frame) (auto simp: codecs_ok_def)
  then show ?thesis using assms(3) by (simp add: await_reply.simps reply_frame_def accept_server_seq_def)
qed

text \<open>The daemon's verdict on what came back for a request it could write.\<close>

lemma read_over_answer:
  assumes "is_ok (fst (write_frame (wc_hello_enc wc) None \<lparr>hf_token = bm_token msg\<rparr>))"
    "is_ok (fst (write_frame (wc_client_enc wc) None (ReadBound 1 account b)))"
  shows "read_over_channel wc True None None msg account b s =
    (case fst (await_reply wc \<lparr>cs_token = bm_token msg, cs_next_client_seq = 2, cs_expected_server_seq = 1\<rparr> s) of
       Inr rd \<Rightarrow> rd | Inl e \<Rightarrow> classify_read_bound_failure e)"
  using assms
  by (auto simp: read_over_channel_def handshake_def client_read_bound_def client_session_new_def client_next_seq_def
      Let_def is_ok_iff split: prod.splits sum.splits)

lemma served_phase:
  assumes i: "i < length (ls_conns l)" and s: "cn_session (ls_conns l ! i) = server_session_new (ls_token l)"
    and hello: "read_frame (wc_hello_dec wc) inbound = Some (Inr \<lparr>hf_token = token\<rparr>, s1)"
    and req: "read_frame (wc_client_dec wc) s1 = Some (Inr (ReadBound 1 account b), s2)"
    and nc: "\<not> ls_cancelled l"
  shows "serve_first wc kf i inbound l =
    (if token \<noteq> ls_token l then (end_conn i l, [])
     else let l2 = conn_permit i (upd_conn i \<lparr>cn_phase = AwaitSlot, cn_session = (server_session_new token)\<lparr>ss_authenticated := True\<rparr>\<rparr> l) in
       case (if is_valid_credential_account account then ls_owners l account else None) of
         None \<Rightarrow> (end_conn i l2, [])
       | Some ow \<Rightarrow>
           (case owner_read_bound (po_codec ow) kf b (po_state ow) of (rd, st) \<Rightarrow>
             (let l3 = (upd_conn i \<lparr>cn_phase = Writing account b (rd_revision rd) (reply_frame 1 rd),
                   cn_session = (server_session_new token)\<lparr>ss_authenticated := True, ss_expected_client_seq := 2, ss_next_server_seq := 2\<rparr>\<rparr> l2)
                   \<lparr>ls_owners := (ls_owners l)(account \<mapsto> ow\<lparr>po_state := st\<rparr>)\<rparr> in
              case write_frame (wc_server_enc wc) None (reply_frame 1 rd) of (res, out) \<Rightarrow> (conn_written i (is_ok res) l3, out))))"
proof (cases "token = ls_token l")
  case False
  then show ?thesis using i hello s
    by (simp add: serve_first_def conn_hello_def accept_hello_def server_session_new_def)
next
  case True
  let ?c1 = "\<lparr>cn_phase = AwaitSlot, cn_session = (server_session_new token)\<lparr>ss_authenticated := True\<rparr>\<rparr>"
  have l1: "conn_hello i (Some \<lparr>hf_token = token\<rparr>) l = upd_conn i ?c1 l"
    using True s by (simp add: conn_hello_def accept_hello_def server_session_new_def)
  let ?l2 = "conn_permit i (upd_conn i ?c1 l)"
  have l2: "ls_conns ?l2 ! i = \<lparr>cn_phase = Serving, cn_session = (server_session_new token)\<lparr>ss_authenticated := True\<rparr>\<rparr>"
    "ls_owners ?l2 = ls_owners l" "ls_cancelled ?l2 = ls_cancelled l" "length (ls_conns ?l2) = length (ls_conns l)"
    using i by (simp_all add: conn_permit_def upd_conn_def)
  have seq: "accept_client_seq 1 (cn_session (ls_conns ?l2 ! i)) =
      (Inr (), (server_session_new token)\<lparr>ss_authenticated := True, ss_expected_client_seq := 2\<rparr>)"
    using l2(1) by (simp add: accept_client_seq_def server_session_new_def)
  have first: "serve_first wc kf i inbound l =
      (let l3 = conn_check i (conn_request i kf (Some (ReadBound 1 account b)) ?l2) in
       case phase_of_conn l3 i of
         Writing a b r frame \<Rightarrow>
           (case write_frame (wc_server_enc wc) None frame of (res, out) \<Rightarrow> (conn_written i (is_ok res) l3, out))
       | _ \<Rightarrow> (l3, []))"
    using hello req l1 i by (simp add: serve_first_def phase_of_conn_def upd_conn_def Let_def cong: conn_phase.case_cong)
  show ?thesis
  proof (cases "if is_valid_credential_account account then ls_owners l account else None")
    case None
    then have "conn_request i kf (Some (ReadBound 1 account b)) ?l2 = end_conn i ?l2"
      using seq l2 by (auto simp: conn_request_def split: if_splits)
    moreover have "conn_check i (end_conn i ?l2) = end_conn i ?l2"
      using phase_end [of i ?l2] i l2(4) by (simp add: conn_check_def phase_of_conn_def)
    ultimately show ?thesis using first True None i l2(4) by (simp add: Let_def)
  next
    case (Some ow)
    then have ow: "is_valid_credential_account account" "ls_owners l account = Some ow" by (auto split: if_splits)
    obtain rd st where rd: "owner_read_bound (po_codec ow) kf b (po_state ow) = (rd, st)" by fastforce
    let ?s = "(server_session_new token)\<lparr>ss_authenticated := True, ss_expected_client_seq := 2\<rparr>"
    let ?l3 = "(upd_conn i \<lparr>cn_phase = Writing account b (rd_revision rd) (reply_frame 1 rd),
        cn_session = ?s\<lparr>ss_next_server_seq := 2\<rparr>\<rparr> ?l2)\<lparr>ls_owners := (ls_owners l)(account \<mapsto> ow\<lparr>po_state := st\<rparr>)\<rparr>"
    have "conn_request i kf (Some (ReadBound 1 account b)) ?l2 =
        (upd_conn i \<lparr>cn_phase = Checking account b rd, cn_session = ?s\<rparr> ?l2)\<lparr>ls_owners := (ls_owners l)(account \<mapsto> ow\<lparr>po_state := st\<rparr>)\<rparr>"
      using seq l2(2) ow rd by (simp add: conn_request_def)
    moreover have "conn_check i \<dots> = ?l3"
      using nc i l2(3, 4)
      by (simp add: conn_check_def upd_conn_def server_next_seq_def reply_frame_def server_session_new_def split: prod.splits)
    moreover have "phase_of_conn ?l3 i = Writing account b (rd_revision rd) (reply_frame 1 rd)"
      using i l2(4) by (simp add: phase_of_conn_def upd_conn_def)
    ultimately show ?thesis using first True ow rd by (simp add: Let_def)
  qed
qed

definition rejected_read :: credential_read where
  "rejected_read = \<lparr>rd_revision = INITIAL, rd_state = OwnerUnauthorized\<rparr>"

lemma answer_closed:
  assumes "i < length (ls_conns l)"
  shows "fst (await_reply wc cs (answer_stream i (end_conn i l, []))) = Inl (CFrame Eof)"
  using assms by (simp add: answer_stream_def await_closed)

lemma into_broker_lease_Inr:
  "into_broker_lease sha256 l = Inr bl \<Longrightarrow>
     cb_provider_id (bl_binding bl) = bd_provider_id (le_binding l) \<and>
     cb_normalized_endpoint (bl_binding bl) = bd_base_url (le_binding l) \<and> bl_secret bl = le_value l"
  by (auto simp: into_broker_lease_def credential_binding_new_def bound_lease_new_def result_simps split: if_splits)

text \<open>
  C16. The daemon's read over the channel is the owner's read. When the daemon's hello and request could be
  written, the desktop serves them on a fresh connection and answers with exactly what its owner of that
  account reads under that binding, and the daemon arrives at exactly that answer; with another token, an
  account that is not valid or has no owner, or an answer that does not fit a frame, the connection is closed
  without a byte and the daemon reports the owner as refusing it. A lease the daemon turns into a broker lease
  is one for the binding it asked for.
\<close>

theorem channel_read_is_the_owners_read:
  assumes "codecs_ok wc" "i < length (ls_conns l)" "cn_session (ls_conns l ! i) = server_session_new (ls_token l)"
    and "\<not> ls_cancelled l"
    and hok: "is_ok (fst (write_frame (wc_hello_enc wc) None \<lparr>hf_token = bm_token msg\<rparr>))"
    and rok: "is_ok (fst (write_frame (wc_client_enc wc) None (ReadBound 1 account b)))"
  shows "read_over_channel wc True None None msg account b
      (answer_stream i (serve_first wc kf i
        \<lparr>arrived = request_bytes_of wc (bm_token msg) account b, ending = Silent\<rparr> l)) =
      (if bm_token msg = ls_token l \<and> is_valid_credential_account account then
         case ls_owners l account of
           None \<Rightarrow> rejected_read
         | Some ow \<Rightarrow>
             (let rd = fst (owner_read_bound (po_codec ow) kf b (po_state ow)) in
              if is_ok (fst (write_frame (wc_server_enc wc) None (reply_frame 1 rd))) then rd else rejected_read)
       else rejected_read)"
proof -
  let ?in = "\<lparr>arrived = request_bytes_of wc (bm_token msg) account b, ending = Silent\<rparr>"
  obtain hb where hb: "write_frame (wc_hello_enc wc) None \<lparr>hf_token = bm_token msg\<rparr> = (Inr (), hb)"
    using hok by (metis is_ok_iff old.unit.exhaust prod.collapse)
  obtain rb where rb: "write_frame (wc_client_enc wc) None (ReadBound 1 account b) = (Inr (), rb)"
    using rok by (metis is_ok_iff old.unit.exhaust prod.collapse)
  have inb: "?in = \<lparr>arrived = hb @ rb, ending = Silent\<rparr>" using hb rb by (simp add: request_bytes_of_def)
  have r1: "read_frame (wc_hello_dec wc) ?in = Some (Inr \<lparr>hf_token = bm_token msg\<rparr>, \<lparr>arrived = rb, ending = Silent\<rparr>)"
    unfolding inb by (rule read_written_frame [OF _ hb]) (use assms(1) in \<open>simp add: codecs_ok_def\<close>)
  have r2: "read_frame (wc_client_dec wc) \<lparr>arrived = rb, ending = Silent\<rparr> = Some (Inr (ReadBound 1 account b), \<lparr>arrived = [], ending = Silent\<rparr>)"
    using read_written_frame [OF _ rb, of "wc_client_dec wc" "[]" Silent] assms(1) by (simp add: codecs_ok_def)
  note served = served_phase [OF assms(2, 3) r1 r2 assms(4), of kf]
  note seen = read_over_answer [OF hok rok]
  have closed: "read_over_channel wc True None None msg account b (answer_stream i (end_conn i l', [])) = rejected_read"
    if "i < length (ls_conns l')" for l'
    using answer_closed [OF that] by (simp add: seen classify_read_bound_failure_def rejected_read_def)
  let ?l2 = "conn_permit i (upd_conn i \<lparr>cn_phase = AwaitSlot, cn_session = (server_session_new (bm_token msg))\<lparr>ss_authenticated := True\<rparr>\<rparr> l)"
  have len: "i < length (ls_conns ?l2)" using assms(2) by (simp add: conn_permit_def upd_conn_def)
  show ?thesis
  proof (cases "bm_token msg = ls_token l \<and> is_valid_credential_account account \<and> ls_owners l account \<noteq> None")
    case False
    then show ?thesis using served closed [OF assms(2)] closed [OF len] by (auto simp: Let_def)
  next
    case True
    then obtain ow where ow: "ls_owners l account = Some ow" by blast
    obtain rd st where rd: "owner_read_bound (po_codec ow) kf b (po_state ow) = (rd, st)" by fastforce
    obtain res out where w: "write_frame (wc_server_enc wc) None (reply_frame 1 rd) = (res, out)" by fastforce
    obtain l3 where l3: "serve_first wc kf i ?in l = (conn_written i (is_ok res) l3, out)"
      "length (ls_conns l3) = length (ls_conns l)" "\<exists>a b r f. cn_phase (ls_conns l3 ! i) = Writing a b r f"
      using served True ow rd w assms(2) by (auto simp: Let_def upd_conn_def conn_permit_def)
    show ?thesis
    proof (cases "is_ok res")
      case False
      then have "out = []" using w by (auto simp: write_frame_def Let_def split: option.splits if_splits)
      moreover have "conn_written i (is_ok res) l3 = end_conn i l3" using False l3(3) by (auto simp: conn_written_def)
      ultimately show ?thesis using l3 closed [of l3] assms(2) True ow rd w False by simp
    next
      case ok: True
      then have "write_frame (wc_server_enc wc) None (reply_frame 1 rd) = (Inr (), out)" using w by (auto simp: is_ok_iff)
      note await_answer [OF assms(1) this]
      then show ?thesis unfolding l3(1) seen answer_stream_def using True ow rd w ok by simp
    qed
  qed
qed

definition tag_list :: "credential_state_tag list" where
  "tag_list = [TPresent, TAbsent, TDeniedOrLocked, TMalformed, TBindingMismatch, TOwnerUnavailable, TOwnerUnauthorized]"

fun tag_index :: "credential_state_tag \<Rightarrow> nat" where
  "tag_index TPresent = 0"
| "tag_index TAbsent = 1"
| "tag_index TDeniedOrLocked = 2"
| "tag_index TMalformed = 3"
| "tag_index TBindingMismatch = 4"
| "tag_index TOwnerUnavailable = 5"
| "tag_index TOwnerUnauthorized = 6"

fun put_server :: "server_frame \<Rightarrow> bytes" where
  "put_server (RevisionChanged n r) = put_nat 0 @ put_nat (unat n) @ put_nat (unat r)"
| "put_server (ReadBoundResult n r t None) = put_nat 1 @ put_nat (unat n) @ put_nat (unat r) @ put_nat (tag_index t)"
| "put_server (ReadBoundResult n r t (Some p)) =
     put_nat 2 @ put_nat (unat n) @ put_nat (unat r) @ put_nat (tag_index t) @ put_str (lp_value p) @ put_binding (lp_binding p)"

definition get_server :: "bytes \<Rightarrow> server_frame" where
  "get_server s =
     (case get_nat s of (k, s0) \<Rightarrow> case get_nat s0 of (n, s1) \<Rightarrow> case get_nat s1 of (r, s2) \<Rightarrow>
      if k = 0 then RevisionChanged (of_nat n) (of_nat r)
      else case get_nat s2 of (t, s3) \<Rightarrow>
        ReadBoundResult (of_nat n) (of_nat r) (tag_list ! t)
          (if k = 1 then None
           else case get_str s3 of (v, s4) \<Rightarrow> Some \<lparr>lp_binding = fst (get_binding s4), lp_value = v\<rparr>))"

definition demo_wire :: wire_codec where
  "demo_wire =
     \<lparr>wc_hello_enc = demo_hello_enc, wc_hello_dec = demo_hello_dec,
      wc_client_enc = (\<lambda>f. case f of ReadBound n a b \<Rightarrow> Some (put_nat (unat n) @ put_str a @ put_binding b)),
      wc_client_dec = (\<lambda>s. case get_nat s of (n, s1) \<Rightarrow> case get_str s1 of (a, s2) \<Rightarrow>
        Some (ReadBound (of_nat n) a (fst (get_binding s2)))),
      wc_server_enc = Some \<circ> put_server, wc_server_dec = Some \<circ> get_server, wc_boot_dec = (\<lambda>_. None)\<rparr>"

lemma get_put_binding_all [simp]: "get_binding (put_binding b) = (b, [])"
  using get_put_binding [of b "[]"] by simp

lemma get_put_server: "get_server (put_server f) = f"
proof (induction f rule: put_server.induct)
  case (1 n r)
  then show ?case using get_put_nat [of "unat r" "[]"] by (simp add: get_server_def)
next
  case (2 n r t)
  have "tag_list ! tag_index t = t" by (cases t) (simp_all add: tag_list_def)
  then show ?case using get_put_nat [of "tag_index t" "[]"] by (simp add: get_server_def)
next
  case (3 n r t p)
  have "tag_list ! tag_index t = t" by (cases t) (simp_all add: tag_list_def)
  then show ?case by (simp add: get_server_def)
qed

lemma demo_wire_ok: "codecs_ok demo_wire"
  by (auto simp: codecs_ok_def round_trips_def demo_wire_def demo_hello_enc_def demo_hello_dec_def get_put_server
      split: client_frame.splits)

lemma demo_writes:
  "is_ok (fst (write_frame (wc_hello_enc demo_wire) None \<lparr>hf_token = ''t''\<rparr>))"
  "is_ok (fst (write_frame (wc_client_enc demo_wire) None (ReadBound 1 ''v1:p'' demo_place)))"
  "is_ok (fst (write_frame (wc_server_enc demo_wire) None demo_lease_frame))"
  by (simp_all add: demo_wire_def write_frame_def demo_hello_enc_def MAX_FRAME_BYTES_def put_nat_def put_binding_def
      demo_place_def OPENAI_CHAT_COMPLETIONS_BEARER_V1_def demo_lease_frame_def)

theorem channel_read_is_the_owners_read_witness:
  "read_over_channel demo_wire True None None \<lparr>bm_token = ''t'', bm_socket_path = ''s''\<rparr> ''v1:p'' demo_place
      (answer_stream 0 (serve_first demo_wire no_keyring_faults 0
        \<lparr>arrived = request_bytes_of demo_wire ''t'' ''v1:p'' demo_place, ending = Silent\<rparr>
        (accept_connection (listener_init ''t'' demo_owners)))) =
     \<lparr>rd_revision = 1, rd_state = Present \<lparr>le_binding = demo_place, le_value = ''k''\<rparr>\<rparr>"
proof -
  let ?l = "accept_connection (listener_init ''t'' demo_owners)" and ?m = "\<lparr>bm_token = ''t'', bm_socket_path = ''s''\<rparr>"
  have l: "0 < length (ls_conns ?l)" "cn_session (ls_conns ?l ! 0) = server_session_new (ls_token ?l)"
    "\<not> ls_cancelled ?l" "ls_token ?l = ''t''" "ls_owners ?l ''v1:p'' = Some demo_connected"
    by (simp_all add: accept_connection_def listener_init_def demo_owners_def)
  have frame: "reply_frame 1 \<lparr>rd_revision = 1, rd_state = Present \<lparr>le_binding = demo_place, le_value = ''k''\<rparr>\<rparr> = demo_lease_frame"
    by (simp add: reply_frame_def split_state_def into_lease_payload_def demo_lease_frame_def)
  have "po_codec demo_connected = demo_envelope_codec" by (simp add: demo_connected_def demo_owner_def)
  with channel_read_is_the_owners_read [of demo_wire 0 ?l ?m "''v1:p''" demo_place no_keyring_faults]
  show ?thesis using demo_wire_ok l demo_writes demo_account demo_read frame by simp
qed

section \<open>The resolver\<close>

definition observe_all :: "(string \<times> credential_read) list \<Rightarrow> credential_resolver" where
  "observe_all obs = fold (\<lambda>(a, rd) r. snd (resolver_observe a rd r)) obs resolver_new"

definition reads_of :: "string \<Rightarrow> (string \<times> credential_read) list \<Rightarrow> credential_read list" where
  "reads_of a obs = map snd (filter (\<lambda>x. fst x = a) obs)"

definition classes_of :: "credential_read list \<Rightarrow> reachability list" where
  "classes_of h = map (\<lambda>rd. reach_class (rd_state rd)) h"

definition answered_of :: "credential_read list \<Rightarrow> revision list" where
  "answered_of h = map rd_revision (filter (\<lambda>rd. reach_class (rd_state rd) = Answered) h)"

text \<open>The state a history of reads leads to, stated on its own: class changes counted, the maximum of the answers.\<close>

definition availability_after :: "credential_read list \<Rightarrow> availability_state" where
  "availability_after h =
     \<lparr>av_generation = of_nat (length (remdups_adj (classes_of h)) - 1),
      av_last = (if h = [] then None else Some (last (classes_of h))),
      av_high_water = (if answered_of h = [] then None else Some (Max (set (answered_of h))))\<rparr>"

lemma remdups_adj_snoc:
  "length (remdups_adj (xs @ [x])) = length (remdups_adj xs) + (if xs \<noteq> [] \<and> last xs = x then 0 else 1)"
  by (cases xs rule: rev_cases) (auto simp: remdups_adj_append_two)

lemma availability_after_snoc: "availability_after (h @ [rd]) = observe_state rd (availability_after h)"
proof -
  have "of_nat (length (remdups_adj (classes_of (h @ [rd]))) - 1) =
      (if h \<noteq> [] \<and> last (classes_of h) \<noteq> reach_class (rd_state rd) then of_nat (length (remdups_adj (classes_of h)) - 1) + 1
       else of_nat (length (remdups_adj (classes_of h)) - 1) :: u64)"
    by (cases "h = []") (auto simp: classes_of_def remdups_adj_snoc last_map Suc_le_eq simp flip: of_nat_Suc, simp)
  moreover have "answered_of (h @ [rd]) = answered_of h @ (if reach_class (rd_state rd) = Answered then [rd_revision rd] else [])"
    by (simp add: answered_of_def)
  moreover have "Max (insert x (set xs)) = (if xs = [] then x else max (Max (set xs)) x)" for x :: revision and xs
    by (auto simp: max.commute)
  ultimately show ?thesis
    by (auto simp: availability_after_def observe_state_def Let_def revision_next_def classes_of_def last_map)
qed

lemma observe_all_snoc: "observe_all (obs @ [(a, rd)]) = snd (resolver_observe a rd (observe_all obs))"
  by (simp add: observe_all_def)

lemma observe_all_state:
  "rs_state (observe_all obs) a = (if reads_of a obs = [] then None else Some (availability_after (reads_of a obs)))"
proof (induction obs rule: rev_induct)
  case Nil
  then show ?case by (simp add: observe_all_def resolver_new_def reads_of_def)
next
  case (snoc x obs)
  obtain b rd where x: "x = (b, rd)" by (cases x)
  have d: "availability_default = availability_after []"
    by (simp add: availability_default_def availability_after_def INITIAL_def classes_of_def answered_of_def)
  show ?case
    using snoc by (auto simp: x observe_all_snoc resolver_observe_def Let_def reads_of_def availability_after_snoc d)
qed

text \<open>
  The resolver's counters are exact. After any sequence of reads of any accounts, an account's availability
  generation is the number of changes between answered, unavailable and unauthorized among its own reads, its
  high-water mark the largest revision an answered read of it carried; and one more read passes the owner's
  revision through untouched when the owner answered, carries none otherwise, and moves the generation exactly
  when the class changed.
\<close>

theorem resolver_counters_are_exact:
  "rs_state (observe_all obs) a = (if reads_of a obs = [] then None else Some (availability_after (reads_of a obs))) \<and>
   fst (resolver_observe a rd (observe_all obs)) =
     \<lparr>ob_read = \<lparr>rd_revision = (if reach_class (rd_state rd) = Answered then rd_revision rd else 0), rd_state = rd_state rd\<rparr>,
      ob_generation = av_generation (availability_after (reads_of a obs)) +
        (if reads_of a obs \<noteq> [] \<and> last (classes_of (reads_of a obs)) \<noteq> reach_class (rd_state rd) then 1 else 0)\<rparr> \<and>
   high_water a (observe_all obs) =
     (if answered_of (reads_of a obs) = [] then None else Some (Max (set (answered_of (reads_of a obs)))))"
  by (auto simp: observe_all_state resolver_observe_def Let_def observe_state_def availability_after_def
      availability_default_def INITIAL_def revision_next_def high_water_def answered_of_def classes_of_def)

end
