(* ===== verification/Team_Routing.thy ===== *)
theory Team_Routing
  imports Review_Loop
begin

text \<open>
  Who works a ticket: the deterministic router of \<^verbatim>\<open>crates/orchestrator/src/teams.rs\<close> with the load
  snapshot it ranks by, the assignments whose label write failed (\<open>TriageHandle\<close> of \<^verbatim>\<open>triage.rs\<close>), the
  hold of a ticket nobody is assigned to, and the capacity question the selection pass asks.

  A \<open>HashMap<String, i64>\<close> is a partial function; the maps that are iterated over (the running entries,
  the parked retries, the preparations, the pending assignments) are lists with one element per key.
  \<open>str::eq_ignore_ascii_case\<close> and \<open>strip_prefix\<close> are those of the earlier theories.
\<close>

section \<open>Roster and load\<close>

definition count_of :: "(string \<rightharpoonup> int) \<Rightarrow> string \<Rightarrow> int" where
  "count_of counts k = (case counts k of None \<Rightarrow> 0 | Some n \<Rightarrow> n)"

definition entry_add :: "string \<Rightarrow> int \<Rightarrow> (string \<rightharpoonup> int) \<Rightarrow> string \<rightharpoonup> int" where
  "entry_add k d counts = counts(k \<mapsto> count_of counts k + d)"

lemma count_of_entry_add [simp]: "count_of (entry_add k d m) k' = count_of m k' + (if k' = k then d else 0)"
  by (simp add: count_of_def entry_add_def)

lemma count_of_upd [simp]: "count_of (m(k \<mapsto> v)) k' = (if k' = k then v else count_of m k')"
  by (simp add: count_of_def)

lemma count_of_empty [simp]: "count_of Map.empty k = 0"
  by (simp add: count_of_def)

record identity =
  id_name :: string
  id_labels :: "string list"
  id_max_concurrent :: int

datatype manager_mode = ManagerOff | ManagerLabels | ManagerLabelsModel

record teams =
  tm_enabled :: bool
  tm_mode :: manager_mode
  tm_default_identity :: string
  tm_roster :: "identity list"

record dispatch_route =
  dr_slug :: string
  dr_group :: string
  dr_repo :: string
  dr_model :: string
  dr_workspace_mode :: string

record running_entry =
  rg_id :: string
  rg_issue :: issue
  rg_identity :: string
  rg_project_group :: string
  rg_review :: bool

record retry_entry =
  ry_key :: string
  ry_identifier :: string
  ry_issue :: issue
  ry_identity :: string
  ry_recovered :: bool

datatype prepared_target = TicketTarget issue "dispatch_route option" | ReviewTarget dispatch_route

record preparing_entry =
  pg_id :: string
  pg_target :: prepared_target
  pg_planned_identity :: "string option"

definition REVIEW_TICKET_LABEL :: string where "REVIEW_TICKET_LABEL = ''rhapsody:review-ticket''"
definition IDENTITY_LABEL_PREFIX :: string where "IDENTITY_LABEL_PREFIX = ''rhapsody:@''"
definition SOLO_LABEL :: string where "SOLO_LABEL = ''rhapsody:solo''"

definition is_review_ticket :: "issue \<Rightarrow> bool" where
  "is_review_ticket iss \<longleftrightarrow> REVIEW_TICKET_LABEL \<in> set (elements (iss_labels iss))"

definition is_review_key :: "string \<Rightarrow> bool" where
  "is_review_key key_text = starts_with key_text REVIEW_KEY_PREFIX"

definition is_review_run :: "running_entry \<Rightarrow> bool" where
  "is_review_run re \<longleftrightarrow> rg_review re \<or> is_review_ticket (rg_issue re)"

record load_snapshot =
  ld_all :: "string \<rightharpoonup> int"
  ld_implementation :: "string \<rightharpoonup> int"

definition load_default :: load_snapshot where
  "load_default = \<lparr>ld_all = Map.empty, ld_implementation = Map.empty\<rparr>"

definition load_add :: "string \<Rightarrow> bool \<Rightarrow> load_snapshot \<Rightarrow> load_snapshot" where
  "load_add identity review load =
     (if identity = [] then load
      else let load = load\<lparr>ld_all := entry_add identity 1 (ld_all load)\<rparr>
        in if review then load
           else load\<lparr>ld_implementation := entry_add identity 1 (ld_implementation load)\<rparr>)"

definition from_running_and_retries :: "running_entry list \<Rightarrow> retry_entry list \<Rightarrow> load_snapshot" where
  "from_running_and_retries running retries =
     fold (\<lambda>re. load_add (ry_identity re) (is_review_ticket (ry_issue re) \<or> is_review_key (iss_id (ry_issue re))))
       retries
       (fold (\<lambda>re. load_add (rg_identity re) (is_review_run re)) running load_default)"

definition add_preparing_implementation :: "string \<Rightarrow> load_snapshot \<Rightarrow> load_snapshot" where
  "add_preparing_implementation identity load = load_add identity False load"

definition load_live :: "load_snapshot \<Rightarrow> string \<Rightarrow> int" where
  "load_live load name = count_of (ld_all load) name"

definition impl_live :: "load_snapshot \<Rightarrow> string \<Rightarrow> int" where
  "impl_live load name = count_of (ld_implementation load) name"

text \<open>The entries of the tally are visited in no particular order; each touches its own name only.\<close>

definition advanced_by :: "load_snapshot \<Rightarrow> (string \<rightharpoonup> int) \<Rightarrow> load_snapshot" where
  "advanced_by load tally =
     (let advances = (\<lambda>name. case tally name of
            None \<Rightarrow> None
          | Some counted \<Rightarrow>
              (let admitted = counted - impl_live load name
               in if admitted \<le> 0 then None else Some (admitted, counted)))
      in \<lparr>ld_all = (\<lambda>name. case advances name of
            None \<Rightarrow> ld_all load name
          | Some (admitted, counted) \<Rightarrow> Some (count_of (ld_all load) name + admitted)),
          ld_implementation = (\<lambda>name. case advances name of
            None \<Rightarrow> ld_implementation load name
          | Some (admitted, counted) \<Rightarrow> Some counted)\<rparr>)"

section \<open>The router\<close>

datatype route_reason =
    RouteLabel | RouteLabelOverlap | RouteDefault | RouteOff | RouteUnrouted | RoutePending | RouteSolo

record routed =
  ro_identity :: "string option"
  ro_reason :: route_reason

definition routed_to :: "string \<Rightarrow> route_reason \<Rightarrow> routed" where
  "routed_to identity reason = \<lparr>ro_identity = Some identity, ro_reason = reason\<rparr>"

definition routed_none :: "route_reason \<Rightarrow> routed" where
  "routed_none reason = \<lparr>ro_identity = None, ro_reason = reason\<rparr>"

definition default_identity :: "teams \<Rightarrow> string option" where
  "default_identity teams =
     (let name = tm_default_identity teams
      in if name = [] then None
         else map_option id_name (find (\<lambda>i. id_name i = name) (tm_roster teams)))"

definition has_identity_label :: "issue \<Rightarrow> string \<Rightarrow> bool" where
  "has_identity_label iss name \<longleftrightarrow>
     list_ex (\<lambda>l. strip_prefix_str IDENTITY_LABEL_PREFIX l = Some name) (elements (iss_labels iss))"

definition tier0 :: "teams \<Rightarrow> issue \<Rightarrow> string option" where
  "tier0 teams iss = map_option id_name (find (\<lambda>i. has_identity_label iss (id_name i)) (tm_roster teams))"

definition is_solo :: "issue \<Rightarrow> bool" where
  "is_solo iss \<longleftrightarrow> list_ex (\<lambda>l. eq_ignore_ascii_case l SOLO_LABEL) (elements (iss_labels iss))"

definition at_capacity :: "identity \<Rightarrow> load_snapshot \<Rightarrow> bool" where
  "at_capacity i load \<longleftrightarrow> id_max_concurrent i > 0 \<and> impl_live load (id_name i) \<ge> id_max_concurrent i"

text \<open>\<open>Iterator::min_by_key\<close>: the first of the elements with the least key.\<close>

fun min_by_key :: "('a \<Rightarrow> 'k :: linorder) \<Rightarrow> 'a list \<Rightarrow> 'a option" where
  "min_by_key f [] = None"
| "min_by_key f (x # xs) =
     (case min_by_key f xs of None \<Rightarrow> Some x | Some y \<Rightarrow> Some (if f x \<le> f y then x else y))"

definition overlap_score :: "issue \<Rightarrow> identity \<Rightarrow> nat" where
  "overlap_score iss i = card (set (id_labels i) \<inter> set (elements (iss_labels iss)))"

definition best_by_label_overlap :: "teams \<Rightarrow> issue \<Rightarrow> load_snapshot \<Rightarrow> string option" where
  "best_by_label_overlap teams iss load =
     (if elements (iss_labels iss) = [] then None
      else map_option (\<lambda>(order, i). id_name i)
        (min_by_key (\<lambda>(order, i). (- int (overlap_score iss i), load_live load (id_name i), order))
          (filter (\<lambda>(order, i). overlap_score iss i > 0)
            (filter (\<lambda>(order, i). \<not> at_capacity i load) (enumerate 0 (tm_roster teams))))))"

definition route :: "teams \<Rightarrow> issue \<Rightarrow> load_snapshot \<Rightarrow> routed" where
  "route teams iss load =
     (if \<not> tm_enabled teams \<or> tm_roster teams = [] then routed_none RouteOff
      else if is_solo iss then routed_none RouteSolo
      else if tm_mode teams = ManagerOff then
        (case default_identity teams of Some name \<Rightarrow> routed_to name RouteDefault | None \<Rightarrow> routed_none RouteOff)
      else case tier0 teams iss of
          Some name \<Rightarrow> routed_to name RouteLabel
        | None \<Rightarrow>
            (case best_by_label_overlap teams iss load of
               Some name \<Rightarrow> routed_to name RouteLabelOverlap
             | None \<Rightarrow>
                 (case default_identity teams of
                    Some name \<Rightarrow> routed_to name RouteDefault
                  | None \<Rightarrow> routed_none RouteUnrouted)))"

section \<open>Pending assignments\<close>

definition MAX_PENDING_ASSIGNMENTS :: nat where "MAX_PENDING_ASSIGNMENTS = 256"

type_synonym triage_handle = "(string \<times> string) list"

definition pending_identity :: "triage_handle \<Rightarrow> string \<Rightarrow> string option" where
  "pending_identity handle issue_id = map_of handle issue_id"

definition record_pending :: "string \<Rightarrow> string \<Rightarrow> triage_handle \<Rightarrow> bool \<times> triage_handle" where
  "record_pending issue_id identity handle =
     (if map_of handle issue_id = None \<and> length handle \<ge> MAX_PENDING_ASSIGNMENTS then (False, handle)
      else (True, (issue_id, identity) # filter (\<lambda>(k, _). k \<noteq> issue_id) handle))"

definition clear_pending :: "string \<Rightarrow> triage_handle \<Rightarrow> triage_handle" where
  "clear_pending issue_id handle = filter (\<lambda>(k, _). k \<noteq> issue_id) handle"

definition pending_saturated :: "triage_handle \<Rightarrow> bool" where
  "pending_saturated handle \<longleftrightarrow> length handle \<ge> MAX_PENDING_ASSIGNMENTS"

definition has_any_identity_label :: "issue \<Rightarrow> bool" where
  "has_any_identity_label iss \<longleftrightarrow> list_ex (\<lambda>l. starts_with l IDENTITY_LABEL_PREFIX) (elements (iss_labels iss))"

text \<open>The part of the orchestrator the questions below read.\<close>

record team_env =
  te_teams :: "teams option"
  te_triage :: "triage_handle option"
  te_running :: "running_entry list"
  te_retries :: "retry_entry list"
  te_preparing :: "preparing_entry list"

definition enabled_teams :: "team_env \<Rightarrow> teams option" where
  "enabled_teams e = (case te_teams e of Some t \<Rightarrow> if tm_enabled t then Some t else None | None \<Rightarrow> None)"

definition apply_pending_assignment :: "team_env \<Rightarrow> teams \<Rightarrow> issue \<Rightarrow> routed \<Rightarrow> routed" where
  "apply_pending_assignment e teams iss routed =
     (if ro_reason routed = RouteLabel then routed
      else case te_triage e of
          None \<Rightarrow> routed
        | Some handle \<Rightarrow>
            (case pending_identity handle (iss_id iss) of
               None \<Rightarrow> routed
             | Some name \<Rightarrow>
                 (case find (\<lambda>i. id_name i = name) (tm_roster teams) of
                    Some i \<Rightarrow> routed_to (id_name i) RoutePending
                  | None \<Rightarrow> routed)))"

definition teammate_load :: "team_env \<Rightarrow> load_snapshot" where
  "teammate_load e =
     fold (\<lambda>entry load. case pg_planned_identity entry of
             None \<Rightarrow> load
           | Some name \<Rightarrow> add_preparing_implementation name load)
       (te_preparing e) (from_running_and_retries (te_running e) (te_retries e))"

definition teams_awaiting_assignment :: "team_env \<Rightarrow> issue \<Rightarrow> bool" where
  "teams_awaiting_assignment e iss =
     (case te_triage e of
        None \<Rightarrow> False
      | Some handle \<Rightarrow>
          (case enabled_teams e of
             None \<Rightarrow> False
           | Some teams \<Rightarrow>
               (if iss_team_id iss = [] \<or> pending_identity handle (iss_id iss) \<noteq> None \<or> pending_saturated handle
                then False
                else if has_any_identity_label iss then False
                else ro_reason (route teams iss (teammate_load e)) = RouteUnrouted)))"

definition planned_identity :: "team_env \<Rightarrow> issue \<Rightarrow> load_snapshot \<Rightarrow> string option" where
  "planned_identity e iss load =
     (case enabled_teams e of
        None \<Rightarrow> None
      | Some teams \<Rightarrow>
          (case ro_identity (apply_pending_assignment e teams iss (route teams iss load)) of
             None \<Rightarrow> None
           | Some name \<Rightarrow> if list_ex (\<lambda>i. id_name i = name) (tm_roster teams) then Some name else None))"

definition route_identity :: "team_env \<Rightarrow> teams \<Rightarrow> issue \<Rightarrow> routed" where
  "route_identity e teams iss = apply_pending_assignment e teams iss (route teams iss (teammate_load e))"

definition at_cap :: "team_env \<Rightarrow> string \<Rightarrow> (string \<rightharpoonup> int) \<Rightarrow> bool" where
  "at_cap e name tally =
     (case enabled_teams e of
        None \<Rightarrow> False
      | Some teams \<Rightarrow>
          (case find (\<lambda>i. id_name i = name) (tm_roster teams) of
             None \<Rightarrow> False
           | Some i \<Rightarrow> id_max_concurrent i > 0 \<and> count_of tally name \<ge> id_max_concurrent i))"

section \<open>What the router answers\<close>

lemma min_by_key_None [simp]: "min_by_key f xs = None \<longleftrightarrow> xs = []"
  by (cases xs) (auto split: option.splits)

lemma min_by_key_Some:
  "min_by_key f xs = Some x \<Longrightarrow> x \<in> set xs \<and> (\<forall>y \<in> set xs. f x \<le> f y)"
proof (induction xs arbitrary: x)
  case (Cons a xs)
  then show ?case
    by (cases "min_by_key f xs") (auto split: if_splits intro: order_trans dest: le_cases)
qed simp

text \<open>The rank of a roster entry in the fallback tier, smaller is better.\<close>

definition overlap_rank :: "teams \<Rightarrow> issue \<Rightarrow> load_snapshot \<Rightarrow> nat \<Rightarrow> int \<times> int \<times> nat" where
  "overlap_rank teams iss load k =
     (let i = tm_roster teams ! k in (- int (overlap_score iss i), load_live load (id_name i), k))"

definition overlap_candidate :: "teams \<Rightarrow> issue \<Rightarrow> load_snapshot \<Rightarrow> nat \<Rightarrow> bool" where
  "overlap_candidate teams iss load k \<longleftrightarrow>
     k < length (tm_roster teams) \<and> \<not> at_capacity (tm_roster teams ! k) load \<and> overlap_score iss (tm_roster teams ! k) > 0"

lemma set_enumerate_0: "(k, i) \<in> set (enumerate 0 xs) \<longleftrightarrow> k < length xs \<and> i = xs ! k"
  by (auto simp: in_set_enumerate_eq)

lemma overlap_candidates:
  "set (filter (\<lambda>(order, i). overlap_score iss i > 0)
      (filter (\<lambda>(order, i). \<not> at_capacity i load) (enumerate 0 (tm_roster teams)))) =
   (\<lambda>k. (k, tm_roster teams ! k)) ` {k. overlap_candidate teams iss load k}"
  by (auto simp: overlap_candidate_def set_enumerate_0 image_iff)

lemma overlap_score_empty: "elements (iss_labels iss) = [] \<Longrightarrow> overlap_score iss i = 0"
  by (simp add: overlap_score_def)

lemma best_by_label_overlap_None:
  "best_by_label_overlap teams iss load = None \<longleftrightarrow> (\<forall>k. \<not> overlap_candidate teams iss load k)"
proof (cases "elements (iss_labels iss) = []")
  case True
  then show ?thesis by (simp add: best_by_label_overlap_def overlap_candidate_def overlap_score_empty)
next
  case False
  then have "best_by_label_overlap teams iss load = None \<longleftrightarrow>
      set (filter (\<lambda>(order, i). overlap_score iss i > 0)
        (filter (\<lambda>(order, i). \<not> at_capacity i load) (enumerate 0 (tm_roster teams)))) = {}"
    by (simp only: best_by_label_overlap_def if_False map_option_is_None min_by_key_None set_empty)
  also have "\<dots> \<longleftrightarrow> (\<forall>k. \<not> overlap_candidate teams iss load k)"
    unfolding overlap_candidates by auto
  finally show ?thesis .
qed

lemma best_by_label_overlap_Some:
  assumes "best_by_label_overlap teams iss load = Some name"
  shows "\<exists>k. overlap_candidate teams iss load k \<and> name = id_name (tm_roster teams ! k) \<and>
    (\<forall>j. overlap_candidate teams iss load j \<longrightarrow> overlap_rank teams iss load k \<le> overlap_rank teams iss load j)"
proof -
  let ?f = "\<lambda>(order, i). (- int (overlap_score iss i), load_live load (id_name i), order)"
  let ?xs = "filter (\<lambda>(order, i). overlap_score iss i > 0)
      (filter (\<lambda>(order, i). \<not> at_capacity i load) (enumerate 0 (tm_roster teams)))"
  from assms obtain p where p: "min_by_key ?f ?xs = Some p" "name = id_name (snd p)"
    by (auto simp: best_by_label_overlap_def split: if_splits)
  have sel: "p \<in> set ?xs" "\<forall>q \<in> set ?xs. ?f p \<le> ?f q" using min_by_key_Some [OF p(1)] by auto
  then obtain k where k: "p = (k, tm_roster teams ! k)" "overlap_candidate teams iss load k"
    unfolding overlap_candidates by auto
  have "overlap_rank teams iss load k \<le> overlap_rank teams iss load j" if "overlap_candidate teams iss load j" for j
  proof -
    have "(j, tm_roster teams ! j) \<in> set ?xs" using that unfolding overlap_candidates by auto
    with sel(2) k(1) show ?thesis by (force simp: overlap_rank_def Let_def)
  qed
  with k p(2) show ?thesis by auto
qed

lemma find_Some_in: "find P xs = Some x \<Longrightarrow> x \<in> set xs \<and> P x"
  by (auto simp: find_Some_iff)

lemma route_on_roster: "ro_identity (route teams iss load) = Some name \<Longrightarrow> name \<in> id_name ` set (tm_roster teams)"
  by (auto simp: route_def routed_to_def routed_none_def tier0_def default_identity_def Let_def overlap_candidate_def
      dest!: find_Some_in best_by_label_overlap_Some split: if_splits option.splits)

lemma planned_on_roster:
  "planned_identity e iss load = Some name \<Longrightarrow> \<exists>t. enabled_teams e = Some t \<and> name \<in> id_name ` set (tm_roster t)"
  by (auto simp: planned_identity_def list_ex_iff split: option.splits if_splits)

text \<open>
  A pending assignment stands in for every answer but an explicit label, the solo opt-out included.
\<close>

lemma pending_outranks_solo:
  assumes "enabled_teams e = Some t" "te_triage e = Some handle" "pending_identity handle (iss_id iss) = Some name"
    "name \<in> id_name ` set (tm_roster t)" "is_solo iss"
  shows "planned_identity e iss load = Some name"
proof -
  obtain i where i: "find (\<lambda>i. id_name i = name) (tm_roster t) = Some i" "id_name i = name"
    using assms(4) by (cases "find (\<lambda>i. id_name i = name) (tm_roster t)") (auto simp: find_None_iff dest: find_Some_in)
  have "ro_reason (route t iss load) \<noteq> RouteLabel" using assms(5) by (simp add: route_def routed_none_def)
  with assms i show ?thesis
    by (auto simp: planned_identity_def apply_pending_assignment_def routed_to_def list_ex_iff)
qed

section \<open>Loads\<close>

lemma live_load_add [simp]:
  "load_live (load_add i r l) n = load_live l n + (if i \<noteq> [] \<and> n = i then 1 else 0)"
  "impl_live (load_add i r l) n = impl_live l n + (if i \<noteq> [] \<and> n = i \<and> \<not> r then 1 else 0)"
  by (auto simp: load_live_def impl_live_def load_add_def Let_def)

text \<open>Two loads that answer the same are the same to the router.\<close>

definition load_equiv :: "load_snapshot \<Rightarrow> load_snapshot \<Rightarrow> bool" where
  "load_equiv a b \<longleftrightarrow> (\<forall>n. load_live a n = load_live b n \<and> impl_live a n = impl_live b n)"

lemma route_equiv: "load_equiv a b \<Longrightarrow> route teams iss a = route teams iss b"
proof -
  assume "load_equiv a b"
  then have "best_by_label_overlap teams iss a = best_by_label_overlap teams iss b"
    by (simp add: best_by_label_overlap_def at_capacity_def load_equiv_def)
  then show ?thesis by (simp only: route_def)
qed

lemma planned_identity_equiv: "load_equiv a b \<Longrightarrow> planned_identity e iss a = planned_identity e iss b"
  unfolding planned_identity_def by (cases "enabled_teams e") (simp_all only: route_equiv [of a b] option.case)

text \<open>Every fold of \<open>load_add\<close> adds its own counts to whatever it starts from.\<close>

lemma fold_load_add:
  "load_live (fold (\<lambda>x. load_add (f x) (r x)) xs l) n = load_live l n + int (length (filter (\<lambda>x. f x \<noteq> [] \<and> f x = n) xs))"
  "impl_live (fold (\<lambda>x. load_add (f x) (r x)) xs l) n =
     impl_live l n + int (length (filter (\<lambda>x. f x \<noteq> [] \<and> f x = n \<and> \<not> r x) xs))"
  by (induction xs arbitrary: l) auto

lemma fold_preparing:
  "load_live (fold (\<lambda>entry load. case pg_planned_identity entry of None \<Rightarrow> load | Some name \<Rightarrow> add_preparing_implementation name load) ps l) n =
     load_live l n + int (length (filter (\<lambda>p. n \<noteq> [] \<and> pg_planned_identity p = Some n) ps))"
  "impl_live (fold (\<lambda>entry load. case pg_planned_identity entry of None \<Rightarrow> load | Some name \<Rightarrow> add_preparing_implementation name load) ps l) n =
     impl_live l n + int (length (filter (\<lambda>p. n \<noteq> [] \<and> pg_planned_identity p = Some n) ps))"
  by (induction ps arbitrary: l) (auto simp: add_preparing_implementation_def split: option.splits)

lemma teammate_load_running:
  "load_live (teammate_load (e\<lparr>te_running := te_running e @ rs\<rparr>)) n =
     load_live (teammate_load e) n + int (length (filter (\<lambda>r. rg_identity r \<noteq> [] \<and> rg_identity r = n) rs))"
  "impl_live (teammate_load (e\<lparr>te_running := te_running e @ rs\<rparr>)) n =
     impl_live (teammate_load e) n +
       int (length (filter (\<lambda>r. rg_identity r \<noteq> [] \<and> rg_identity r = n \<and> \<not> is_review_run r) rs))"
  by (simp_all add: teammate_load_def from_running_and_retries_def fold_preparing fold_load_add)

lemma live_advanced_by:
  assumes "\<And>n c. tally n = Some c \<Longrightarrow> c = impl_live l n + int (k n)" "\<And>n. tally n = None \<Longrightarrow> k n = 0"
  shows "load_live (advanced_by l tally) n = load_live l n + int (k n)"
    "impl_live (advanced_by l tally) n = impl_live l n + int (k n)"
  using assms [of n]
  by (auto simp: load_live_def impl_live_def advanced_by_def Let_def count_of_def split: option.splits if_splits)

end
