(* ===== verification/Dispatch_Gates.thy ===== *)
theory Dispatch_Gates
  imports Team_Routing
begin

text \<open>
  The gates between an eligible ticket and a slot: the refusal gate with its bounded backoff
  (\<^verbatim>\<open>crates/orchestrator/src/prepare.rs\<close>), the manager's wake obligations (\<^verbatim>\<open>managerapply.rs\<close>) and
  exchange authorizations (\<^verbatim>\<open>managerexchange.rs\<close>), and the credential canaries of \<^verbatim>\<open>preflight.rs\<close> with
  the order they impose on the queue.

  Instants of the refusal gate count nanoseconds. \<open>ticket_selection\<close> sorts labels as byte strings.
\<close>

section \<open>The refusal gate\<close>

definition REFUSAL_BACKOFF_BASE_MS :: int where "REFUSAL_BACKOFF_BASE_MS = 30000"
definition REFUSAL_BACKOFF_MAX_MS :: int where "REFUSAL_BACKOFF_MAX_MS = 15 * 60 * 1000"

record refusal_gate_entry =
  rf_reason_code :: string
  rf_revision :: string
  rf_next_probe_at :: instant
  rf_backoff_ms :: int

type_synonym refusal_gate = "string \<rightharpoonup> refusal_gate_entry"

record refusal_recording =
  rc_backoff_ms :: int
  rc_new_episode :: bool

definition refusal_key :: "string \<Rightarrow> string \<Rightarrow> string \<Rightarrow> string" where
  "refusal_key kind subject selection = kind @ ''|'' @ subject @ ''|'' @ selection"

definition suppressed :: "refusal_gate \<Rightarrow> string \<Rightarrow> instant \<Rightarrow> bool" where
  "suppressed g k now = (case g k of None \<Rightarrow> False | Some e \<Rightarrow> now < rf_next_probe_at e)"

definition remaining_ms :: "refusal_gate \<Rightarrow> string \<Rightarrow> instant \<Rightarrow> int" where
  "remaining_ms g k now = (case g k of None \<Rightarrow> 0 | Some e \<Rightarrow> max ((rf_next_probe_at e - now) div 1000000) 0)"

definition record_refusal ::
  "string \<Rightarrow> string \<Rightarrow> string \<Rightarrow> instant \<Rightarrow> refusal_gate \<Rightarrow> refusal_recording \<times> refusal_gate" where
  "record_refusal k reason_code revision now g =
     (let (backoff, new_episode) =
        (case g k of
           Some prev \<Rightarrow>
             if rf_revision prev = revision \<and> rf_reason_code prev = reason_code
             then (min (min (rf_backoff_ms prev * 2) (2 ^ 63 - 1)) REFUSAL_BACKOFF_MAX_MS, False)
             else (REFUSAL_BACKOFF_BASE_MS, True)
         | None \<Rightarrow> (REFUSAL_BACKOFF_BASE_MS, True))
      in (\<lparr>rc_backoff_ms = backoff, rc_new_episode = new_episode\<rparr>,
          g(k \<mapsto> \<lparr>rf_reason_code = reason_code, rf_revision = revision,
                  rf_next_probe_at = now + backoff * 1000000, rf_backoff_ms = backoff\<rparr>)))"

definition rearm :: "string \<Rightarrow> refusal_gate \<Rightarrow> refusal_gate" where
  "rearm k g = g(k := None)"

definition rearm_all :: "refusal_gate \<Rightarrow> refusal_gate" where
  "rearm_all g = Map.empty"

definition refusal_reason_code :: "refusal_gate \<Rightarrow> string \<Rightarrow> string option" where
  "refusal_reason_code g k = map_option rf_reason_code (g k)"

definition observed_revision :: "refusal_gate \<Rightarrow> string \<Rightarrow> string option" where
  "observed_revision g k = map_option rf_revision (g k)"

definition join_comma :: "string list \<Rightarrow> string" where
  "join_comma ws = concat (map (\<lambda>(i, w). if i = 0 then w else CHR '','' # w) (enumerate 0 ws))"

definition ticket_selection :: "text_ops \<Rightarrow> issue \<Rightarrow> dispatch_route option \<Rightarrow> string" where
  "ticket_selection tx iss rt =
     (let labels = (case iss_labels iss of None \<Rightarrow> [] | Some ls \<Rightarrow> join_comma (List.sort ls));
          slug = (case rt of None \<Rightarrow> [] | Some r \<Rightarrow> dr_slug r)
      in ''ticket|'' @ iss_id iss @ ''|'' @ normalize_state tx (iss_state iss) @ ''|'' @ labels @ ''|'' @ slug)"

definition ticket_gate_key :: "text_ops \<Rightarrow> issue \<Rightarrow> dispatch_route option \<Rightarrow> string" where
  "ticket_gate_key tx iss rt = refusal_key ''ticket'' (iss_id iss) (ticket_selection tx iss rt)"

text \<open>A history of the gate: every operation that changes it, with the instant it happens at.\<close>

datatype refusal_op = Refused string string string instant | Rearm string | RearmAll

fun refusal_apply :: "refusal_op \<Rightarrow> refusal_gate \<Rightarrow> refusal_gate" where
  "refusal_apply (Refused k code rv now) g = snd (record_refusal k code rv now g)"
| "refusal_apply (Rearm k) g = rearm k g"
| "refusal_apply RearmAll g = rearm_all g"

definition refusal_run :: "refusal_op list \<Rightarrow> refusal_gate" where
  "refusal_run ops = fold refusal_apply ops Map.empty"

text \<open>
  The current episode of a key, from the newest operation backwards: the refusals with the reason and
  revision of the last one, up to a re-arm or a different refusal.
\<close>

fun episode :: "string \<Rightarrow> (string \<times> string) option \<Rightarrow> refusal_op list \<Rightarrow> nat" where
  "episode k w [] = 0"
| "episode k w (RearmAll # ops) = 0"
| "episode k w (Rearm k' # ops) = (if k' = k then 0 else episode k w ops)"
| "episode k w (Refused k' code rv now # ops) =
     (if k' \<noteq> k then episode k w ops
      else case w of
          None \<Rightarrow> Suc (episode k (Some (code, rv)) ops)
        | Some (c, r) \<Rightarrow> if c = code \<and> r = rv then Suc (episode k w ops) else 0)"

fun last_refusal :: "string \<Rightarrow> refusal_op list \<Rightarrow> (string \<times> string \<times> instant) option" where
  "last_refusal k [] = None"
| "last_refusal k (RearmAll # ops) = None"
| "last_refusal k (Rearm k' # ops) = (if k' = k then None else last_refusal k ops)"
| "last_refusal k (Refused k' code rv now # ops) = (if k' = k then Some (code, rv, now) else last_refusal k ops)"

definition capped_backoff :: "nat \<Rightarrow> int" where
  "capped_backoff n = min (REFUSAL_BACKOFF_BASE_MS * 2 ^ (n - 1)) REFUSAL_BACKOFF_MAX_MS"

lemma capped_backoff_Suc:
  "0 < n \<Longrightarrow> min (min (capped_backoff n * 2) (2 ^ 63 - 1)) REFUSAL_BACKOFF_MAX_MS = capped_backoff (Suc n)"
  by (cases n) (auto simp: capped_backoff_def REFUSAL_BACKOFF_BASE_MS_def REFUSAL_BACKOFF_MAX_MS_def min_def)

lemma capped_backoff_1 [simp]: "capped_backoff (Suc 0) = REFUSAL_BACKOFF_BASE_MS"
  by (simp add: capped_backoff_def REFUSAL_BACKOFF_BASE_MS_def REFUSAL_BACKOFF_MAX_MS_def)

lemma episode_known:
  "last_refusal k ops = Some (c, r, at) \<Longrightarrow> episode k (Some (code, rv)) ops = (if c = code \<and> r = rv then episode k None ops else 0)"
  "last_refusal k ops = None \<Longrightarrow> episode k w ops = 0"
  by (induction k ops rule: last_refusal.induct) (auto split: if_splits)

lemma episode_pos: "last_refusal k ops = Some x \<Longrightarrow> 0 < episode k None ops"
  by (induction k ops rule: last_refusal.induct) (auto split: if_splits)

lemma record_refusal_other: "k' \<noteq> k \<Longrightarrow> snd (record_refusal k' code rv now g) k = g k"
  by (simp add: record_refusal_def Let_def split: option.splits prod.splits)

lemma refusal_run_entry:
  "refusal_run (rev ops) k =
     (case last_refusal k ops of
        None \<Rightarrow> None
      | Some (code, rv, at) \<Rightarrow>
          Some \<lparr>rf_reason_code = code, rf_revision = rv,
                rf_next_probe_at = at + capped_backoff (episode k None ops) * 1000000,
                rf_backoff_ms = capped_backoff (episode k None ops)\<rparr>)"
proof (induction ops)
  case Nil
  then show ?case by (simp add: refusal_run_def)
next
  case (Cons p ops)
  have run: "refusal_run (rev (p # ops)) = refusal_apply p (refusal_run (rev ops))"
    by (simp add: refusal_run_def)
  show ?case
  proof (cases p)
    case (Refused k' code rv now)
    show ?thesis
    proof (cases "k' = k")
      case False
      then show ?thesis
        using Cons Refused run by (cases "last_refusal k ops") (auto simp: record_refusal_other)
    next
      case True
      then show ?thesis
        using Cons Refused run episode_pos [of k ops] episode_known [of k ops]
        by (cases "last_refusal k ops") (auto simp: record_refusal_def Let_def capped_backoff_Suc [simplified])
    qed
  qed (use Cons run in \<open>(cases "last_refusal k ops"; auto simp: rearm_def rearm_all_def)+\<close>)
qed

text \<open>
  The refusal gate after any history of refusals and re-arms: a key is suppressed exactly while
  less than the capped doubling of its current episode has passed since its last refusal, which is
  never more than fifteen minutes; the next identical refusal continues the episode and any other
  opens a new one; and a re-arm releases the key at once.
\<close>

theorem refusal_backoff_is_capped_doubling:
  "(suppressed (refusal_run (rev ops)) k now \<longleftrightarrow>
     (\<exists>code r at. last_refusal k ops = Some (code, r, at) \<and>
        now < at + min (30000 * 2 ^ (episode k None ops - 1)) 900000 * 1000000)) \<and>
   rc_new_episode (fst (record_refusal k code r at (refusal_run (rev ops)))) =
     (episode k (Some (code, r)) ops = 0) \<and>
   \<not> suppressed (rearm k (refusal_run (rev ops))) k now"
proof -
  have "suppressed (refusal_run (rev ops)) k now \<longleftrightarrow>
     (\<exists>code r at. last_refusal k ops = Some (code, r, at) \<and>
        now < at + min (30000 * 2 ^ (episode k None ops - 1)) 900000 * 1000000)"
    by (auto simp: suppressed_def refusal_run_entry capped_backoff_def REFUSAL_BACKOFF_BASE_MS_def
        REFUSAL_BACKOFF_MAX_MS_def split: option.splits)
  moreover have "rc_new_episode (fst (record_refusal k code r at (refusal_run (rev ops)))) =
     (episode k (Some (code, r)) ops = 0)"
    using episode_pos [of k ops] episode_known [of k ops]
    by (cases "last_refusal k ops") (auto simp: record_refusal_def refusal_run_entry Let_def)
  moreover have "\<not> suppressed (rearm k (refusal_run (rev ops))) k now"
    by (simp add: suppressed_def rearm_def)
  ultimately show ?thesis by blast
qed

section \<open>The manager's wakes and authorizations\<close>

definition MANAGER_EXCHANGE_AUTHOR_ROUND :: string where "MANAGER_EXCHANGE_AUTHOR_ROUND = ''author_round''"
definition MANAGER_EXCHANGE_ACTIVE :: string where "MANAGER_EXCHANGE_ACTIVE = ''active''"

record manager_exchange =
  mx_id :: string
  mx_kind :: string
  mx_state :: string

text \<open>
  The store's answers, \<open>None\<close> where the read fails. Whether the manager has the authority to act is a
  setting of \<open>review_env\<close>, as is the round threshold.
\<close>

record manager_env =
  mn_wake_unspent :: "string \<Rightarrow> bool option"
  mn_exchanges :: "string \<Rightarrow> manager_exchange list option"

definition manager_wake_blocks_selection :: "review_env \<Rightarrow> manager_env \<Rightarrow> string \<Rightarrow> bool" where
  "manager_wake_blocks_selection env m issue_id =
     (if \<not> re_authority_act env \<or> issue_id = [] then False
      else case mn_wake_unspent m issue_id of Some b \<Rightarrow> b | None \<Rightarrow> True)"

definition manager_issue_pr :: "review_env \<Rightarrow> store_faults \<Rightarrow> review_ctl \<Rightarrow> issue \<Rightarrow> pr_coord option" where
  "manager_issue_pr env flt c iss =
     (let rows = (if sf_load flt then [] else load_live_review_watch (rl_store c))
      in case find (\<lambda>r. ww_open r \<and>
                  (case origin_ticket (re_text env) (ww_introduced_by r) of
                     None \<Rightarrow> False | Some t \<Rightarrow> eq_ignore_ascii_case t (iss_identifier iss))) rows of
           Some r \<Rightarrow> Some \<lparr>pr_owner = wk_owner (ww_key r), pr_repo = wk_repo (ww_key r), pr_number = wk_number (ww_key r)\<rparr>
         | None \<Rightarrow>
             map_option (\<lambda>p. \<lparr>pr_owner = lp_owner p, pr_repo = lp_repo p, pr_number = lp_number p\<rparr>)
               (find (\<lambda>p. \<not> lp_merged p) (elements (iss_linked_prs iss))))"

definition active_author_round :: "manager_env \<Rightarrow> pr_coord \<Rightarrow> bool" where
  "active_author_round m pr =
     (case mn_exchanges m (churn_key pr) of
        None \<Rightarrow> False
      | Some rows \<Rightarrow> list_ex (\<lambda>x. mx_kind x = MANAGER_EXCHANGE_AUTHOR_ROUND \<and> mx_state x = MANAGER_EXCHANGE_ACTIVE) rows)"

definition author_dispatch_authorized ::
  "manager_env \<Rightarrow> review_env \<Rightarrow> store_faults \<Rightarrow> review_ctl \<Rightarrow> issue \<Rightarrow> bool" where
  "author_dispatch_authorized m env flt c iss =
     (if \<not> re_authority_act env \<or> re_threshold env = None then True
      else case manager_issue_pr env flt c iss of
          None \<Rightarrow> True
        | Some pr \<Rightarrow> if \<not> review_exchange_gate_active env c pr then True else active_author_round m pr)"

section \<open>Credential canaries\<close>

definition credential_canary_cmp :: "issue \<Rightarrow> issue \<Rightarrow> bool \<Rightarrow> bool \<Rightarrow> comp" where
  "credential_canary_cmp a b a_due b_due =
     then_with (cmp_of b_due a_due)
       (if a_due \<and> b_due then
          then_with (cmp_of (iss_created_at a = None) (iss_created_at b = None))
            (then_with (cmp_created_time (iss_created_at a) (iss_created_at b))
              (cmp_of (iss_identifier a) (iss_identifier b)))
        else dispatch_cmp a b)"

end
