(* ===== verification/Selection.thy ===== *)
theory Selection
  imports Dispatch_Gates Claim_Pool
begin

text \<open>
  The selection pass of \<^verbatim>\<open>crates/orchestrator/src/select.rs\<close>: one greedy walk over the sorted
  candidates that admits what every gate lets through while the shared global, project, state and
  teammate budgets last.

  The source spells the walk twice, for a single-project installation and for a \<^verbatim>\<open>projects:\<close> one. The
  two bodies test the same conditions in the same order and differ in where a candidate's settings come
  from and in the project budget; \<open>ladder_view\<close> is that difference, and \<open>ladder\<close> the common walk.

  The pass borrows the orchestrator immutably: \<open>select_env\<close> is what it reads, \<open>ladder_pass\<close> its local
  variables together with the human-hold ledger, which it writes through a mutex. \<open>sx_limit_ready\<close> and
  \<open>sx_canary\<close> are the answers of the limit policy (\<open>limit_dispatch_ready\<close> of \<^verbatim>\<open>limitpolicy.rs\<close>,
  \<open>issue_credential_canary\<close> of \<^verbatim>\<open>preflight.rs\<close>) for a ticket of a project; the store's answers are those
  after the observation of parked tickets that precedes the walk. Each pick is kept with the teammate it
  was planned for.
\<close>

section \<open>What a pass reads\<close>

record resolved_project =
  sp_slug :: string
  sp_group :: string
  sp_repo :: string
  sp_model :: string
  sp_workspace_mode :: string
  sp_gate :: eligibility_gate
  sp_per_state_limits :: "string \<rightharpoonup> int"
  sp_max_concurrent :: int
  sp_defines_provider :: bool

record select_config =
  sc_gate :: eligibility_gate
  sc_review_promote_state :: string
  sc_per_state_limits :: "string \<rightharpoonup> int"
  sc_max_concurrent :: int
  sc_max_concurrent_reviews :: "int option"
  sc_defines_provider :: bool
  sc_projects :: "resolved_project list"

record select_env =
  sx_eff :: "select_config option"
  sx_gates :: gate_env
  sx_team :: team_env
  sx_manager :: manager_env
  sx_review :: review_env
  sx_ctl :: review_ctl
  sx_faults :: store_faults
  sx_adjudicated :: "pr_coord \<Rightarrow> bool"
  sx_auth_hold_claims :: "string set"
  sx_resolver :: bool
  sx_refusals :: refusal_gate
  sx_now :: instant
  sx_limit_ready :: "issue \<Rightarrow> string \<Rightarrow> bool"
  sx_canary :: "issue \<Rightarrow> string \<Rightarrow> (string \<times> string) option"

abbreviation sx_text :: "select_env \<Rightarrow> text_ops" where
  "sx_text e \<equiv> ge_text (sx_gates e)"

definition running_id_set :: "select_env \<Rightarrow> string set" where
  "running_id_set e = set (map rg_id (te_running (sx_team e))) \<union> set (map pg_id (te_preparing (sx_team e)))"

fun issue_state :: "preparing_entry \<Rightarrow> string" where
  "issue_state p = (case pg_target p of TicketTarget iss _ \<Rightarrow> iss_state iss | ReviewTarget _ \<Rightarrow> [])"

definition route_group :: "dispatch_route \<Rightarrow> string" where
  "route_group r = (if dr_group r = [] then dr_slug r else dr_group r)"

fun preparing_group :: "preparing_entry \<Rightarrow> string" where
  "preparing_group p =
     (case pg_target p of
        TicketTarget _ None \<Rightarrow> []
      | TicketTarget _ (Some r) \<Rightarrow> route_group r
      | ReviewTarget r \<Rightarrow> route_group r)"

fun preparing_is_review :: "preparing_entry \<Rightarrow> bool" where
  "preparing_is_review p = (case pg_target p of TicketTarget _ _ \<Rightarrow> False | ReviewTarget _ \<Rightarrow> True)"

definition running_state_counts :: "select_env \<Rightarrow> string \<rightharpoonup> int" where
  "running_state_counts e =
     fold (\<lambda>p counts. let state = issue_state p in
             if state \<noteq> [] then entry_add (normalize_state (sx_text e) state) 1 counts else counts)
       (te_preparing (sx_team e))
       (fold (\<lambda>re. entry_add (normalize_state (sx_text e) (iss_state (rg_issue re))) 1)
         (te_running (sx_team e)) Map.empty)"

definition recovered_claim_identifiers :: "select_env \<Rightarrow> string set" where
  "recovered_claim_identifiers e =
     set (map ry_identifier (filter (\<lambda>re. ry_recovered re \<and> ry_identifier re \<noteq> []) (te_retries (sx_team e))))"

definition running_in_project_group :: "select_env \<Rightarrow> string \<Rightarrow> int" where
  "running_in_project_group e grp =
     int (length (filter (\<lambda>re. rg_project_group re = grp) (te_running (sx_team e))) +
          length (filter (\<lambda>p. preparing_group p = grp) (te_preparing (sx_team e))))"

definition running_reviews_in_project_group :: "select_env \<Rightarrow> string \<Rightarrow> int" where
  "running_reviews_in_project_group e grp =
     int (length (filter (\<lambda>re. rg_project_group re = grp \<and> rg_review re) (te_running (sx_team e))) +
          length (filter (\<lambda>p. preparing_group p = grp \<and> preparing_is_review p) (te_preparing (sx_team e))))"

definition ticketless_review_holders :: "select_env \<Rightarrow> int" where
  "ticketless_review_holders e =
     int (length (filter rg_review (te_running (sx_team e)))) +
     int (length (filter preparing_is_review (te_preparing (sx_team e))))"

definition implementation_pool_holders :: "select_env \<Rightarrow> int" where
  "implementation_pool_holders e =
     (let total = int (length (te_running (sx_team e)) + length (te_preparing (sx_team e)))
      in case Option.bind (sx_eff e) sc_max_concurrent_reviews of
           Some _ \<Rightarrow> max (total - ticketless_review_holders e) 0
         | None \<Rightarrow> total)"

definition config_defines_any_provider :: "select_env \<Rightarrow> bool" where
  "config_defines_any_provider e =
     (case sx_eff e of
        None \<Rightarrow> True
      | Some c \<Rightarrow> sc_defines_provider c \<or> list_ex sp_defines_provider (sc_projects c))"

definition preparation_suppressed :: "select_env \<Rightarrow> issue \<Rightarrow> dispatch_route option \<Rightarrow> bool" where
  "preparation_suppressed e iss rt =
     (if \<not> sx_resolver e \<or> \<not> config_defines_any_provider e then False
      else suppressed (sx_refusals e) (ticket_gate_key (sx_text e) iss rt) (sx_now e))"

definition wake_owns :: "select_env \<Rightarrow> issue \<Rightarrow> bool" where
  "wake_owns e iss \<longleftrightarrow>
     manager_wake_blocks_selection (sx_review e) (sx_manager e) (iss_id iss) \<or>
     manager_wake_blocks_selection (sx_review e) (sx_manager e) (iss_identifier iss)"

abbreviation author_budget_spent :: "select_env \<Rightarrow> issue \<Rightarrow> bool" where
  "author_budget_spent e iss \<equiv> author_round_budget_spent (sx_review e) (sx_faults e) (sx_adjudicated e) iss (sx_ctl e)"

abbreviation author_authorized :: "select_env \<Rightarrow> issue \<Rightarrow> bool" where
  "author_authorized e iss \<equiv> author_dispatch_authorized (sx_manager e) (sx_review e) (sx_faults e) (sx_ctl e) iss"

definition log_non_live_claim :: "select_env \<Rightarrow> issue \<Rightarrow> human_hold_state \<Rightarrow> human_hold_state" where
  "log_non_live_claim e iss h =
     (if iss_id iss \<in> set (map rg_id (te_running (sx_team e))) then h
      else
        let announce = (\<lambda>k. snd (claim_is_news (iss_identifier iss)
              (if k \<in> sx_auth_hold_claims e then ''rejected login human hold''
               else if k \<in> set (map ry_key (te_retries (sx_team e))) then ''scheduled retry''
               else if k \<in> set (map pg_id (te_preparing (sx_team e))) then ''dispatch preparation''
               else ''in-memory suppression or claim election'') h))
        in if iss_id iss \<in> ge_claimed (sx_gates e) then announce (iss_id iss)
           else if iss_identifier iss \<in> ge_claimed (sx_gates e) then announce (iss_identifier iss)
           else h)"

section \<open>The order of the queue\<close>

text \<open>
  Tickets that are due as a credential canary come first, oldest first. Between two due tickets
  the code compares creation times with \<open>Option::cmp\<close>, whose order on \<open>None\<close> the test before it
  makes irrelevant.
\<close>

definition canary_key :: "(tagged_issue \<Rightarrow> bool) \<Rightarrow> tagged_issue \<Rightarrow> bool \<times> (nat \<times> int) \<times> (nat \<times> int) \<times> string" where
  "canary_key due t =
     (\<not> due t, if due t then ((0, 0), absent_last (iss_created_at (ti_iss t)), iss_identifier (ti_iss t))
               else dispatch_key (ti_iss t))"

lemma canary_cmp_key:
  "credential_canary_cmp (ti_iss a) (ti_iss b) (due a) (due b) = cmp_of (canary_key due a) (canary_key due b)"
  by (auto simp: credential_canary_cmp_def canary_key_def dispatch_cmp_key cmp_of_pair cmp_created_time_key
      absent_last_def cmp_of_def split: option.splits)

lift_definition canary_comparator :: "(tagged_issue \<Rightarrow> bool) \<Rightarrow> tagged_issue comparator"
  is "\<lambda>due a b. credential_canary_cmp (ti_iss a) (ti_iss b) (due a) (due b)"
  by unfold_locales (auto simp: canary_cmp_key cmp_of_def split: if_splits)

lift_definition tagged_comparator :: "tagged_issue comparator"
  is "\<lambda>a b. dispatch_cmp (ti_iss a) (ti_iss b)"
  by unfold_locales (auto simp: dispatch_cmp_key cmp_of_def split: if_splits)

definition sort_tagged_stable :: "tagged_issue list \<Rightarrow> tagged_issue list" where
  "sort_tagged_stable tagged = Sorting_Algorithms.sort tagged_comparator tagged"

definition sort_canaries_first :: "(tagged_issue \<Rightarrow> bool) \<Rightarrow> tagged_issue list \<Rightarrow> tagged_issue list" where
  "sort_canaries_first due tagged = Sorting_Algorithms.sort (canary_comparator due) tagged"

section \<open>The walk\<close>

record project_hold =
  ph_cap :: int
  ph_held :: "string list"

record state_hold =
  so_count :: int
  so_limit :: int
  so_held :: "string list"

record ladder_view =
  lv_slug :: string
  lv_gate :: eligibility_gate
  lv_limits :: "string \<rightharpoonup> int"
  lv_route :: "dispatch_route option"
  lv_budget :: "(string \<times> int) option"

record ladder_pass =
  lp_running :: "string set"
  lp_state_counts :: "string \<rightharpoonup> int"
  lp_global :: int
  lp_per_project :: "string \<rightharpoonup> int"
  lp_canaries :: "(string \<times> string) set"
  lp_load :: "load_snapshot option"
  lp_tally :: "string \<rightharpoonup> int"
  lp_held_for_triage :: bool
  lp_held_for_capacity :: "string \<rightharpoonup> int"
  lp_project_holds :: "string \<rightharpoonup> project_hold"
  lp_state_holds :: "string \<rightharpoonup> state_hold"
  lp_capacity_held :: "string list"
  lp_active :: "(tagged_issue \<times> string option) list"
  lp_reopen :: "tagged_issue list"
  lp_ledger :: human_hold_state

definition eff_view :: "select_config \<Rightarrow> ladder_view" where
  "eff_view c =
     \<lparr>lv_slug = [], lv_gate = sc_gate c, lv_limits = sc_per_state_limits c, lv_route = None, lv_budget = None\<rparr>"

definition project_view :: "resolved_project \<Rightarrow> ladder_view" where
  "project_view p =
     \<lparr>lv_slug = sp_slug p, lv_gate = sp_gate p, lv_limits = sp_per_state_limits p,
      lv_route = Some \<lparr>dr_slug = sp_slug p, dr_group = sp_group p, dr_repo = sp_repo p, dr_model = sp_model p,
                       dr_workspace_mode = sp_workspace_mode p\<rparr>,
      lv_budget = Some (sp_group p, sp_max_concurrent p)\<rparr>"

definition tagged_view :: "select_config \<Rightarrow> tagged_issue \<Rightarrow> ladder_view option" where
  "tagged_view c t =
     (case ti_proj t of
        None \<Rightarrow> None
      | Some i \<Rightarrow> if i < length (sc_projects c) then Some (project_view (sc_projects c ! i)) else None)"

definition note_project_hold ::
  "string \<Rightarrow> int \<Rightarrow> string \<Rightarrow> (string \<rightharpoonup> project_hold) \<Rightarrow> string \<rightharpoonup> project_hold" where
  "note_project_hold grp cap iid holds =
     (let h = (case holds grp of Some h \<Rightarrow> h | None \<Rightarrow> \<lparr>ph_cap = cap, ph_held = []\<rparr>)
      in holds(grp \<mapsto> h\<lparr>ph_held := ph_held h @ [iid]\<rparr>))"

definition note_state_hold ::
  "string \<Rightarrow> int \<Rightarrow> int \<Rightarrow> string \<Rightarrow> (string \<rightharpoonup> state_hold) \<Rightarrow> string \<rightharpoonup> state_hold" where
  "note_state_hold st n limit iid holds =
     (let h = (case holds st of Some h \<Rightarrow> h | None \<Rightarrow> \<lparr>so_count = n, so_limit = limit, so_held = []\<rparr>)
      in holds(st \<mapsto> h\<lparr>so_held := so_held h @ [iid]\<rparr>))"

definition ensure_project_budget ::
  "select_env \<Rightarrow> string \<Rightarrow> int \<Rightarrow> (string \<rightharpoonup> int) \<Rightarrow> bool \<times> (string \<rightharpoonup> int)" where
  "ensure_project_budget e grp max_concurrent per_project =
     (let pp = (if per_project grp = None
                then per_project(grp \<mapsto> max (max_concurrent - running_in_project_group e grp) 0)
                else per_project)
      in (count_of pp grp > 0, pp))"

text \<open>The steps of the walk that only a \<^verbatim>\<open>projects:\<close> installation takes.\<close>

definition project_budget_gate :: "select_env \<Rightarrow> ladder_view \<Rightarrow> ladder_pass \<Rightarrow> bool \<times> ladder_pass" where
  "project_budget_gate e v s =
     (case lv_budget v of
        None \<Rightarrow> (True, s)
      | Some (grp, cap) \<Rightarrow>
          (let (free, pp) = ensure_project_budget e grp cap (lp_per_project s)
           in (free, s\<lparr>lp_per_project := pp\<rparr>)))"

definition hold_for_project :: "ladder_view \<Rightarrow> issue \<Rightarrow> ladder_pass \<Rightarrow> ladder_pass" where
  "hold_for_project v iss s =
     (case lv_budget v of
        None \<Rightarrow> s
      | Some (grp, cap) \<Rightarrow>
          s\<lparr>lp_project_holds := note_project_hold grp cap (iss_identifier iss) (lp_project_holds s)\<rparr>)"

definition hold_for_state :: "ladder_view \<Rightarrow> issue \<Rightarrow> string \<Rightarrow> int \<Rightarrow> ladder_pass \<Rightarrow> ladder_pass" where
  "hold_for_state v iss st limit s =
     (case lv_budget v of
        None \<Rightarrow> s
      | Some _ \<Rightarrow>
          s\<lparr>lp_state_holds := note_state_hold st (count_of (lp_state_counts s) st) limit (iss_identifier iss)
                               (lp_state_holds s)\<rparr>)"

definition select_credential_canary :: "select_env \<Rightarrow> issue \<Rightarrow> string \<Rightarrow> ladder_pass \<Rightarrow> bool \<times> ladder_pass" where
  "select_credential_canary e iss slug s =
     (case sx_canary e iss slug of
        None \<Rightarrow> (True, s)
      | Some k \<Rightarrow> (k \<notin> lp_canaries s, s\<lparr>lp_canaries := insert k (lp_canaries s)\<rparr>))"

definition reserve :: "ladder_view \<Rightarrow> issue \<Rightarrow> string \<Rightarrow> ladder_pass \<Rightarrow> ladder_pass" where
  "reserve v iss st s =
     s\<lparr>lp_running := insert (iss_id iss) (lp_running s),
       lp_global := lp_global s - 1,
       lp_per_project := (case lv_budget v of None \<Rightarrow> lp_per_project s | Some (grp, _) \<Rightarrow> entry_add grp (- 1) (lp_per_project s)),
       lp_state_counts := entry_add st 1 (lp_state_counts s)\<rparr>"

definition note_hold :: "ladder_view option \<Rightarrow> issue \<Rightarrow> ladder_pass \<Rightarrow> ladder_pass" where
  "note_hold v iss s =
     s\<lparr>lp_ledger := snd (note_human_hold iss (case v of None \<Rightarrow> [] | Some v \<Rightarrow> lv_slug v) (lp_ledger s))\<rparr>"

definition promote_state :: "select_env \<Rightarrow> select_config \<Rightarrow> string" where
  "promote_state e c = normalize_state (sx_text e) (sc_review_promote_state c)"

text \<open>The branch for a ticket in a review state, which a fresh summons reopens.\<close>

definition reopen_candidate ::
  "select_env \<Rightarrow> select_config \<Rightarrow> ladder_view \<Rightarrow> tagged_issue \<Rightarrow> ladder_pass \<Rightarrow> ladder_pass" where
  "reopen_candidate e c v t s =
     (let iss = ti_iss t in
      if is_human (sx_text e) iss then
        (if is_unworked_candidate (sx_gates e) iss (lp_running s) (recovered_claim_identifiers e)
         then note_hold (Some v) iss s else s)
      else if \<not> review_reopen_eligible (sx_gates e) iss (lp_running s) then s
      else if wake_owns e iss then s
      else if author_budget_spent e iss then s
      else if preparation_suppressed e iss (lv_route v) then s
      else let (free, s) = project_budget_gate e v s in
        if \<not> free then hold_for_project v iss s
        else if \<not> sx_limit_ready e iss (lv_slug v) then s
        else let pst = promote_state e c;
                 limit = state_limit (sx_text e) (sc_review_promote_state c) (lv_limits v) (sc_max_concurrent c) in
          if count_of (lp_state_counts s) pst \<ge> limit then hold_for_state v iss pst limit s
          else let (fresh, s) = select_credential_canary e iss (lv_slug v) s in
            if \<not> fresh then s
            else (reserve v iss pst s)\<lparr>lp_reopen := lp_reopen s @ [t]\<rparr>)"

text \<open>
  The teammate a candidate would go to, with the tally entry for that teammate started from the load
  at the beginning of the pass. Review tickets and installations without teams have none.
\<close>

definition capacity_plan :: "select_env \<Rightarrow> issue \<Rightarrow> ladder_pass \<Rightarrow> string option \<times> ladder_pass" where
  "capacity_plan e iss s =
     (if is_review_ticket iss \<or> enabled_teams (sx_team e) = None then (None, s)
      else
        let load = (case lp_load s of Some l \<Rightarrow> l | None \<Rightarrow> teammate_load (sx_team e));
            s = s\<lparr>lp_load := Some load\<rparr>;
            planned = planned_identity (sx_team e) iss (advanced_by load (lp_tally s))
        in case planned of
             None \<Rightarrow> (None, s)
           | Some name \<Rightarrow>
               (Some name,
                if lp_tally s name = None then s\<lparr>lp_tally := (lp_tally s)(name \<mapsto> impl_live load name)\<rparr> else s))"

definition charge_teammate :: "string option \<Rightarrow> ladder_pass \<Rightarrow> ladder_pass" where
  "charge_teammate planned s =
     (case planned of None \<Rightarrow> s | Some name \<Rightarrow> s\<lparr>lp_tally := entry_add name 1 (lp_tally s)\<rparr>)"

text \<open>The branch for a ticket in an active state.\<close>

definition active_candidate ::
  "select_env \<Rightarrow> select_config \<Rightarrow> ladder_view \<Rightarrow> tagged_issue \<Rightarrow> ladder_pass \<Rightarrow> ladder_pass" where
  "active_candidate e c v t s =
     (let iss = ti_iss t;
          st = normalize_state (sx_text e) (iss_state iss);
          elig = eligibility (sx_text e) iss (lp_running s) (ge_claimed (sx_gates e)) (lv_gate v) in
      if \<not> er_ok elig then (if er_held_for_human elig then note_hold (Some v) iss s else s)
      else if \<not> sx_limit_ready e iss (lv_slug v) then s
      else if wake_owns e iss then s
      else if \<not> author_authorized e iss then s
      else if pr_suppressed (sx_gates e) iss then s
      else if author_budget_spent e iss then s
      else if teams_awaiting_assignment (sx_team e) iss then s\<lparr>lp_held_for_triage := True\<rparr>
      else let (planned, s) = capacity_plan e iss s in
        if planned \<noteq> None \<and> at_cap (sx_team e) (the planned) (lp_tally s)
        then s\<lparr>lp_held_for_capacity := entry_add (the planned) 1 (lp_held_for_capacity s)\<rparr>
        else if preparation_suppressed e iss (lv_route v) then s
        else let (free, s) = project_budget_gate e v s in
          if \<not> free then hold_for_project v iss s
          else let limit = state_limit (sx_text e) (iss_state iss) (lv_limits v) (sc_max_concurrent c) in
            if count_of (lp_state_counts s) st \<ge> limit then hold_for_state v iss st limit s
            else let (fresh, s) = select_credential_canary e iss (lv_slug v) s in
              if \<not> fresh then s
              else (charge_teammate planned (reserve v iss st s))\<lparr>lp_active := lp_active s @ [(t, planned)]\<rparr>)"

definition ladder_candidate ::
  "select_env \<Rightarrow> select_config \<Rightarrow> string set \<Rightarrow> ladder_view option \<Rightarrow> tagged_issue \<Rightarrow> ladder_pass \<Rightarrow> ladder_pass" where
  "ladder_candidate e c excluded view t s =
     (case view of
        None \<Rightarrow> s
      | Some v \<Rightarrow>
          (let iss = ti_iss t; st = normalize_state (sx_text e) (iss_state iss) in
           if iss_identifier iss \<in> excluded \<or> iss_identifier iss \<in> recovered_claim_identifiers e then s
           else if st \<in> eg_review (lv_gate v) \<and> st \<notin> eg_active (lv_gate v) then reopen_candidate e c v t s
           else active_candidate e c v t s))"

definition observe_label :: "select_env \<Rightarrow> issue \<Rightarrow> ladder_pass \<Rightarrow> ladder_pass" where
  "observe_label e iss s =
     (if is_human (sx_text e) iss then s\<lparr>lp_ledger := note_human_label (iss_identifier iss) (lp_ledger s)\<rparr> else s)"

text \<open>What is left when the global slots are gone: labels are observed, holds and waiting tickets named.\<close>

definition capacity_tail ::
  "select_env \<Rightarrow> (tagged_issue \<Rightarrow> ladder_view option) \<Rightarrow> tagged_issue \<Rightarrow> ladder_pass \<Rightarrow> ladder_pass" where
  "capacity_tail e view t s =
     (let iss = ti_iss t; s = observe_label e iss s in
      if is_unworked_candidate (sx_gates e) iss (lp_running s) (recovered_claim_identifiers e) then
        (if is_human (sx_text e) iss then note_hold (view t) iss s
         else s\<lparr>lp_capacity_held := lp_capacity_held s @ [iss_identifier iss]\<rparr>)
      else s)"

fun ladder ::
  "select_env \<Rightarrow> select_config \<Rightarrow> string set \<Rightarrow> (tagged_issue \<Rightarrow> ladder_view option) \<Rightarrow> tagged_issue list
     \<Rightarrow> ladder_pass \<Rightarrow> ladder_pass" where
  "ladder e c excluded view [] s = s"
| "ladder e c excluded view (t # ts) s =
     (if subject_parked (sx_gates e) (iss_identifier (ti_iss t)) ''author'' then ladder e c excluded view ts s
      else let s = observe_label e (ti_iss t) s in
        if lp_global s \<le> 0 then fold (capacity_tail e view) (t # ts) s
        else ladder e c excluded view ts (ladder_candidate e c excluded (view t) t s))"

section \<open>The two passes\<close>

record selection =
  sl_active :: "tagged_issue list"
  sl_plans :: "string option list"
  sl_reopen :: "tagged_issue list"
  sl_held_for_capacity :: "string \<rightharpoonup> int"
  sl_project_holds :: "string \<rightharpoonup> project_hold"
  sl_state_holds :: "string \<rightharpoonup> state_hold"
  sl_ledger :: human_hold_state
  sl_kick :: bool

definition pass_start :: "select_env \<Rightarrow> select_config \<Rightarrow> human_hold_state \<Rightarrow> ladder_pass" where
  "pass_start e c h =
     \<lparr>lp_running = running_id_set e, lp_state_counts = running_state_counts e,
      lp_global = global_slots (sc_max_concurrent c) (implementation_pool_holders e),
      lp_per_project = Map.empty, lp_canaries = {}, lp_load = None, lp_tally = Map.empty,
      lp_held_for_triage = False, lp_held_for_capacity = Map.empty, lp_project_holds = Map.empty,
      lp_state_holds = Map.empty, lp_capacity_held = [], lp_active = [], lp_reopen = [], lp_ledger = h\<rparr>"

definition kick_triage :: "select_env \<Rightarrow> bool \<Rightarrow> bool" where
  "kick_triage e held \<longleftrightarrow> held \<and> te_triage (sx_team e) \<noteq> None"

definition selection_of :: "select_env \<Rightarrow> ladder_pass \<Rightarrow> selection" where
  "selection_of e s =
     \<lparr>sl_active = map fst (lp_active s), sl_plans = map snd (lp_active s), sl_reopen = lp_reopen s,
      sl_held_for_capacity = lp_held_for_capacity s, sl_project_holds = lp_project_holds s,
      sl_state_holds = lp_state_holds s, sl_ledger = lp_ledger s, sl_kick = kick_triage e (lp_held_for_triage s)\<rparr>"

definition no_selection :: "human_hold_state \<Rightarrow> selection" where
  "no_selection h =
     \<lparr>sl_active = [], sl_plans = [], sl_reopen = [], sl_held_for_capacity = Map.empty, sl_project_holds = Map.empty,
      sl_state_holds = Map.empty, sl_ledger = h, sl_kick = False\<rparr>"

definition tag_untagged :: "issue \<Rightarrow> tagged_issue" where
  "tag_untagged iss = \<lparr>ti_proj = None, ti_iss = iss\<rparr>"

definition single_queue :: "select_env \<Rightarrow> issue list \<Rightarrow> tagged_issue list" where
  "single_queue e issues =
     (let due = iss_id ` set (filter (\<lambda>i. sx_canary e i [] \<noteq> None) issues)
      in sort_canaries_first (\<lambda>t. iss_id (ti_iss t) \<in> due) (map tag_untagged issues))"

definition select_dispatch_with_reopens_excluding ::
  "select_env \<Rightarrow> human_hold_state \<Rightarrow> issue list \<Rightarrow> string set \<Rightarrow> selection" where
  "select_dispatch_with_reopens_excluding e h issues excluded =
     (case sx_eff e of
        None \<Rightarrow> no_selection h
      | Some c \<Rightarrow>
          selection_of e (ladder e c excluded (\<lambda>_. Some (eff_view c)) (single_queue e issues)
            (pass_start e c (fold (log_non_live_claim e) issues (begin_pass True h)))))"

definition multi_queue :: "select_env \<Rightarrow> select_config \<Rightarrow> tagged_issue list \<Rightarrow> tagged_issue list" where
  "multi_queue e c tagged =
     (let slug = (\<lambda>t. case tagged_view c t of None \<Rightarrow> [] | Some v \<Rightarrow> lv_slug v);
          sorted = sort_tagged_stable tagged;
          due = (\<lambda>t. (iss_id (ti_iss t), ti_proj t)) ` set (filter (\<lambda>t. sx_canary e (ti_iss t) (slug t) \<noteq> None) sorted)
      in sort_canaries_first (\<lambda>t. (iss_id (ti_iss t), ti_proj t) \<in> due) sorted)"

definition select_dispatch_multi_after_fetch_excluding ::
  "select_env \<Rightarrow> human_hold_state \<Rightarrow> tagged_issue list \<Rightarrow> bool \<Rightarrow> string set \<Rightarrow> selection" where
  "select_dispatch_multi_after_fetch_excluding e h tagged read_the_board excluded =
     (case sx_eff e of
        None \<Rightarrow> no_selection h
      | Some c \<Rightarrow>
          selection_of e (ladder e c excluded (tagged_view c) (multi_queue e c tagged)
            (pass_start e c (fold (\<lambda>t. log_non_live_claim e (ti_iss t)) tagged (begin_pass read_the_board h)))))"

end
