(* ===== verification/Selection_Rules.thy ===== *)
theory Selection_Rules
  imports Selection
begin

text \<open>
  Reasoning about the selection pass. The locale \<open>ladder_invariant\<close> is the rule of the walk: a predicate
  on the pass that survives each primitive step and each admission, with what an admission may rely on,
  holds at the end. The counters, the gates and the plans are interpretations of it.
\<close>

section \<open>What an admission relies on\<close>

lemma eligibility_running:
  "er_ok (eligibility tx iss R C g) \<longleftrightarrow> er_ok (eligibility tx iss {} C g) \<and> iss_id iss \<notin> R"
  by (auto simp: eligibility_def eligibility_default_def Let_def)

lemma reopen_running:
  "review_reopen_eligible g iss R \<longleftrightarrow> review_reopen_eligible g iss {} \<and> iss_id iss \<notin> R"
  by (auto simp: review_reopen_eligible_def split: option.splits)

text \<open>The gates that do not depend on what the pass has admitted so far.\<close>

definition in_reopen_branch :: "select_env \<Rightarrow> ladder_view \<Rightarrow> issue \<Rightarrow> bool" where
  "in_reopen_branch e v iss \<longleftrightarrow>
     normalize_state (sx_text e) (iss_state iss) \<in> eg_review (lv_gate v) \<and>
     normalize_state (sx_text e) (iss_state iss) \<notin> eg_active (lv_gate v)"

definition candidate_gates :: "select_env \<Rightarrow> string set \<Rightarrow> ladder_view \<Rightarrow> issue \<Rightarrow> bool" where
  "candidate_gates e excluded v iss \<longleftrightarrow>
     iss_identifier iss \<notin> excluded \<and> iss_identifier iss \<notin> recovered_claim_identifiers e \<and>
     sx_limit_ready e iss (lv_slug v) \<and> \<not> wake_owns e iss \<and> \<not> author_budget_spent e iss \<and>
     \<not> preparation_suppressed e iss (lv_route v)"

definition active_gates :: "select_env \<Rightarrow> string set \<Rightarrow> ladder_view \<Rightarrow> issue \<Rightarrow> bool" where
  "active_gates e excluded v iss \<longleftrightarrow>
     candidate_gates e excluded v iss \<and> \<not> in_reopen_branch e v iss \<and>
     er_ok (eligibility (sx_text e) iss {} (ge_claimed (sx_gates e)) (lv_gate v)) \<and>
     author_authorized e iss \<and> \<not> pr_suppressed (sx_gates e) iss \<and> \<not> teams_awaiting_assignment (sx_team e) iss"

definition reopen_gates :: "select_env \<Rightarrow> string set \<Rightarrow> ladder_view \<Rightarrow> issue \<Rightarrow> bool" where
  "reopen_gates e excluded v iss \<longleftrightarrow>
     candidate_gates e excluded v iss \<and> in_reopen_branch e v iss \<and> \<not> is_human (sx_text e) iss \<and>
     review_reopen_eligible (sx_gates e) iss {}"

text \<open>The limit of a state, by its normalized name.\<close>

definition limit_at :: "select_config \<Rightarrow> ladder_view \<Rightarrow> string \<Rightarrow> int" where
  "limit_at c v k = (case lv_limits v k of Some n \<Rightarrow> n | None \<Rightarrow> sc_max_concurrent c)"

lemma state_limit_at: "state_limit tx st (lv_limits v) (sc_max_concurrent c) = limit_at c v (normalize_state tx st)"
  by (simp add: state_limit_def limit_at_def)

definition room :: "select_config \<Rightarrow> ladder_view \<Rightarrow> string \<Rightarrow> issue \<Rightarrow> ladder_pass \<Rightarrow> bool" where
  "room c v k iss s \<longleftrightarrow>
     0 < lp_global s \<and> iss_id iss \<notin> lp_running s \<and> count_of (lp_state_counts s) k < limit_at c v k \<and>
     (\<forall>grp cap. lv_budget v = Some (grp, cap) \<longrightarrow> (\<exists>n > 0. lp_per_project s grp = Some n))"

definition planned_in :: "select_env \<Rightarrow> issue \<Rightarrow> string option \<Rightarrow> ladder_pass \<Rightarrow> bool" where
  "planned_in e iss planned s \<longleftrightarrow>
     (if is_review_ticket iss \<or> enabled_teams (sx_team e) = None then planned = None
      else \<exists>l. lp_load s = Some l \<and> planned = planned_identity (sx_team e) iss (advanced_by l (lp_tally s)) \<and>
        (\<forall>n. planned = Some n \<longrightarrow> lp_tally s n \<noteq> None \<and> \<not> at_cap (sx_team e) n (lp_tally s)))"

definition state_key :: "select_env \<Rightarrow> issue \<Rightarrow> string" where
  "state_key e iss = normalize_state (sx_text e) (iss_state iss)"

definition admit_active ::
  "select_env \<Rightarrow> ladder_view \<Rightarrow> tagged_issue \<Rightarrow> string option \<Rightarrow> ladder_pass \<Rightarrow> ladder_pass" where
  "admit_active e v t planned s =
     (charge_teammate planned (reserve v (ti_iss t) (state_key e (ti_iss t)) s))\<lparr>lp_active := lp_active s @ [(t, planned)]\<rparr>"

definition admit_reopen :: "select_env \<Rightarrow> select_config \<Rightarrow> ladder_view \<Rightarrow> tagged_issue \<Rightarrow> ladder_pass \<Rightarrow> ladder_pass" where
  "admit_reopen e c v t s = (reserve v (ti_iss t) (promote_state e c) s)\<lparr>lp_reopen := lp_reopen s @ [t]\<rparr>"

section \<open>The branches of the walk\<close>

text \<open>What the bookkeeping of a pass leaves alone.\<close>

definition same_books :: "ladder_pass \<Rightarrow> ladder_pass \<Rightarrow> bool" where
  "same_books s s' \<longleftrightarrow>
     lp_running s' = lp_running s \<and> lp_state_counts s' = lp_state_counts s \<and> lp_global s' = lp_global s \<and>
     lp_per_project s' = lp_per_project s \<and> lp_canaries s' = lp_canaries s \<and> lp_load s' = lp_load s \<and>
     lp_tally s' = lp_tally s \<and> lp_active s' = lp_active s \<and> lp_reopen s' = lp_reopen s"

lemma same_books_refl [simp]: "same_books s s"
  by (simp add: same_books_def)

lemma same_books_notes [simp]:
  "same_books s (note_hold v iss s)" "same_books s (observe_label e iss s)" "same_books s (hold_for_project w iss s)"
  "same_books s (hold_for_state w iss st n s)" "same_books s (s\<lparr>lp_held_for_triage := b\<rparr>)"
  "same_books s (s\<lparr>lp_held_for_capacity := m\<rparr>)" "same_books s (capacity_tail e view t s)"
  by (auto simp: same_books_def note_hold_def observe_label_def hold_for_project_def hold_for_state_def
      capacity_tail_def Let_def split: option.splits)

lemma budget_gate_frame [simp]:
  "lp_global (snd (project_budget_gate e v s)) = lp_global s"
  "lp_running (snd (project_budget_gate e v s)) = lp_running s"
  "lp_state_counts (snd (project_budget_gate e v s)) = lp_state_counts s"
  "lp_canaries (snd (project_budget_gate e v s)) = lp_canaries s"
  "lp_load (snd (project_budget_gate e v s)) = lp_load s"
  "lp_tally (snd (project_budget_gate e v s)) = lp_tally s"
  "lp_active (snd (project_budget_gate e v s)) = lp_active s"
  "lp_reopen (snd (project_budget_gate e v s)) = lp_reopen s"
  by (simp_all add: project_budget_gate_def Let_def split: option.splits prod.splits)

lemma plan_frame [simp]:
  "lp_global (snd (capacity_plan e iss s)) = lp_global s"
  "lp_running (snd (capacity_plan e iss s)) = lp_running s"
  "lp_state_counts (snd (capacity_plan e iss s)) = lp_state_counts s"
  "lp_canaries (snd (capacity_plan e iss s)) = lp_canaries s"
  "lp_per_project (snd (capacity_plan e iss s)) = lp_per_project s"
  "lp_active (snd (capacity_plan e iss s)) = lp_active s"
  "lp_reopen (snd (capacity_plan e iss s)) = lp_reopen s"
  by (simp_all add: capacity_plan_def Let_def split: option.splits)

lemma canary_frame [simp]:
  "lp_global (snd (select_credential_canary e iss slug s)) = lp_global s"
  "lp_running (snd (select_credential_canary e iss slug s)) = lp_running s"
  "lp_state_counts (snd (select_credential_canary e iss slug s)) = lp_state_counts s"
  "lp_per_project (snd (select_credential_canary e iss slug s)) = lp_per_project s"
  "lp_load (snd (select_credential_canary e iss slug s)) = lp_load s"
  "lp_tally (snd (select_credential_canary e iss slug s)) = lp_tally s"
  "lp_active (snd (select_credential_canary e iss slug s)) = lp_active s"
  "lp_reopen (snd (select_credential_canary e iss slug s)) = lp_reopen s"
  by (simp_all add: select_credential_canary_def split: option.splits)

lemma budget_gate_free:
  "fst (project_budget_gate e v s) \<Longrightarrow> lv_budget v = Some (grp, cap) \<Longrightarrow>
     \<exists>n > 0. lp_per_project (snd (project_budget_gate e v s)) grp = Some n"
  by (auto simp: project_budget_gate_def ensure_project_budget_def count_of_def Let_def split: if_splits option.splits)

text \<open>Starting a teammate's tally at the load does not advance the load.\<close>

lemma advanced_by_seed:
  "tally n = None \<Longrightarrow> advanced_by l (tally(n \<mapsto> impl_live l n)) = advanced_by l tally"
  by (auto simp: advanced_by_def Let_def fun_eq_iff split: option.splits)

lemma plan_planned_in:
  assumes "capacity_plan e iss s = (planned, s')" "planned \<noteq> None \<Longrightarrow> \<not> at_cap (sx_team e) (the planned) (lp_tally s')"
  shows "planned_in e iss planned s'"
  using assms
  by (auto simp: capacity_plan_def planned_in_def Let_def advanced_by_seed split: if_splits option.splits)

lemma planned_in_cong:
  "lp_load s' = lp_load s \<Longrightarrow> lp_tally s' = lp_tally s \<Longrightarrow> planned_in e iss planned s' = planned_in e iss planned s"
  by (simp only: planned_in_def)

lemma budget_gate_full:
  "\<not> fst (project_budget_gate e v s) \<Longrightarrow>
     \<exists>grp cap n. lv_budget v = Some (grp, cap) \<and> lp_per_project (snd (project_budget_gate e v s)) grp = Some n \<and> n \<le> 0"
  by (force simp: project_budget_gate_def ensure_project_budget_def count_of_def Let_def split: if_splits option.splits)

text \<open>The steps of a walk that admit nothing.\<close>

inductive bookkeeping :: "select_env \<Rightarrow> ladder_view \<Rightarrow> ladder_pass \<Rightarrow> ladder_pass \<Rightarrow> bool" for e v where
  Start: "bookkeeping e v s s"
| Note: "bookkeeping e v s s1 \<Longrightarrow> same_books s1 s2 \<Longrightarrow> bookkeeping e v s s2"
| Budget: "bookkeeping e v s s1 \<Longrightarrow> bookkeeping e v s (snd (project_budget_gate e v s1))"
| Plan: "bookkeeping e v s s1 \<Longrightarrow> bookkeeping e v s (snd (capacity_plan e iss s1))"
| Canary: "bookkeeping e v s s1 \<Longrightarrow> bookkeeping e v s (snd (select_credential_canary e iss slug s1))"

text \<open>Why a candidate is not admitted: a gate of its own, or a budget the pass has used up.\<close>

definition saturated :: "select_env \<Rightarrow> select_config \<Rightarrow> ladder_view \<Rightarrow> issue \<Rightarrow> ladder_pass \<Rightarrow> bool" where
  "saturated e c v iss s \<longleftrightarrow>
     lp_global s \<le> 0 \<or> iss_id iss \<in> lp_running s \<or>
     (\<exists>grp cap n. lv_budget v = Some (grp, cap) \<and> lp_per_project s grp = Some n \<and> n \<le> 0) \<or>
     (let k = (if in_reopen_branch e v iss then promote_state e c else state_key e iss)
      in limit_at c v k \<le> count_of (lp_state_counts s) k) \<or>
     (\<exists>k. sx_canary e iss (lv_slug v) = Some k \<and> k \<in> lp_canaries s) \<or>
     (\<not> in_reopen_branch e v iss \<and> (\<exists>n. at_cap (sx_team e) n (lp_tally s)))"

definition refused :: "select_env \<Rightarrow> select_config \<Rightarrow> string set \<Rightarrow> ladder_view \<Rightarrow> issue \<Rightarrow> ladder_pass \<Rightarrow> bool" where
  "refused e c excluded v iss s \<longleftrightarrow>
     \<not> active_gates e excluded v iss \<and> \<not> reopen_gates e excluded v iss \<or> saturated e c v iss s"

definition outcome ::
  "select_env \<Rightarrow> select_config \<Rightarrow> string set \<Rightarrow> ladder_view \<Rightarrow> tagged_issue \<Rightarrow> ladder_pass \<Rightarrow> ladder_pass \<Rightarrow> bool" where
  "outcome e c excluded v t s s' \<longleftrightarrow>
     bookkeeping e v s s' \<and> refused e c excluded v (ti_iss t) s' \<or>
     (\<exists>s1. bookkeeping e v s s1 \<and> reopen_gates e excluded v (ti_iss t) \<and>
        room c v (promote_state e c) (ti_iss t) s1 \<and> s' = admit_reopen e c v t s1) \<or>
     (\<exists>s1 planned. bookkeeping e v s s1 \<and> active_gates e excluded v (ti_iss t) \<and>
        room c v (state_key e (ti_iss t)) (ti_iss t) s1 \<and> planned_in e (ti_iss t) planned s1 \<and>
        s' = admit_active e v t planned s1)"

lemma outcome_if:
  "(b \<Longrightarrow> outcome e c excluded v t s x) \<Longrightarrow> (\<not> b \<Longrightarrow> outcome e c excluded v t s y) \<Longrightarrow>
     outcome e c excluded v t s (if b then x else y)"
  by simp

lemma outcome_refused:
  "bookkeeping e v s s1 \<Longrightarrow> same_books s1 s' \<Longrightarrow> refused e c excluded v (ti_iss t) s' \<Longrightarrow> outcome e c excluded v t s s'"
  by (auto simp: outcome_def intro: bookkeeping.Note)

lemmas gate_defs = active_gates_def reopen_gates_def candidate_gates_def

lemma saturated_books: "same_books s s' \<Longrightarrow> saturated e c v iss s' = saturated e c v iss s"
  by (simp add: saturated_def same_books_def)

lemma reopen_outcome:
  assumes g: "0 < lp_global s" and br: "in_reopen_branch e v iss" and i: "ti_iss t = iss"
    and x: "iss_identifier iss \<notin> excluded" "iss_identifier iss \<notin> recovered_claim_identifiers e"
  shows "outcome e c excluded v t s (reopen_candidate e c v t s)"
proof -
  obtain free s1 where b: "project_budget_gate e v s = (free, s1)" by fastforce
  obtain fresh s2 where k: "select_credential_canary e iss (lv_slug v) s1 = (fresh, s2)" by fastforce
  have B1: "bookkeeping e v s s1" using Budget [OF Start, of e v s] b by simp
  have B2: "bookkeeping e v s s2" using Canary [OF B1, of iss "lv_slug v"] k by simp
  note frames = budget_gate_frame [of e v s] canary_frame [of e iss "lv_slug v" s1]
  have gate: "outcome e c excluded v t s s'"
    if "bookkeeping e v s s''" "same_books s'' s'" "\<not> reopen_gates e excluded v iss" for s' s''
    using that br i by (auto intro!: outcome_refused simp: refused_def active_gates_def)
  have full: "outcome e c excluded v t s s'" if "bookkeeping e v s s''" "same_books s'' s'" "saturated e c v iss s''" for s' s''
    using that i by (auto intro!: outcome_refused simp: refused_def saturated_books)
  have adm: "outcome e c excluded v t s (admit_reopen e c v t s2)"
    if "\<not> is_human (sx_text e) iss" "review_reopen_eligible (sx_gates e) iss (lp_running s)" "\<not> wake_owns e iss"
      "\<not> author_budget_spent e iss" "\<not> preparation_suppressed e iss (lv_route v)" "free"
      "sx_limit_ready e iss (lv_slug v)" "count_of (lp_state_counts s1) (promote_state e c) < limit_at c v (promote_state e c)"
  proof -
    have "reopen_gates e excluded v iss"
      using that br x reopen_running [of _ iss "lp_running s"] by (auto simp: reopen_gates_def candidate_gates_def)
    moreover have "room c v (promote_state e c) iss s2"
      using that g b k frames budget_gate_free [of e v s] reopen_running [of _ iss "lp_running s"]
      by (auto simp: room_def)
    ultimately show ?thesis using B2 i by (auto simp: outcome_def)
  qed
  show ?thesis
    unfolding reopen_candidate_def Let_def i b k prod.case state_limit_at
    apply (intro outcome_if)
    subgoal by (rule gate [OF Start]) (simp_all add: gate_defs)
    subgoal by (rule gate [OF Start]) (simp_all add: gate_defs)
    subgoal using reopen_running [of "sx_gates e" iss "lp_running s"]
      by (cases "iss_id iss \<in> lp_running s") (auto intro: gate [OF Start] full [OF Start] simp: gate_defs saturated_def)
    subgoal by (rule gate [OF Start]) (simp_all add: gate_defs)
    subgoal by (rule gate [OF Start]) (simp_all add: gate_defs)
    subgoal by (rule gate [OF Start]) (simp_all add: gate_defs)
    subgoal using budget_gate_full [of e v s] b by (intro full [OF B1]) (auto simp: saturated_def)
    subgoal by (rule gate [OF B1]) (simp_all add: gate_defs)
    subgoal using br by (intro full [OF B1]) (simp_all add: saturated_def promote_state_def Let_def)
    subgoal using k by (intro full [OF B2]) (auto simp: saturated_def select_credential_canary_def split: option.splits)
    subgoal by (rule adm [unfolded admit_reopen_def i]; simp add: promote_state_def)
    done
qed

lemma active_outcome:
  assumes g: "0 < lp_global s" and br: "\<not> in_reopen_branch e v iss" and i: "ti_iss t = iss"
    and x: "iss_identifier iss \<notin> excluded" "iss_identifier iss \<notin> recovered_claim_identifiers e"
  shows "outcome e c excluded v t s (active_candidate e c v t s)"
proof -
  obtain planned s0 where p: "capacity_plan e iss s = (planned, s0)" by fastforce
  obtain free s1 where b: "project_budget_gate e v s0 = (free, s1)" by fastforce
  obtain fresh s2 where k: "select_credential_canary e iss (lv_slug v) s1 = (fresh, s2)" by fastforce
  have B0: "bookkeeping e v s s0" using Plan [OF Start, of e v s iss] p by simp
  have B1: "bookkeeping e v s s1" using Budget [OF B0] b by simp
  have B2: "bookkeeping e v s s2" using Canary [OF B1, of iss "lv_slug v"] k by simp
  note frames = plan_frame [of e iss s] budget_gate_frame [of e v s0] canary_frame [of e iss "lv_slug v" s1]
  note running = eligibility_running [of "sx_text e" iss "lp_running s"]
  have gate: "outcome e c excluded v t s s'"
    if "bookkeeping e v s s''" "same_books s'' s'" "\<not> active_gates e excluded v iss" for s' s''
    using that br i by (auto intro!: outcome_refused simp: refused_def reopen_gates_def)
  have full: "outcome e c excluded v t s s'" if "bookkeeping e v s s''" "same_books s'' s'" "saturated e c v iss s''" for s' s''
    using that i by (auto intro!: outcome_refused simp: refused_def saturated_books)
  have adm: "outcome e c excluded v t s (admit_active e v t planned s2)"
    if "er_ok (eligibility (sx_text e) iss (lp_running s) (ge_claimed (sx_gates e)) (lv_gate v))"
      "sx_limit_ready e iss (lv_slug v)" "\<not> wake_owns e iss" "author_authorized e iss" "\<not> pr_suppressed (sx_gates e) iss"
      "\<not> author_budget_spent e iss" "\<not> teams_awaiting_assignment (sx_team e) iss"
      "\<not> (planned \<noteq> None \<and> at_cap (sx_team e) (the planned) (lp_tally s0))"
      "\<not> preparation_suppressed e iss (lv_route v)" "free"
      "count_of (lp_state_counts s1) (state_key e iss) < limit_at c v (state_key e iss)"
  proof -
    have "active_gates e excluded v iss" using that(1-10) br x running by (simp add: gate_defs)
    moreover have "room c v (state_key e iss) iss s2"
      using that(1,10,11) g p b k frames budget_gate_free [of e v s0] running by (auto simp: room_def)
    moreover have "planned_in e iss planned s0" using plan_planned_in [OF p] that(8) by blast
    then have "planned_in e iss planned s2" using p b k frames by (simp add: planned_in_cong [of s2 s0])
    ultimately show ?thesis using B2 i by (auto simp: outcome_def)
  qed
  show ?thesis
    unfolding active_candidate_def Let_def i p b k prod.case state_limit_at
    apply (intro outcome_if)
    subgoal using running
      by (cases "iss_id iss \<in> lp_running s") (auto intro: gate [OF Start] full [OF Start] simp: gate_defs saturated_def)
    subgoal using running
      by (cases "iss_id iss \<in> lp_running s") (auto intro: gate [OF Start] full [OF Start] simp: gate_defs saturated_def)
    subgoal by (rule gate [OF Start]) (simp_all add: gate_defs)
    subgoal by (rule gate [OF Start]) (simp_all add: gate_defs)
    subgoal by (rule gate [OF Start]) (simp_all add: gate_defs)
    subgoal by (rule gate [OF Start]) (simp_all add: gate_defs)
    subgoal by (rule gate [OF Start]) (simp_all add: gate_defs)
    subgoal by (rule gate [OF Start]) (simp_all add: gate_defs)
    subgoal using br by (intro full [OF B0]) (auto simp: saturated_def)
    subgoal by (rule gate [OF B0]) (simp_all add: gate_defs)
    subgoal using budget_gate_full [of e v s0] b by (intro full [OF B1]) (auto simp: saturated_def)
    subgoal using br by (intro full [OF B1]) (simp_all add: saturated_def state_key_def Let_def)
    subgoal using k by (intro full [OF B2]) (auto simp: saturated_def select_credential_canary_def split: option.splits)
    subgoal by (rule adm [unfolded admit_active_def i state_key_def]; simp add: state_key_def)
    done
qed

lemma candidate_outcome:
  assumes "0 < lp_global s"
  shows "outcome e c excluded v t s (ladder_candidate e c excluded (Some v) t s)"
proof (cases "iss_identifier (ti_iss t) \<in> excluded \<or> iss_identifier (ti_iss t) \<in> recovered_claim_identifiers e")
  case True
  then have "refused e c excluded v (ti_iss t) s" by (auto simp: refused_def gate_defs)
  with True show ?thesis by (auto simp: ladder_candidate_def Let_def intro: outcome_refused [OF Start])
next
  case False
  then show ?thesis
    using reopen_outcome [OF assms _ refl] active_outcome [OF assms _ refl]
    by (auto simp: ladder_candidate_def Let_def in_reopen_branch_def)
qed

section \<open>The rule\<close>

locale ladder_invariant =
  fixes e :: select_env and c :: select_config and excluded :: "string set"
    and view :: "tagged_issue \<Rightarrow> ladder_view option" and P :: "ladder_pass \<Rightarrow> bool"
  assumes books: "same_books s s' \<Longrightarrow> P s \<Longrightarrow> P s'"
    and budget: "view t = Some v \<Longrightarrow> P s \<Longrightarrow> P (snd (project_budget_gate e v s))"
    and plan: "P s \<Longrightarrow> P (snd (capacity_plan e iss s))"
    and canary: "P s \<Longrightarrow> P (snd (select_credential_canary e iss slug s))"
    and reopen: "view t = Some v \<Longrightarrow> P s \<Longrightarrow> reopen_gates e excluded v (ti_iss t) \<Longrightarrow>
      room c v (promote_state e c) (ti_iss t) s \<Longrightarrow> P (admit_reopen e c v t s)"
    and active: "view t = Some v \<Longrightarrow> P s \<Longrightarrow> active_gates e excluded v (ti_iss t) \<Longrightarrow>
      room c v (state_key e (ti_iss t)) (ti_iss t) s \<Longrightarrow> planned_in e (ti_iss t) planned s \<Longrightarrow>
      P (admit_active e v t planned s)"
begin

lemma bookkeeping_keeps: "bookkeeping e v s s' \<Longrightarrow> view t = Some v \<Longrightarrow> P s \<Longrightarrow> P s'"
  by (induction rule: bookkeeping.induct) (auto intro: books budget plan canary)

lemma candidate_keeps:
  assumes "P s" "0 < lp_global s"
  shows "P (ladder_candidate e c excluded (view t) t s)"
proof (cases "view t")
  case None
  then show ?thesis using assms by (simp add: ladder_candidate_def)
next
  case (Some v)
  then show ?thesis
    using candidate_outcome [OF assms(2), of e c excluded v t] bookkeeping_keeps [OF _ Some assms(1)]
      reopen [OF Some] active [OF Some]
    unfolding outcome_def by metis
qed

lemma tail_keeps: "P s \<Longrightarrow> P (fold (capacity_tail e view) ts s)"
  by (induction ts arbitrary: s) (auto intro: books [OF same_books_notes(7)])

theorem ladder_keeps: "P s \<Longrightarrow> P (ladder e c excluded view ts s)"
proof (induction ts arbitrary: s)
  case (Cons t ts)
  define s1 where "s1 = observe_label e (ti_iss t) s"
  have P1: "P s1" unfolding s1_def by (rule books [OF _ Cons.prems]) simp
  show ?case
    using Cons.IH [OF Cons.prems] Cons.IH [OF candidate_keeps [OF P1, of t]] tail_keeps [OF P1, of "t # ts"]
    by (simp add: Let_def flip: s1_def)
qed simp

end

end
