(* ===== verification/Selection_Safety.thy ===== *)
theory Selection_Safety
  imports Selection_Rules
begin

text \<open>
  What a selection pass guarantees: it never admits past a budget, everything it admits passed every
  gate, and everything it leaves behind was refused by a gate of its own or by a budget that is used up.
  Each counter is an interpretation of \<open>ladder_invariant\<close>.
\<close>

section \<open>The counters\<close>

abbreviation picks :: "ladder_pass \<Rightarrow> tagged_issue list" where
  "picks s \<equiv> map fst (lp_active s) @ lp_reopen s"

lemma admit_simps [simp]:
  "lp_global (admit_active e v t p s) = lp_global s - 1"
  "lp_global (admit_reopen e c v t s) = lp_global s - 1"
  "lp_active (admit_active e v t p s) = lp_active s @ [(t, p)]"
  "lp_active (admit_reopen e c v t s) = lp_active s"
  "lp_reopen (admit_active e v t p s) = lp_reopen s"
  "lp_reopen (admit_reopen e c v t s) = lp_reopen s @ [t]"
  "lp_running (admit_active e v t p s) = insert (iss_id (ti_iss t)) (lp_running s)"
  "lp_running (admit_reopen e c v t s) = insert (iss_id (ti_iss t)) (lp_running s)"
  "lp_state_counts (admit_active e v t p s) = entry_add (state_key e (ti_iss t)) 1 (lp_state_counts s)"
  "lp_state_counts (admit_reopen e c v t s) = entry_add (promote_state e c) 1 (lp_state_counts s)"
  "lp_per_project (admit_active e v t p s) =
     (case lv_budget v of None \<Rightarrow> lp_per_project s | Some (grp, _) \<Rightarrow> entry_add grp (- 1) (lp_per_project s))"
  "lp_per_project (admit_reopen e c v t s) =
     (case lv_budget v of None \<Rightarrow> lp_per_project s | Some (grp, _) \<Rightarrow> entry_add grp (- 1) (lp_per_project s))"
  "lp_load (admit_active e v t p s) = lp_load s"
  "lp_load (admit_reopen e c v t s) = lp_load s"
  "lp_tally (admit_active e v t p s) = (case p of None \<Rightarrow> lp_tally s | Some n \<Rightarrow> entry_add n 1 (lp_tally s))"
  "lp_tally (admit_reopen e c v t s) = lp_tally s"
  "lp_canaries (admit_active e v t p s) = lp_canaries s"
  "lp_canaries (admit_reopen e c v t s) = lp_canaries s"
  by (simp_all add: admit_active_def admit_reopen_def reserve_def charge_teammate_def split: option.splits)

lemma same_booksD:
  assumes "same_books s s'"
  shows "lp_running s' = lp_running s" "lp_state_counts s' = lp_state_counts s" "lp_global s' = lp_global s"
    "lp_per_project s' = lp_per_project s" "lp_canaries s' = lp_canaries s" "lp_load s' = lp_load s"
    "lp_tally s' = lp_tally s" "lp_active s' = lp_active s" "lp_reopen s' = lp_reopen s"
  using assms by (simp_all add: same_books_def)

text \<open>The global slots.\<close>

definition slots_inv :: "int \<Rightarrow> ladder_pass \<Rightarrow> bool" where
  "slots_inv n s \<longleftrightarrow> 0 \<le> lp_global s \<and> lp_global s + int (length (picks s)) = n"

interpretation global_slots_left: ladder_invariant e c excluded view "slots_inv n" for e c excluded view n
  by unfold_locales (simp_all add: slots_inv_def room_def same_booksD)

text \<open>The project budgets, by group: the first candidate of a group fixes what is left for it.\<close>

definition group_of :: "(tagged_issue \<Rightarrow> ladder_view option) \<Rightarrow> tagged_issue \<Rightarrow> string option" where
  "group_of view t = Option.bind (view t) (\<lambda>v. map_option fst (lv_budget v))"

definition in_group :: "(tagged_issue \<Rightarrow> ladder_view option) \<Rightarrow> string \<Rightarrow> ladder_pass \<Rightarrow> int" where
  "in_group view grp s = int (length (filter (\<lambda>t. group_of view t = Some grp) (picks s)))"

definition budget_ok :: "select_env \<Rightarrow> (tagged_issue \<Rightarrow> ladder_view option) \<Rightarrow> string \<Rightarrow> int option \<Rightarrow> int \<Rightarrow> bool" where
  "budget_ok e view grp left admitted \<longleftrightarrow>
     (case left of
        None \<Rightarrow> admitted = 0
      | Some n \<Rightarrow> 0 \<le> n \<and> (\<exists>t v cap. view t = Some v \<and> lv_budget v = Some (grp, cap) \<and>
          n + admitted = max (cap - running_in_project_group e grp) 0))"

definition budget_inv :: "select_env \<Rightarrow> (tagged_issue \<Rightarrow> ladder_view option) \<Rightarrow> ladder_pass \<Rightarrow> bool" where
  "budget_inv e view s \<longleftrightarrow> (\<forall>grp. budget_ok e view grp (lp_per_project s grp) (in_group view grp s))"

lemma in_group_admit:
  assumes "view t = Some v"
  shows "in_group view grp (admit_active e v t p s) = in_group view grp s + (if map_option fst (lv_budget v) = Some grp then 1 else 0)"
    "in_group view grp (admit_reopen e c v t s) = in_group view grp s + (if map_option fst (lv_budget v) = Some grp then 1 else 0)"
  using assms by (auto simp: in_group_def group_of_def)

lemma budget_inv_gate:
  assumes "view t = Some v" "budget_inv e view s"
  shows "budget_inv e view (snd (project_budget_gate e v s))"
proof (cases "\<exists>g0 cap. lv_budget v = Some (g0, cap) \<and> lp_per_project s g0 = None")
  case True
  then obtain g0 cap where g0: "lv_budget v = Some (g0, cap)" "lp_per_project s g0 = None" by blast
  have "budget_ok e view g0 (Some (max (cap - running_in_project_group e g0) 0)) (in_group view g0 s)"
    using assms(2) [unfolded budget_inv_def, rule_format, of g0] g0 assms(1) by (auto simp: budget_ok_def)
  then show ?thesis
    using assms(2) g0 by (simp add: budget_inv_def in_group_def project_budget_gate_def ensure_project_budget_def Let_def)
next
  case False
  then have "snd (project_budget_gate e v s) = s"
    by (auto simp: project_budget_gate_def ensure_project_budget_def Let_def split: option.splits)
  then show ?thesis using assms by simp
qed

lemma budget_inv_admit:
  assumes "budget_inv e view s" "room c v k iss s"
    "lp_per_project s' = (case lv_budget v of None \<Rightarrow> lp_per_project s | Some (grp, _) \<Rightarrow> entry_add grp (- 1) (lp_per_project s))"
    "\<And>grp. in_group view grp s' = in_group view grp s + (if map_option fst (lv_budget v) = Some grp then 1 else 0)"
  shows "budget_inv e view s'"
proof (cases "lv_budget v")
  case None
  then show ?thesis using assms by (simp add: budget_inv_def)
next
  case (Some gc)
  then obtain g0 cap n where gc: "gc = (g0, cap)" "lp_per_project s g0 = Some n" "n > 0"
    using assms(2) by (cases gc) (auto simp: room_def)
  have "budget_ok e view g0 (Some (n - 1)) (in_group view g0 s + 1)"
    using assms(1) [unfolded budget_inv_def, rule_format, of g0] gc by (simp add: budget_ok_def)
  then show ?thesis
    using assms(1,3,4) Some gc by (auto simp: budget_inv_def entry_add_def count_of_def)
qed

interpretation project_budget: ladder_invariant e c excluded view "budget_inv e view" for e c excluded view
proof
  show "budget_inv e view s'" if "same_books s s'" "budget_inv e view s" for s s'
    using that by (simp add: budget_inv_def in_group_def same_booksD)
  show "budget_inv e view (snd (capacity_plan e iss s))" "budget_inv e view (snd (select_credential_canary e iss slug s))"
    if "budget_inv e view s" for s iss slug
    using that by (simp_all add: budget_inv_def in_group_def)
qed (auto intro: budget_inv_gate budget_inv_admit simp: in_group_admit)

text \<open>The state limits.\<close>

definition in_state :: "select_env \<Rightarrow> select_config \<Rightarrow> string \<Rightarrow> ladder_pass \<Rightarrow> int" where
  "in_state e c k s =
     int (length (filter (\<lambda>t. state_key e (ti_iss t) = k) (map fst (lp_active s)))) +
     (if k = promote_state e c then int (length (lp_reopen s)) else 0)"

definition state_inv ::
  "select_env \<Rightarrow> select_config \<Rightarrow> (tagged_issue \<Rightarrow> ladder_view option) \<Rightarrow> (string \<Rightarrow> int) \<Rightarrow> ladder_pass \<Rightarrow> bool" where
  "state_inv e c view n s \<longleftrightarrow>
     (\<forall>k. count_of (lp_state_counts s) k = n k + in_state e c k s \<and>
        (in_state e c k s = 0 \<or> (\<exists>t v. view t = Some v \<and> count_of (lp_state_counts s) k \<le> limit_at c v k)))"

lemma in_state_cong: "lp_active s' = lp_active s \<Longrightarrow> lp_reopen s' = lp_reopen s \<Longrightarrow> in_state e c k s' = in_state e c k s"
  by (simp only: in_state_def)

lemma state_inv_cong:
  "lp_active s' = lp_active s \<Longrightarrow> lp_reopen s' = lp_reopen s \<Longrightarrow> lp_state_counts s' = lp_state_counts s \<Longrightarrow>
     state_inv e c view n s' = state_inv e c view n s"
  by (simp only: state_inv_def in_state_cong [of s' s])

lemma in_state_admit:
  "in_state e c k (admit_active e v t p s) = in_state e c k s + (if k = state_key e (ti_iss t) then 1 else 0)"
  "in_state e c k (admit_reopen e c v t s) = in_state e c k s + (if k = promote_state e c then 1 else 0)"
  by (auto simp: in_state_def)

lemma state_inv_admit:
  assumes "view t = Some v" "state_inv e c view n s" "room c v k0 iss s"
    "lp_state_counts s' = entry_add k0 1 (lp_state_counts s)"
    "\<And>k. in_state e c k s' = in_state e c k s + (if k = k0 then 1 else 0)"
  shows "state_inv e c view n s'"
proof -
  have "count_of (lp_state_counts s') k0 \<le> limit_at c v k0" using assms(3,4) by (simp add: room_def)
  with assms show ?thesis by (auto simp: state_inv_def)
qed

lemma state_inv_steps [simp]:
  "state_inv e c view n (snd (project_budget_gate e' v s)) = state_inv e c view n s"
  "state_inv e c view n (snd (capacity_plan e' iss s)) = state_inv e c view n s"
  "state_inv e c view n (snd (select_credential_canary e' iss slug s)) = state_inv e c view n s"
  by (rule state_inv_cong; simp)+

interpretation state_limits: ladder_invariant e c excluded view "state_inv e c view n" for e c excluded view n
proof
  show "state_inv e c view n s'" if "same_books s s'" "state_inv e c view n s" for s s'
    using that by (simp add: state_inv_cong [of s' s] same_booksD)
  show "state_inv e c view n (admit_reopen e c v t s)"
    if "view t = Some v" "state_inv e c view n s" "room c v (promote_state e c) (ti_iss t) s" for t v s
    by (rule state_inv_admit [OF that]) (simp_all add: in_state_admit)
  show "state_inv e c view n (admit_active e v t p s)"
    if "view t = Some v" "state_inv e c view n s" "room c v (state_key e (ti_iss t)) (ti_iss t) s" for t v s p
    by (rule state_inv_admit [OF that]) (simp_all add: in_state_admit)
qed simp_all

text \<open>The teammates' seats: the tally is the load at the beginning of the pass plus what was planned.\<close>

definition seats :: "string \<Rightarrow> ladder_pass \<Rightarrow> nat" where
  "seats n s = length (filter (\<lambda>p. snd p = Some n) (lp_active s))"

definition tally_ok :: "select_env \<Rightarrow> string \<Rightarrow> int option \<Rightarrow> nat \<Rightarrow> bool" where
  "tally_ok e n counted planned \<longleftrightarrow>
     (case counted of None \<Rightarrow> planned = 0 | Some x \<Rightarrow> x = impl_live (teammate_load (sx_team e)) n + int planned)"

definition seat_limit :: "select_env \<Rightarrow> string \<Rightarrow> int option" where
  "seat_limit e n =
     (case enabled_teams (sx_team e) of
        None \<Rightarrow> None
      | Some teams \<Rightarrow>
          (case find (\<lambda>i. id_name i = n) (tm_roster teams) of
             None \<Rightarrow> None
           | Some i \<Rightarrow> if id_max_concurrent i > 0 then Some (id_max_concurrent i) else None))"

lemma at_cap_limit: "at_cap (sx_team e) n tally \<longleftrightarrow> (\<exists>m. seat_limit e n = Some m \<and> count_of tally n \<ge> m)"
  by (auto simp: at_cap_def seat_limit_def split: option.splits)

lemma seat_limit_pos: "seat_limit e n = Some m \<Longrightarrow> 0 < m"
  by (auto simp: seat_limit_def split: option.splits if_splits)

definition seats_inv :: "select_env \<Rightarrow> ladder_pass \<Rightarrow> bool" where
  "seats_inv e s \<longleftrightarrow>
     (lp_load s = None \<or> lp_load s = Some (teammate_load (sx_team e))) \<and>
     (\<forall>n. tally_ok e n (lp_tally s n) (seats n s) \<and>
        (\<forall>m. seat_limit e n = Some m \<longrightarrow>
           seats n s = 0 \<or> impl_live (teammate_load (sx_team e)) n + int (seats n s) \<le> m))"

lemma seats_inv_cong:
  "lp_active s' = lp_active s \<Longrightarrow> lp_load s' = lp_load s \<Longrightarrow> lp_tally s' = lp_tally s \<Longrightarrow> seats_inv e s' = seats_inv e s"
  by (simp only: seats_inv_def seats_def)

lemma seats_inv_steps [simp]:
  "seats_inv e (snd (project_budget_gate e' v s)) = seats_inv e s"
  "seats_inv e (snd (select_credential_canary e' iss slug s)) = seats_inv e s"
  "seats_inv e (admit_reopen e' c v t s) = seats_inv e s"
  by (rule seats_inv_cong; simp)+

lemma seats_invD: "seats_inv e s \<Longrightarrow> tally_ok e n (lp_tally s n) (seats n s)"
  by (simp add: seats_inv_def)

lemma seats_inv_load:
  "seats_inv e s \<Longrightarrow> seats_inv e (s\<lparr>lp_load := Some (teammate_load (sx_team e))\<rparr>)"
  by (simp add: seats_inv_def seats_def)

lemma seats_inv_seed:
  assumes "seats_inv e s" "lp_tally s n = None"
  shows "seats_inv e (s\<lparr>lp_tally := (lp_tally s)(n \<mapsto> impl_live (teammate_load (sx_team e)) n)\<rparr>)"
proof -
  have "seats n s = 0" using seats_invD [OF assms(1), of n] assms(2) by (simp add: tally_ok_def)
  then show ?thesis using assms(1) by (simp add: seats_inv_def seats_def tally_ok_def)
qed

lemma seats_inv_plan:
  assumes "seats_inv e s"
  shows "seats_inv e (snd (capacity_plan e iss s))"
proof -
  have load: "(case lp_load s of None \<Rightarrow> teammate_load (sx_team e) | Some l \<Rightarrow> l) = teammate_load (sx_team e)"
    using assms by (auto simp: seats_inv_def split: option.splits)
  have "seats_inv e (s\<lparr>lp_load := Some (teammate_load (sx_team e))\<rparr>)" by (rule seats_inv_load [OF assms])
  with assms seats_inv_seed [OF this] show ?thesis
    by (simp add: capacity_plan_def load Let_def split: option.splits)
qed

lemma seats_inv_active:
  assumes "seats_inv e s" "planned_in e (ti_iss t) planned s"
  shows "seats_inv e (admit_active e v t planned s)"
proof (cases planned)
  case None
  then show ?thesis using assms(1) by (simp add: seats_inv_def seats_def)
next
  case (Some name)
  then obtain x where x: "lp_tally s name = Some x" "\<not> at_cap (sx_team e) name (lp_tally s)"
    using assms(2) by (auto simp: planned_in_def split: if_splits)
  have seats: "seats n (admit_active e v t planned s) = seats n s + (if n = name then 1 else 0)" for n
    using Some by (simp add: seats_def)
  have ok: "x = impl_live (teammate_load (sx_team e)) name + int (seats name s)"
    using seats_invD [OF assms(1), of name] x(1) by (simp add: tally_ok_def)
  have "tally_ok e n (lp_tally (admit_active e v t planned s) n) (seats n (admit_active e v t planned s))" for n
    using seats_invD [OF assms(1), of n] Some x(1) ok seats [of n]
    by (cases "n = name") (simp_all add: entry_add_def count_of_def tally_ok_def)
  moreover have "seats n (admit_active e v t planned s) = 0 \<or>
      impl_live (teammate_load (sx_team e)) n + int (seats n (admit_active e v t planned s)) \<le> m"
    if "seat_limit e n = Some m" for n m
    using assms(1) x ok seats [of n] that
    by (cases "n = name") (auto simp: seats_inv_def at_cap_limit count_of_def)
  ultimately show ?thesis using assms(1) by (simp add: seats_inv_def)
qed

interpretation teammate_seats: ladder_invariant e c excluded view "seats_inv e" for e c excluded view
proof
  show "seats_inv e s'" if "same_books s s'" "seats_inv e s" for s s'
    using that by (simp add: seats_inv_cong [of s' s] same_booksD)
qed (auto intro: seats_inv_plan seats_inv_active)

section \<open>No budget is exceeded\<close>

definition ceiling_of :: "int list \<Rightarrow> int" where
  "ceiling_of ns = foldr max ns 0"

lemma ceiling_of_ge: "n \<in> set ns \<Longrightarrow> n \<le> ceiling_of ns"
  by (induction ns) (auto simp: ceiling_of_def)

lemma ceiling_of_nonneg: "0 \<le> ceiling_of ns"
  by (induction ns) (auto simp: ceiling_of_def)

text \<open>
  The four bounds of a selection, for a pass over views \<open>vs\<close>: what it admits fits the slots the pool
  had left; a project group, a state and a teammate are not pushed past their limits. Where projects of
  one group or states of several projects have different limits, the largest counts.
\<close>

definition within_budgets ::
  "select_env \<Rightarrow> select_config \<Rightarrow> ladder_view list \<Rightarrow> (tagged_issue \<Rightarrow> ladder_view option) \<Rightarrow> selection \<Rightarrow> bool" where
  "within_budgets e c vs view r \<longleftrightarrow>
     int (length (sl_active r @ sl_reopen r)) \<le> global_slots (sc_max_concurrent c) (implementation_pool_holders e) \<and>
     (\<forall>grp. running_in_project_group e grp + int (length (filter (\<lambda>t. group_of view t = Some grp) (sl_active r @ sl_reopen r)))
        \<le> max (running_in_project_group e grp)
            (ceiling_of (map (snd \<circ> the \<circ> lv_budget) (filter (\<lambda>v. map_option fst (lv_budget v) = Some grp) vs)))) \<and>
     (\<forall>k. count_of (running_state_counts e) k + int (length (filter (\<lambda>t. state_key e (ti_iss t) = k) (sl_active r)))
          + (if k = promote_state e c then int (length (sl_reopen r)) else 0)
        \<le> max (count_of (running_state_counts e) k) (ceiling_of (map (\<lambda>v. limit_at c v k) vs))) \<and>
     (\<forall>n m. seat_limit e n = Some m \<longrightarrow>
        impl_live (teammate_load (sx_team e)) n + int (length (filter (\<lambda>p. p = Some n) (sl_plans r)))
          \<le> max (impl_live (teammate_load (sx_team e)) n) m)"

lemma pass_start_invs:
  "slots_inv (global_slots (sc_max_concurrent c) (implementation_pool_holders e)) (pass_start e c h)"
  "budget_inv e view (pass_start e c h)"
  "state_inv e c view (count_of (running_state_counts e)) (pass_start e c h)"
  "seats_inv e (pass_start e c h)"
  by (simp_all add: pass_start_def slots_inv_def global_slots_def Let_def budget_inv_def budget_ok_def in_group_def
      state_inv_def in_state_def seats_inv_def seats_def tally_ok_def)

lemma ladder_within_budgets:
  assumes "\<And>t v. view t = Some v \<Longrightarrow> v \<in> set vs"
  shows "within_budgets e c vs view (selection_of e (ladder e c excluded view ts (pass_start e c h)))"
proof -
  define s where "s = ladder e c excluded view ts (pass_start e c h)"
  note invs = pass_start_invs [where e = e and c = c and h = h]
  have g: "slots_inv (global_slots (sc_max_concurrent c) (implementation_pool_holders e)) s"
    unfolding s_def by (rule global_slots_left.ladder_keeps) (rule invs)
  have b: "budget_inv e view s" unfolding s_def by (rule project_budget.ladder_keeps) (rule invs)
  have st: "state_inv e c view (count_of (running_state_counts e)) s"
    unfolding s_def by (rule state_limits.ladder_keeps) (rule invs)
  have se: "seats_inv e s" unfolding s_def by (rule teammate_seats.ladder_keeps) (rule invs)
  have "running_in_project_group e grp + in_group view grp s \<le> max (running_in_project_group e grp)
      (ceiling_of (map (snd \<circ> the \<circ> lv_budget) (filter (\<lambda>v. map_option fst (lv_budget v) = Some grp) vs)))" for grp
  proof (cases "lp_per_project s grp")
    case None
    then show ?thesis using b [unfolded budget_inv_def, rule_format, of grp] by (simp add: budget_ok_def)
  next
    case (Some n)
    then obtain t v cap where v: "view t = Some v" "lv_budget v = Some (grp, cap)"
      and n: "0 \<le> n" "n + in_group view grp s = max (cap - running_in_project_group e grp) 0"
      using b [unfolded budget_inv_def, rule_format, of grp] by (auto simp: budget_ok_def)
    have "cap \<in> set (map (snd \<circ> the \<circ> lv_budget) (filter (\<lambda>v. map_option fst (lv_budget v) = Some grp) vs))"
      using assms [OF v(1)] v(2) by force
    from ceiling_of_ge [OF this] n show ?thesis by linarith
  qed
  moreover have "count_of (running_state_counts e) k + in_state e c k s \<le>
      max (count_of (running_state_counts e) k) (ceiling_of (map (\<lambda>v. limit_at c v k) vs))" for k
  proof (cases "in_state e c k s = 0")
    case False
    then obtain t v where v: "view t = Some v" "count_of (running_state_counts e) k + in_state e c k s \<le> limit_at c v k"
      using st unfolding state_inv_def by metis
    have "limit_at c v k \<le> ceiling_of (map (\<lambda>v. limit_at c v k) vs)"
      using assms [OF v(1)] by (intro ceiling_of_ge) auto
    with v(2) show ?thesis by linarith
  qed simp
  moreover have "impl_live (teammate_load (sx_team e)) n + int (seats n s) \<le> max (impl_live (teammate_load (sx_team e)) n) m"
    if "seat_limit e n = Some m" for n m
    using se that unfolding seats_inv_def by fastforce
  moreover have "length (filter (\<lambda>p. p = Some n) (map snd (lp_active s))) = seats n s" for n
    by (simp add: seats_def filter_map o_def)
  ultimately show ?thesis
    unfolding within_budgets_def selection_of_def s_def [symmetric] selection.simps
    using g by (simp only: slots_inv_def in_group_def in_state_def add.assoc) auto
qed

section \<open>Everything admitted passed every gate\<close>

definition gates_inv ::
  "select_env \<Rightarrow> string set \<Rightarrow> (tagged_issue \<Rightarrow> ladder_view option) \<Rightarrow> ladder_pass \<Rightarrow> bool" where
  "gates_inv e excluded view s \<longleftrightarrow>
     lp_running s = running_id_set e \<union> set (map (iss_id \<circ> ti_iss) (picks s)) \<and>
     distinct (map (iss_id \<circ> ti_iss) (picks s)) \<and>
     set (map (iss_id \<circ> ti_iss) (picks s)) \<inter> running_id_set e = {} \<and>
     (\<forall>t \<in> set (map fst (lp_active s)). \<exists>v. view t = Some v \<and> active_gates e excluded v (ti_iss t)) \<and>
     (\<forall>t \<in> set (lp_reopen s). \<exists>v. view t = Some v \<and> reopen_gates e excluded v (ti_iss t))"

lemma gates_inv_cong:
  "lp_running s' = lp_running s \<Longrightarrow> lp_active s' = lp_active s \<Longrightarrow> lp_reopen s' = lp_reopen s \<Longrightarrow>
     gates_inv e excluded view s' = gates_inv e excluded view s"
  by (simp only: gates_inv_def)

lemma gates_inv_steps [simp]:
  "gates_inv e excluded view (snd (project_budget_gate e' v s)) = gates_inv e excluded view s"
  "gates_inv e excluded view (snd (capacity_plan e' iss s)) = gates_inv e excluded view s"
  "gates_inv e excluded view (snd (select_credential_canary e' iss slug s)) = gates_inv e excluded view s"
  by (rule gates_inv_cong; simp)+

interpretation picks_gated: ladder_invariant e c excluded view "gates_inv e excluded view" for e c excluded view
proof
  show "gates_inv e excluded view s'" if "same_books s s'" "gates_inv e excluded view s" for s s'
    using that by (simp add: gates_inv_cong [of s' s] same_booksD)
  show "gates_inv e excluded view (admit_reopen e c v t s)"
    if "view t = Some v" "gates_inv e excluded view s" "reopen_gates e excluded v (ti_iss t)"
      "room c v (promote_state e c) (ti_iss t) s" for t v s
    using that by (auto simp: gates_inv_def room_def)
  show "gates_inv e excluded view (admit_active e v t p s)"
    if "view t = Some v" "gates_inv e excluded view s" "active_gates e excluded v (ti_iss t)"
      "room c v (state_key e (ti_iss t)) (ti_iss t) s" for t v s p
    using that by (auto simp: gates_inv_def room_def)
qed simp_all

lemma pass_start_gates: "gates_inv e excluded view (pass_start e c h)"
  by (simp add: gates_inv_def pass_start_def)

section \<open>Nothing admissible is left behind\<close>

definition settled ::
  "select_env \<Rightarrow> select_config \<Rightarrow> string set \<Rightarrow> ladder_view \<Rightarrow> tagged_issue \<Rightarrow> ladder_pass \<Rightarrow> bool" where
  "settled e c excluded v t s \<longleftrightarrow> t \<in> set (picks s) \<or> refused e c excluded v (ti_iss t) s"

lemma saturated_books_iff: "same_books s s' \<Longrightarrow> settled e c excluded v t s' = settled e c excluded v t s"
  by (simp add: settled_def refused_def saturated_books same_booksD)

text \<open>A budget that is used up stays used up.\<close>

definition grows :: "ladder_pass \<Rightarrow> ladder_pass \<Rightarrow> bool" where
  "grows s s' \<longleftrightarrow>
     lp_global s' \<le> lp_global s \<and> lp_running s \<subseteq> lp_running s' \<and> lp_canaries s \<subseteq> lp_canaries s' \<and>
     set (picks s) \<subseteq> set (picks s') \<and>
     (\<forall>k. count_of (lp_state_counts s) k \<le> count_of (lp_state_counts s') k) \<and>
     (\<forall>grp n. lp_per_project s grp = Some n \<longrightarrow> n \<le> 0 \<longrightarrow> lp_per_project s' grp = Some n) \<and>
     (\<forall>n x. lp_tally s n = Some x \<longrightarrow> (\<exists>y \<ge> x. lp_tally s' n = Some y))"

lemma at_cap_grows:
  fixes e :: select_env
  assumes "at_cap (sx_team e) n tally" "\<And>x. tally n = Some x \<Longrightarrow> \<exists>y \<ge> x. tally' n = Some y"
  shows "at_cap (sx_team e) n tally'"
proof -
  obtain m where m: "seat_limit e n = Some m" "count_of tally n \<ge> m" using assms(1) by (auto simp: at_cap_limit)
  with seat_limit_pos [OF m(1)] obtain x where "tally n = Some x" "m \<le> x"
    by (auto simp: count_of_def split: option.splits)
  with assms(2) m(1) show ?thesis by (force simp: at_cap_limit count_of_def)
qed

lemma saturated_grows:
  assumes "grows s s'" "saturated e c v iss s"
  shows "saturated e c v iss s'"
proof -
  define k where "k = (if in_reopen_branch e v iss then promote_state e c else state_key e iss)"
  have tallies: "\<exists>y \<ge> x. lp_tally s' n = Some y" if "lp_tally s n = Some x" for n x
    using assms(1) that unfolding grows_def by blast
  have caps: "at_cap (sx_team e) n (lp_tally s')" if "at_cap (sx_team e) n (lp_tally s)" for n
    by (rule at_cap_grows [OF that tallies])
  have counts: "count_of (lp_state_counts s) k \<le> count_of (lp_state_counts s') k" using assms(1) by (simp add: grows_def)
  from assms(2) consider "lp_global s \<le> 0" | "iss_id iss \<in> lp_running s"
    | grp cap n where "lv_budget v = Some (grp, cap)" "lp_per_project s grp = Some n" "n \<le> 0"
    | "limit_at c v k \<le> count_of (lp_state_counts s) k"
    | x where "sx_canary e iss (lv_slug v) = Some x" "x \<in> lp_canaries s"
    | n where "\<not> in_reopen_branch e v iss" "at_cap (sx_team e) n (lp_tally s)"
    unfolding saturated_def Let_def k_def [symmetric] by blast
  then show ?thesis
  proof cases
    case 1
    with assms(1) show ?thesis by (simp add: saturated_def grows_def)
  next
    case 2
    with assms(1) show ?thesis by (auto simp: saturated_def grows_def)
  next
    case 3
    then have "lp_per_project s' grp = Some n" using assms(1) by (simp add: grows_def)
    with 3 show ?thesis unfolding saturated_def by blast
  next
    case 4
    with counts show ?thesis by (simp add: saturated_def k_def Let_def)
  next
    case 5
    then have "x \<in> lp_canaries s'" using assms(1) by (auto simp: grows_def)
    with 5 show ?thesis unfolding saturated_def by blast
  next
    case 6
    with caps show ?thesis unfolding saturated_def by blast
  qed
qed

lemma settled_grows: "grows s s' \<Longrightarrow> settled e c excluded v t s \<Longrightarrow> settled e c excluded v t s'"
  using saturated_grows [of s s'] by (auto simp: settled_def refused_def grows_def)

lemma grows_refl [simp]: "grows s s"
  by (simp add: grows_def)

lemma grows_steps:
  "grows s (snd (project_budget_gate e v s))" "grows s (snd (capacity_plan e iss s))"
  "grows s (snd (select_credential_canary e iss slug s))"
  subgoal by (auto simp: grows_def project_budget_gate_def ensure_project_budget_def Let_def split: option.splits)
  subgoal by (auto simp: grows_def capacity_plan_def Let_def split: option.splits)
  subgoal by (auto simp: grows_def select_credential_canary_def split: option.splits)
  done

lemma grows_admit:
  assumes "room c v k iss s"
  shows "grows s (admit_active e v t p s)" "grows s (admit_reopen e c' v t s)"
  using assms
  by (auto simp: grows_def room_def entry_add_def count_of_def split: option.splits)

interpretation stays_settled: ladder_invariant e c excluded view "settled e c excluded v0 t0" for e c excluded view v0 t0
proof
  show "settled e c excluded v0 t0 s'" if "same_books s s'" "settled e c excluded v0 t0 s" for s s'
    using that by (simp add: saturated_books_iff [of s s'])
qed (auto intro: settled_grows grows_steps grows_admit)

lemma outcome_settles: "outcome e c excluded v t s s' \<Longrightarrow> settled e c excluded v t s'"
  by (auto simp: outcome_def settled_def)

lemma tail_global: "lp_global (fold (capacity_tail e view) ts s) = lp_global s"
  by (induction ts arbitrary: s) (simp_all add: same_booksD [OF same_books_notes(7)])

lemma ladder_settles:
  assumes "t \<in> set ts" "view t = Some v" "\<not> subject_parked (sx_gates e) (iss_identifier (ti_iss t)) ''author''"
  shows "settled e c excluded v t (ladder e c excluded view ts s)"
  using assms(1)
proof (induction ts arbitrary: s)
  case (Cons u ts)
  define s1 where "s1 = observe_label e (ti_iss u) s"
  show ?case
  proof (cases "subject_parked (sx_gates e) (iss_identifier (ti_iss u)) ''author''")
    case True
    then have "t \<in> set ts" using Cons.prems assms(3) by auto
    with True Cons.IH show ?thesis by simp
  next
    case unparked: False
    show ?thesis
    proof (cases "lp_global s1 \<le> 0")
      case True
      then have "lp_global (fold (capacity_tail e view) (u # ts) s1) \<le> 0" by (simp only: tail_global)
      then show ?thesis
        using unparked True by (simp add: settled_def refused_def saturated_def Let_def flip: s1_def)
    next
      case False
      let ?s = "ladder_candidate e c excluded (view u) u s1"
      have "settled e c excluded v t (ladder e c excluded view ts ?s)"
      proof (cases "t \<in> set ts")
        case False
        with Cons.prems have "t = u" by simp
        then have "settled e c excluded v t ?s"
          using candidate_outcome [of s1 e c excluded v u] \<open>\<not> lp_global s1 \<le> 0\<close> assms(2)
          by (auto intro: outcome_settles)
        then show ?thesis by (rule stays_settled.ladder_keeps)
      qed (rule Cons.IH)
      then show ?thesis using unparked False by (simp add: Let_def flip: s1_def)
    qed
  qed
qed simp

end
