(* ===== verification/Selection_Pass.thy ===== *)
theory Selection_Pass
  imports Selection_Safety
begin

text \<open>
  The properties of the two selection passes of \<^verbatim>\<open>select.rs\<close>, from the invariants of the walk.
\<close>

section \<open>Both passes are walks\<close>

definition is_pass ::
  "select_env \<Rightarrow> select_config \<Rightarrow> string set \<Rightarrow> (tagged_issue \<Rightarrow> ladder_view option) \<Rightarrow> tagged_issue list \<Rightarrow> selection \<Rightarrow> bool" where
  "is_pass e c excluded view ts r \<longleftrightarrow> (\<exists>h. r = selection_of e (ladder e c excluded view ts (pass_start e c h)))"

abbreviation single_selection :: "select_env \<Rightarrow> human_hold_state \<Rightarrow> issue list \<Rightarrow> string set \<Rightarrow> selection" where
  "single_selection \<equiv> select_dispatch_with_reopens_excluding"

abbreviation multi_selection :: "select_env \<Rightarrow> human_hold_state \<Rightarrow> tagged_issue list \<Rightarrow> bool \<Rightarrow> string set \<Rightarrow> selection" where
  "multi_selection \<equiv> select_dispatch_multi_after_fetch_excluding"

abbreviation single_view :: "select_config \<Rightarrow> tagged_issue \<Rightarrow> ladder_view option" where
  "single_view c \<equiv> \<lambda>_. Some (eff_view c)"

lemma single_pass:
  "sx_eff e = Some c \<Longrightarrow> is_pass e c excluded (single_view c) (single_queue e issues) (single_selection e h issues excluded)"
  by (auto simp: select_dispatch_with_reopens_excluding_def is_pass_def)

lemma multi_pass:
  "sx_eff e = Some c \<Longrightarrow> is_pass e c excluded (tagged_view c) (multi_queue e c tagged) (multi_selection e h tagged b excluded)"
  by (auto simp: select_dispatch_multi_after_fetch_excluding_def is_pass_def)

lemma tagged_view_project: "tagged_view c t = Some v \<Longrightarrow> v \<in> set (map project_view (sc_projects c))"
  by (auto simp: tagged_view_def split: option.splits if_splits)

lemma set_queues:
  "set (single_queue e issues) = tag_untagged ` set issues" "set (multi_queue e c tagged) = set tagged"
  by (simp_all add: single_queue_def multi_queue_def sort_canaries_first_def sort_tagged_stable_def Let_def)

lemma pass_within_budgets:
  assumes "is_pass e c excluded view ts r" "\<And>t v. view t = Some v \<Longrightarrow> v \<in> set vs"
  shows "within_budgets e c vs view r"
proof -
  obtain h where "r = selection_of e (ladder e c excluded view ts (pass_start e c h))"
    using assms(1) by (auto simp: is_pass_def)
  then show ?thesis using ladder_within_budgets [of view vs e c excluded ts h] assms(2) by blast
qed

text \<open>
  A concrete board for the witnesses: four tickets of one project, two of them assigned to the same
  teammate, who has one seat, and one that wears the human label.
\<close>

definition demo_gates :: gate_env where
  "demo_gates = \<lparr>ge_text = ascii_text, ge_claimed = {}, ge_credential_resume = {}, ge_subject_hold = (\<lambda>_. Some None),
    ge_subject_resume_pending = (\<lambda>_. Some False), ge_issue_history = (\<lambda>_ _ _. Some []), ge_parse_rfc3339 = (\<lambda>_. None)\<rparr>"

definition demo_teams :: teams where
  "demo_teams = \<lparr>tm_enabled = True, tm_mode = ManagerLabels, tm_default_identity = [],
    tm_roster = [\<lparr>id_name = ''alice'', id_labels = [], id_max_concurrent = 1\<rparr>, \<lparr>id_name = ''bob'', id_labels = [''ui''], id_max_concurrent = 1\<rparr>]\<rparr>"

definition demo_team_env :: team_env where
  "demo_team_env = \<lparr>te_teams = Some demo_teams, te_triage = None, te_running = [], te_retries = [], te_preparing = []\<rparr>"

definition demo_select_review :: review_env where
  "demo_select_review =
     \<lparr>re_text = ascii_text, re_split_whitespace = (\<lambda>s. [s]), re_now = 0, re_eff = None, re_parse_repo = (\<lambda>_. None),
      re_ticketless = False, re_threshold = None, re_effective_reviewers = None, re_authority_act = False,
      re_manager_mode = None, re_draining = False, re_account_usable = True, re_subject_hold = (\<lambda>_. Some None),
      re_roster = [], re_unselectable = (\<lambda>_. False), re_code_reviewer = (\<lambda>_. True)\<rparr>"

definition demo_gate :: eligibility_gate where
  "demo_gate = \<lparr>eg_active = {''todo''}, eg_terminal = {''done''}, eg_required_labels = {}, eg_mode = [], eg_review = {''in review''}, eg_canceled = {}\<rparr>"

definition demo_config :: select_config where
  "demo_config =
     \<lparr>sc_gate = demo_gate, sc_review_promote_state = ''todo'', sc_per_state_limits = Map.empty, sc_max_concurrent = 5,
      sc_max_concurrent_reviews = None, sc_defines_provider = False,
      sc_projects = [\<lparr>sp_slug = ''p'', sp_group = ''g'', sp_repo = ''r'', sp_model = [], sp_workspace_mode = [],
        sp_gate = demo_gate, sp_per_state_limits = Map.empty, sp_max_concurrent = 3, sp_defines_provider = False\<rparr>]\<rparr>"

definition demo_select :: select_env where
  "demo_select =
     \<lparr>sx_eff = Some demo_config, sx_gates = demo_gates, sx_team = demo_team_env,
      sx_manager = \<lparr>mn_wake_unspent = (\<lambda>_. None), mn_exchanges = (\<lambda>_. None)\<rparr>,
      sx_review = demo_select_review, sx_ctl = ctl_empty,
      sx_faults = \<lparr>sf_load = False, sf_get = (\<lambda>_. False), sf_write = (\<lambda>_. False), sf_mark = (\<lambda>_. False), sf_bound = False\<rparr>,
      sx_adjudicated = (\<lambda>_. False), sx_auth_hold_claims = {}, sx_resolver = False, sx_refusals = Map.empty, sx_now = 0,
      sx_limit_ready = (\<lambda>_ _. True), sx_canary = (\<lambda>_ _. None)\<rparr>"

definition demo_ticket :: "string \<Rightarrow> string \<Rightarrow> tagged_issue" where
  "demo_ticket n l = \<lparr>ti_proj = Some 0, ti_iss = issue_default\<lparr>iss_id := n, iss_identifier := CHR ''A'' # n, iss_title := ''t'',
     iss_state := ''Todo'', iss_labels := Some [l]\<rparr>\<rparr>"

definition demo_board :: "tagged_issue list" where
  "demo_board = [demo_ticket ''4'' ''ui'', demo_ticket ''3'' ''rhapsody:human'', demo_ticket ''1'' ''rhapsody:@alice'',
     demo_ticket ''2'' ''rhapsody:@alice'']"

abbreviation demo_selection :: selection where
  "demo_selection \<equiv> multi_selection demo_select ledger_default demo_board True {}"

lemma demo_eff: "sx_eff demo_select = Some demo_config"
  by (simp add: demo_select_def)

lemma demo_selected:
  "sl_active demo_selection = [demo_ticket ''1'' ''rhapsody:@alice'', demo_ticket ''4'' ''ui'']"
  "sl_plans demo_selection = [Some ''alice'', Some ''bob'']" "sl_reopen demo_selection = []"
  by code_simp+



section \<open>Gates\<close>

definition all_gated :: "select_env \<Rightarrow> string set \<Rightarrow> (tagged_issue \<Rightarrow> ladder_view option) \<Rightarrow> selection \<Rightarrow> bool" where
  "all_gated e excluded view r \<longleftrightarrow>
     distinct (map (iss_id \<circ> ti_iss) (sl_active r @ sl_reopen r)) \<and>
     list_all (\<lambda>t. iss_id (ti_iss t) \<notin> running_id_set e \<union> ge_claimed (sx_gates e) \<and> \<not> is_human (sx_text e) (ti_iss t) \<and>
        \<not> subject_parked (sx_gates e) (iss_identifier (ti_iss t)) ''author'') (sl_active r @ sl_reopen r) \<and>
     list_all (\<lambda>t. \<exists>v. view t = Some v \<and> active_gates e excluded v (ti_iss t)) (sl_active r) \<and>
     list_all (\<lambda>t. \<exists>v. view t = Some v \<and> reopen_gates e excluded v (ti_iss t)) (sl_reopen r)"

lemma active_gates_exclude:
  assumes "active_gates e excluded v iss"
  shows "iss_id iss \<notin> ge_claimed (sx_gates e)" "\<not> is_human (sx_text e) iss"
    "\<not> subject_parked (sx_gates e) (iss_identifier iss) ''author''"
  using assms by (auto simp: active_gates_def eligibility_def eligibility_default_def pr_suppressed_def Let_def split: if_splits)

lemma reopen_gates_exclude:
  assumes "reopen_gates e excluded v iss"
  shows "iss_id iss \<notin> ge_claimed (sx_gates e)" "\<not> is_human (sx_text e) iss"
    "\<not> subject_parked (sx_gates e) (iss_identifier iss) ''author''"
  using assms by (auto simp: reopen_gates_def review_reopen_eligible_def split: if_splits)

lemma pass_all_gated:
  assumes "is_pass e c excluded view ts r"
  shows "all_gated e excluded view r"
proof -
  obtain s where r: "r = selection_of e s" and inv: "gates_inv e excluded view s"
    using assms picks_gated.ladder_keeps [OF pass_start_gates] unfolding is_pass_def by blast
  have sl: "sl_active r = map fst (lp_active s)" "sl_reopen r = lp_reopen s" by (simp_all add: r selection_of_def)
  have "iss_id (ti_iss t) \<notin> running_id_set e" if "t \<in> set (picks s)" for t
    using inv that unfolding gates_inv_def by auto
  moreover have "\<exists>v. view t = Some v \<and> (active_gates e excluded v (ti_iss t) \<or> reopen_gates e excluded v (ti_iss t))"
    if "t \<in> set (picks s)" for t
    using inv that unfolding gates_inv_def by auto
  ultimately show ?thesis
    using inv unfolding all_gated_def sl list_all_iff gates_inv_def
    by (meson UnE active_gates_exclude reopen_gates_exclude)
qed

text \<open>
  C18. Whatever a pass selects passed every gate, in either form of the pass: no two picks are the same
  ticket, none is running, being prepared or claimed, none wears the human label and none is parked; an
  active pick is eligible under its own project's settings, within the limit policy, not owned by a wake
  of the manager, authorized past the round threshold, not suppressed by its pull request, by a spent
  round budget or by the refusal gate, and not waiting for an assignment; a reopened one has its fresh
  summons.
\<close>

theorem selected_tickets_passed_every_gate:
  assumes "sx_eff e = Some c"
  shows "all_gated e excluded (single_view c) (single_selection e h issues excluded) \<and>
    all_gated e excluded (tagged_view c) (multi_selection e h tagged read_the_board excluded)"
  using pass_all_gated [OF single_pass [OF assms]] pass_all_gated [OF multi_pass [OF assms]] by blast

theorem selected_tickets_passed_every_gate_witness:
  "all_gated demo_select {} (tagged_view demo_config) demo_selection \<and>
   map (iss_identifier \<circ> ti_iss) (sl_active demo_selection) = [''A1'', ''A4'']"
  using selected_tickets_passed_every_gate [OF demo_eff, of "{}" ledger_default "[]" demo_board True]
  by (simp add: demo_selected demo_ticket_def)

section \<open>Work conservation\<close>

text \<open>
  Why an admissible candidate may wait: the slots are gone, its id is taken, its group, its state or
  some teammate is at the limit, or its credential allows one canary per pass.
\<close>

definition no_room ::
  "select_env \<Rightarrow> select_config \<Rightarrow> (tagged_issue \<Rightarrow> ladder_view option) \<Rightarrow> ladder_view \<Rightarrow> issue \<Rightarrow> selection \<Rightarrow> bool" where
  "no_room e c view v iss r \<longleftrightarrow>
     int (length (sl_active r @ sl_reopen r)) = global_slots (sc_max_concurrent c) (implementation_pool_holders e) \<or>
     iss_id iss \<in> running_id_set e \<union> set (map (iss_id \<circ> ti_iss) (sl_active r @ sl_reopen r)) \<or>
     (\<exists>grp cap t' v' cap'. lv_budget v = Some (grp, cap) \<and> view t' = Some v' \<and> lv_budget v' = Some (grp, cap') \<and>
        cap' \<le> running_in_project_group e grp + int (length (filter (\<lambda>t. group_of view t = Some grp) (sl_active r @ sl_reopen r)))) \<or>
     (let k = (if in_reopen_branch e v iss then promote_state e c else state_key e iss) in
        limit_at c v k \<le> count_of (running_state_counts e) k + int (length (filter (\<lambda>t. state_key e (ti_iss t) = k) (sl_active r)))
          + (if k = promote_state e c then int (length (sl_reopen r)) else 0)) \<or>
     sx_canary e iss (lv_slug v) \<noteq> None \<or>
     (\<not> in_reopen_branch e v iss \<and>
        (\<exists>n m. seat_limit e n = Some m \<and>
           m \<le> impl_live (teammate_load (sx_team e)) n + int (length (filter (\<lambda>p. p = Some n) (sl_plans r)))))"

lemma saturated_no_room:
  assumes sat: "saturated e c v iss s" and inv: "gates_inv e excluded view s" "budget_inv e view s"
      "state_inv e c view (count_of (running_state_counts e)) s" "seats_inv e s"
      "slots_inv (global_slots (sc_max_concurrent c) (implementation_pool_holders e)) s"
  shows "no_room e c view v iss (selection_of e s)"
proof -
  define k where "k = (if in_reopen_branch e v iss then promote_state e c else state_key e iss)"
  have sl: "sl_active (selection_of e s) = map fst (lp_active s)" "sl_reopen (selection_of e s) = lp_reopen s"
    "sl_plans (selection_of e s) = map snd (lp_active s)" by (simp_all add: selection_of_def)
  from sat consider "lp_global s \<le> 0" | "iss_id iss \<in> lp_running s"
    | grp cap n where "lv_budget v = Some (grp, cap)" "lp_per_project s grp = Some n" "n \<le> 0"
    | "limit_at c v k \<le> count_of (lp_state_counts s) k"
    | "sx_canary e iss (lv_slug v) \<noteq> None"
    | n where "\<not> in_reopen_branch e v iss" "at_cap (sx_team e) n (lp_tally s)"
    unfolding saturated_def Let_def k_def [symmetric] by blast
  then show ?thesis
  proof cases
    case 1
    with inv(5) show ?thesis unfolding no_room_def sl slots_inv_def by linarith
  next
    case 2
    with inv(1) show ?thesis unfolding no_room_def sl gates_inv_def by blast
  next
    case 3
    then obtain t' v' cap' where "view t' = Some v'" "lv_budget v' = Some (grp, cap')" "0 \<le> n"
      "n + in_group view grp s = max (cap' - running_in_project_group e grp) 0"
      using inv(2) [unfolded budget_inv_def, rule_format, of grp] by (auto simp: budget_ok_def)
    moreover from this 3(3) have "cap' \<le> running_in_project_group e grp + in_group view grp s" by linarith
    ultimately show ?thesis using 3(1) unfolding no_room_def sl in_group_def by blast
  next
    case 4
    moreover have "count_of (lp_state_counts s) k = count_of (running_state_counts e) k + in_state e c k s"
      using inv(3) unfolding state_inv_def by blast
    ultimately show ?thesis unfolding no_room_def sl Let_def k_def [symmetric] by (simp only: in_state_def add.assoc simp_thms)
  next
    case 5
    then show ?thesis unfolding no_room_def by blast
  next
    case 6
    then obtain m where m: "seat_limit e n = Some m" "m \<le> count_of (lp_tally s) n" by (auto simp: at_cap_limit)
    with seat_limit_pos [OF m(1)] obtain x where x: "lp_tally s n = Some x" "m \<le> x"
      by (auto simp: count_of_def split: option.splits)
    with seats_invD [OF inv(4), of n] have "m \<le> impl_live (teammate_load (sx_team e)) n + int (seats n s)"
      by (simp add: tally_ok_def)
    moreover have "length (filter (\<lambda>p. p = Some n) (map snd (lp_active s))) = seats n s"
      by (simp add: seats_def filter_map o_def)
    ultimately show ?thesis using 6(1) m(1) unfolding no_room_def sl by metis
  qed
qed

lemma pass_work_conserving:
  assumes "is_pass e c excluded view ts r" "t \<in> set ts" "view t = Some v"
    "\<not> subject_parked (sx_gates e) (iss_identifier (ti_iss t)) ''author''"
    "t \<notin> set (sl_active r @ sl_reopen r)" "active_gates e excluded v (ti_iss t) \<or> reopen_gates e excluded v (ti_iss t)"
  shows "no_room e c view v (ti_iss t) r"
proof -
  obtain h where r: "r = selection_of e (ladder e c excluded view ts (pass_start e c h))"
    using assms(1) by (auto simp: is_pass_def)
  define s where "s = ladder e c excluded view ts (pass_start e c h)"
  have "settled e c excluded v t s" unfolding s_def by (rule ladder_settles [of t ts view v, OF assms(2-4)])
  with assms(5,6) r have "saturated e c v (ti_iss t) s" by (auto simp: settled_def refused_def selection_of_def s_def)
  moreover note invs = pass_start_invs [where e = e and c = c and h = h]
  have "gates_inv e excluded view s" "budget_inv e view s" "state_inv e c view (count_of (running_state_counts e)) s"
    "seats_inv e s" "slots_inv (global_slots (sc_max_concurrent c) (implementation_pool_holders e)) s"
    unfolding s_def
    by (rule picks_gated.ladder_keeps [OF pass_start_gates] project_budget.ladder_keeps [OF invs(2)]
        state_limits.ladder_keeps [OF invs(3)] teammate_seats.ladder_keeps [OF invs(4)]
        global_slots_left.ladder_keeps [OF invs(1)])+
  ultimately show ?thesis unfolding r s_def [symmetric] by (rule saturated_no_room)
qed



end
