(* ===== verification/Selection_Plan.thy ===== *)
theory Selection_Plan
  imports Selection_Pass
begin

text \<open>
  Two properties of a pass that reach beyond it: the teammate it plans a ticket for is the one the
  dispatch loop routes the ticket to, and a human label on the board reaches the ledger whatever the
  pass does with the ticket.
\<close>

section \<open>The plan is what the dispatch loop will answer\<close>

text \<open>
  The dispatch loop takes the picks in order; each becomes a running entry before the next is routed
  (\<open>dispatch_issue\<close> of \<^verbatim>\<open>retry.rs\<close>). Of an entry only the ticket and the identity matter to the router.
\<close>

definition dispatched :: "(tagged_issue \<Rightarrow> ladder_view option) \<Rightarrow> tagged_issue \<times> string option \<Rightarrow> running_entry" where
  "dispatched view p =
     \<lparr>rg_id = iss_id (ti_iss (fst p)), rg_issue = ti_iss (fst p),
      rg_identity = (case snd p of None \<Rightarrow> [] | Some n \<Rightarrow> n),
      rg_project_group = (case group_of view (fst p) of None \<Rightarrow> [] | Some g \<Rightarrow> g), rg_review = False\<rparr>"

definition after_dispatch ::
  "team_env \<Rightarrow> (tagged_issue \<Rightarrow> ladder_view option) \<Rightarrow> (tagged_issue \<times> string option) list \<Rightarrow> team_env" where
  "after_dispatch te view ps = te\<lparr>te_running := te_running te @ map (dispatched view) ps\<rparr>"

lemma planned_after_dispatch: "planned_identity (after_dispatch te view ps) iss l = planned_identity te iss l"
proof -
  have "enabled_teams (after_dispatch te view ps) = enabled_teams te"
    by (simp add: after_dispatch_def enabled_teams_def)
  moreover have "apply_pending_assignment (after_dispatch te view ps) T iss ro = apply_pending_assignment te T iss ro" for T ro
    by (simp add: after_dispatch_def apply_pending_assignment_def)
  ultimately show ?thesis by (simp only: planned_identity_def)
qed

lemma planned_is_route:
  assumes "enabled_teams te = Some T"
  shows "planned_identity te iss (teammate_load te) = ro_identity (route_identity te T iss)"
proof -
  have "name \<in> id_name ` set (tm_roster T)" if "ro_identity (route_identity te T iss) = Some name" for name
    using that route_on_roster [of T iss "teammate_load te" name] find_Some_in
    by (fastforce simp: route_identity_def apply_pending_assignment_def routed_to_def split: if_splits option.splits)
  then show ?thesis
    using assms by (auto simp: planned_identity_def list_ex_iff simp flip: route_identity_def split: option.splits)
qed

definition plans_inv :: "select_env \<Rightarrow> (tagged_issue \<Rightarrow> ladder_view option) \<Rightarrow> ladder_pass \<Rightarrow> bool" where
  "plans_inv e view s \<longleftrightarrow>
     seats_inv e s \<and>
     ((\<forall>T. enabled_teams (sx_team e) = Some T \<longrightarrow> [] \<notin> id_name ` set (tm_roster T)) \<longrightarrow>
      (\<forall>p \<in> set (lp_active s). \<not> is_review_ticket (ti_iss (fst p))) \<longrightarrow>
      (\<forall>p \<in> set (lp_active s). snd p \<noteq> Some []) \<and>
      (\<forall>i < length (lp_active s). snd (lp_active s ! i) =
         planned_identity (sx_team e) (ti_iss (fst (lp_active s ! i)))
           (teammate_load (after_dispatch (sx_team e) view (take i (lp_active s))))))"

lemma plans_inv_cong:
  "lp_active s' = lp_active s \<Longrightarrow> seats_inv e s' = seats_inv e s \<Longrightarrow> plans_inv e view s' = plans_inv e view s"
  by (simp only: plans_inv_def)

lemma load_after_dispatch:
  assumes "seats_inv e s" "lp_load s = Some l" "\<forall>p \<in> set (lp_active s). \<not> is_review_ticket (ti_iss (fst p)) \<and> snd p \<noteq> Some []"
  shows "load_equiv (advanced_by l (lp_tally s)) (teammate_load (after_dispatch (sx_team e) view (lp_active s)))"
proof -
  have l: "l = teammate_load (sx_team e)" using assms(1,2) by (simp add: seats_inv_def)
  have tally: "x = impl_live l n + int (seats n s)" if "lp_tally s n = Some x" for n x
    using seats_invD [OF assms(1), of n] that l by (simp add: tally_ok_def)
  have none: "seats n s = 0" if "lp_tally s n = None" for n
    using seats_invD [OF assms(1), of n] that by (simp add: tally_ok_def)
  have seat: "length (filter (\<lambda>r. rg_identity r \<noteq> [] \<and> rg_identity r = n \<and> Q r) (map (dispatched view) (lp_active s))) = seats n s"
    if "\<And>p. p \<in> set (lp_active s) \<Longrightarrow> Q (dispatched view p)" for n Q
    using assms(3) that unfolding seats_def filter_map length_map
    by (intro arg_cong [of _ _ length] filter_cong) (auto simp: dispatched_def split: option.splits)
  have impl: "\<not> is_review_run (dispatched view p)" if "p \<in> set (lp_active s)" for p
    using assms(3) that by (simp add: is_review_run_def dispatched_def)
  show ?thesis
    unfolding load_equiv_def after_dispatch_def teammate_load_running
    using live_advanced_by [of "lp_tally s" l "\<lambda>n. seats n s", OF tally none]
      seat [of "\<lambda>_. True"] seat [of "\<lambda>r. \<not> is_review_run r", OF impl] l by simp
qed

lemma plans_inv_active:
  assumes "plans_inv e view s" "planned_in e (ti_iss t) planned s"
  shows "plans_inv e view (admit_active e v t planned s)"
proof -
  let ?s = "admit_active e v t planned s"
  have seats: "seats_inv e s" "seats_inv e ?s" using assms seats_inv_active by (auto simp: plans_inv_def)
  show ?thesis
  proof (unfold plans_inv_def, intro conjI impI seats(2))
    assume named: "\<forall>T. enabled_teams (sx_team e) = Some T \<longrightarrow> [] \<notin> id_name ` set (tm_roster T)"
      and impl: "\<forall>p \<in> set (lp_active ?s). \<not> is_review_ticket (ti_iss (fst p))"
    have old: "\<forall>p \<in> set (lp_active s). snd p \<noteq> Some []"
      "\<forall>i < length (lp_active s). snd (lp_active s ! i) = planned_identity (sx_team e) (ti_iss (fst (lp_active s ! i)))
         (teammate_load (after_dispatch (sx_team e) view (take i (lp_active s))))"
      using assms(1) named impl by (auto simp: plans_inv_def)
    have plan: "planned = planned_identity (sx_team e) (ti_iss t) (teammate_load (after_dispatch (sx_team e) view (lp_active s)))"
    proof (cases "enabled_teams (sx_team e) = None")
      case True
      then show ?thesis using assms(2) by (simp add: planned_in_def planned_identity_def)
    next
      case False
      then obtain l where l: "lp_load s = Some l" "planned = planned_identity (sx_team e) (ti_iss t) (advanced_by l (lp_tally s))"
        using assms(2) impl by (auto simp: planned_in_def)
      have "load_equiv (advanced_by l (lp_tally s)) (teammate_load (after_dispatch (sx_team e) view (lp_active s)))"
        using old(1) impl by (intro load_after_dispatch [OF seats(1) l(1)]) auto
      from planned_identity_equiv [OF this] l(2) show ?thesis by simp
    qed
    show "\<forall>p \<in> set (lp_active ?s). snd p \<noteq> Some []"
      using old(1) plan planned_on_roster [of "sx_team e" "ti_iss t"] named by fastforce
    show "\<forall>i < length (lp_active ?s). snd (lp_active ?s ! i) = planned_identity (sx_team e) (ti_iss (fst (lp_active ?s ! i)))
         (teammate_load (after_dispatch (sx_team e) view (take i (lp_active ?s))))"
      using old(2) plan by (auto simp: nth_append less_Suc_eq)
  qed
qed

interpretation plans_agree: ladder_invariant e c excluded view "plans_inv e view'" for e c excluded view view'
proof
  show "plans_inv e view' s'" if "same_books s s'" "plans_inv e view' s" for s s'
    using that plans_inv_cong [of s' s] seats_inv_cong [of s' s] by (simp add: same_booksD)
  show "plans_inv e view' (snd (capacity_plan e iss s))" if "plans_inv e view' s" for iss s
  proof -
    have "seats_inv e s" using that by (simp add: plans_inv_def)
    with seats_inv_plan [OF this] show ?thesis using that plans_inv_cong [of "snd (capacity_plan e iss s)" s] by simp
  qed
  show "plans_inv e view' (snd (project_budget_gate e v s))" "plans_inv e view' (snd (select_credential_canary e iss slug s))"
    "plans_inv e view' (admit_reopen e c v t s)"
    if "plans_inv e view' s" for v s iss slug t
    using that plans_inv_cong [of "snd (project_budget_gate e v s)" s] plans_inv_cong [of "snd (select_credential_canary e iss slug s)" s]
      plans_inv_cong [of "admit_reopen e c v t s" s] by simp_all
qed (rule plans_inv_active)

text \<open>
  C19. The ladder asks the question the dispatch loop will answer: when none of the picks is a review
  ticket, the teammate a pass planned its \<open>i\<close>-th pick for, and checked the capacity of, is exactly the
  teammate the router names for that ticket once the picks before it are running.
\<close>

theorem plan_is_what_dispatch_routes:
  assumes "sx_eff e = Some c" "enabled_teams (sx_team e) = Some T" "[] \<notin> id_name ` set (tm_roster T)"
    "r = multi_selection e h tagged read_the_board excluded"
    "\<forall>t \<in> set (sl_active r). \<not> is_review_ticket (ti_iss t)" "i < length (sl_active r)"
  shows "sl_plans r ! i =
    ro_identity (route_identity (after_dispatch (sx_team e) (tagged_view c) (take i (zip (sl_active r) (sl_plans r))))
      T (ti_iss (sl_active r ! i)))"
proof -
  obtain h' where r: "r = selection_of e (ladder e c excluded (tagged_view c) (multi_queue e c tagged) (pass_start e c h'))"
    using multi_pass [OF assms(1), of excluded tagged h read_the_board] assms(4) by (auto simp: is_pass_def)
  define s where "s = ladder e c excluded (tagged_view c) (multi_queue e c tagged) (pass_start e c h')"
  have sl: "sl_active r = map fst (lp_active s)" "sl_plans r = map snd (lp_active s)" "zip (sl_active r) (sl_plans r) = lp_active s"
    by (simp_all add: r selection_of_def s_def zip_map_fst_snd)
  have "plans_inv e (tagged_view c) (pass_start e c h')"
    using pass_start_invs(4) by (simp add: plans_inv_def pass_start_def)
  then have "plans_inv e (tagged_view c) s" unfolding s_def by (rule plans_agree.ladder_keeps)
  then have "snd (lp_active s ! i) = planned_identity (sx_team e) (ti_iss (fst (lp_active s ! i)))
      (teammate_load (after_dispatch (sx_team e) (tagged_view c) (take i (lp_active s))))"
    using assms(2,3,5,6) by (auto simp: plans_inv_def sl)
  also have "\<dots> = planned_identity (after_dispatch (sx_team e) (tagged_view c) (take i (lp_active s))) (ti_iss (fst (lp_active s ! i)))
      (teammate_load (after_dispatch (sx_team e) (tagged_view c) (take i (lp_active s))))"
    by (simp only: planned_after_dispatch)
  also have "\<dots> = ro_identity (route_identity (after_dispatch (sx_team e) (tagged_view c) (take i (lp_active s))) T (ti_iss (fst (lp_active s ! i))))"
    using assms(2) by (intro planned_is_route) (simp add: after_dispatch_def enabled_teams_def)
  finally show ?thesis using assms(6) sl by simp
qed

theorem plan_is_what_dispatch_routes_witness:
  "Some ''bob'' = ro_identity (route_identity
     (after_dispatch demo_team_env (tagged_view demo_config) [(demo_ticket ''1'' ''rhapsody:@alice'', Some ''alice'')])
       demo_teams (ti_iss (demo_ticket ''4'' ''ui'')))"
proof -
  have env: "sx_team demo_select = demo_team_env" "enabled_teams demo_team_env = Some demo_teams"
    "[] \<notin> id_name ` set (tm_roster demo_teams)"
    by (simp_all add: demo_select_def enabled_teams_def demo_team_env_def demo_teams_def)
  have "\<forall>t \<in> set (sl_active demo_selection). \<not> is_review_ticket (ti_iss t)"
    by (simp add: demo_selected is_review_ticket_def REVIEW_TICKET_LABEL_def demo_ticket_def elements_def)
  then show ?thesis
    using plan_is_what_dispatch_routes [OF demo_eff _ _ refl, where i = 1 and T = demo_teams and h = ledger_default
        and tagged = demo_board and read_the_board = True and excluded = "{}"] env
    by (simp add: demo_selected)
qed

section \<open>Labels reach the ledger\<close>

abbreviation labelled :: "ladder_pass \<Rightarrow> string set" where
  "labelled s \<equiv> hs_labelled (lp_ledger s)"

lemma ledger_frames [simp]:
  "lp_ledger (snd (project_budget_gate e v s)) = lp_ledger s"
  "lp_ledger (snd (capacity_plan e iss s)) = lp_ledger s"
  "lp_ledger (snd (select_credential_canary e iss slug s)) = lp_ledger s"
  "lp_ledger (hold_for_project v iss s) = lp_ledger s"
  "lp_ledger (hold_for_state v iss st n s) = lp_ledger s"
  "lp_ledger (reserve v iss st s) = lp_ledger s"
  "lp_ledger (charge_teammate p s) = lp_ledger s"
  by (auto simp: project_budget_gate_def capacity_plan_def select_credential_canary_def hold_for_project_def
      hold_for_state_def reserve_def charge_teammate_def Let_def split: option.splits prod.splits)

lemma labelled_notes:
  "labelled (note_hold w iss s) = insert (to_ascii_lowercase (iss_identifier iss)) (labelled s)"
  "labelled (observe_label e iss s) = (if is_human (sx_text e) iss then insert (to_ascii_lowercase (iss_identifier iss)) (labelled s) else labelled s)"
  by (simp_all add: note_hold_def note_human_hold_def hold_def Let_def observe_label_def note_human_label_def)

text \<open>The ledger of a pass only gains labels, and whether the board was read does not change.\<close>

definition ledger_later :: "ladder_pass \<Rightarrow> ladder_pass \<Rightarrow> bool" where
  "ledger_later s s' \<longleftrightarrow> labelled s \<subseteq> labelled s' \<and> hs_primed (lp_ledger s') = hs_primed (lp_ledger s)"

lemma ledger_later_ledger: "lp_ledger s' = lp_ledger s \<Longrightarrow> ledger_later s s'"
  by (simp add: ledger_later_def)

lemma ledger_later_trans: "ledger_later a b \<Longrightarrow> ledger_later b d \<Longrightarrow> ledger_later a d"
  by (auto simp: ledger_later_def)

lemma ledger_later_notes [simp]: "ledger_later s s" "ledger_later s (note_hold w iss s)" "ledger_later s (observe_label e iss s)"
  by (auto simp: ledger_later_def note_hold_def note_human_hold_def hold_def Let_def observe_label_def note_human_label_def)

lemma ledger_later_if: "(b \<Longrightarrow> ledger_later s x) \<Longrightarrow> (\<not> b \<Longrightarrow> ledger_later s y) \<Longrightarrow> ledger_later s (if b then x else y)"
  by simp

lemma ledger_later_reopen: "ledger_later s (reopen_candidate e c v t s)"
proof -
  obtain free s1 where b: "project_budget_gate e v s = (free, s1)" by fastforce
  obtain fresh s2 where k: "select_credential_canary e (ti_iss t) (lv_slug v) s1 = (fresh, s2)" by fastforce
  have led: "lp_ledger s1 = lp_ledger s" "lp_ledger s2 = lp_ledger s"
    using ledger_frames(1) [of e v s] ledger_frames(3) [of e "ti_iss t" "lv_slug v" s1] b k by simp_all
  show ?thesis
    unfolding reopen_candidate_def Let_def b k prod.case
    by (intro ledger_later_if; (rule ledger_later_notes | (rule ledger_later_ledger, simp add: led)))
qed

lemma ledger_later_active: "ledger_later s (active_candidate e c v t s)"
proof -
  obtain planned s0 where p: "capacity_plan e (ti_iss t) s = (planned, s0)" by fastforce
  obtain free s1 where b: "project_budget_gate e v s0 = (free, s1)" by fastforce
  obtain fresh s2 where k: "select_credential_canary e (ti_iss t) (lv_slug v) s1 = (fresh, s2)" by fastforce
  have led: "lp_ledger s0 = lp_ledger s" "lp_ledger s1 = lp_ledger s" "lp_ledger s2 = lp_ledger s"
    using ledger_frames(2) [of e "ti_iss t" s] ledger_frames(1) [of e v s0] ledger_frames(3) [of e "ti_iss t" "lv_slug v" s1] p b k
    by simp_all
  show ?thesis
    unfolding active_candidate_def Let_def p b k prod.case
    by (intro ledger_later_if; (rule ledger_later_notes | (rule ledger_later_ledger, simp add: led)))
qed

lemma ledger_later_candidate: "ledger_later s (ladder_candidate e c excluded view t s)"
  using ledger_later_reopen ledger_later_active by (simp add: ladder_candidate_def Let_def split: option.split)

lemma ledger_later_tail_step: "ledger_later (observe_label e (ti_iss t) s) (capacity_tail e view t s)"
  unfolding capacity_tail_def Let_def by (intro ledger_later_if; (rule ledger_later_notes | (rule ledger_later_ledger, simp)))

lemma ledger_later_tail: "ledger_later s (fold (capacity_tail e view) ts s)"
proof (induction ts arbitrary: s)
  case (Cons t ts)
  then show ?case using ledger_later_trans [OF ledger_later_trans [OF ledger_later_notes(3) ledger_later_tail_step] Cons.IH] by simp
qed simp

lemma tail_observes:
  "t \<in> set ts \<Longrightarrow> is_human (sx_text e) (ti_iss t) \<Longrightarrow>
     to_ascii_lowercase (iss_identifier (ti_iss t)) \<in> labelled (fold (capacity_tail e view) ts s)"
proof (induction ts arbitrary: s)
  case (Cons u ts)
  show ?case
  proof (cases "t = u")
    case True
    then have "to_ascii_lowercase (iss_identifier (ti_iss t)) \<in> labelled (capacity_tail e view u s)"
      using Cons.prems(2) ledger_later_tail_step [of e u s view] by (auto simp: labelled_notes(2) ledger_later_def)
    then show ?thesis using ledger_later_tail [of "capacity_tail e view u s" e view ts] by (auto simp: ledger_later_def)
  qed (use Cons in auto)
qed simp

lemma ledger_later_ladder: "ledger_later s (ladder e c excluded view ts s)"
proof (induction ts arbitrary: s)
  case (Cons t ts)
  define s1 where "s1 = observe_label e (ti_iss t) s"
  have "ledger_later s s1" by (simp add: s1_def)
  moreover have "ledger_later s1 (ladder e c excluded view ts (ladder_candidate e c excluded (view t) t s1))"
    by (rule ledger_later_trans [OF ledger_later_candidate Cons.IH])
  moreover have "ledger_later s1 (fold (capacity_tail e view) (t # ts) s1)" by (rule ledger_later_tail)
  ultimately show ?case
    using Cons.IH [of s] ledger_later_trans [of s s1] by (simp add: Let_def flip: s1_def del: fold_simps)
qed simp

lemma ladder_observes:
  assumes "t \<in> set ts" "is_human (sx_text e) (ti_iss t)" "\<not> subject_parked (sx_gates e) (iss_identifier (ti_iss t)) ''author''"
  shows "to_ascii_lowercase (iss_identifier (ti_iss t)) \<in> labelled (ladder e c excluded view ts s)"
  using assms(1)
proof (induction ts arbitrary: s)
  case (Cons u ts)
  define s1 where "s1 = observe_label e (ti_iss u) s"
  let ?s = "ladder_candidate e c excluded (view u) u s1"
  have "to_ascii_lowercase (iss_identifier (ti_iss t)) \<in> labelled (ladder e c excluded view ts ?s)"
  proof (cases "t \<in> set ts")
    case False
    with Cons.prems have "to_ascii_lowercase (iss_identifier (ti_iss t)) \<in> labelled s1"
      using assms(2) by (simp add: s1_def labelled_notes(2))
    then show ?thesis
      using ledger_later_trans [OF ledger_later_candidate ledger_later_ladder] unfolding ledger_later_def by blast
  qed (rule Cons.IH)
  moreover have "to_ascii_lowercase (iss_identifier (ti_iss t)) \<in> labelled (fold (capacity_tail e view) (u # ts) s1)"
    using Cons.prems assms(2) by (rule tail_observes)
  ultimately show ?case
    using Cons assms(3) by (auto simp: Let_def simp flip: s1_def simp del: fold_simps)
qed simp

lemma log_non_live_claim_primed: "hs_primed (log_non_live_claim e iss h) = hs_primed h"
  by (simp add: log_non_live_claim_def claim_is_news_def Let_def)

lemma claims_primed: "hs_primed (fold (\<lambda>t. log_non_live_claim e (ti_iss t)) ts h) = hs_primed h"
  by (induction ts arbitrary: h) (simp_all add: log_non_live_claim_primed)

text \<open>
  C20. A human label is seen whatever the pass does with the ticket: after a pass that read the board,
  the ledger is primed and holds the label of every candidate that wears it and is not parked, whether
  the ticket is running, claimed, in review, refused by another gate or behind a used-up pool; and
  nothing that wears the label was selected.
\<close>

theorem human_labels_reach_the_ledger:
  assumes "sx_eff e = Some c" "t \<in> set tagged" "is_human (sx_text e) (ti_iss t)"
    "\<not> subject_parked (sx_gates e) (iss_identifier (ti_iss t)) ''author''"
    "r = multi_selection e h tagged True excluded"
  shows "to_ascii_lowercase (iss_identifier (ti_iss t)) \<in> fst (labelled_and_primed (sl_ledger r)) \<and>
    snd (labelled_and_primed (sl_ledger r)) \<and> t \<notin> set (sl_active r @ sl_reopen r)"
proof -
  define s0 where "s0 = pass_start e c (fold (\<lambda>t. log_non_live_claim e (ti_iss t)) tagged (begin_pass True h))"
  define s where "s = ladder e c excluded (tagged_view c) (multi_queue e c tagged) s0"
  have r: "sl_ledger r = lp_ledger s"
    using assms(1,5) by (simp add: select_dispatch_multi_after_fetch_excluding_def selection_of_def s_def s0_def)
  have "to_ascii_lowercase (iss_identifier (ti_iss t)) \<in> labelled s"
    using assms(2-4) unfolding s_def by (intro ladder_observes) (simp_all add: set_queues)
  moreover have "hs_primed (lp_ledger s0)" by (simp add: s0_def pass_start_def claims_primed begin_pass_def)
  then have "hs_primed (lp_ledger s)" using ledger_later_ladder [of s0] by (simp add: s_def ledger_later_def)
  moreover have "t \<notin> set (sl_active r @ sl_reopen r)"
    using pass_all_gated [OF multi_pass [OF assms(1), of excluded tagged h True]] assms(3,5)
    by (auto simp: all_gated_def list_all_iff)
  ultimately show ?thesis by (simp add: r labelled_and_primed_def)
qed

theorem human_labels_reach_the_ledger_witness:
  "''a3'' \<in> fst (labelled_and_primed (sl_ledger demo_selection)) \<and> snd (labelled_and_primed (sl_ledger demo_selection)) \<and>
   demo_ticket ''3'' ''rhapsody:human'' \<notin> set (sl_active demo_selection @ sl_reopen demo_selection)"
proof -
  let ?t = "demo_ticket ''3'' ''rhapsody:human''"
  have "?t \<in> set demo_board" by (simp add: demo_board_def)
  moreover have "is_human (sx_text demo_select) (ti_iss ?t)" by code_simp
  moreover have "\<not> subject_parked (sx_gates demo_select) (iss_identifier (ti_iss ?t)) ''author''"
    by (simp add: subject_parked_def demo_select_def demo_gates_def)
  moreover have "to_ascii_lowercase (iss_identifier (ti_iss ?t)) = ''a3''" by code_simp
  ultimately show ?thesis using human_labels_reach_the_ledger [OF demo_eff, of ?t demo_board demo_selection ledger_default "{}"] by simp
qed

end
