(* ===== verification/Workspace_Path.thy ===== *)
theory Workspace_Path
  imports Issue
begin

text \<open>
  Workspace names and lexical paths: \<^verbatim>\<open>crates/workspace/src/sanitize.rs\<close> and
  \<^verbatim>\<open>crates/workspace/src/safety.rs\<close>, with the name and path functions of \<^verbatim>\<open>repo.rs\<close> and
  \<^verbatim>\<open>manager.rs\<close>. A string is its UTF-8 bytes; \<open>str::chars\<close> is read off the lead bytes. The byte
  loop of \<open>clean\<close> is modelled as it is written, with its output buffer and its backtrack limit, and
  proved equal to the normalization of the path's components; containment under the workspace root
  is then a prefix relation on components. \<open>Sha256\<close> is the \<^verbatim>\<open>sha2\<close> crate's: an argument.
\<close>

section \<open>Path elements\<close>

abbreviation SLASH :: byte where "SLASH \<equiv> CHR ''/''"
abbreviation DOT :: byte where "DOT \<equiv> CHR ''.''"

text \<open>The inner loop of the \<open>..\<close> case: back up to the previous separator, not past \<open>dotdot\<close>.\<close>

fun back_up :: "bytes \<Rightarrow> nat \<Rightarrow> nat \<Rightarrow> nat" where
  "back_up out dotdot 0 = 0"
| "back_up out dotdot (Suc w) = (if Suc w > dotdot \<and> out ! Suc w \<noteq> SLASH then back_up out dotdot w else Suc w)"

definition not_slash :: "byte \<Rightarrow> bool" where
  "not_slash c \<longleftrightarrow> c \<noteq> SLASH"

text \<open>The outer loop over the bytes that are left, with the buffer \<open>out\<close> and the index \<open>dotdot\<close>.\<close>

function clean_loop :: "bool \<Rightarrow> bytes \<Rightarrow> bytes \<Rightarrow> nat \<Rightarrow> bytes" where
  "clean_loop rooted [] out dotdot = out"
| "clean_loop rooted (c # r1) out dotdot =
     (if c = SLASH then clean_loop rooted r1 out dotdot
      else if c = DOT \<and> (r1 = [] \<or> hd r1 = SLASH) then clean_loop rooted r1 out dotdot
      else if c = DOT \<and> hd r1 = DOT \<and> (tl r1 = [] \<or> hd (tl r1) = SLASH) then
        if length out > dotdot then
          clean_loop rooted (tl r1) (take (back_up out dotdot (length out - 1)) out) dotdot
        else if \<not> rooted then
          let out = (if out \<noteq> [] then out @ [SLASH] else out) @ [DOT, DOT]
          in clean_loop rooted (tl r1) out (length out)
        else clean_loop rooted (tl r1) out dotdot
      else
        clean_loop rooted (dropWhile not_slash (c # r1))
          ((if (rooted \<and> length out \<noteq> 1) \<or> (\<not> rooted \<and> out \<noteq> []) then out @ [SLASH] else out)
           @ takeWhile not_slash (c # r1)) dotdot)"
  by pat_completeness auto
termination
  by (relation "measure (\<lambda>(_, b, _, _). length b)")
     (auto simp: not_slash_def less_Suc_eq_le length_dropWhile_le)

definition clean :: "bytes \<Rightarrow> bytes" where
  "clean path =
     (if path = [] then ''.''
      else
        let rooted = hd path = SLASH;
            out = (if rooted then clean_loop True (tl path) [SLASH] 1 else clean_loop False path [] 0)
        in if out = [] then ''.'' else out)"

text \<open>\<open>slice::join("/")\<close> and \<open>safety::join\<close>.\<close>

fun join_slash :: "bytes list \<Rightarrow> bytes" where
  "join_slash [] = []"
| "join_slash [x] = x"
| "join_slash (x # y # ys) = x @ SLASH # join_slash (y # ys)"

definition join_path :: "bytes list \<Rightarrow> bytes" where
  "join_path parts = (let joined = join_slash (filter (\<lambda>p. p \<noteq> []) parts) in if joined = [] then [] else clean joined)"

text \<open>\<open>dir\<close>: everything up to the last separator, cleaned. \<open>base\<close>: the last element, as it stands.\<close>

definition dir_path :: "bytes \<Rightarrow> bytes" where
  "dir_path path = clean (rev (dropWhile not_slash (rev path)))"

definition base_name :: "bytes \<Rightarrow> bytes" where
  "base_name path =
     (if path = [] then ''.''
      else let trimmed = rev (dropWhile (\<lambda>c. c = SLASH) (rev path))
           in if trimmed = [] then ''/'' else rev (takeWhile not_slash (rev trimmed)))"

datatype ws_error =
    WorkspaceCreate | WorkspaceRemove | WorkspaceNotDir | WorkspaceSymlink | PathOutsideRoot | InvalidCwd
  | HookFailed | HookTimeout | GitFailed | MirrorClone | CloneFailed | WorktreeAdd | WorktreeRemove
  | WorktreeOutsideRoot | WorkspaceStat | ReviewCheckout

definition ends_with_slash :: "bytes \<Rightarrow> bool" where
  "ends_with_slash r \<longleftrightarrow> r \<noteq> [] \<and> last r = SLASH"

definition ensure_within_root :: "bytes \<Rightarrow> bytes \<Rightarrow> (ws_error, unit) result" where
  "ensure_within_root root p =
     (let r = clean root; pp = clean p;
          within = (if pp = r then True
                    else starts_with pp (if ends_with_slash r then r else r @ [SLASH]))
      in if \<not> within then Inl PathOutsideRoot else Inr ())"

definition validate_launch :: "bytes \<Rightarrow> bytes \<Rightarrow> bytes \<Rightarrow> (ws_error, unit) result" where
  "validate_launch root workspace_path cwd =
     and_then (ensure_within_root root workspace_path) (\<lambda>_.
       if clean cwd \<noteq> clean workspace_path then Inl InvalidCwd else Inr ())"

section \<open>Names\<close>

definition is_key_char :: "byte \<Rightarrow> bool" where
  "is_key_char c \<longleftrightarrow> is_ascii_alphanumeric c \<or> c = CHR ''.'' \<or> c = CHR ''_'' \<or> c = CHR ''-''"

text \<open>The lead bytes of a UTF-8 string, one per \<open>char\<close>; an ASCII \<open>char\<close> is its lead byte.\<close>

definition char_leads :: "bytes \<Rightarrow> bytes" where
  "char_leads s = filter (\<lambda>c. \<not> (128 \<le> byte_val c \<and> byte_val c < 192)) s"

definition sanitize_key :: "bytes \<Rightarrow> bytes" where
  "sanitize_key identifier =
     (let key = map (\<lambda>c. if is_key_char c then c else CHR ''_'') (char_leads identifier)
      in if key = '''' \<or> key = ''.'' \<or> key = ''..'' then ''_'' else key)"

definition MIRRORS_DIR_NAME :: bytes where
  "MIRRORS_DIR_NAME = ''.mirrors''"

text \<open>The two arguments that are not the crate's: the digest and the Unicode trimming.\<close>

record ws_ops =
  wo_sha256 :: "bytes \<Rightarrow> bytes"
  wo_text :: text_ops

definition repo_key :: "ws_ops \<Rightarrow> bytes \<Rightarrow> bytes" where
  "repo_key ops repo_url = concat (map hex_byte (take 12 (wo_sha256 ops (trim (wo_text ops) repo_url))))"

definition looks_like_repo_key :: "bytes \<Rightarrow> bool" where
  "looks_like_repo_key name \<longleftrightarrow>
     length name = 24 \<and>
     list_all (\<lambda>c. (48 \<le> byte_val c \<and> byte_val c \<le> 57) \<or> (97 \<le> byte_val c \<and> byte_val c \<le> 102)) name"

definition is_hex_digit :: "byte \<Rightarrow> bool" where
  "is_hex_digit c \<longleftrightarrow> is_ascii_digit c \<or> (65 \<le> byte_val c \<and> byte_val c \<le> 70) \<or> (97 \<le> byte_val c \<and> byte_val c \<le> 102)"

definition is_commit_sha :: "bytes \<Rightarrow> bool" where
  "is_commit_sha s \<longleftrightarrow> 7 \<le> length s \<and> length s \<le> 64 \<and> list_all is_hex_digit s"

definition path_for :: "ws_ops \<Rightarrow> bytes \<Rightarrow> bytes \<Rightarrow> bytes \<Rightarrow> bytes" where
  "path_for ops root repo_url identifier =
     (if repo_url = [] then join_path [root, sanitize_key identifier]
      else join_path [root, repo_key ops repo_url, sanitize_key identifier])"

definition mirror_dir :: "ws_ops \<Rightarrow> bytes \<Rightarrow> bytes \<Rightarrow> bytes" where
  "mirror_dir ops root repo_url = join_path [root, MIRRORS_DIR_NAME, repo_key ops repo_url @ ''.git'']"

section \<open>The reference: components\<close>

text \<open>
  What \<open>filepath.Clean\<close> documents: the components between separators are read from the left; an
  empty one and \<open>.\<close> say nothing, \<open>..\<close> takes back the component before it, is dropped at the root
  of a rooted path and kept at the front of a relative one.
\<close>

fun split_slash :: "bytes \<Rightarrow> bytes list" where
  "split_slash [] = [[]]"
| "split_slash (c # cs) =
     (if c = SLASH then [] # split_slash cs
      else case split_slash cs of [] \<Rightarrow> [[c]] | x # xs \<Rightarrow> (c # x) # xs)"

definition take_component :: "bool \<Rightarrow> bytes \<Rightarrow> bytes list \<Rightarrow> bytes list" where
  "take_component rooted c cs =
     (if c = [] \<or> c = ''.'' then cs
      else if c = ''..'' then
        (if cs \<noteq> [] \<and> last cs \<noteq> ''..'' then butlast cs
         else if rooted then cs else cs @ [''..''])
      else cs @ [c])"

definition is_rooted :: "bytes \<Rightarrow> bool" where
  "is_rooted path \<longleftrightarrow> path \<noteq> [] \<and> hd path = SLASH"

definition components :: "bytes \<Rightarrow> bytes list" where
  "components path = fold (take_component (is_rooted path)) (split_slash path) []"

definition render :: "bool \<Rightarrow> bytes list \<Rightarrow> bytes" where
  "render rooted cs = (if rooted then [SLASH] else []) @ join_slash cs"

definition clean_ref :: "bytes \<Rightarrow> bytes" where
  "clean_ref path = (let out = render (is_rooted path) (components path) in if out = [] then ''.'' else out)"

section \<open>Separators and components\<close>

lemma split_slash_not_Nil [simp]: "split_slash b \<noteq> []"
  by (induction b) (auto split: list.splits)

lemma split_slash_element [simp]:
  "list_all not_slash e \<Longrightarrow> split_slash (e @ SLASH # r) = e # split_slash r"
  by (induction e) (auto simp: not_slash_def)

lemma split_slash_last [simp]: "list_all not_slash e \<Longrightarrow> split_slash e = [e]"
  by (induction e) (auto simp: not_slash_def)

lemma split_slash_not_slash: "list_all (list_all not_slash) (split_slash b)"
  by (induction b) (auto simp: not_slash_def split: list.splits)

lemma join_slash_snoc: "join_slash (cs @ [c]) = (if cs = [] then c else join_slash cs @ SLASH # c)"
  by (induction cs rule: join_slash.induct) auto

lemma join_slash_eq_Nil [simp]: "[] \<notin> set cs \<Longrightarrow> join_slash cs = [] \<longleftrightarrow> cs = []"
  by (cases cs rule: join_slash.cases) auto

lemma split_join_slash:
  "cs \<noteq> [] \<Longrightarrow> list_all (list_all not_slash) cs \<Longrightarrow> split_slash (join_slash cs) = cs"
  by (induction cs rule: join_slash.induct) auto

lemma take_component_skip [simp]: "take_component rooted [] cs = cs" "take_component rooted ''.'' cs = cs"
  by (simp_all add: take_component_def)

text \<open>The components an element contributes, whatever follows it.\<close>

lemma fold_split_element:
  assumes "list_all not_slash e" "r = [] \<or> hd r = SLASH"
  shows "fold (take_component rooted) (split_slash (e @ r)) cs =
         fold (take_component rooted) (split_slash r) (take_component rooted e cs)"
proof (cases r)
  case (Cons c r')
  with assms show ?thesis by simp
qed (use assms in simp)

text \<open>
  A stack of components the loop can hold: proper elements after a front of \<open>k\<close> kept \<open>..\<close>, which
  only a relative path has.
\<close>

definition element :: "bytes \<Rightarrow> bool" where
  "element c \<longleftrightarrow> list_all not_slash c \<and> c \<noteq> [] \<and> c \<noteq> ''.''"

definition proper :: "bytes \<Rightarrow> bool" where
  "proper c \<longleftrightarrow> element c \<and> c \<noteq> ''..''"

definition stack_ok :: "bool \<Rightarrow> nat \<Rightarrow> bytes list \<Rightarrow> bool" where
  "stack_ok rooted k cs \<longleftrightarrow>
     (rooted \<longrightarrow> k = 0) \<and> (\<exists>ds. cs = replicate k ''..'' @ ds \<and> list_all proper ds)"

lemma not_slash_dots [simp]: "not_slash DOT" "\<not> not_slash SLASH" "list_all not_slash ''..''"
  by (simp_all add: not_slash_def)

lemma stack_ok_Nil [simp]: "stack_ok rooted 0 []"
  by (simp add: stack_ok_def)

lemma stack_ok_push: "stack_ok rooted k cs \<Longrightarrow> proper c \<Longrightarrow> stack_ok rooted k (cs @ [c])"
  by (auto simp: stack_ok_def)

lemma stack_ok_dots: "stack_ok False k (replicate k ''..'')"
  by (simp add: stack_ok_def)

lemma stack_ok_cases:
  assumes "stack_ok rooted k cs"
  obtains (front) "cs = replicate k ''..''"
  | (top) cs' d where "cs = cs' @ [d]" "proper d" "stack_ok rooted k cs'"
proof -
  from assms obtain ds where ds: "cs = replicate k ''..'' @ ds" "list_all proper ds" "rooted \<longrightarrow> k = 0"
    by (auto simp: stack_ok_def)
  show thesis
  proof (cases ds rule: rev_cases)
    case Nil
    with ds front show thesis by simp
  next
    case (snoc es d)
    with ds have "stack_ok rooted k (replicate k ''..'' @ es)" by (auto simp: stack_ok_def)
    with ds snoc show thesis by (intro top [of "replicate k ''..'' @ es" d]) auto
  qed
qed

lemma element_dots [simp]: "element ''..''"
  by (simp add: element_def)

lemma stack_ok_elements: "stack_ok rooted k cs \<Longrightarrow> list_all element cs"
  by (auto simp: stack_ok_def proper_def list.pred_set in_set_replicate)

lemma stack_ok_no_Nil: "stack_ok rooted k cs \<Longrightarrow> [] \<notin> set cs"
  by (auto simp: list.pred_set element_def dest!: stack_ok_elements)

section \<open>The byte loop computes the components\<close>

definition limit :: "bool \<Rightarrow> nat \<Rightarrow> nat" where
  "limit rooted k = length (render rooted (replicate k ''..''))"

lemma render_snoc:
  "render rooted (cs @ [c]) = (if cs = [] then render rooted [] @ c else render rooted cs @ SLASH # c)"
  by (simp add: render_def join_slash_snoc)

lemma render_single [simp]: "render rooted [c] = render rooted [] @ c"
  by (simp add: render_def)

lemma render_append_length: "length (render rooted cs) \<le> length (render rooted (cs @ ds))"
proof (induction ds rule: rev_induct)
  case (snoc d ds)
  then show ?case unfolding append_assoc [symmetric] render_snoc by auto
qed simp

lemma limit_le: "stack_ok rooted k cs \<Longrightarrow> limit rooted k \<le> length (render rooted cs)"
  by (auto simp: stack_ok_def limit_def intro: render_append_length)

lemma back_up_to_slash:
  assumes "list_all not_slash e" "d \<le> length p" "n \<le> length e"
  shows "back_up (p @ SLASH # e) d (length p + n) = length p"
  using assms(3)
proof (induction n)
  case 0
  show ?case by (cases "length p") (auto simp: nth_append)
next
  case (Suc n)
  then have "(p @ SLASH # e) ! Suc (length p + n) \<noteq> SLASH"
    using assms(1) by (auto simp: nth_append list_all_length not_slash_def)
  with Suc assms(2) show ?case by simp
qed

lemma back_up_to_limit:
  assumes "list_all not_slash e" "n < length e"
  shows "back_up (p @ e) (length p) (length p + n) = length p"
  using assms(2)
proof (induction n)
  case 0
  show ?case by (cases "length p") auto
next
  case (Suc n)
  then have "(p @ e) ! Suc (length p + n) \<noteq> SLASH"
    using assms(1) by (auto simp: nth_append list_all_length not_slash_def)
  with Suc show ?case by simp
qed

text \<open>The \<open>..\<close> case with something to take back: the buffer loses exactly its last component.\<close>

lemma back_up_pops:
  assumes "stack_ok rooted k cs" "proper d"
  shows "limit rooted k < length (render rooted (cs @ [d])) \<and>
         take (back_up (render rooted (cs @ [d])) (limit rooted k) (length (render rooted (cs @ [d])) - 1))
           (render rooted (cs @ [d])) = render rooted cs"
proof -
  let ?out = "render rooted (cs @ [d])"
  have d: "list_all not_slash d" "d \<noteq> []" using assms(2) by (auto simp: proper_def element_def)
  show ?thesis
  proof (cases "cs = []")
    case True
    with assms(1) have lim: "limit rooted k = length (render rooted [])"
      by (auto simp: stack_ok_def limit_def)
    from d have "length ?out - 1 = length (render rooted []) + (length d - 1)" "length d - 1 < length d"
      using True by (cases d; simp)+
    with True d lim back_up_to_limit [of d "length d - 1" "render rooted []"] show ?thesis
      by (simp add: render_snoc)
  next
    case False
    from d have "length ?out - 1 = length (render rooted cs) + length d"
      using False by (auto simp: render_snoc)
    with False d limit_le [OF assms(1)] back_up_to_slash [of d "limit rooted k" "render rooted cs" "length d"]
    show ?thesis by (simp add: render_snoc)
  qed
qed

declare clean_loop.simps [simp del]

text \<open>The element the last case of the loop reads.\<close>

lemma next_element:
  assumes "b = c # r1" "c \<noteq> SLASH" "\<not> (c = DOT \<and> (r1 = [] \<or> hd r1 = SLASH))"
    "\<not> (c = DOT \<and> hd r1 = DOT \<and> (tl r1 = [] \<or> hd (tl r1) = SLASH))"
  shows "proper (takeWhile not_slash b)"
    and "dropWhile not_slash b = [] \<or> hd (dropWhile not_slash b) = SLASH"
proof -
  show "dropWhile not_slash b = [] \<or> hd (dropWhile not_slash b) = SLASH"
    using hd_dropWhile [of not_slash b] by (auto simp: not_slash_def)
  have "list_all not_slash (takeWhile not_slash b)"
    unfolding list_all_iff using set_takeWhileD by fast
  moreover have "takeWhile not_slash b \<noteq> []" using assms(1,2) by (simp add: not_slash_def)
  moreover have "takeWhile not_slash b \<noteq> ''.''" "takeWhile not_slash b \<noteq> ''..''"
    using assms by (cases r1; cases "tl r1"; auto simp: not_slash_def split: if_splits)+
  ultimately show "proper (takeWhile not_slash b)" by (simp add: proper_def element_def)
qed

lemma render_eq_Nil: "stack_ok rooted k cs \<Longrightarrow> render rooted cs = [] \<longleftrightarrow> \<not> rooted \<and> cs = []"
  by (simp add: render_def stack_ok_no_Nil)

text \<open>One round of the loop, by the element it is at.\<close>

lemma clean_loop_skip:
  "clean_loop rooted [] out dotdot = out"
  "clean_loop rooted (SLASH # r) out dotdot = clean_loop rooted r out dotdot"
  "r = [] \<or> hd r = SLASH \<Longrightarrow> clean_loop rooted (DOT # r) out dotdot = clean_loop rooted r out dotdot"
  by (subst clean_loop.simps, simp)+

lemma clean_loop_dots:
  assumes "stack_ok rooted k cs" "r = [] \<or> hd r = SLASH"
  shows "\<exists>k'. stack_ok rooted k' (take_component rooted ''..'' cs) \<and>
     clean_loop rooted (DOT # DOT # r) (render rooted cs) (limit rooted k) =
     clean_loop rooted r (render rooted (take_component rooted ''..'' cs)) (limit rooted k')"
  using assms(1)
proof (cases rule: stack_ok_cases)
  case front
  then have len: "\<not> limit rooted k < length (render rooted cs)" by (simp add: limit_def)
  show ?thesis
  proof (cases rooted)
    case True
    with assms(1) front have "k = 0" "cs = []" by (auto simp: stack_ok_def)
    with True len assms show ?thesis
      by (intro exI [of _ 0]) (subst clean_loop.simps, simp add: take_component_def)
  next
    case False
    let ?cs = "replicate (Suc k) ''..''"
    have snoc: "?cs = cs @ [''..'']" using front by (simp add: replicate_append_same)
    have out: "(if render False cs \<noteq> [] then render False cs @ [SLASH] else render False cs) @ [DOT, DOT] =
        render False ?cs"
      unfolding snoc render_snoc using False render_eq_Nil [OF assms(1)] by (auto simp: render_def)
    have tc: "take_component rooted ''..'' cs = ?cs"
      using front False snoc by (cases k) (auto simp: take_component_def)
    have "clean_loop rooted (DOT # DOT # r) (render rooted cs) (limit rooted k) =
        clean_loop False r (render False ?cs) (limit False (Suc k))"
      unfolding limit_def [of False] out [symmetric]
      by (subst clean_loop.simps) (use False assms(2) len in \<open>simp add: Let_def limit_def\<close>)
    with tc False stack_ok_dots show ?thesis by metis
  qed
next
  case (top cs' d)
  then have "take_component rooted ''..'' cs = cs'"
    by (simp add: take_component_def proper_def)
  moreover have "clean_loop rooted (DOT # DOT # r) (render rooted cs) (limit rooted k) =
      clean_loop rooted r (render rooted cs') (limit rooted k)"
    by (subst clean_loop.simps) (use top back_up_pops [of rooted k cs' d] assms(2) in simp)
  ultimately show ?thesis using top by auto
qed

lemma clean_loop_element:
  assumes "stack_ok rooted k cs" "b = c # r1" "c \<noteq> SLASH" "\<not> (c = DOT \<and> (r1 = [] \<or> hd r1 = SLASH))"
    "\<not> (c = DOT \<and> hd r1 = DOT \<and> (tl r1 = [] \<or> hd (tl r1) = SLASH))"
  shows "clean_loop rooted b (render rooted cs) (limit rooted k) =
     clean_loop rooted (dropWhile not_slash b) (render rooted (cs @ [takeWhile not_slash b])) (limit rooted k)"
proof -
  have "(if rooted \<and> length (render rooted cs) \<noteq> 1 \<or> \<not> rooted \<and> render rooted cs \<noteq> []
          then render rooted cs @ [SLASH] else render rooted cs) @ takeWhile not_slash b =
        render rooted (cs @ [takeWhile not_slash b])"
    using assms(1) by (auto simp: join_slash_snoc render_def stack_ok_no_Nil)
  then show ?thesis unfolding assms(2) by (subst clean_loop.simps) (use assms(3-) in auto)
qed

lemma clean_loop_components:
  "stack_ok rooted k cs \<Longrightarrow>
   \<exists>k'. stack_ok rooted k' (fold (take_component rooted) (split_slash b) cs) \<and>
     clean_loop rooted b (render rooted cs) (limit rooted k) =
     render rooted (fold (take_component rooted) (split_slash b) cs)"
proof (induction b arbitrary: cs k rule: length_induct)
  case (1 b)
  note IH = 1(1) [rule_format] and ok = 1(2)
  show ?case
  proof (cases b)
    case Nil
    with ok show ?thesis by (auto simp: clean_loop_skip)
  next
    case (Cons c r1)
    consider (slash) "c = SLASH"
      | (dot) "c = DOT" "r1 = [] \<or> hd r1 = SLASH"
      | (dots) r where "c = DOT" "r1 = DOT # r" "r = [] \<or> hd r = SLASH"
      | (real) "c \<noteq> SLASH" "\<not> (c = DOT \<and> (r1 = [] \<or> hd r1 = SLASH))"
          "\<not> (c = DOT \<and> hd r1 = DOT \<and> (tl r1 = [] \<or> hd (tl r1) = SLASH))"
      by (cases r1) auto
    then show ?thesis
    proof cases
      case slash
      with IH [of r1, OF _ ok] Cons show ?thesis by (simp add: clean_loop_skip)
    next
      case dot
      with IH [of r1, OF _ ok] Cons fold_split_element [of "''.''" r1 rooted cs] show ?thesis
        by (simp add: clean_loop_skip)
    next
      case dots
      from clean_loop_dots [OF ok dots(3)] obtain k' where k':
        "stack_ok rooted k' (take_component rooted ''..'' cs)"
        "clean_loop rooted b (render rooted cs) (limit rooted k) =
         clean_loop rooted r (render rooted (take_component rooted ''..'' cs)) (limit rooted k')"
        using Cons dots by auto
      with IH [of r, OF _ k'(1)] Cons dots fold_split_element [of "''..''" r rooted cs] show ?thesis by simp
    next
      case real
      let ?e = "takeWhile not_slash b" and ?r = "dropWhile not_slash b"
      have e: "proper ?e" "?r = [] \<or> hd ?r = SLASH" using next_element [OF Cons real] by auto
      then have "fold (take_component rooted) (split_slash b) cs =
          fold (take_component rooted) (split_slash ?r) (cs @ [?e])"
        using fold_split_element [of ?e ?r rooted cs] by (simp add: proper_def element_def take_component_def)
      moreover have "length ?r < length b"
        using Cons real(1) by (simp add: not_slash_def less_Suc_eq_le length_dropWhile_le)
      ultimately show ?thesis
        using IH [of ?r, OF _ stack_ok_push [OF ok e(1)]] clean_loop_element [OF ok Cons real] by simp
    qed
  qed
qed

lemma clean_loop_start:
  "clean path = clean_ref path \<and> (\<exists>k. stack_ok (is_rooted path) k (components path))"
proof (cases "is_rooted path")
  case True
  then obtain r where path: "path = SLASH # r" by (cases path) (auto simp: is_rooted_def)
  then have "components path = fold (take_component True) (split_slash r) []"
    using True by (simp add: components_def)
  with clean_loop_components [of True 0 "[]" r] path show ?thesis
    by (auto simp: clean_def clean_ref_def is_rooted_def limit_def render_def)
next
  case False
  then show ?thesis
    using clean_loop_components [of False 0 "[]" path]
    by (auto simp: clean_def clean_ref_def components_def is_rooted_def limit_def render_def Let_def)
qed

lemma clean_eq_ref: "clean path = clean_ref path"
  using clean_loop_start by blast

lemma components_ok: "\<exists>k. stack_ok (is_rooted path) k (components path)"
  using clean_loop_start by blast

lemma components_rooted: "is_rooted path \<Longrightarrow> list_all proper (components path)"
  using components_ok [of path] by (auto simp: stack_ok_def)

lemma clean_rooted: "is_rooted path \<Longrightarrow> clean path = SLASH # join_slash (components path)"
  by (simp add: clean_eq_ref clean_ref_def render_def)

lemma is_rooted_clean [simp]: "is_rooted (clean path) = is_rooted path"
proof (cases "is_rooted path")
  case True
  then show ?thesis by (simp add: clean_rooted) (simp add: is_rooted_def)
next
  case False
  from components_ok [of path] obtain k where ok: "stack_ok False k (components path)" using False by auto
  show ?thesis
  proof (cases "components path")
    case Nil
    with False show ?thesis by (simp add: clean_eq_ref clean_ref_def render_def is_rooted_def)
  next
    case (Cons c cs)
    from stack_ok_elements [OF ok] Cons have c: "c \<noteq> []" "hd c \<noteq> SLASH"
      by (auto simp: element_def list.pred_set not_slash_def)
    then have "hd (join_slash (c # cs)) \<noteq> SLASH" by (cases cs) auto
    with False Cons c stack_ok_no_Nil [OF ok] show ?thesis
      by (simp add: clean_eq_ref clean_ref_def render_def) (simp add: is_rooted_def)
  qed
qed

text \<open>Proper components are fixed points of the reader, so a stack the loop can hold reads back.\<close>

lemma fold_proper: "list_all proper ds \<Longrightarrow> fold (take_component rooted) ds cs = cs @ ds"
  by (induction ds arbitrary: cs) (auto simp: take_component_def proper_def element_def)

lemma fold_dots: "fold (take_component False) (replicate k ''..'') (replicate j ''..'') = replicate (j + k) ''..''"
proof (induction k arbitrary: j)
  case (Suc k)
  have "take_component False ''..'' (replicate j ''..'') = replicate (Suc j) ''..''"
    by (cases j) (auto simp: take_component_def replicate_append_same)
  with Suc [of "Suc j"] show ?case by simp
qed simp

lemma fold_stack: "stack_ok rooted k cs \<Longrightarrow> fold (take_component rooted) cs [] = cs"
  using fold_dots [of k 0] by (cases rooted) (auto simp: stack_ok_def fold_proper)

lemma components_trivial: "components ''/'' = []" "components ''.'' = []"
  by (simp_all add: components_def is_rooted_def)

lemma components_clean [simp]: "components (clean path) = components path"
proof -
  from components_ok obtain k where ok: "stack_ok (is_rooted path) k (components path)" by blast
  let ?cs = "components path"
  have sl: "list_all (list_all not_slash) ?cs"
    using stack_ok_elements [OF ok] by (auto simp: element_def elim: list.pred_mono_strong)
  show ?thesis
  proof (cases "?cs = []")
    case True
    then show ?thesis
      by (cases "is_rooted path") (simp_all add: clean_eq_ref clean_ref_def render_def components_trivial)
  next
    case False
    then have "clean path = render (is_rooted path) ?cs"
      using render_eq_Nil [OF ok] by (simp add: clean_eq_ref clean_ref_def)
    then have "fold (take_component (is_rooted path)) (split_slash (clean path)) [] = ?cs"
      using split_join_slash [OF False sl] fold_stack [OF ok] by (cases "is_rooted path") (simp_all add: render_def)
    then show ?thesis by (simp add: components_def [of "clean path"])
  qed
qed

lemma clean_idem [simp]: "clean (clean path) = clean path"
proof -
  have "clean (clean path) = clean_ref (clean path)" by (rule clean_eq_ref)
  also have "\<dots> = clean_ref path" by (simp add: clean_ref_def)
  also have "\<dots> = clean path" by (rule clean_eq_ref [symmetric])
  finally show ?thesis .
qed

section \<open>Containment is a prefix of components\<close>

lemma split_slash_append:
  "split_slash (a @ SLASH # b) = split_slash a @ split_slash b"
  by (induction a) (auto split: list.splits)

text \<open>The components of proper paths determine them.\<close>

lemma join_slash_inj:
  assumes "list_all proper cs" "list_all proper ds" "join_slash cs = join_slash ds"
  shows "cs = ds"
proof -
  have sl: "list_all (list_all not_slash) xs \<and> [] \<notin> set xs" if "list_all proper xs" for xs
    using that by (auto simp: proper_def element_def list.pred_set)
  show ?thesis
  proof (cases "cs = [] \<or> ds = []")
    case True
    with assms sl [of cs] sl [of ds] show ?thesis by (metis join_slash_eq_Nil)
  next
    case False
    with split_join_slash sl assms show ?thesis by metis
  qed
qed

lemma join_slash_append:
  "cs \<noteq> [] \<Longrightarrow> ds \<noteq> [] \<Longrightarrow> join_slash (cs @ ds) = join_slash cs @ SLASH # join_slash ds"
proof (induction cs rule: join_slash.induct)
  case (2 x)
  then show ?case by (cases ds) auto
qed auto

lemma starts_with_join:
  assumes "list_all proper cs" "list_all proper ds" "cs \<noteq> []"
  shows "starts_with (join_slash ds) (join_slash cs @ [SLASH]) \<longleftrightarrow> (\<exists>es. es \<noteq> [] \<and> ds = cs @ es)"
proof
  assume "starts_with (join_slash ds) (join_slash cs @ [SLASH])"
  then obtain r where r: "join_slash ds = join_slash cs @ SLASH # r" by (auto simp: starts_with_iff)
  have sl: "list_all (list_all not_slash) cs" "list_all (list_all not_slash) ds"
    using assms by (auto simp: proper_def element_def list.pred_set)
  from r have "ds \<noteq> []" by auto
  then have "ds = split_slash (join_slash ds)" using split_join_slash sl(2) by simp
  also have "\<dots> = cs @ split_slash r" using r split_join_slash [OF assms(3) sl(1)] by (simp add: split_slash_append)
  finally show "\<exists>es. es \<noteq> [] \<and> ds = cs @ es" by auto
next
  assume "\<exists>es. es \<noteq> [] \<and> ds = cs @ es"
  with assms(3) show "starts_with (join_slash ds) (join_slash cs @ [SLASH])"
    by (auto simp: join_slash_append starts_with_iff)
qed

lemma join_slash_last:
  "list_all proper cs \<Longrightarrow> cs \<noteq> [] \<Longrightarrow> join_slash cs \<noteq> [] \<and> last (join_slash cs) \<noteq> SLASH"
proof (induction cs rule: join_slash.induct)
  case (2 x)
  then have "x \<noteq> []" "not_slash (last x)" by (auto simp: proper_def element_def list.pred_set)
  then show ?case by (simp add: not_slash_def)
qed auto

lemma within_root_prefix:
  assumes "is_rooted root" "is_rooted p"
  shows "ensure_within_root root p = Inr () \<longleftrightarrow> (\<exists>es. components p = components root @ es)"
proof -
  let ?r = "components root" and ?p = "components p"
  have pr: "list_all proper ?r" "list_all proper ?p" using assms components_rooted by auto
  have eq: "clean root = SLASH # join_slash ?r" "clean p = SLASH # join_slash ?p"
    using assms by (simp_all add: clean_rooted)
  show ?thesis
  proof (cases "?r = []")
    case True
    then show ?thesis by (simp add: ensure_within_root_def eq ends_with_slash_def Let_def)
  next
    case False
    with join_slash_last [OF pr(1)] have no_end: "\<not> ends_with_slash (clean root)"
      by (simp add: eq ends_with_slash_def)
    then have "ensure_within_root root p = Inr () \<longleftrightarrow>
        join_slash ?p = join_slash ?r \<or> starts_with (join_slash ?p) (join_slash ?r @ [SLASH])"
      by (auto simp: ensure_within_root_def eq Let_def)
    also have "\<dots> \<longleftrightarrow> ?p = ?r \<or> (\<exists>es. es \<noteq> [] \<and> ?p = ?r @ es)"
      using starts_with_join [OF pr False] join_slash_inj [OF pr(2,1)] by metis
    also have "\<dots> \<longleftrightarrow> (\<exists>es. ?p = ?r @ es)" by (metis append_Nil2)
    finally show ?thesis .
  qed
qed

section \<open>Workspace paths\<close>

lemma components_join:
  assumes "is_rooted root" "list_all proper ks"
  shows "is_rooted (join_path (root # ks))" and "components (join_path (root # ks)) = components root @ ks"
    and "clean (join_path (root # ks)) = join_path (root # ks)"
proof -
  have ne: "filter (\<lambda>p. p \<noteq> []) (root # ks) = root # ks"
    using assms by (auto simp: is_rooted_def proper_def element_def list.pred_set intro!: filter_True)
  obtain r where root: "root = SLASH # r" using assms(1) by (cases root) (auto simp: is_rooted_def)
  have j: "join_path (root # ks) = clean (join_slash (root # ks))"
    using ne root by (cases ks) (auto simp: join_path_def)
  have rooted: "is_rooted (join_slash (root # ks))" using root by (cases ks) (auto simp: is_rooted_def)
  have sl: "list_all (list_all not_slash) ks" using assms(2) by (auto simp: proper_def element_def list.pred_set)
  have "split_slash (join_slash (root # ks)) = split_slash root @ ks"
  proof (cases "ks = []")
    case False
    then have "join_slash (root # ks) = root @ SLASH # join_slash ks" by (cases ks) auto
    then show ?thesis using split_join_slash [OF False sl] by (simp only: split_slash_append)
  qed simp
  then have "components (join_slash (root # ks)) = components root @ ks"
    using rooted assms fold_proper by (simp add: components_def)
  with j rooted show "is_rooted (join_path (root # ks))"
    "components (join_path (root # ks)) = components root @ ks"
    "clean (join_path (root # ks)) = join_path (root # ks)" by simp_all
qed

lemma is_key_char_slash [simp]: "\<not> is_key_char SLASH"
  by (simp add: is_key_char_def is_ascii_alphanumeric_def is_ascii_alphabetic_def is_ascii_digit_def byte_val_def)

lemma sanitize_key_proper: "proper (sanitize_key identifier)"
proof -
  let ?f = "\<lambda>c. if is_key_char c then c else CHR ''_''"
  have "list_all not_slash (map ?f (char_leads identifier))"
    by (auto simp: list_all_iff not_slash_def)
  then show ?thesis by (auto simp: sanitize_key_def Let_def proper_def element_def not_slash_def)
qed

lemma sanitize_key_idem: "sanitize_key (sanitize_key identifier) = sanitize_key identifier"
proof -
  let ?f = "\<lambda>c. if is_key_char c then c else CHR ''_''"
  have key: "list_all is_key_char (map ?f cs)" for cs
    by (auto simp: list_all_iff is_key_char_def)
  have ascii: "\<not> (128 \<le> byte_val c \<and> byte_val c < 192)" if "is_key_char c" for c
    using that by (auto simp: is_key_char_def is_ascii_alphanumeric_def is_ascii_alphabetic_def is_ascii_digit_def byte_val_def)
  have "map ?f (char_leads cs) = cs" if "list_all is_key_char cs" for cs
    using that by (induction cs) (auto simp: char_leads_def dest: ascii)
  then have fixed: "sanitize_key cs = (if cs = '''' \<or> cs = ''.'' \<or> cs = ''..'' then ''_'' else cs)"
    if "list_all is_key_char cs" for cs
    using that by (simp add: sanitize_key_def)
  have "list_all is_key_char ''_''" by (simp add: is_key_char_def)
  moreover have "sanitize_key identifier = ''_'' \<or>
      (sanitize_key identifier = map ?f (char_leads identifier) \<and> sanitize_key identifier \<notin> {[], ''.'', ''..''})"
    by (auto simp: sanitize_key_def Let_def)
  ultimately show ?thesis using key [of "char_leads identifier"] fixed by auto
qed

lemma hex_byte_shape:
  "length (hex_byte c) = 2"
  "list_all (\<lambda>d. (48 \<le> byte_val d \<and> byte_val d \<le> 57) \<or> (97 \<le> byte_val d \<and> byte_val d \<le> 102)) (hex_byte c)"
proof -
  have bound: "byte_val c div 16 < 16" using byte_val_lt [of c] by simp
  have val: "byte_val (char_of n) = n" if "n < 256" for n :: nat
    using that by (simp add: byte_val_def)
  show "length (hex_byte c) = 2" by (simp add: hex_byte_def)
  show "list_all (\<lambda>d. (48 \<le> byte_val d \<and> byte_val d \<le> 57) \<or> (97 \<le> byte_val d \<and> byte_val d \<le> 102)) (hex_byte c)"
    using bound by (auto simp: hex_byte_def Let_def val)
qed

lemma hex_bytes_shape:
  "length (concat (map hex_byte bs)) = 2 * length bs"
  "list_all (\<lambda>d. (48 \<le> byte_val d \<and> byte_val d \<le> 57) \<or> (97 \<le> byte_val d \<and> byte_val d \<le> 102)) (concat (map hex_byte bs))"
  by (induction bs) (simp_all add: hex_byte_shape)

text \<open>The digest is longer than the twelve bytes that are used of it; SHA-256 gives 32.\<close>

definition digest_ok :: "ws_ops \<Rightarrow> bool" where
  "digest_ok ops \<longleftrightarrow> (\<forall>s. 12 \<le> length (wo_sha256 ops s))"

lemma repo_key_shape: "digest_ok ops \<Longrightarrow> looks_like_repo_key (repo_key ops url)"
  by (simp add: repo_key_def looks_like_repo_key_def hex_bytes_shape digest_ok_def min_absorb1)

lemma repo_key_shape_proper: "looks_like_repo_key name \<Longrightarrow> proper name \<and> name \<noteq> MIRRORS_DIR_NAME"
proof -
  assume n: "looks_like_repo_key name"
  then have "list_all not_slash name"
    by (auto simp: looks_like_repo_key_def not_slash_def byte_val_def elim!: list.pred_mono_strong)
  with n show ?thesis
    by (auto simp: looks_like_repo_key_def proper_def element_def MIRRORS_DIR_NAME_def)
qed

definition workspace_names :: "ws_ops \<Rightarrow> bytes \<Rightarrow> bytes \<Rightarrow> bytes list" where
  "workspace_names ops repo_url identifier =
     (if repo_url = [] then [sanitize_key identifier] else [repo_key ops repo_url, sanitize_key identifier])"

lemma workspace_names_proper: "digest_ok ops \<Longrightarrow> list_all proper (workspace_names ops url ident)"
  using repo_key_shape [THEN repo_key_shape_proper] by (auto simp: workspace_names_def sanitize_key_proper)

lemma path_for_join: "path_for ops root url ident = join_path (root # workspace_names ops url ident)"
  by (simp add: path_for_def workspace_names_def)

lemma path_for_within:
  assumes "is_rooted root" "digest_ok ops"
  shows "ensure_within_root root (path_for ops root url ident) = Inr ()"
proof -
  note c = components_join [OF assms(1) workspace_names_proper [OF assms(2)], folded path_for_join]
  show ?thesis using within_root_prefix [OF assms(1) c(1)] c(2) by auto
qed

lemma join_path_inj:
  assumes "is_rooted root" "list_all proper ks" "list_all proper ls"
  shows "join_path (root # ks) = join_path (root # ls) \<longleftrightarrow> ks = ls"
  using components_join(2) [OF assms(1,2)] components_join(2) [OF assms(1,3)] by (metis same_append_eq)

lemma mirror_names_proper: "digest_ok ops \<Longrightarrow> list_all proper [MIRRORS_DIR_NAME, repo_key ops url @ ''.git'']"
proof -
  assume "digest_ok ops"
  then have "list_all not_slash (repo_key ops url)"
    using repo_key_shape_proper [OF repo_key_shape, of ops url] by (simp add: proper_def element_def)
  then show ?thesis by (simp add: proper_def element_def MIRRORS_DIR_NAME_def not_slash_def append_eq_Cons_conv)
qed

section \<open>Properties\<close>

text \<open>
  C24. The byte loop of \<open>clean\<close>, with its output buffer and backtrack index, computes the normal form
  of the path's components for every path, rooted or relative; cleaning twice changes nothing and
  keeps the components.
\<close>

theorem clean_is_component_normal_form:
  "clean path = clean_ref path \<and> clean (clean path) = clean path \<and> components (clean path) = components path"
  by (simp add: clean_eq_ref [symmetric])

text \<open>
  C25. The guard in front of an agent launch is exact on absolute paths: it passes if and only if the
  workspace's components extend the root's and the working directory has the workspace's components,
  so no spelling with \<open>..\<close>, doubled separators or a sibling of the same prefix gets through.
\<close>

theorem launch_guard_is_exact:
  assumes "is_rooted root" "is_rooted workspace_path"
  shows "validate_launch root workspace_path cwd = Inr () \<longleftrightarrow>
     (\<exists>es. components workspace_path = components root @ es) \<and>
     is_rooted cwd \<and> components cwd = components workspace_path"
proof -
  have "clean cwd = clean workspace_path \<longleftrightarrow> is_rooted cwd \<and> components cwd = components workspace_path"
    using assms(2) by (metis clean_rooted components_clean is_rooted_clean)
  then show ?thesis
    using within_root_prefix [OF assms]
    by (auto simp: validate_launch_def and_then_Inr split: if_splits)
qed

theorem launch_guard_is_exact_witness:
  "validate_launch ''/ws'' ''/ws/k/./A-1'' ''/ws//k/A-1'' = Inr () \<and>
   validate_launch ''/ws'' ''/ws/../ws2/A-1'' ''/ws2/A-1'' = Inl PathOutsideRoot"
proof -
  have c: "components ''/ws'' = [''ws'']" "components ''/ws/k/./A-1'' = [''ws'', ''k'', ''A-1'']"
    "components ''/ws//k/A-1'' = [''ws'', ''k'', ''A-1'']"
    by code_simp+
  have "validate_launch ''/ws'' ''/ws/k/./A-1'' ''/ws//k/A-1'' = Inr ()"
    using launch_guard_is_exact [of "''/ws''" "''/ws/k/./A-1''" "''/ws//k/A-1''"] c
    by (simp add: is_rooted_def)
  moreover have "validate_launch ''/ws'' ''/ws/../ws2/A-1'' ''/ws2/A-1'' = Inl PathOutsideRoot" by code_simp
  ultimately show ?thesis by simp
qed


definition demo_ops :: ws_ops where
  "demo_ops = \<lparr>wo_sha256 = (\<lambda>s. s @ replicate 32 (CHR 0x5A)), wo_text = ascii_text\<rparr>"

lemma demo_digest_ok: "digest_ok demo_ops"
  by (simp add: digest_ok_def demo_ops_def)


end
