(* ===== verification/Workspace_Fs.thy ===== *)
theory Workspace_Fs
  imports Workspace_Path
begin

text \<open>
  The workspace manager's life cycle (\<^verbatim>\<open>crates/workspace/src/manager.rs\<close> and \<^verbatim>\<open>repo.rs\<close>): the
  legacy directory, the worktree on a shared bare mirror, the standalone clone and the review
  checkout, with their removal. The file system is an association list from clean absolute paths to
  nodes; the \<open>std::fs\<close> calls the crate makes are defined on it. The \<open>git\<close> program, the hook
  scripts, the faults of the disk and what other tasks do while a per-repository lock is awaited are
  the fields of \<open>os\<close>. Every call that can change anything is recorded in \<open>w_log\<close>, so that what the
  manager does, and not only what it leaves, can be stated.
\<close>

section \<open>The file system\<close>

datatype node = DirNode int | FileNode int | LinkNode int "int option"

type_synonym files = "(bytes \<times> node) list"

text \<open>\<open>under p q\<close>: \<open>q\<close> is \<open>p\<close> or lies below it. Both are clean.\<close>

definition under :: "bytes \<Rightarrow> bytes \<Rightarrow> bool" where
  "under p q \<longleftrightarrow> q = p \<or> starts_with q (p @ [SLASH])"

datatype stat = NotFound | StatFailed | Stat node

fun is_dir_node :: "node \<Rightarrow> bool" where
  "is_dir_node (DirNode _) = True"
| "is_dir_node _ = False"

fun is_link_node :: "node \<Rightarrow> bool" where
  "is_link_node (LinkNode _ _) = True"
| "is_link_node _ = False"

text \<open>The time of a node itself, and of what a path leads to: a link is followed, a dangling one is not there.\<close>

fun node_mtime :: "node \<Rightarrow> int" where
  "node_mtime (DirNode t) = t"
| "node_mtime (FileNode t) = t"
| "node_mtime (LinkNode t _) = t"

fun target_mtime :: "node \<Rightarrow> int option" where
  "target_mtime (LinkNode _ t) = t"
| "target_mtime n = Some (node_mtime n)"

datatype call =
    RemoveAll bytes
  | MkdirAll bytes
  | RemoveFile bytes
  | Git bytes "bytes list" bool
  | Hook bytes bytes "bytes list"

record world =
  w_fs :: files
  w_log :: "call list"

text \<open>What the program runs on. \<open>os_left p q\<close>: removing \<open>p\<close> leaves \<open>q\<close> behind.\<close>

record os =
  os_stat_fault :: "bytes \<Rightarrow> bool"
  os_mkdir_fault :: "bytes \<Rightarrow> bool"
  os_left :: "bytes \<Rightarrow> bytes \<Rightarrow> bool"
  os_now :: int
  os_git :: "bytes \<Rightarrow> bytes list \<Rightarrow> files \<Rightarrow> (bytes \<times> bool) \<times> files"
  os_hook :: "bytes \<Rightarrow> bytes \<Rightarrow> bytes list \<Rightarrow> files \<Rightarrow> ws_error option \<times> files"
  os_await :: "bytes \<Rightarrow> files \<Rightarrow> files"

section \<open>Operations that can fail\<close>

type_synonym 'a op = "world \<Rightarrow> (ws_error, 'a) result \<times> world"

definition ret :: "'a \<Rightarrow> 'a op" where
  "ret x = (\<lambda>w. (Inr x, w))"

definition fail :: "ws_error \<Rightarrow> 'a op" where
  "fail e = (\<lambda>w. (Inl e, w))"

definition bind_op :: "'a op \<Rightarrow> ('a \<Rightarrow> 'b op) \<Rightarrow> 'b op" where
  "bind_op m f = (\<lambda>w. case m w of (Inl e, w') \<Rightarrow> (Inl e, w') | (Inr x, w') \<Rightarrow> f x w')"

text \<open>The result as a value: \<open>let _ = \<dots>\<close> and \<open>if let Err(e) = \<dots>\<close> go on after an error.\<close>

definition attempt :: "'a op \<Rightarrow> (ws_error, 'a) result op" where
  "attempt m = (\<lambda>w. case m w of (r, w') \<Rightarrow> (Inr r, w'))"

definition lstat :: "os \<Rightarrow> bytes \<Rightarrow> stat op" where
  "lstat os p = (\<lambda>w. (Inr (if os_stat_fault os p then StatFailed
      else case map_of (w_fs w) p of None \<Rightarrow> NotFound | Some n \<Rightarrow> Stat n), w))"

text \<open>\<open>std::fs::metadata\<close>: the time of what the path leads to, \<open>None\<close> for any error.\<close>

definition metadata :: "os \<Rightarrow> files \<Rightarrow> bytes \<Rightarrow> int option" where
  "metadata os fs p = (if os_stat_fault os p then None else Option.bind (map_of fs p) target_mtime)"

definition logged :: "call \<Rightarrow> files \<Rightarrow> world \<Rightarrow> world" where
  "logged c fs w = \<lparr>w_fs = fs, w_log = w_log w @ [c]\<rparr>"

text \<open>A path and its ancestors below the file system root, outermost first.\<close>

fun lineage_from :: "bytes \<Rightarrow> bytes list \<Rightarrow> bytes list" where
  "lineage_from p [] = []"
| "lineage_from p (c # cs) = (p @ SLASH # c) # lineage_from (p @ SLASH # c) cs"

definition lineage :: "bytes \<Rightarrow> bytes list" where
  "lineage p = lineage_from [] (components p)"

text \<open>\<open>DirBuilder::recursive\<close>: missing ancestors are made; an existing directory is no error.\<close>

definition mkdir_all :: "os \<Rightarrow> bytes \<Rightarrow> bool op" where
  "mkdir_all os p = (\<lambda>w.
     let fs = w_fs w;
         blocked = list_ex (\<lambda>q. case map_of fs q of None \<Rightarrow> False | Some n \<Rightarrow> \<not> is_dir_node n) (lineage p)
     in if os_mkdir_fault os p \<or> blocked then (Inr False, logged (MkdirAll p) fs w)
        else (Inr True, logged (MkdirAll p)
               (fs @ map (\<lambda>q. (q, DirNode (os_now os))) (filter (\<lambda>q. map_of fs q = None) (lineage p))) w))"

text \<open>\<open>remove_all\<close>: a missing path is success; otherwise it fails when something is left.\<close>

definition remove_all :: "os \<Rightarrow> bytes \<Rightarrow> bool op" where
  "remove_all os p = (\<lambda>w.
     let fs = w_fs w in
     if os_stat_fault os p then (Inr False, w)
     else case map_of fs p of
       None \<Rightarrow> (Inr True, w)
     | Some _ \<Rightarrow>
         let fs' = filter (\<lambda>(q, _). \<not> under p q \<or> os_left os p q) fs
         in (Inr (list_all (\<lambda>(q, _). \<not> under p q) fs'), logged (RemoveAll p) fs' w))"

definition git :: "os \<Rightarrow> bytes \<Rightarrow> bytes list \<Rightarrow> (bytes \<times> bool) op" where
  "git os d args = (\<lambda>w. case os_git os d args (w_fs w) of
      ((out, ok), fs) \<Rightarrow> (Inr (out, ok), logged (Git d args ok) fs w))"

text \<open>\<open>run_env\<close>: an empty script is not run; a failure is \<open>HookFailed\<close> or \<open>HookTimeout\<close>.\<close>

definition run_env :: "os \<Rightarrow> bytes \<Rightarrow> bytes \<Rightarrow> bytes \<Rightarrow> bytes list \<Rightarrow> unit op" where
  "run_env os name script d env = (\<lambda>w.
     if script = [] then (Inr (), w)
     else case os_hook os script d env (w_fs w) of
       (r, fs) \<Rightarrow> ((case r of None \<Rightarrow> Inr () | Some e \<Rightarrow> Inl e), logged (Hook name d env) fs w))"

text \<open>Taking the per-repository lock: others run until it is free.\<close>

definition acquire :: "os \<Rightarrow> bytes \<Rightarrow> unit op" where
  "acquire os key = (\<lambda>w. (Inr (), w\<lparr>w_fs := os_await os key (w_fs w)\<rparr>))"

definition do_git :: "os \<Rightarrow> bytes \<Rightarrow> bytes list \<Rightarrow> ws_error \<Rightarrow> unit op" where
  "do_git os d args e = bind_op (git os d args) (\<lambda>(_, ok). if ok then ret () else fail e)"

definition ignore :: "'a op \<Rightarrow> unit op" where
  "ignore m = bind_op (attempt m) (\<lambda>_. ret ())"

definition and_do :: "'a op \<Rightarrow> 'b op \<Rightarrow> 'b op" where
  "and_do m k = bind_op m (\<lambda>_. k)"

definition child_name :: "bytes \<Rightarrow> bytes \<Rightarrow> bytes option" where
  "child_name d q =
     (if starts_with q (d @ [SLASH])
      then let n = drop (length d + 1) q in if proper n then Some n else None
      else None)"

text \<open>\<open>read_dir\<close>: the names in a directory, \<open>None\<close> when it cannot be read.\<close>

definition read_dir :: "os \<Rightarrow> files \<Rightarrow> bytes \<Rightarrow> bytes list option" where
  "read_dir os fs d =
     (if os_stat_fault os d then None
      else case map_of fs d of
        Some (DirNode _) \<Rightarrow> Some (List.map_filter (child_name d) (map fst fs))
      | _ \<Rightarrow> None)"

definition is_dir_at :: "files \<Rightarrow> bytes \<Rightarrow> bool" where
  "is_dir_at fs p = (case map_of fs p of None \<Rightarrow> False | Some n \<Rightarrow> is_dir_node n)"

definition remove_file :: "os \<Rightarrow> bytes \<Rightarrow> bool op" where
  "remove_file os p = (\<lambda>w.
     case map_of (w_fs w) p of
       None \<Rightarrow> (Inr True, w)
     | Some n \<Rightarrow>
         if is_dir_node n \<or> os_left os p p then (Inr False, w)
         else (Inr True, logged (RemoveFile p) (filter (\<lambda>(q, _). q \<noteq> p) (w_fs w)) w))"

fun remove_files :: "os \<Rightarrow> bytes list \<Rightarrow> bool op" where
  "remove_files os [] = ret True"
| "remove_files os (p # ps) = bind_op (remove_file os p) (\<lambda>ok. if ok then remove_files os ps else ret False)"

section \<open>Stale locks and the mirror\<close>

definition ends_with :: "bytes \<Rightarrow> bytes \<Rightarrow> bool" where
  "ends_with s x \<longleftrightarrow> starts_with (rev s) (rev x)"

text \<open>The locks of one worktree's administration directory; the scan stops at a directory it cannot read.\<close>

fun worktree_locks :: "os \<Rightarrow> bytes list \<Rightarrow> bool op" where
  "worktree_locks os [] = ret True"
| "worktree_locks os (d # ds) = (\<lambda>w.
     if \<not> is_dir_at (w_fs w) d then worktree_locks os ds w
     else case read_dir os (w_fs w) d of
       None \<Rightarrow> (Inr False, w)
     | Some names \<Rightarrow>
         bind_op (remove_files os (map (\<lambda>n. join_path [d, n]) (filter (\<lambda>n. ends_with n ''.lock'') names)))
           (\<lambda>ok. if ok then worktree_locks os ds else ret False) w)"

text \<open>The glob \<open>worktrees/*/*.lock\<close>, with its early returns.\<close>

definition sweep_worktrees :: "os \<Rightarrow> bytes \<Rightarrow> bool op" where
  "sweep_worktrees os worktrees = (\<lambda>w.
     if os_stat_fault os worktrees then (Inr False, w)
     else case map_of (w_fs w) worktrees of
       None \<Rightarrow> (Inr True, w)
     | Some _ \<Rightarrow>
         (case read_dir os (w_fs w) worktrees of
            None \<Rightarrow> (Inr False, w)
          | Some names \<Rightarrow> worktree_locks os (map (\<lambda>n. join_path [worktrees, n]) names) w))"

definition clear_stale_locks :: "os \<Rightarrow> bytes \<Rightarrow> bool op" where
  "clear_stale_locks os git_dir =
     bind_op (remove_files os (map (\<lambda>n. join_path [git_dir, n]) [''index.lock'', ''HEAD.lock'', ''config.lock'', ''packed-refs.lock'']))
       (\<lambda>ok. if \<not> ok then ret False else sweep_worktrees os (join_path [git_dir, ''worktrees'']))"

record hook_scripts =
  after_create :: bytes
  before_run :: bytes
  after_run :: bytes
  before_remove :: bytes

record manager =
  mg_root :: bytes
  mg_hooks :: hook_scripts
  mg_ops :: ws_ops

text \<open>\<open>Manager::new\<close>: the root must be absolute and is kept clean.\<close>

definition manager_new :: "ws_ops \<Rightarrow> bytes \<Rightarrow> hook_scripts \<Rightarrow> (ws_error, manager) result" where
  "manager_new ops root hooks =
     (if \<not> starts_with root ''/'' then Inl PathOutsideRoot
      else Inr \<lparr>mg_root = clean root, mg_hooks = hooks, mg_ops = ops\<rparr>)"

definition hook_env :: "bytes \<Rightarrow> bytes \<Rightarrow> bytes \<Rightarrow> bytes list" where
  "hook_env repo_url project_slug identifier =
     [''SYMPHONY_REPO='' @ repo_url, ''SYMPHONY_PROJECT='' @ project_slug, ''SYMPHONY_ISSUE='' @ identifier,
      ''RHAPSODY_REPO='' @ repo_url, ''RHAPSODY_PROJECT='' @ project_slug, ''RHAPSODY_ISSUE='' @ identifier]"

definition clone_mirror :: "os \<Rightarrow> bytes \<Rightarrow> bytes \<Rightarrow> bytes op" where
  "clone_mirror os repo_url mirror =
     (let step = (\<lambda>d args. bind_op (git os d args) (\<lambda>(_, ok).
            if ok then ret () else and_do (remove_all os mirror) (fail MirrorClone))) in
      bind_op (mkdir_all os (dir_path mirror)) (\<lambda>ok.
      if \<not> ok then fail MirrorClone
      else
        and_do (step [] [''clone'', ''--bare'', ''--config'', ''gc.auto=0'', repo_url, mirror])
       (and_do (step mirror [''config'', ''remote.origin.fetch'', ''+refs/heads/*:refs/remotes/origin/*''])
       (and_do (step mirror [''fetch'', ''--prune'', ''origin''])
       (and_do (git os mirror [''remote'', ''set-head'', ''origin'', ''-a'']) (ret mirror))))))"

definition ensure_mirror :: "os \<Rightarrow> manager \<Rightarrow> bytes \<Rightarrow> bytes op" where
  "ensure_mirror os m repo_url =
     (let mirror = mirror_dir (mg_ops m) (mg_root m) repo_url in (\<lambda>w.
      if os_stat_fault os mirror then (Inl MirrorClone, w)
      else case metadata os (w_fs w) mirror of
        None \<Rightarrow> clone_mirror os repo_url mirror w
      | Some _ \<Rightarrow>
          and_do (ignore (clear_stale_locks os mirror))
         (and_do (ignore (git os mirror [''fetch'', ''--prune'', ''origin''])) (ret mirror)) w))"

text \<open>The default branch: the recorded \<open>origin/HEAD\<close>, then \<open>main\<close>, then \<open>master\<close>.\<close>

definition strip_origin :: "bytes \<Rightarrow> bytes" where
  "strip_origin s = (if starts_with s ''origin/'' then drop 7 s else s)"

definition default_branch :: "os \<Rightarrow> manager \<Rightarrow> bytes \<Rightarrow> bytes op" where
  "default_branch os m mirror =
     bind_op (git os mirror [''symbolic-ref'', ''--short'', ''refs/remotes/origin/HEAD'']) (\<lambda>(out, ok).
       let name = strip_origin (trim (wo_text (mg_ops m)) out);
           probe = (\<lambda>cand. git os mirror [''rev-parse'', ''--verify'', ''--quiet'', ''refs/remotes/origin/'' @ cand])
       in if ok \<and> name \<noteq> [] then ret name
          else bind_op (probe ''main'') (\<lambda>(_, ok).
            if ok then ret ''main''
            else bind_op (probe ''master'') (\<lambda>(_, ok). if ok then ret ''master'' else fail GitFailed)))"

section \<open>Provisioning\<close>

record workspace =
  ws_path :: bytes
  ws_key :: bytes
  ws_created_now :: bool

text \<open>The check every path makes of what is already there; \<open>True\<close> when there is a directory to reuse.\<close>

definition reuse_check :: "os \<Rightarrow> bytes \<Rightarrow> ws_error \<Rightarrow> bool op" where
  "reuse_check os path stat_error =
     bind_op (lstat os path) (\<lambda>st. case st of
        Stat n \<Rightarrow> if is_link_node n then fail WorkspaceSymlink
                  else if \<not> is_dir_node n then fail WorkspaceNotDir else ret True
      | NotFound \<Rightarrow> ret False
      | StatFailed \<Rightarrow> fail stat_error)"

definition from_result :: "(ws_error, unit) result \<Rightarrow> unit op" where
  "from_result r = (case r of Inl e \<Rightarrow> fail e | Inr _ \<Rightarrow> ret ())"

definition create_for_issue :: "os \<Rightarrow> manager \<Rightarrow> bytes \<Rightarrow> bytes \<Rightarrow> workspace op" where
  "create_for_issue os m project_slug identifier =
     (let key = sanitize_key identifier; path = join_path [mg_root m, key];
          script = after_create (mg_hooks m) in
      and_do (from_result (ensure_within_root (mg_root m) path))
     (bind_op (reuse_check os path WorkspaceCreate) (\<lambda>exists.
      bind_op (if exists then ret False
               else bind_op (mkdir_all os path) (\<lambda>ok. if ok then ret True else fail WorkspaceCreate)) (\<lambda>created_now.
      bind_op (if created_now \<and> script \<noteq> []
               then attempt (run_env os ''after_create'' script path (hook_env [] project_slug identifier))
               else ret (Inr ())) (\<lambda>r. case r of
        Inl e \<Rightarrow> and_do (remove_all os path) (fail e)
      | Inr _ \<Rightarrow> ret \<lparr>ws_path = path, ws_key = key, ws_created_now = created_now\<rparr>)))))"

text \<open>\<open>before_run\<close> and \<open>after_run\<close>.\<close>

definition before_run_hook :: "os \<Rightarrow> manager \<Rightarrow> workspace \<Rightarrow> bytes \<Rightarrow> bytes \<Rightarrow> bytes \<Rightarrow> unit op" where
  "before_run_hook os m ws repo_url project_slug identifier =
     run_env os ''before_run'' (before_run (mg_hooks m)) (ws_path ws) (hook_env repo_url project_slug identifier)"

definition after_run_hook :: "os \<Rightarrow> manager \<Rightarrow> workspace \<Rightarrow> bytes \<Rightarrow> bytes \<Rightarrow> bytes \<Rightarrow> unit op" where
  "after_run_hook os m ws repo_url project_slug identifier =
     run_env os ''after_run'' (after_run (mg_hooks m)) (ws_path ws) (hook_env repo_url project_slug identifier)"

text \<open>The fatal \<open>after_create\<close> of a worktree, rolled back under the lock when it fails.\<close>

definition after_create_or_roll_back ::
  "os \<Rightarrow> manager \<Rightarrow> bytes \<Rightarrow> bytes \<Rightarrow> bytes \<Rightarrow> bytes \<Rightarrow> bytes \<Rightarrow> unit op" where
  "after_create_or_roll_back os m mirror path repo_url project_slug identifier =
     (let script = after_create (mg_hooks m) in
      if script = [] then ret ()
      else bind_op (attempt (run_env os ''after_create'' script path (hook_env repo_url project_slug identifier))) (\<lambda>r.
        case r of
          Inr _ \<Rightarrow> ret ()
        | Inl e \<Rightarrow>
            and_do (acquire os (repo_key (mg_ops m) repo_url))
           (bind_op (git os mirror [''worktree'', ''remove'', ''--force'', path]) (\<lambda>(_, ok).
            and_do (if ok then ret True else remove_all os path)
           (and_do (git os mirror [''worktree'', ''prune'']) (fail e))))))"

text \<open>The names every repository-backed operation starts from, with the reserved name refused.\<close>

definition repo_paths :: "manager \<Rightarrow> bytes \<Rightarrow> bytes \<Rightarrow> (bytes \<times> bytes \<times> bytes) op" where
  "repo_paths m repo_url identifier =
     (let key = sanitize_key identifier;
          repo_dir = join_path [mg_root m, repo_key (mg_ops m) repo_url];
          path = join_path [repo_dir, key] in
      if key = MIRRORS_DIR_NAME then fail WorktreeOutsideRoot
      else case ensure_within_root (mg_root m) path of
        Inl _ \<Rightarrow> fail WorktreeOutsideRoot
      | Inr _ \<Rightarrow> ret (key, repo_dir, path))"

definition ensure_from_repo :: "os \<Rightarrow> manager \<Rightarrow> bytes \<Rightarrow> bytes \<Rightarrow> bytes \<Rightarrow> workspace op" where
  "ensure_from_repo os m repo_url project_slug identifier =
     (if repo_url = [] then create_for_issue os m project_slug identifier
      else bind_op (repo_paths m repo_url identifier) (\<lambda>(key, repo_dir, path).
        and_do (acquire os (repo_key (mg_ops m) repo_url))
       (bind_op (ensure_mirror os m repo_url) (\<lambda>mirror.
        bind_op (reuse_check os path WorkspaceStat) (\<lambda>exists.
        if exists then ret \<lparr>ws_path = path, ws_key = key, ws_created_now = False\<rparr>
        else
          and_do (ignore (clear_stale_locks os mirror))
         (bind_op (default_branch os m mirror) (\<lambda>base.
          and_do (ignore (git os mirror [''worktree'', ''prune'']))
         (bind_op (mkdir_all os repo_dir) (\<lambda>ok.
          if \<not> ok then fail WorktreeAdd
          else
            and_do (do_git os mirror [''worktree'', ''add'', ''-B'', ''symphony/'' @ key, path, ''origin/'' @ base] WorktreeAdd)
           (and_do (after_create_or_roll_back os m mirror path repo_url project_slug identifier)
              (ret \<lparr>ws_path = path, ws_key = key, ws_created_now = True\<rparr>)))))))))))"

definition ensure_clone_from_repo :: "os \<Rightarrow> manager \<Rightarrow> bytes \<Rightarrow> bytes \<Rightarrow> bytes \<Rightarrow> workspace op" where
  "ensure_clone_from_repo os m repo_url project_slug identifier =
     (let script = after_create (mg_hooks m) in
      if repo_url = [] then create_for_issue os m project_slug identifier
      else bind_op (repo_paths m repo_url identifier) (\<lambda>(key, repo_dir, path).
        and_do (acquire os (repo_key (mg_ops m) repo_url))
       (bind_op (reuse_check os path WorkspaceStat) (\<lambda>exists.
        if exists then ret \<lparr>ws_path = path, ws_key = key, ws_created_now = False\<rparr>
        else
          let step = (\<lambda>d args. bind_op (git os d args) (\<lambda>(_, ok).
                if ok then ret () else and_do (remove_all os path) (fail CloneFailed))) in
          bind_op (mkdir_all os repo_dir) (\<lambda>ok.
          if \<not> ok then fail CloneFailed
          else
            and_do (step [] [''clone'', ''--config'', ''gc.auto=0'', repo_url, path])
           (and_do (step path [''checkout'', ''-B'', ''symphony/'' @ key])
           (bind_op (if script = [] then ret (Inr ())
                     else attempt (run_env os ''after_create'' script path (hook_env repo_url project_slug identifier))) (\<lambda>r.
            case r of
              Inl e \<Rightarrow> and_do (remove_all os path) (fail e)
            | Inr _ \<Rightarrow> ret \<lparr>ws_path = path, ws_key = key, ws_created_now = True\<rparr>))))))))"

text \<open>A review checkout is pinned to one commit: detached, and reset to it when the directory is reused.\<close>

definition review_checkout ::
  "os \<Rightarrow> manager \<Rightarrow> bytes \<Rightarrow> bytes \<times> bytes \<times> bytes \<Rightarrow> bytes \<Rightarrow> bytes \<Rightarrow> bytes \<Rightarrow> bytes \<Rightarrow> workspace op" where
  "review_checkout os m mirror = (\<lambda>(key, repo_dir, path) repo_url project_slug identifier head_sha.
     bind_op (reuse_check os path WorkspaceStat) (\<lambda>exists.
        if exists then
          and_do (do_git os path [''checkout'', ''--force'', ''--detach'', head_sha] ReviewCheckout)
         (and_do (do_git os path [''reset'', ''--hard'', head_sha] ReviewCheckout)
         (and_do (ignore (git os path [''clean'', ''-fd'']))
            (ret \<lparr>ws_path = path, ws_key = key, ws_created_now = False\<rparr>)))
        else
          and_do (ignore (clear_stale_locks os mirror))
         (and_do (ignore (git os mirror [''worktree'', ''prune'']))
         (bind_op (mkdir_all os repo_dir) (\<lambda>ok.
          if \<not> ok then fail WorktreeAdd
          else
            and_do (do_git os mirror [''worktree'', ''add'', ''--detach'', path, head_sha] WorktreeAdd)
           (and_do (after_create_or_roll_back os m mirror path repo_url project_slug identifier)
              (ret \<lparr>ws_path = path, ws_key = key, ws_created_now = True\<rparr>)))))))"

definition ensure_review_worktree ::
  "os \<Rightarrow> manager \<Rightarrow> (int \<Rightarrow> bytes) \<Rightarrow> bytes \<Rightarrow> bytes \<Rightarrow> bytes \<Rightarrow> int \<Rightarrow> bytes \<Rightarrow> workspace op" where
  "ensure_review_worktree os m decimal repo_url project_slug identifier pr_number head_sha =
     (if repo_url = [] then fail ReviewCheckout
      else if pr_number \<le> 0 then fail ReviewCheckout
      else if \<not> is_commit_sha head_sha then fail ReviewCheckout
      else bind_op (repo_paths m repo_url identifier) (\<lambda>paths.
        and_do (acquire os (repo_key (mg_ops m) repo_url))
       (bind_op (ensure_mirror os m repo_url) (\<lambda>mirror.
        and_do (ignore (git os mirror [''fetch'', ''--force'', ''origin'',
            ''+refs/pull/'' @ decimal pr_number @ ''/head:refs/rhapsody/review/pr/'' @ decimal pr_number]))
       (and_do (do_git os mirror [''cat-file'', ''-e'', head_sha @ ''^{commit}''] ReviewCheckout)
          (review_checkout os m mirror paths repo_url project_slug identifier head_sha))))))"

section \<open>What is there, and removal\<close>

definition worktree_exists :: "os \<Rightarrow> manager \<Rightarrow> files \<Rightarrow> bytes \<Rightarrow> bytes \<Rightarrow> bool" where
  "worktree_exists os m fs repo_url identifier =
     (let key = sanitize_key identifier;
          path = (if repo_url = [] then join_path [mg_root m, key]
                  else join_path [mg_root m, repo_key (mg_ops m) repo_url, key]) in
      if key = MIRRORS_DIR_NAME then False
      else \<not> os_stat_fault os path \<and> map_of fs path \<noteq> None)"

definition strip_suffix :: "bytes \<Rightarrow> bytes \<Rightarrow> bytes option" where
  "strip_suffix x s = (if ends_with s x then Some (take (length s - length x) s) else None)"

definition mirror_key_set :: "os \<Rightarrow> manager \<Rightarrow> files \<Rightarrow> bytes list" where
  "mirror_key_set os m fs =
     (case read_dir os fs (join_path [mg_root m, MIRRORS_DIR_NAME]) of
        None \<Rightarrow> []
      | Some names \<Rightarrow> List.map_filter (strip_suffix ''.git'') names)"

definition dir_is_git_checkout :: "os \<Rightarrow> files \<Rightarrow> bytes \<Rightarrow> bool" where
  "dir_is_git_checkout os fs d =
     (let p = join_path [d, ''.git''] in \<not> os_stat_fault os p \<and> map_of fs p \<noteq> None)"

text \<open>A top-level directory that holds a repository's worktrees or clones, not a workspace itself.\<close>

definition is_namespace :: "os \<Rightarrow> manager \<Rightarrow> files \<Rightarrow> bytes list \<Rightarrow> bytes \<Rightarrow> bool" where
  "is_namespace os m fs mirror_keys name \<longleftrightarrow>
     name \<in> set mirror_keys \<or>
     (looks_like_repo_key name \<and> \<not> dir_is_git_checkout os fs (join_path [mg_root m, name]))"

definition worktree_keys :: "os \<Rightarrow> manager \<Rightarrow> files \<Rightarrow> bytes \<Rightarrow> bytes list" where
  "worktree_keys os m fs repo_url =
     (if repo_url = [] then
        (let mirror_keys = mirror_key_set os m fs in
         case read_dir os fs (mg_root m) of
           None \<Rightarrow> []
         | Some names \<Rightarrow>
             filter (\<lambda>name. name \<noteq> MIRRORS_DIR_NAME \<and> is_dir_at fs (join_path [mg_root m, name]) \<and>
                            \<not> is_namespace os m fs mirror_keys name) names)
      else
        (let repo_dir = join_path [mg_root m, repo_key (mg_ops m) repo_url] in
         case read_dir os fs repo_dir of
           None \<Rightarrow> []
         | Some names \<Rightarrow> filter (\<lambda>name. is_dir_at fs (join_path [repo_dir, name])) names))"

text \<open>The legacy \<open>remove\<close>. Its containment and symlink checks come before the hook.\<close>

definition remove_issue :: "os \<Rightarrow> manager \<Rightarrow> bytes \<Rightarrow> bytes \<Rightarrow> unit op" where
  "remove_issue os m project_slug identifier =
     (let path = join_path [mg_root m, sanitize_key identifier]; script = before_remove (mg_hooks m) in
      and_do (from_result (ensure_within_root (mg_root m) path))
     (and_do (bind_op (lstat os path) (\<lambda>st. case st of
         Stat n \<Rightarrow>
           if is_link_node n then fail WorkspaceSymlink
           else if is_dir_node n \<and> script \<noteq> []
           then ignore (run_env os ''before_remove'' script path (hook_env [] project_slug identifier))
           else ret ()
       | _ \<Rightarrow> ret ()))
     (bind_op (remove_all os path) (\<lambda>ok. if ok then ret () else fail WorkspaceRemove))))"

definition remove_worktree :: "os \<Rightarrow> manager \<Rightarrow> bytes \<Rightarrow> bytes \<Rightarrow> bytes \<Rightarrow> unit op" where
  "remove_worktree os m repo_url project_slug identifier =
     (if repo_url = [] then remove_issue os m project_slug identifier
      else
        let key = sanitize_key identifier;
            path = join_path [mg_root m, repo_key (mg_ops m) repo_url, key];
            script = before_remove (mg_hooks m);
            hook = (if script \<noteq> []
                    then ignore (run_env os ''before_remove'' script path (hook_env repo_url project_slug identifier))
                    else ret ());
            delete = bind_op (remove_all os path) (\<lambda>ok. if ok then ret () else fail WorktreeRemove);
            mirror = mirror_dir (mg_ops m) (mg_root m) repo_url in
        if key = MIRRORS_DIR_NAME then fail WorktreeOutsideRoot
        else case ensure_within_root (mg_root m) path of
          Inl _ \<Rightarrow> fail WorktreeOutsideRoot
        | Inr _ \<Rightarrow>
            and_do (acquire os (repo_key (mg_ops m) repo_url))
           (bind_op (lstat os path) (\<lambda>st. case st of
              NotFound \<Rightarrow> ret ()
            | StatFailed \<Rightarrow> fail WorkspaceStat
            | Stat n \<Rightarrow>
                if is_link_node n then fail WorkspaceSymlink
                else (\<lambda>w.
                  let git_entry = join_path [path, ''.git''] in
                  if \<not> os_stat_fault os git_entry \<and> is_dir_at (w_fs w) git_entry
                  then and_do hook delete w
                  else
                    and_do hook
                   (and_do (ignore (clear_stale_locks os mirror))
                   (bind_op (git os mirror [''worktree'', ''remove'', ''--force'', path]) (\<lambda>(_, ok).
                    and_do (if ok then ret True else remove_all os path)
                   (and_do (ignore (git os mirror [''worktree'', ''prune'']))
                      (\<lambda>w. if metadata os (w_fs w) path = None then (Inr (), w) else delete w))))) w))))"

section \<open>Invariants of an operation\<close>

definition keeps :: "(world \<Rightarrow> bool) \<Rightarrow> 'a op \<Rightarrow> bool" where
  "keeps I m \<longleftrightarrow> (\<forall>w. I w \<longrightarrow> I (snd (m w)))"

named_theorems keeps_intros \<open>an operation keeps what its parts keep\<close>

lemma keepsI: "(\<And>w. I w \<Longrightarrow> I (snd (m w))) \<Longrightarrow> keeps I m"
  by (simp add: keeps_def)

lemma keepsD: "keeps I m \<Longrightarrow> I w \<Longrightarrow> I (snd (m w))"
  by (simp add: keeps_def)

lemma keeps_ret [keeps_intros]: "keeps I (ret x)" and keeps_fail [keeps_intros]: "keeps I (fail e)"
  by (simp_all add: keeps_def ret_def fail_def)

lemma keeps_bind [keeps_intros]: "keeps I m \<Longrightarrow> (\<And>x. keeps I (f x)) \<Longrightarrow> keeps I (bind_op m f)"
  by (auto simp: keeps_def bind_op_def split: prod.splits sum.splits)

lemma keeps_attempt [keeps_intros]: "keeps I m \<Longrightarrow> keeps I (attempt m)"
  by (auto simp: keeps_def attempt_def split: prod.splits)

lemma keeps_and_do [keeps_intros]: "keeps I m \<Longrightarrow> keeps I k \<Longrightarrow> keeps I (and_do m k)"
  by (simp add: and_do_def keeps_bind)

lemma keeps_ignore [keeps_intros]: "keeps I m \<Longrightarrow> keeps I (ignore m)"
  by (simp add: ignore_def keeps_intros)

lemma keeps_if [keeps_intros]: "(b \<Longrightarrow> keeps I m) \<Longrightarrow> (\<not> b \<Longrightarrow> keeps I k) \<Longrightarrow> keeps I (if b then m else k)"
  by simp

lemma keeps_sum [keeps_intros]:
  "(\<And>e. keeps I (f e)) \<Longrightarrow> (\<And>x. keeps I (g x)) \<Longrightarrow> keeps I (case r of Inl e \<Rightarrow> f e | Inr x \<Rightarrow> g x)"
  by (cases r) auto

lemma keeps_prod [keeps_intros]: "(\<And>a b. keeps I (f a b)) \<Longrightarrow> keeps I (case p of (a, b) \<Rightarrow> f a b)"
  by (cases p) auto

lemma keeps_stat [keeps_intros]:
  "keeps I a \<Longrightarrow> keeps I b \<Longrightarrow> (\<And>n. keeps I (f n)) \<Longrightarrow>
   keeps I (case st of NotFound \<Rightarrow> a | StatFailed \<Rightarrow> b | Stat n \<Rightarrow> f n)"
  by (cases st) auto

lemma keeps_world_if [keeps_intros]:
  "keeps I m \<Longrightarrow> keeps I k \<Longrightarrow> keeps I (\<lambda>w. if b w then m w else k w)"
  by (simp add: keeps_def)

lemma keeps_lstat [keeps_intros]: "keeps I (lstat os p)"
  by (simp add: keeps_def lstat_def)

lemma keeps_from_result [keeps_intros]: "keeps I (from_result r)"
  by (cases r) (simp_all add: from_result_def keeps_intros)

lemma keeps_reuse_check [keeps_intros]: "keeps I (reuse_check os path e)"
  unfolding reuse_check_def by (intro keeps_intros)

lemma keeps_do_git [keeps_intros]: "keeps I (git os d args) \<Longrightarrow> keeps I (do_git os d args e)"
  unfolding do_git_def by (intro keeps_intros)

lemma keeps_remove_files: "(\<And>p. p \<in> set ps \<Longrightarrow> keeps I (remove_file os p)) \<Longrightarrow> keeps I (remove_files os ps)"
  by (induction ps) (auto intro!: keeps_intros)

text \<open>The lock files a sweep may remove: below the mirror, under a name that ends in \<open>.lock\<close>.\<close>

definition lock_file :: "bytes \<Rightarrow> bytes \<Rightarrow> bool" where
  "lock_file mirror p \<longleftrightarrow> (\<exists>ks n. p = join_path (mirror # ks @ [n]) \<and> list_all proper (ks @ [n]) \<and> ends_with n ''.lock'')"

lemma read_dir_proper: "read_dir os fs d = Some names \<Longrightarrow> list_all proper names"
  by (auto simp: read_dir_def child_name_def list_all_iff map_filter_def Let_def
           split: if_splits option.splits node.splits)

lemma join_path_nested:
  assumes "is_rooted root" "list_all proper ks" "list_all proper ls"
  shows "join_path (join_path (root # ks) # ls) = join_path (root # ks @ ls)"
proof -
  note a = components_join [OF assms(1,2)]
  note b = components_join [OF a(1) assms(3)]
  have kl: "list_all proper (ks @ ls)" using assms by simp
  note c = components_join [OF assms(1) kl]
  have "join_path (join_path (root # ks) # ls) = SLASH # join_slash (components root @ ks @ ls)"
    using b a(2) clean_rooted [OF b(1)] by simp
  also have "\<dots> = join_path (root # ks @ ls)" using c clean_rooted [OF c(1)] by simp
  finally show ?thesis .
qed

lemma keeps_worktree_locks:
  assumes "\<And>d n. d \<in> set ds \<Longrightarrow> proper n \<Longrightarrow> ends_with n ''.lock'' \<Longrightarrow> keeps I (remove_file os (join_path [d, n]))"
  shows "keeps I (worktree_locks os ds)"
  using assms
proof (induction ds)
  case (Cons d ds)
  then have rest: "keeps I (worktree_locks os ds)" by simp
  show ?case
  proof (rule keepsI)
    fix w assume I: "I w"
    show "I (snd (worktree_locks os (d # ds) w))"
    proof (cases "is_dir_at (w_fs w) d")
      case True
      show ?thesis
      proof (cases "read_dir os (w_fs w) d")
        case (Some names)
        let ?ps = "map (\<lambda>n. join_path [d, n]) (filter (\<lambda>n. ends_with n ''.lock'') names)"
        have "keeps I (remove_files os ?ps)"
          using read_dir_proper [OF Some] Cons.prems by (intro keeps_remove_files) (auto simp: list_all_iff)
        then have "keeps I (bind_op (remove_files os ?ps) (\<lambda>ok. if ok then worktree_locks os ds else ret False))"
          by (intro keeps_intros rest)
        with True Some I show ?thesis by (auto dest: keepsD)
      qed (use True I in simp)
    qed (use rest I in \<open>auto dest: keepsD\<close>)
  qed
qed (simp add: keeps_intros)

lemma lock_file_literal: "proper n \<Longrightarrow> ends_with n ''.lock'' \<Longrightarrow> lock_file mirror (join_path [mirror, n])"
  unfolding lock_file_def by (intro exI [of _ "[]"] exI [of _ n]) simp

lemma lock_file_nested:
  assumes "is_rooted mirror" "proper d" "proper n" "ends_with n ''.lock''"
  shows "lock_file mirror (join_path [join_path [join_path [mirror, ''worktrees''], d], n])"
proof -
  have wt: "list_all proper [''worktrees'']" by (simp add: proper_def element_def not_slash_def)
  have "join_path [join_path [join_path [mirror, ''worktrees''], d], n] = join_path (mirror # [''worktrees'', d] @ [n])"
    using join_path_nested [OF assms(1) wt, of "[d]"] join_path_nested [OF assms(1), of "[''worktrees'', d]" "[n]"]
      wt assms by simp
  then show ?thesis
    unfolding lock_file_def using wt assms by (intro exI [of _ "[''worktrees'', d]"] exI [of _ n]) simp
qed

lemma keeps_clear_stale_locks:
  assumes rooted: "is_rooted mirror" and locks: "\<And>p. lock_file mirror p \<Longrightarrow> keeps I (remove_file os p)"
  shows "keeps I (clear_stale_locks os mirror)"
proof -
  have "proper n \<and> ends_with n ''.lock''" if "n \<in> set [''index.lock'', ''HEAD.lock'', ''config.lock'', ''packed-refs.lock'']" for n
    using that by (auto simp: proper_def element_def not_slash_def ends_with_def)
  then have "keeps I (remove_files os (map (\<lambda>n. join_path [mirror, n]) [''index.lock'', ''HEAD.lock'', ''config.lock'', ''packed-refs.lock'']))"
    using lock_file_literal by (intro keeps_remove_files locks) (simp only: set_map image_iff, blast)
  moreover have "keeps I (sweep_worktrees os (join_path [mirror, ''worktrees'']))"
  proof (rule keepsI)
    fix w assume "I w"
    moreover have "keeps I (worktree_locks os (map (\<lambda>n. join_path [join_path [mirror, ''worktrees''], n]) names))"
      if "read_dir os (w_fs w) (join_path [mirror, ''worktrees'']) = Some names" for names
      using read_dir_proper [OF that] lock_file_nested [OF rooted]
      by (intro keeps_worktree_locks locks) (auto simp: list_all_iff)
    ultimately show "I (snd (sweep_worktrees os (join_path [mirror, ''worktrees'']) w))"
      by (auto simp: sweep_worktrees_def keeps_def split: option.splits)
  qed
  ultimately show ?thesis unfolding clear_stale_locks_def by (intro keeps_intros)
qed

section \<open>What the operations rely on\<close>

text \<open>
  The directories of one workspace: its path, its repository's directory and its mirror.
\<close>

definition worktree_path :: "manager \<Rightarrow> bytes \<Rightarrow> bytes \<Rightarrow> bytes" where
  "worktree_path m repo_url identifier = path_for (mg_ops m) (mg_root m) repo_url identifier"

definition mirror_of :: "manager \<Rightarrow> bytes \<Rightarrow> bytes" where
  "mirror_of m repo_url = mirror_dir (mg_ops m) (mg_root m) repo_url"

definition manager_ok :: "manager \<Rightarrow> bool" where
  "manager_ok m \<longleftrightarrow> is_rooted (mg_root m) \<and> digest_ok (mg_ops m)"

lemma manager_new_ok: "manager_new ops root hooks = Inr m \<Longrightarrow> digest_ok ops \<Longrightarrow> manager_ok m"
proof -
  assume new: "manager_new ops root hooks = Inr m" and "digest_ok ops"
  then have "is_rooted root" by (cases root) (auto simp: manager_new_def is_rooted_def split: if_splits)
  with new \<open>digest_ok ops\<close> show "manager_ok m" by (auto simp: manager_new_def manager_ok_def split: if_splits)
qed

lemma repo_path_eq:
  assumes "manager_ok m" "repo_url \<noteq> []"
  shows "join_path [join_path [mg_root m, repo_key (mg_ops m) repo_url], sanitize_key identifier] = worktree_path m repo_url identifier"
    and "join_path [mg_root m, repo_key (mg_ops m) repo_url, sanitize_key identifier] = worktree_path m repo_url identifier"
proof -
  have "list_all proper [repo_key (mg_ops m) repo_url]"
    using assms repo_key_shape_proper [OF repo_key_shape] by (auto simp: manager_ok_def)
  with assms join_path_nested [of "mg_root m" "[repo_key (mg_ops m) repo_url]" "[sanitize_key identifier]"]
  show "join_path [join_path [mg_root m, repo_key (mg_ops m) repo_url], sanitize_key identifier] = worktree_path m repo_url identifier"
    "join_path [mg_root m, repo_key (mg_ops m) repo_url, sanitize_key identifier] = worktree_path m repo_url identifier"
    by (simp_all add: manager_ok_def sanitize_key_proper worktree_path_def path_for_def)
qed

lemma legacy_path_eq: "join_path [mg_root m, sanitize_key identifier] = worktree_path m [] identifier"
  by (simp add: worktree_path_def path_for_def)

lemma mirror_rooted: "manager_ok m \<Longrightarrow> is_rooted (mirror_of m repo_url)"
  unfolding mirror_of_def mirror_dir_def manager_ok_def
  using components_join(1) mirror_names_proper by blast

lemma worktree_path_within: "manager_ok m \<Longrightarrow> ensure_within_root (mg_root m) (worktree_path m url ident) = Inr ()"
  by (simp add: worktree_path_def path_for_within manager_ok_def)

lemma repo_paths_eq:
  assumes "manager_ok m" "repo_url \<noteq> []"
  shows "repo_paths m repo_url identifier =
     (if sanitize_key identifier = MIRRORS_DIR_NAME then fail WorktreeOutsideRoot
      else ret (sanitize_key identifier, join_path [mg_root m, repo_key (mg_ops m) repo_url], worktree_path m repo_url identifier))"
  using assms by (simp add: repo_paths_def repo_path_eq worktree_path_within Let_def)

lemma bind_fail [simp]: "bind_op (fail e) f = fail e" and bind_ret [simp]: "bind_op (ret x) f = f x"
  by (simp_all add: bind_op_def fail_def ret_def)

text \<open>The values an operation can return.\<close>

definition returns :: "'a op \<Rightarrow> 'a \<Rightarrow> bool" where
  "returns p x \<longleftrightarrow> (\<exists>w w'. p w = (Inr x, w'))"

lemma keeps_bind_returns: "keeps I p \<Longrightarrow> (\<And>x. returns p x \<Longrightarrow> keeps I (f x)) \<Longrightarrow> keeps I (bind_op p f)"
  by (auto simp: keeps_def returns_def bind_op_def split: prod.splits sum.splits) (metis snd_conv)

lemma bind_Inr:
  "bind_op p f w = (Inr y, w') \<longleftrightarrow> (\<exists>x w1. p w = (Inr x, w1) \<and> f x w1 = (Inr y, w'))"
  by (auto simp: bind_op_def split: prod.splits sum.splits)

lemma bind_Inl:
  "bind_op p f w = (Inl e, w') \<longleftrightarrow>
   p w = (Inl e, w') \<or> (\<exists>x w1. p w = (Inr x, w1) \<and> f x w1 = (Inl e, w'))"
  by (auto simp: bind_op_def split: prod.splits sum.splits)

lemma bind_InrE:
  assumes "bind_op p f w = (Inr y, w')"
  obtains x w1 where "p w = (Inr x, w1)" "f x w1 = (Inr y, w')"
  using assms by (auto simp: bind_Inr)

lemma bind_InlE:
  assumes "bind_op p f w = (Inl e, w')"
  obtains "p w = (Inl e, w')" | x w1 where "p w = (Inr x, w1)" "f x w1 = (Inl e, w')"
  using assms by (auto simp: bind_Inl)

lemmas op_splits = if_split_asm option.split_asm sum.split_asm stat.split_asm prod.split_asm

lemma fail_Inr [simp]: "fail e w \<noteq> (Inr x, w')" and fail_Inl [simp]: "fail e w = (Inl e', w') \<longleftrightarrow> e' = e \<and> w' = w"
  by (auto simp: fail_def)

lemma ret_Inl [simp]: "ret x w \<noteq> (Inl e, w')" and ret_Inr [simp]: "ret x w = (Inr y, w') \<longleftrightarrow> y = x \<and> w' = w"
  by (auto simp: ret_def)

lemma ensure_mirror_returns: "ensure_mirror os m url w = (Inr x, w') \<Longrightarrow> x = mirror_of m url"
  by (auto simp: ensure_mirror_def clone_mirror_def mirror_of_def Let_def and_do_def bind_Inr
           split: if_splits option.splits)

lemma from_result_within [simp]:
  "manager_ok m \<Longrightarrow> from_result (ensure_within_root (mg_root m) (worktree_path m url ident)) = ret ()"
  by (simp add: from_result_def worktree_path_within)

lemma and_do_ret [simp]: "and_do (ret x) k = k"
  by (simp add: and_do_def)

section \<open>One contract for every operation\<close>

text \<open>
  What the operations of a workspace may do, as the interface between them and an invariant of the
  world: calls of \<open>git\<close> in the mirror or the workspace, the removal of these two directories, making
  the workspace's, the repository's and the mirror store's directory, removing the mirror's lock files,
  hooks in the workspace, and waiting for the lock. Whatever these keep, every operation keeps.
\<close>

locale workspace_invariant =
  fixes os :: os and m :: manager and repo_url ident :: bytes and I :: "world \<Rightarrow> bool"
  assumes git_keeps: "d \<in> {[], mirror_of m repo_url, worktree_path m repo_url ident} \<Longrightarrow> keeps I (git os d args)"
    and remove_keeps: "p \<in> {worktree_path m repo_url ident, mirror_of m repo_url} \<Longrightarrow> keeps I (remove_all os p)"
    and mkdir_keeps: "p \<in> {worktree_path m repo_url ident, join_path [mg_root m, repo_key (mg_ops m) repo_url],
          dir_path (mirror_of m repo_url)} \<Longrightarrow> keeps I (mkdir_all os p)"
    and lock_keeps: "lock_file (mirror_of m repo_url) p \<Longrightarrow> keeps I (remove_file os p)"
    and hook_keeps: "keeps I (run_env os name script (worktree_path m repo_url ident) env)"
    and await_keeps: "keeps I (acquire os key)"
begin

lemma locks_keep: "manager_ok m \<Longrightarrow> keeps I (clear_stale_locks os (mirror_of m repo_url))"
  by (intro keeps_clear_stale_locks mirror_rooted lock_keeps)

lemma mirror_keeps:
  assumes manager: "manager_ok m"
  shows "keeps I (ensure_mirror os m repo_url)"
proof -
  have clone: "keeps I (clone_mirror os repo_url (mirror_of m repo_url))"
    unfolding clone_mirror_def Let_def by (intro keeps_intros git_keeps remove_keeps mkdir_keeps) simp_all
  have reuse: "keeps I (and_do (ignore (clear_stale_locks os (mirror_of m repo_url)))
      (and_do (ignore (git os (mirror_of m repo_url) [''fetch'', ''--prune'', ''origin''])) (ret (mirror_of m repo_url))))"
    by (intro keeps_intros locks_keep git_keeps manager) simp
  show ?thesis
    unfolding ensure_mirror_def Let_def mirror_of_def [symmetric]
    using clone reuse by (auto simp: keeps_def split: option.splits)
qed

lemma branch_keeps: "keeps I (default_branch os m (mirror_of m repo_url))"
  unfolding default_branch_def Let_def by (intro keeps_intros git_keeps) simp_all

lemma roll_back_keeps:
  "keeps I (after_create_or_roll_back os m (mirror_of m repo_url) (worktree_path m repo_url ident) repo_url slug name)"
  unfolding after_create_or_roll_back_def Let_def
  by (intro keeps_intros hook_keeps await_keeps git_keeps remove_keeps) simp_all

lemma mirrored_keeps:
  "manager_ok m \<Longrightarrow> keeps I (f (mirror_of m repo_url)) \<Longrightarrow> keeps I (bind_op (ensure_mirror os m repo_url) f)"
  by (intro keeps_bind_returns mirror_keeps) (auto simp: returns_def dest: ensure_mirror_returns)

lemmas tools_keep = locks_keep branch_keeps roll_back_keeps hook_keeps await_keeps
  git_keeps remove_keeps mkdir_keeps mirrored_keeps

lemma create_keeps:
  assumes manager: "manager_ok m" and legacy: "repo_url = []"
  shows "keeps I (create_for_issue os m slug ident)"
  unfolding create_for_issue_def Let_def legacy_path_eq using manager
  by (intro keeps_intros) (simp_all add: hook_keeps [unfolded legacy] remove_keeps [unfolded legacy] mkdir_keeps [unfolded legacy])

lemma ensure_from_repo_keeps:
  assumes manager: "manager_ok m"
  shows "keeps I (ensure_from_repo os m repo_url slug ident)"
proof (cases "repo_url = []")
  case True
  then show ?thesis using create_keeps [OF manager] by (simp add: ensure_from_repo_def)
next
  case False
  then show ?thesis
    using manager unfolding ensure_from_repo_def repo_paths_eq [OF manager False]
    by (cases "sanitize_key ident = MIRRORS_DIR_NAME")
       (simp_all add: keeps_fail, intro tools_keep keeps_intros, simp_all)
qed

lemma ensure_clone_keeps:
  assumes manager: "manager_ok m"
  shows "keeps I (ensure_clone_from_repo os m repo_url slug ident)"
proof (cases "repo_url = []")
  case True
  then show ?thesis using create_keeps [OF manager] by (simp add: ensure_clone_from_repo_def)
next
  case False
  show ?thesis
  proof (cases "sanitize_key ident = MIRRORS_DIR_NAME")
    case True
    with False manager show ?thesis by (simp add: ensure_clone_from_repo_def repo_paths_eq keeps_fail)
  next
    case key: False
    with False manager show ?thesis
      unfolding ensure_clone_from_repo_def Let_def
      by (simp add: repo_paths_eq) (intro tools_keep keeps_intros impI conjI, simp_all)
  qed
qed

lemma ensure_review_keeps:
  assumes manager: "manager_ok m"
  shows "keeps I (ensure_review_worktree os m decimal repo_url slug ident pr sha)"
proof (cases "repo_url = [] \<or> sanitize_key ident = MIRRORS_DIR_NAME")
  case True
  then show ?thesis using manager
    by (cases "repo_url = []") (auto simp: ensure_review_worktree_def repo_paths_eq intro!: keeps_intros)
next
  case False
  then show ?thesis
    using manager by (simp add: ensure_review_worktree_def review_checkout_def repo_paths_eq) (intro tools_keep keeps_intros impI conjI, simp_all)
qed

lemma remove_keeps_all:
  assumes manager: "manager_ok m"
  shows "keeps I (remove_worktree os m repo_url slug ident)"
proof (cases "repo_url = []")
  case True
  then show ?thesis
    unfolding remove_worktree_def remove_issue_def Let_def legacy_path_eq using manager
    by (auto intro!: keeps_intros hook_keeps [unfolded True] remove_keeps [unfolded True])
next
  case False
  have metadata: "keeps I (\<lambda>w. if metadata os (w_fs w) p = None then (Inr (), w) else k w)" if "keeps I k" for p k
    using that by (simp add: keeps_def)
  show ?thesis
    using False manager
    unfolding remove_worktree_def Let_def repo_path_eq(2) [OF manager False] mirror_of_def [symmetric]
      worktree_path_within [OF manager]
    by (intro tools_keep keeps_intros metadata) simp_all
qed

end

text \<open>The calls of one workspace.\<close>

fun call_allowed :: "manager \<Rightarrow> bytes \<Rightarrow> bytes \<Rightarrow> call \<Rightarrow> bool" where
  "call_allowed m url ident (RemoveAll p) \<longleftrightarrow> p = worktree_path m url ident \<or> p = mirror_of m url"
| "call_allowed m url ident (MkdirAll p) \<longleftrightarrow>
     p = worktree_path m url ident \<or> p = join_path [mg_root m, repo_key (mg_ops m) url] \<or> p = dir_path (mirror_of m url)"
| "call_allowed m url ident (RemoveFile p) \<longleftrightarrow> lock_file (mirror_of m url) p"
| "call_allowed m url ident (Git d _ _) \<longleftrightarrow> d = [] \<or> d = mirror_of m url \<or> d = worktree_path m url ident"
| "call_allowed m url ident (Hook _ d _) \<longleftrightarrow> d = worktree_path m url ident"

definition new_calls :: "(call \<Rightarrow> bool) \<Rightarrow> call list \<Rightarrow> world \<Rightarrow> bool" where
  "new_calls P l w \<longleftrightarrow> (\<exists>cs. w_log w = l @ cs \<and> list_all P cs)"

lemma new_calls_start: "new_calls P (w_log w) w"
  by (simp add: new_calls_def)

lemma new_calls_logged: "new_calls P l w \<Longrightarrow> P c \<Longrightarrow> new_calls P l (logged c fs w)"
  by (auto simp: new_calls_def logged_def)

lemma tools_new_calls:
  "(\<And>ok. P (Git d args ok)) \<Longrightarrow> keeps (new_calls P l) (git os d args)"
  "P (RemoveAll p) \<Longrightarrow> keeps (new_calls P l) (remove_all os p)"
  "P (MkdirAll p) \<Longrightarrow> keeps (new_calls P l) (mkdir_all os p)"
  "P (RemoveFile p) \<Longrightarrow> keeps (new_calls P l) (remove_file os p)"
  "(\<And>env. P (Hook name d env)) \<Longrightarrow> keeps (new_calls P l) (run_env os name script d env)"
  "keeps (new_calls P l) (acquire os key)"
  by (auto simp: keeps_def git_def remove_all_def mkdir_all_def remove_file_def run_env_def acquire_def Let_def
           intro: new_calls_logged split: prod.splits option.splits)
     (auto simp: new_calls_def)

interpretation calls: workspace_invariant os m repo_url ident "new_calls (call_allowed m repo_url ident) l"
  for os m repo_url ident l
  by unfold_locales (auto intro!: tools_new_calls)

lemma calls_of: "keeps (new_calls P (w_log w)) p \<Longrightarrow> new_calls P (w_log w) (snd (p w))"
  by (simp add: keepsD new_calls_start)

section \<open>Failures by stage\<close>

text \<open>Only a hook fails as a hook.\<close>

definition hook_error :: "ws_error \<Rightarrow> bool" where
  "hook_error e \<longleftrightarrow> e = HookFailed \<or> e = HookTimeout"

lemma git_total: "\<exists>out ok w'. git os d args w = (Inr (out, ok), w')"
  by (auto simp: git_def split: prod.splits)

lemma never_fails [simp]:
  "git os d args w \<noteq> (Inl e, w')" "remove_all os p w \<noteq> (Inl e, w')" "mkdir_all os p w \<noteq> (Inl e, w')"
  "acquire os key w \<noteq> (Inl e, w')" "ignore p0 w \<noteq> (Inl e, w')" "attempt p0 w \<noteq> (Inl e, w')" "lstat os p w \<noteq> (Inl e, w')"
  by (auto simp: git_def remove_all_def mkdir_all_def acquire_def ignore_def attempt_def lstat_def bind_op_def Let_def
           split: prod.splits option.splits)

lemma stage_errors:
  "do_git os d args e w = (Inl e', w') \<Longrightarrow> e' = e"
  "ensure_mirror os m url w = (Inl e', w') \<Longrightarrow> e' = MirrorClone"
  "default_branch os m mirror w = (Inl e', w') \<Longrightarrow> e' = GitFailed"
  "reuse_check os path e w = (Inl e', w') \<Longrightarrow> e' \<in> {WorkspaceSymlink, WorkspaceNotDir, e}"
  by (auto simp: do_git_def ensure_mirror_def clone_mirror_def default_branch_def reuse_check_def and_do_def Let_def
           elim!: bind_InlE split: op_splits)

text \<open>
  What is needed of the tools for a workspace to be removed: the disk lets it go, \<open>git worktree
  remove\<close> that succeeds has deleted the directory, and \<open>git worktree prune\<close> makes no directory.
\<close>

definition removable :: "os \<Rightarrow> manager \<Rightarrow> bytes \<Rightarrow> bytes \<Rightarrow> bool" where
  "removable os m url ident \<longleftrightarrow>
     (let path = worktree_path m url ident; mirror = mirror_of m url in
      \<not> os_stat_fault os path \<and> \<not> os_left os path path \<and>
      (\<forall>fs out fs'. os_git os mirror [''worktree'', ''remove'', ''--force'', path] fs = ((out, True), fs') \<longrightarrow>
         map_of fs' path = None) \<and>
      (\<forall>fs. map_of fs path = None \<longrightarrow> map_of (snd (os_git os mirror [''worktree'', ''prune''] fs)) path = None))"

lemma remove_all_gone:
  assumes "removable os m url ident" "remove_all os (worktree_path m url ident) w = (r, w')"
  shows "map_of (w_fs w') (worktree_path m url ident) = None"
  using assms
  by (auto simp: remove_all_def removable_def Let_def logged_def under_def map_of_eq_None_iff split: option.splits)

lemma prune_gone:
  assumes "removable os m url ident" "map_of (w_fs w) (worktree_path m url ident) = None"
    "git os (mirror_of m url) [''worktree'', ''prune''] w = (r, w')"
  shows "map_of (w_fs w') (worktree_path m url ident) = None"
proof -
  have "w_fs w' = snd (os_git os (mirror_of m url) [''worktree'', ''prune''] (w_fs w))"
    using assms(3) by (auto simp: git_def logged_def split: prod.splits)
  with assms(1,2) show ?thesis by (simp add: removable_def Let_def)
qed

lemma rolled_back:
  assumes "removable os m url ident"
    "after_create_or_roll_back os m (mirror_of m url) (worktree_path m url ident) url slug ident w = (Inl e, w')"
  shows "map_of (w_fs w') (worktree_path m url ident) = None"
proof -
  from assms(2) obtain w1 out ok w2 r w3 q where
    rm: "git os (mirror_of m url) [''worktree'', ''remove'', ''--force'', worktree_path m url ident] w1 = (Inr (out, ok), w2)"
    and fb: "(if ok then ret True else remove_all os (worktree_path m url ident)) w2 = (Inr r, w3)"
    and pr: "git os (mirror_of m url) [''worktree'', ''prune''] w3 = (Inr q, w')"
    by (simp add: after_create_or_roll_back_def and_do_def Let_def split: op_splits)
       (elim bind_InlE; auto split: op_splits elim!: bind_InlE)
  have "map_of (w_fs w3) (worktree_path m url ident) = None"
  proof (cases ok)
    case True
    with rm have "os_git os (mirror_of m url) [''worktree'', ''remove'', ''--force'', worktree_path m url ident] (w_fs w1) = ((out, True), w_fs w2)"
      by (auto simp: git_def logged_def split: prod.splits)
    with assms(1) True fb show ?thesis by (auto simp: removable_def Let_def)
  next
    case False
    with fb remove_all_gone [OF assms(1)] show ?thesis by auto
  qed
  then show ?thesis by (rule prune_gone [OF assms(1) _ pr])
qed

section \<open>Properties\<close>


lemma create_rolled_back:
  assumes "manager_ok m" "removable os m [] ident" "create_for_issue os m slug ident w = (Inl e, w')" "hook_error e"
  shows "map_of (w_fs w') (worktree_path m [] ident) = None"
  using assms unfolding create_for_issue_def Let_def legacy_path_eq
  by (auto simp: and_do_def hook_error_def dest!: stage_errors remove_all_gone [OF assms(2)]
           elim!: bind_InlE split: op_splits)


section \<open>Review checkouts\<close>

text \<open>The commands that make or move a branch.\<close>

fun creates_branch :: "call \<Rightarrow> bool" where
  "creates_branch (Git _ args _) \<longleftrightarrow>
     take 3 args = [''worktree'', ''add'', ''-B''] \<or> take 2 args = [''checkout'', ''-B'']"
| "creates_branch _ \<longleftrightarrow> False"

definition grew :: "world \<Rightarrow> world \<Rightarrow> bool" where
  "grew w w' \<longleftrightarrow> (\<exists>cs. w_log w' = w_log w @ cs)"

lemma grew_refl [simp]: "grew w w" and grew_trans: "grew w w1 \<Longrightarrow> grew w1 w2 \<Longrightarrow> grew w w2"
  by (auto simp: grew_def)

interpretation growth: workspace_invariant os m repo_url ident "new_calls (\<lambda>_. True) l" for os m repo_url ident l
  by unfold_locales (auto intro!: tools_new_calls)

lemma grewI: "(\<And>l. keeps (new_calls (\<lambda>_. True) l) p) \<Longrightarrow> p w = (r, w') \<Longrightarrow> grew w w'"
  using calls_of [of "\<lambda>_. True" w p] by (auto simp: grew_def new_calls_def)

lemma grew_tools:
  "acquire os key w = (r1, w') \<Longrightarrow> grew w w'"
  "mkdir_all os p w = (r2, w') \<Longrightarrow> grew w w'"
  "ignore (git os d args) w = (r3, w') \<Longrightarrow> grew w w'"
  "manager_ok m \<Longrightarrow> ensure_mirror os m url w = (r4, w') \<Longrightarrow> grew w w'"
  "manager_ok m \<Longrightarrow> ignore (clear_stale_locks os (mirror_of m url)) w = (r5, w') \<Longrightarrow> grew w w'"
  subgoal by (erule grewI [rotated]) (rule tools_new_calls)
  subgoal by (erule grewI [rotated]) (simp add: tools_new_calls)
  subgoal by (erule grewI [rotated]) (simp add: tools_new_calls keeps_ignore)
  subgoal by (erule grewI [rotated]) (rule growth.mirror_keeps)
  subgoal by (erule grewI [rotated]) (intro keeps_ignore growth.locks_keep)
  done

lemma do_git_Inr: "do_git os d args e w = (Inr u, w') \<Longrightarrow> w_log w' = w_log w @ [Git d args True]"
  by (auto simp: do_git_def git_def logged_def elim!: bind_InrE split: op_splits prod.splits)

lemma ignore_git: "ignore (git os d args) w = (r, w') \<Longrightarrow> \<exists>ok. w_log w' = w_log w @ [Git d args ok]"
  by (auto simp: ignore_def attempt_def git_def bind_op_def ret_def logged_def split: prod.splits)

lemma reuse_check_world: "reuse_check os path e w = (Inr b, w') \<Longrightarrow> w' = w"
  by (auto simp: reuse_check_def lstat_def elim!: bind_InrE split: op_splits)

lemma review_makes_no_branch:
  assumes "manager_ok m"
  shows "keeps (new_calls (\<lambda>c. \<not> creates_branch c) l) (ensure_review_worktree os m decimal url slug ident pr sha)"
proof -
  let ?P = "\<lambda>c. \<not> creates_branch c"
  have locks: "keeps (new_calls ?P l) (clear_stale_locks os (mirror_of m url))"
    by (intro keeps_clear_stale_locks mirror_rooted assms tools_new_calls) simp
  have "keeps (new_calls ?P l) (clone_mirror os url (mirror_of m url))"
    unfolding clone_mirror_def Let_def by (intro keeps_intros tools_new_calls) simp_all
  moreover have "keeps (new_calls ?P l) (and_do (ignore (clear_stale_locks os (mirror_of m url)))
      (and_do (ignore (git os (mirror_of m url) [''fetch'', ''--prune'', ''origin''])) (ret (mirror_of m url))))"
    by (intro keeps_intros locks tools_new_calls) simp
  ultimately have mirror: "keeps (new_calls ?P l) (ensure_mirror os m url)"
    unfolding ensure_mirror_def Let_def mirror_of_def [symmetric] by (auto simp: keeps_def split: option.splits)
  have mirrored: "keeps (new_calls ?P l) (bind_op (ensure_mirror os m url) f)"
    if "keeps (new_calls ?P l) (f (mirror_of m url))" for f :: "bytes \<Rightarrow> workspace op"
    using that by (intro keeps_bind_returns mirror) (auto simp: returns_def dest: ensure_mirror_returns)
  show ?thesis
    unfolding ensure_review_worktree_def review_checkout_def after_create_or_roll_back_def Let_def
    by (cases "url = []"; cases "sanitize_key ident = MIRRORS_DIR_NAME")
       (simp_all add: repo_paths_eq [OF assms] keeps_fail keeps_if,
        intro mirrored keeps_intros locks tools_new_calls impI conjI, simp_all)
qed

lemma review_checkout_log:
  assumes "manager_ok m"
    "review_checkout os m (mirror_of m url) (key, repo_dir, worktree_path m url ident) url slug ident sha w = (Inr ws, w')"
    "repo_dir = join_path [mg_root m, repo_key (mg_ops m) url]"
  shows "ws_path ws = worktree_path m url ident \<and>
     (if ws_created_now ws
      then \<exists>as. w_log w' = w_log w @ as \<and>
             Git (mirror_of m url) [''worktree'', ''add'', ''--detach'', worktree_path m url ident, sha] True \<in> set as
      else \<exists>ok. w_log w' = w_log w @ [Git (worktree_path m url ident) [''checkout'', ''--force'', ''--detach'', sha] True,
             Git (worktree_path m url ident) [''reset'', ''--hard'', sha] True,
             Git (worktree_path m url ident) [''clean'', ''-fd''] ok])"
proof -
  let ?mirror = "mirror_of m url" and ?path = "worktree_path m url ident"
  from assms(2) obtain exists where stage: "(if exists then
          and_do (do_git os ?path [''checkout'', ''--force'', ''--detach'', sha] ReviewCheckout)
         (and_do (do_git os ?path [''reset'', ''--hard'', sha] ReviewCheckout)
         (and_do (ignore (git os ?path [''clean'', ''-fd'']))
            (ret \<lparr>ws_path = ?path, ws_key = key, ws_created_now = False\<rparr>)))
        else
          and_do (ignore (clear_stale_locks os ?mirror))
         (and_do (ignore (git os ?mirror [''worktree'', ''prune'']))
         (bind_op (mkdir_all os repo_dir) (\<lambda>ok.
          if \<not> ok then fail WorktreeAdd
          else
            and_do (do_git os ?mirror [''worktree'', ''add'', ''--detach'', ?path, sha] WorktreeAdd)
           (and_do (after_create_or_roll_back os m ?mirror ?path url slug ident)
              (ret \<lparr>ws_path = ?path, ws_key = key, ws_created_now = True\<rparr>)))))) w = (Inr ws, w')"
    unfolding review_checkout_def prod.case by (elim bind_InrE) (auto dest: reuse_check_world)
  show ?thesis
  proof (cases exists)
    case True
    with stage show ?thesis
      by (auto simp: and_do_def elim!: bind_InrE dest!: do_git_Inr ignore_git)
  next
    case False
    from stage False obtain w1 w2 w3 w4 r1 r2 r3 where
      "ignore (clear_stale_locks os ?mirror) w = (r1, w1)"
      "ignore (git os ?mirror [''worktree'', ''prune'']) w1 = (r2, w2)"
      "mkdir_all os repo_dir w2 = (r3, w3)" and
      add: "do_git os ?mirror [''worktree'', ''add'', ''--detach'', ?path, sha] WorktreeAdd w3 = (Inr (), w4)" and
      hook: "after_create_or_roll_back os m ?mirror ?path url slug ident w4 = (Inr (), w')" and
      ws: "ws = \<lparr>ws_path = ?path, ws_key = key, ws_created_now = True\<rparr>"
      by (auto simp: and_do_def elim!: bind_InrE split: if_splits)
    then have "grew w w3"
      using grew_tools(5) [OF assms(1)] grew_tools(2,3) by (blast intro: grew_trans)
    moreover have "grew w4 w'" by (rule grewI [OF growth.roll_back_keeps hook])
    ultimately show ?thesis using do_git_Inr [OF add] ws by (auto simp: grew_def)
  qed
qed

text \<open>
  C8. A review checkout that succeeds is at the pinned commit: the commit was found in the mirror
  under a revision of 7 to 64 hexadecimal digits, and then either a detached worktree was added at it,
  or the reused directory was checked out detached and reset to it with only \<open>clean\<close> after that; no
  command that makes or moves a branch was run.
\<close>

theorem review_checkout_is_pinned:
  assumes "manager_ok m"
    and run: "ensure_review_worktree os m decimal url slug ident pr sha w = (Inr ws, w')"
  shows "is_commit_sha sha \<and> 0 < pr \<and> ws_path ws = worktree_path m url ident \<and>
     (\<exists>cs. w_log w' = w_log w @ cs \<and> list_all (\<lambda>c. \<not> creates_branch c) cs \<and>
        Git (mirror_of m url) [''cat-file'', ''-e'', sha @ ''^{commit}''] True \<in> set cs \<and>
        (if ws_created_now ws
         then Git (mirror_of m url) [''worktree'', ''add'', ''--detach'', worktree_path m url ident, sha] True \<in> set cs
         else \<exists>as ok. cs = as @ [Git (worktree_path m url ident) [''checkout'', ''--force'', ''--detach'', sha] True,
                Git (worktree_path m url ident) [''reset'', ''--hard'', sha] True,
                Git (worktree_path m url ident) [''clean'', ''-fd''] ok]))"
proof -
  let ?mirror = "mirror_of m url" and ?path = "worktree_path m url ident"
  let ?paths = "(sanitize_key ident, join_path [mg_root m, repo_key (mg_ops m) url], ?path)"
  let ?found = "Git ?mirror [''cat-file'', ''-e'', sha @ ''^{commit}''] True"
  from run have guards: "url \<noteq> []" "0 < pr" "is_commit_sha sha" "sanitize_key ident \<noteq> MIRRORS_DIR_NAME"
    by (auto simp: ensure_review_worktree_def repo_paths_eq [OF assms(1)] split: if_splits)
  from run guards obtain w1 mi w2 w3 w4 u where
    st: "acquire os (repo_key (mg_ops m) url) w = (Inr (), w1)" "ensure_mirror os m url w1 = (Inr mi, w2)"
      "ignore (git os mi u) w2 = (Inr (), w3)"
      "do_git os mi [''cat-file'', ''-e'', sha @ ''^{commit}''] ReviewCheckout w3 = (Inr (), w4)"
      "review_checkout os m mi ?paths url slug ident sha w4 = (Inr ws, w')"
    unfolding ensure_review_worktree_def
    by (auto simp: repo_paths_eq [OF assms(1)] and_do_def elim!: bind_InrE)
  have mi: "mi = ?mirror" by (rule ensure_mirror_returns [OF st(2)])
  note cat = st(4) [unfolded mi] and co = st(5) [unfolded mi]
  have "grew w w3"
    using grew_tools(1) [OF st(1)] grew_tools(4) [OF assms(1) st(2)] grew_tools(3) [OF st(3)]
    by (blast intro: grew_trans)
  with do_git_Inr [OF cat] obtain as where w4: "w_log w4 = w_log w @ as @ [?found]" by (auto simp: grew_def)
  have "new_calls (\<lambda>c. \<not> creates_branch c) (w_log w) w'"
    using calls_of [OF review_makes_no_branch [OF assms(1)], of w os decimal url slug ident pr sha] run by simp
  with w4 guards review_checkout_log [OF assms(1) co refl] show ?thesis
    by (auto simp: new_calls_def split: if_splits)
qed

section \<open>A concrete run\<close>

definition demo_git :: "bytes \<Rightarrow> bytes list \<Rightarrow> files \<Rightarrow> (bytes \<times> bool) \<times> files" where
  "demo_git d args fs =
     (if take 2 args = [''clone'', ''--bare''] then (([], True), fs @ [(args ! 5, DirNode 1)])
      else if take 2 args = [''worktree'', ''add'']
        then (([], True), fs @ [(if args ! 2 = ''--detach'' then args ! 3 else args ! 4, DirNode 1)])
      else if take 3 args = [''worktree'', ''remove'', ''--force'']
        then (([], True), filter (\<lambda>(q, _). \<not> under (args ! 3) q) fs)
      else if take 1 args = [''symbolic-ref''] then ((''origin/main'', True), fs)
      else (([], True), fs))"

definition demo_os :: os where
  "demo_os = \<lparr>os_stat_fault = (\<lambda>_. False), os_mkdir_fault = (\<lambda>_. False), os_left = (\<lambda>_ _. False), os_now = 1,
     os_git = demo_git, os_hook = (\<lambda>_ _ _ fs. (Some HookFailed, fs)), os_await = (\<lambda>_ fs. fs)\<rparr>"

definition demo_manager :: "bytes \<Rightarrow> manager" where
  "demo_manager script = \<lparr>mg_root = ''/ws'',
     mg_hooks = \<lparr>after_create = script, before_run = [], after_run = [], before_remove = []\<rparr>, mg_ops = demo_ops\<rparr>"

definition demo_world :: world where
  "demo_world = \<lparr>w_fs = [(''/ws'', DirNode 0)], w_log = []\<rparr>"

lemma demo_manager_ok: "manager_ok (demo_manager script)"
  by (simp add: manager_ok_def demo_manager_def demo_digest_ok is_rooted_def)


lemma demo_removable: "removable demo_os (demo_manager script) url ident"
  by (auto simp: removable_def demo_os_def demo_git_def Let_def under_def map_of_eq_None_iff)


theorem review_checkout_is_pinned_witness:
  "\<exists>cs. w_log (snd (ensure_review_worktree demo_os (demo_manager []) (\<lambda>_. ''7'') ''git'' ''p'' ''rev'' 7 ''0123abc'' demo_world)) = cs \<and>
     list_all (\<lambda>c. \<not> creates_branch c) cs \<and>
     Git (mirror_of (demo_manager []) ''git'') [''worktree'', ''add'', ''--detach'',
        worktree_path (demo_manager []) ''git'' ''rev'', ''0123abc''] True \<in> set cs"
proof -
  let ?run = "ensure_review_worktree demo_os (demo_manager []) (\<lambda>_. ''7'') ''git'' ''p'' ''rev'' 7 ''0123abc'' demo_world"
  have "map_sum (\<lambda>e. e) ws_created_now (fst ?run) = Inr True" by code_simp
  then obtain ws where ws: "fst ?run = Inr ws" "ws_created_now ws" by (cases "fst ?run") auto
  then have run: "?run = (Inr ws, snd ?run)" by (simp add: prod_eq_iff)
  show ?thesis using review_checkout_is_pinned [OF demo_manager_ok run] ws(2) by (auto simp: demo_world_def)
qed

end
