(* ===== verification/Workspace_Gc.thy ===== *)
theory Workspace_Gc
  imports Workspace_Fs
begin

text \<open>
  Garbage collection of workspaces (\<^verbatim>\<open>crates/workspace/src/gc.rs\<close>). The liveness question goes to
  the orchestrator and the per-repository lock may have to be awaited: in both, other tasks run, so
  both may change the file system. The pass reads the directory first and then takes the entries one
  by one; its calls are recorded as those of the other operations are.
\<close>

type_synonym live_check = "(bytes \<Rightarrow> files \<Rightarrow> bool \<times> files) option"

definition keep_newer :: "int option \<Rightarrow> int \<Rightarrow> int option" where
  "keep_newer newest t = (case newest of None \<Rightarrow> Some t | Some n \<Rightarrow> if t > n then Some t else newest)"

definition activity_after :: "int option \<Rightarrow> int \<Rightarrow> bool" where
  "activity_after newest cutoff = (case newest of None \<Rightarrow> False | Some t \<Rightarrow> t > cutoff)"

definition newer_opt :: "int option \<Rightarrow> int option \<Rightarrow> int option" where
  "newer_opt newest t = (case t of None \<Rightarrow> newest | Some t \<Rightarrow> keep_newer newest t)"

definition mirror_path :: "manager \<Rightarrow> bytes \<Rightarrow> bytes" where
  "mirror_path m rkey = join_path [mg_root m, MIRRORS_DIR_NAME, rkey @ ''.git'']"

text \<open>The newest time of the worktree, its direct children and its administration directory.\<close>

definition recent_activity :: "os \<Rightarrow> manager \<Rightarrow> files \<Rightarrow> bytes \<Rightarrow> bytes \<Rightarrow> bool \<Rightarrow> int option" where
  "recent_activity os m fs wt rkey repo_backed =
     (let newest = newer_opt None (metadata os fs wt);
          newest = (case read_dir os fs wt of
             None \<Rightarrow> newest
           | Some names \<Rightarrow> fold (\<lambda>n newest. newer_opt newest (map_option node_mtime (map_of fs (join_path [wt, n])))) names newest);
          admin = join_path [mg_root m, MIRRORS_DIR_NAME, rkey @ ''.git'', ''worktrees'', base_name wt]
      in if repo_backed then newer_opt newest (metadata os fs admin) else newest)"

definition ask_live :: "live_check \<Rightarrow> bytes \<Rightarrow> bool op" where
  "ask_live live wt = (\<lambda>w. case live of
       None \<Rightarrow> (Inr False, w)
     | Some f \<Rightarrow> (case f wt (w_fs w) of (b, fs) \<Rightarrow> (Inr b, w\<lparr>w_fs := fs\<rparr>)))"

definition is_fresh :: "os \<Rightarrow> manager \<Rightarrow> bytes \<Rightarrow> bytes \<Rightarrow> bool \<Rightarrow> int \<Rightarrow> bool op" where
  "is_fresh os m wt rkey repo_backed cutoff =
     (\<lambda>w. (Inr (activity_after (recent_activity os m (w_fs w) wt rkey repo_backed) cutoff), w))"

definition remove_under_lock :: "os \<Rightarrow> bytes \<Rightarrow> bytes \<Rightarrow> bool op" where
  "remove_under_lock os mirror wt =
     and_do (ignore (clear_stale_locks os mirror))
    (bind_op (git os mirror [''worktree'', ''remove'', ''--force'', wt]) (\<lambda>(_, ok).
     and_do (if ok then ret True else remove_all os wt)
    (and_do (ignore (git os mirror [''worktree'', ''prune'']))
       (\<lambda>w. if metadata os (w_fs w) wt = None then (Inr True, w) else remove_all os wt w))))"

definition prune_one_worktree ::
  "os \<Rightarrow> manager \<Rightarrow> live_check \<Rightarrow> bytes \<Rightarrow> bytes \<Rightarrow> bool \<Rightarrow> int \<Rightarrow> bytes list \<Rightarrow> bool op" where
  "prune_one_worktree os m live wt rkey repo_backed cutoff keep =
     (if wt \<in> set keep then ret False
      else bind_op (is_fresh os m wt rkey repo_backed cutoff) (\<lambda>fresh.
        if fresh then ret False
        else bind_op (ask_live live wt) (\<lambda>in_use.
          if in_use then ret False
          else if \<not> repo_backed then remove_all os wt
          else and_do (acquire os rkey)
              (bind_op (is_fresh os m wt rkey repo_backed cutoff) (\<lambda>fresh.
               if fresh then ret False else remove_under_lock os (mirror_path m rkey) wt)))))"

fun prune_children ::
  "os \<Rightarrow> manager \<Rightarrow> live_check \<Rightarrow> bytes \<Rightarrow> bytes \<Rightarrow> bool \<Rightarrow> int \<Rightarrow> bytes list \<Rightarrow> (bytes \<times> bool) list \<Rightarrow> nat \<Rightarrow> nat op" where
  "prune_children os m live repo_dir name repo_backed cutoff keep [] removed = ret removed"
| "prune_children os m live repo_dir name repo_backed cutoff keep ((c, is_dir) # cs) removed =
     (if \<not> is_dir then prune_children os m live repo_dir name repo_backed cutoff keep cs removed
      else bind_op (prune_one_worktree os m live (join_path [repo_dir, c]) name repo_backed cutoff keep) (\<lambda>r.
        prune_children os m live repo_dir name repo_backed cutoff keep cs (if r then removed + 1 else removed)))"

definition entries_of :: "files \<Rightarrow> bytes \<Rightarrow> bytes list \<Rightarrow> (bytes \<times> bool) list" where
  "entries_of fs d names = map (\<lambda>n. (n, is_dir_at fs (join_path [d, n]))) names"

text \<open>One top-level entry: a namespace's children are taken, a legacy workspace is taken itself.\<close>

definition prune_entry ::
  "os \<Rightarrow> manager \<Rightarrow> live_check \<Rightarrow> bytes list \<Rightarrow> int \<Rightarrow> bytes list \<Rightarrow> bytes \<Rightarrow> nat \<Rightarrow> nat op" where
  "prune_entry os m live mirror_keys cutoff keep name removed = (\<lambda>w.
     let repo_dir = join_path [mg_root m, name] in
     if is_namespace os m (w_fs w) mirror_keys name then
       (case read_dir os (w_fs w) repo_dir of
          None \<Rightarrow> (Inr removed, w)
        | Some names \<Rightarrow>
            prune_children os m live repo_dir name (name \<in> set mirror_keys) cutoff keep
              (entries_of (w_fs w) repo_dir names) removed w)
     else
       bind_op (prune_one_worktree os m live repo_dir [] False cutoff keep)
         (\<lambda>r. ret (if r then removed + 1 else removed)) w)"

fun prune_entries ::
  "os \<Rightarrow> manager \<Rightarrow> live_check \<Rightarrow> bytes list \<Rightarrow> int \<Rightarrow> bytes list \<Rightarrow> (bytes \<times> bool) list \<Rightarrow> nat \<Rightarrow> nat op" where
  "prune_entries os m live mirror_keys cutoff keep [] removed = ret removed"
| "prune_entries os m live mirror_keys cutoff keep ((name, is_dir) # es) removed =
     (if name = MIRRORS_DIR_NAME \<or> \<not> is_dir then prune_entries os m live mirror_keys cutoff keep es removed
      else bind_op (prune_entry os m live mirror_keys cutoff keep name removed)
             (prune_entries os m live mirror_keys cutoff keep es))"

text \<open>\<open>checked_sub\<close> fails when the seconds leave the range of an \<open>i64\<close>; times are nanoseconds.\<close>

definition gc_cutoff :: "int \<Rightarrow> int \<Rightarrow> int" where
  "gc_cutoff now max_age = (if now - max_age < - (2 ^ 63 * 10 ^ 9) then 0 else now - max_age)"

definition prune_stale_worktrees ::
  "os \<Rightarrow> manager \<Rightarrow> live_check \<Rightarrow> int \<Rightarrow> bytes list \<Rightarrow> nat op" where
  "prune_stale_worktrees os m live max_age keep =
     (if max_age = 0 then ret 0
      else (\<lambda>w.
        let cutoff = gc_cutoff (os_now os) max_age in
        case read_dir os (w_fs w) (mg_root m) of
          None \<Rightarrow> (Inr 0, w)
        | Some names \<Rightarrow>
            prune_entries os m live (mirror_key_set os m (w_fs w)) cutoff keep (entries_of (w_fs w) (mg_root m) names) 0 w))"

section \<open>What a pass does\<close>

text \<open>The directories a pass may remove: one or two names below the root, outside the mirror store.\<close>

definition gc_target :: "manager \<Rightarrow> bytes \<Rightarrow> bool" where
  "gc_target m p \<longleftrightarrow> (\<exists>name ks. name \<noteq> MIRRORS_DIR_NAME \<and> list_all proper (name # ks) \<and> length ks \<le> 1 \<and>
     p = join_path (mg_root m # name # ks))"

fun gc_call :: "manager \<Rightarrow> bytes list \<Rightarrow> call \<Rightarrow> bool" where
  "gc_call m keep (RemoveAll p) \<longleftrightarrow> gc_target m p \<and> p \<notin> set keep"
| "gc_call m keep (RemoveFile p) \<longleftrightarrow> (\<exists>k. proper k \<and> lock_file (mirror_path m k) p)"
| "gc_call m keep (Git d args _) \<longleftrightarrow> (\<exists>k. proper k \<and> d = mirror_path m k) \<and>
     (args = [''worktree'', ''prune''] \<or>
      (\<exists>p. args = [''worktree'', ''remove'', ''--force'', p] \<and> gc_target m p \<and> p \<notin> set keep))"
| "gc_call m keep _ \<longleftrightarrow> False"

lemma mirror_path_rooted: "manager_ok m \<Longrightarrow> proper k \<Longrightarrow> is_rooted (mirror_path m k)"
proof -
  assume "manager_ok m" "proper k"
  then have "list_all proper [MIRRORS_DIR_NAME, k @ ''.git'']"
    by (simp add: proper_def element_def MIRRORS_DIR_NAME_def not_slash_def append_eq_Cons_conv)
  with \<open>manager_ok m\<close> show "is_rooted (mirror_path m k)"
    unfolding mirror_path_def using components_join(1) by (simp add: manager_ok_def)
qed

lemma keeps_is_fresh [keeps_intros]: "keeps I (is_fresh os m wt k rb cutoff)"
  by (simp add: keeps_def is_fresh_def)

lemma keeps_ask_live: "keeps (new_calls P l) (ask_live live wt)"
  by (auto simp: keeps_def ask_live_def new_calls_def split: option.splits prod.splits)

lemma prune_one_calls:
  assumes "manager_ok m" "gc_target m wt" "rb \<longrightarrow> proper k"
  shows "keeps (new_calls (gc_call m keep) l) (prune_one_worktree os m live wt k rb cutoff keep)"
proof (cases "wt \<in> set keep")
  case True
  then show ?thesis by (simp add: prune_one_worktree_def keeps_ret)
next
  case kept: False
  have rm: "keeps (new_calls (gc_call m keep) l) (remove_all os wt)"
    using assms(2) kept by (intro tools_new_calls) simp
  have "keeps (new_calls (gc_call m keep) l) (remove_under_lock os (mirror_path m k) wt)" if rb
  proof -
    have k: "proper k" using that assms(3) by simp
    have "keeps (new_calls (gc_call m keep) l) (\<lambda>w. if metadata os (w_fs w) wt = None then (Inr True, w) else remove_all os wt w)"
      using rm by (simp add: keeps_def)
    then show ?thesis
      unfolding remove_under_lock_def using assms(2) kept k
      by (intro keeps_intros keeps_clear_stale_locks mirror_path_rooted assms(1) tools_new_calls rm) (auto simp: keeps_def)
  qed
  with kept show ?thesis
    unfolding prune_one_worktree_def
    by (intro keeps_intros keeps_ask_live rm tools_new_calls) auto
qed

lemma children_calls:
  assumes "manager_ok m" "proper name" "name \<noteq> MIRRORS_DIR_NAME" "list_all (proper \<circ> fst) cs"
  shows "keeps (new_calls (gc_call m keep) l)
     (prune_children os m live (join_path [mg_root m, name]) name rb cutoff keep cs removed)"
  using assms(4)
proof (induction cs arbitrary: removed)
  case (Cons c cs)
  obtain n d where c: "c = (n, d)" by (cases c)
  have "join_path [join_path [mg_root m, name], n] = join_path (mg_root m # name # [n])"
    using join_path_nested [of "mg_root m" "[name]" "[n]"] assms Cons.prems c by (simp add: manager_ok_def)
  then have "gc_target m (join_path [join_path [mg_root m, name], n])"
    unfolding gc_target_def using assms Cons.prems c by (intro exI [of _ name] exI [of _ "[n]"]) simp
  then have "keeps (new_calls (gc_call m keep) l)
      (prune_one_worktree os m live (join_path [join_path [mg_root m, name], n]) name rb cutoff keep)"
    using assms by (intro prune_one_calls) auto
  with Cons show ?case unfolding c by (auto intro!: keeps_intros)
qed (simp add: keeps_ret)

lemma entry_calls:
  assumes "manager_ok m" "proper name" "name \<noteq> MIRRORS_DIR_NAME"
  shows "keeps (new_calls (gc_call m keep) l) (prune_entry os m live mirror_keys cutoff keep name removed)"
proof (rule keepsI)
  fix w assume w: "new_calls (gc_call m keep) l w"
  have "gc_target m (join_path [mg_root m, name])"
    unfolding gc_target_def using assms by (intro exI [of _ name] exI [of _ "[]"]) simp
  then have one: "keeps (new_calls (gc_call m keep) l)
      (bind_op (prune_one_worktree os m live (join_path [mg_root m, name]) [] False cutoff keep)
         (\<lambda>r. ret (if r then removed + 1 else removed)))"
    using assms by (intro keeps_intros prune_one_calls) auto
  have "keeps (new_calls (gc_call m keep) l) (prune_children os m live (join_path [mg_root m, name]) name
      rb cutoff keep (entries_of fs d names) removed)" if "list_all proper names" for rb fs d names
    using assms that by (intro children_calls) (auto simp: entries_of_def list.pred_set)
  with w one show "new_calls (gc_call m keep) l (snd (prune_entry os m live mirror_keys cutoff keep name removed w))"
    by (auto simp: prune_entry_def Let_def keeps_def dest: read_dir_proper split: option.splits)
qed

lemma entries_calls:
  assumes "manager_ok m" "list_all (proper \<circ> fst) es"
  shows "keeps (new_calls (gc_call m keep) l) (prune_entries os m live mirror_keys cutoff keep es removed)"
  using assms(2) by (induction es arbitrary: removed) (auto intro!: keeps_intros entry_calls assms(1))

section \<open>Properties\<close>

text \<open>
  C28. Whatever happens around it, a garbage collection pass removes only directories one or two names
  below the root that are not in the keep set, never the mirror store or anything in it apart from
  lock files and what \<open>git worktree prune\<close> drops, and it runs no hook and makes no directory.
\<close>

theorem gc_stays_in_its_scope:
  assumes "manager_ok m"
  shows "new_calls (gc_call m keep) (w_log w) (snd (prune_stale_worktrees os m live max_age keep w))"
proof (cases "max_age = 0 \<or> read_dir os (w_fs w) (mg_root m) = None")
  case True
  then show ?thesis by (auto simp: prune_stale_worktrees_def ret_def new_calls_start)
next
  case False
  then obtain names where "read_dir os (w_fs w) (mg_root m) = Some names" "max_age \<noteq> 0" by auto
  moreover from this have "list_all (proper \<circ> fst) (entries_of (w_fs w) (mg_root m) names)"
    by (auto simp: entries_of_def list.pred_set dest: read_dir_proper)
  ultimately show ?thesis
    using keepsD [OF entries_calls [OF assms] new_calls_start] by (simp add: prune_stale_worktrees_def)
qed

text \<open>
  C27. A worktree on which the collection acts at all was not in the keep set, was stale when it was
  first looked at, was answered not in use, and, when its repository has a mirror, was still stale in
  the file system found after the lock was obtained, whatever other tasks did in between; one that is
  fresh at either look is left with no call made.
\<close>

theorem gc_acts_only_on_stale_worktrees:
  assumes "prune_one_worktree os m live wt k rb cutoff keep w = (r, w')" "r = Inr True \<or> w_log w' \<noteq> w_log w"
  shows "wt \<notin> set keep \<and>
     \<not> activity_after (recent_activity os m (w_fs w) wt k rb) cutoff \<and>
     (\<forall>f. live = Some f \<longrightarrow> \<not> fst (f wt (w_fs w))) \<and>
     (rb \<longrightarrow> \<not> activity_after (recent_activity os m
        (os_await os k (case live of None \<Rightarrow> w_fs w | Some f \<Rightarrow> snd (f wt (w_fs w)))) wt k rb) cutoff)"
  using assms
  by (auto simp: prune_one_worktree_def is_fresh_def ask_live_def acquire_def bind_op_def and_do_def ret_def
           split: if_splits option.splits prod.splits)

definition demo_gc_world :: world where
  "demo_gc_world = \<lparr>w_fs = [(''/ws'', DirNode 0), (''/ws/OLD-1'', DirNode 10), (''/ws/OLD-1/src'', DirNode 40),
     (''/ws/OLD-2'', DirNode 10), (''/ws/OLD-2/src'', DirNode 90), (''/ws/OLD-3'', DirNode 10), (''/ws/.mirrors'', DirNode 0)],
     w_log = []\<rparr>"

definition demo_gc_os :: os where
  "demo_gc_os = demo_os\<lparr>os_now := 100\<rparr>"

theorem gc_stays_in_its_scope_witness:
  "new_calls (gc_call (demo_manager []) [''/ws/OLD-3'']) []
     (snd (prune_stale_worktrees demo_gc_os (demo_manager []) None 50 [''/ws/OLD-3''] demo_gc_world)) \<and>
   prune_stale_worktrees demo_gc_os (demo_manager []) None 50 [''/ws/OLD-3''] demo_gc_world =
     (Inr 1, \<lparr>w_fs = [(''/ws'', DirNode 0), (''/ws/OLD-2'', DirNode 10), (''/ws/OLD-2/src'', DirNode 90),
        (''/ws/OLD-3'', DirNode 10), (''/ws/.mirrors'', DirNode 0)], w_log = [RemoveAll ''/ws/OLD-1'']\<rparr>)"
proof -
  have "prune_stale_worktrees demo_gc_os (demo_manager []) None 50 [''/ws/OLD-3''] demo_gc_world =
     (Inr 1, \<lparr>w_fs = [(''/ws'', DirNode 0), (''/ws/OLD-2'', DirNode 10), (''/ws/OLD-2/src'', DirNode 90),
        (''/ws/OLD-3'', DirNode 10), (''/ws/.mirrors'', DirNode 0)], w_log = [RemoveAll ''/ws/OLD-1'']\<rparr>)"
    by code_simp
  with gc_stays_in_its_scope [OF demo_manager_ok [of "[]"], of "[''/ws/OLD-3'']" demo_gc_world demo_gc_os None 50]
  show ?thesis by (simp add: demo_gc_world_def)
qed

theorem gc_acts_only_on_stale_worktrees_witness:
  "prune_one_worktree demo_gc_os (demo_manager []) None ''/ws/OLD-1'' [] False 50 [''/ws/OLD-3''] demo_gc_world =
     (Inr True, \<lparr>w_fs = [(''/ws'', DirNode 0), (''/ws/OLD-2'', DirNode 10), (''/ws/OLD-2/src'', DirNode 90),
        (''/ws/OLD-3'', DirNode 10), (''/ws/.mirrors'', DirNode 0)], w_log = [RemoveAll ''/ws/OLD-1'']\<rparr>) \<and>
   \<not> activity_after (recent_activity demo_gc_os (demo_manager []) (w_fs demo_gc_world) ''/ws/OLD-1'' [] False) 50"
proof -
  have run: "prune_one_worktree demo_gc_os (demo_manager []) None ''/ws/OLD-1'' [] False 50 [''/ws/OLD-3''] demo_gc_world =
     (Inr True, \<lparr>w_fs = [(''/ws'', DirNode 0), (''/ws/OLD-2'', DirNode 10), (''/ws/OLD-2/src'', DirNode 90),
        (''/ws/OLD-3'', DirNode 10), (''/ws/.mirrors'', DirNode 0)], w_log = [RemoveAll ''/ws/OLD-1'']\<rparr>)"
    by code_simp
  with gc_acts_only_on_stale_worktrees [OF run] show ?thesis by simp
qed

end
