(* ===== verification/Workspace_Read.thy ===== *)
theory Workspace_Read
  imports Workspace_Path
begin

text \<open>
  The repository reads the host serves to the manager (\<^verbatim>\<open>crates/workspace/src/read.rs\<close>), each a
  few calls of \<open>git\<close> on the bare mirror. \<open>git\<close> answers as a function of the calls made so far and the
  arguments; the calls are recorded. A read ends with a value, with an error, or in a panic of the
  task that runs it.
\<close>

section \<open>Answers\<close>

datatype read_error = InvalidRevision | NotFound | IsDirectory | TooLarge | GitError bytes

datatype 'a outcome = Ok 'a | Err read_error | Panic

type_synonym git_args = "bytes list"

record read_env =
  rv_git :: "git_args list \<Rightarrow> git_args \<Rightarrow> bytes \<times> bool"
  rv_patch_id :: "bool \<Rightarrow> bytes \<Rightarrow> bytes \<times> bool"
  rv_text :: text_ops

type_synonym 'a read = "git_args list \<Rightarrow> 'a outcome \<times> git_args list"

definition rret :: "'a \<Rightarrow> 'a read" where
  "rret x = (\<lambda>cs. (Ok x, cs))"

definition rerr :: "read_error \<Rightarrow> 'a read" where
  "rerr e = (\<lambda>cs. (Err e, cs))"

definition rpanic :: "'a read" where
  "rpanic = (\<lambda>cs. (Panic, cs))"

definition rbind :: "'a read \<Rightarrow> ('a \<Rightarrow> 'b read) \<Rightarrow> 'b read" where
  "rbind m f = (\<lambda>cs. case m cs of (Ok x, cs') \<Rightarrow> f x cs' | (Err e, cs') \<Rightarrow> (Err e, cs') | (Panic, cs') \<Rightarrow> (Panic, cs'))"

definition rgit :: "read_env \<Rightarrow> git_args \<Rightarrow> (bytes \<times> bool) read" where
  "rgit env args = (\<lambda>cs. (Ok (rv_git env cs args), cs @ [args]))"

definition MAX_READ_BYTES :: nat where "MAX_READ_BYTES = 512 * 1024"
definition MAX_GREP_BYTES :: nat where "MAX_GREP_BYTES = 512 * 1024"
definition MAX_DIFF_BYTES :: nat where "MAX_DIFF_BYTES = 4 * 1024 * 1024"
definition MAX_TREE_ENTRIES :: nat where "MAX_TREE_ENTRIES = 2000"

section \<open>Text\<close>

fun occurs_in :: "bytes \<Rightarrow> bytes \<Rightarrow> bool" where
  "occurs_in [] p = (p = [])"
| "occurs_in (c # cs) p = (starts_with (c # cs) p \<or> occurs_in cs p)"

text \<open>\<open>str::lines\<close>: split at line feeds, a carriage return before one dropped, no empty last line.\<close>

definition strip_cr :: "bytes \<Rightarrow> bytes" where
  "strip_cr l = (if l \<noteq> [] \<and> last l = CHR 0x0D then butlast l else l)"

fun split_lf :: "bytes \<Rightarrow> bytes \<Rightarrow> bytes list" where
  "split_lf cur [] = (if cur = [] then [] else [cur])"
| "split_lf cur (c # cs) = (if c = CHR 0x0A then strip_cr cur # split_lf [] cs else split_lf (cur @ [c]) cs)"

definition str_lines :: "bytes \<Rightarrow> bytes list" where
  "str_lines s = split_lf [] s"

text \<open>\<open>char::is_whitespace\<close> in UTF-8: how many bytes of white space stand at the front.\<close>

definition white_len :: "bytes \<Rightarrow> nat" where
  "white_len s = (case map byte_val (take 3 s) of
      [] \<Rightarrow> 0
    | a # bs \<Rightarrow>
        if a \<in> {9, 10, 11, 12, 13, 32} then 1
        else if a = 0xC2 \<and> take 1 bs \<in> {[0x85], [0xA0]} then 2
        else if a = 0xE1 \<and> bs = [0x9A, 0x80] then 3
        else if a = 0xE2 \<and> (bs = [0x81, 0x9F] \<or> length bs = 2 \<and> hd bs = 0x80 \<and>
                             (0x80 \<le> last bs \<and> last bs \<le> 0x8A \<or> last bs \<in> {0xA8, 0xA9, 0xAF})) then 3
        else if a = 0xE3 \<and> bs = [0x80, 0x80] then 3
        else 0)"

text \<open>\<open>str::split_whitespace\<close>: the words, with the bytes of a space still to skip and the word so far.\<close>

fun words_of :: "nat \<Rightarrow> bytes \<Rightarrow> bytes \<Rightarrow> bytes list" where
  "words_of skip cur [] = (if cur = [] then [] else [cur])"
| "words_of (Suc skip) cur (c # cs) = words_of skip cur cs"
| "words_of 0 cur (c # cs) =
     (let n = white_len (c # cs) in
      if n = 0 then words_of 0 (cur @ [c]) cs
      else if cur = [] then words_of (n - 1) [] cs else cur # words_of (n - 1) [] cs)"

text \<open>\<open>str::parse::<usize>\<close>.\<close>

definition digits_value :: "bytes \<Rightarrow> nat" where
  "digits_value ds = fold (\<lambda>c n. n * 10 + (byte_val c - 48)) ds 0"

definition parse_usize :: "bytes \<Rightarrow> nat option" where
  "parse_usize s =
     (let ds = (if s \<noteq> [] \<and> hd s = CHR ''+'' then tl s else s) in
      if ds \<noteq> [] \<and> list_all is_ascii_digit ds \<and> digits_value ds < 2 ^ 64 then Some (digits_value ds) else None)"

text \<open>\<open>String::truncate\<close>: cuts at a character boundary, panics inside a character.\<close>

definition is_char_boundary :: "bytes \<Rightarrow> nat \<Rightarrow> bool" where
  "is_char_boundary s n \<longleftrightarrow> n = 0 \<or> n = length s \<or> (n < length s \<and> \<not> (128 \<le> byte_val (s ! n) \<and> byte_val (s ! n) < 192))"

definition str_truncate :: "nat \<Rightarrow> bytes \<Rightarrow> bytes option" where
  "str_truncate n s = (if length s \<le> n then Some s else if is_char_boundary s n then Some (take n s) else None)"

section \<open>Guards\<close>

definition ends_with_str :: "bytes \<Rightarrow> bytes \<Rightarrow> bool" where
  "ends_with_str s x \<longleftrightarrow> starts_with (rev s) (rev x)"

definition is_safe_ref_name :: "bytes \<Rightarrow> bool" where
  "is_safe_ref_name s \<longleftrightarrow>
     s \<noteq> [] \<and> \<not> starts_with s ''-'' \<and> \<not> occurs_in s ''..'' \<and> \<not> occurs_in s [CHR ''@'', CHR ''{''] \<and>
     \<not> ends_with_str s ''/'' \<and> \<not> ends_with_str s ''.lock'' \<and>
     list_all (\<lambda>c. is_ascii_alphanumeric c \<or> c = CHR ''.'' \<or> c = CHR ''_'' \<or> c = CHR ''-'' \<or> c = CHR ''/'') s"

record tree_entry =
  te_mode :: bytes
  te_kind :: bytes
  te_sha :: bytes
  te_path :: bytes

definition parse_ls_tree_line :: "bytes \<Rightarrow> tree_entry option" where
  "parse_ls_tree_line line =
     (if CHR 0x09 \<notin> set line then None
      else
        let meta = takeWhile (\<lambda>c. c \<noteq> CHR 0x09) line; path = tl (dropWhile (\<lambda>c. c \<noteq> CHR 0x09) line) in
        case words_of 0 [] meta of
          mode # kind # sha # _ \<Rightarrow> Some \<lparr>te_mode = mode, te_kind = kind, te_sha = sha, te_path = path\<rparr>
        | _ \<Rightarrow> None)"

section \<open>The reads\<close>

record blob_read =
  br_content :: bytes
  br_symlink :: bool

definition absent :: "read_env \<Rightarrow> bytes \<Rightarrow> bool" where
  "absent env out \<longleftrightarrow> occurs_in (to_lowercase (rv_text env) out) ''does not exist''"

definition blank :: "read_env \<Rightarrow> bytes \<Rightarrow> bool" where
  "blank env s \<longleftrightarrow> trim (rv_text env) s = []"

definition read_blob :: "read_env \<Rightarrow> bytes \<Rightarrow> bytes \<Rightarrow> blob_read read" where
  "read_blob env sha path =
     (if \<not> is_commit_sha sha then rerr InvalidRevision
      else if path = [] then rerr IsDirectory
      else rbind (rgit env [''ls-tree'', sha, ''--'', path]) (\<lambda>(out, ok).
        if \<not> ok then rerr (if blank env out \<or> absent env out then NotFound else GitError out)
        else case Option.bind (find (\<lambda>l. \<not> blank env l) (str_lines out)) parse_ls_tree_line of
          None \<Rightarrow> rerr NotFound
        | Some entry \<Rightarrow>
            if te_kind entry = ''tree'' then rerr IsDirectory
            else if te_kind entry \<noteq> ''blob'' then rerr NotFound
            else rbind (rgit env [''cat-file'', ''-s'', te_sha entry]) (\<lambda>(size_out, ok).
              if \<not> ok then rerr (GitError size_out)
              else case parse_usize (trim (rv_text env) size_out) of
                None \<Rightarrow> rerr (GitError ''unreadable object size'')
              | Some n \<Rightarrow>
                  if n > MAX_READ_BYTES then rerr TooLarge
                  else rbind (rgit env [''cat-file'', ''-p'', te_sha entry]) (\<lambda>(content, ok).
                    if \<not> ok then rerr (GitError content)
                    else rret \<lparr>br_content = content, br_symlink = (te_mode entry = ''120000'')\<rparr>))))"

text \<open>\<open>BlobRead::render\<close>; \<open>trim_end\<close> is an argument.\<close>

definition render_blob :: "(bytes \<Rightarrow> bytes) \<Rightarrow> blob_read \<Rightarrow> bytes" where
  "render_blob trim_end b =
     (if br_symlink b then ''[symlink -> '' @ trim_end (br_content b) @ '']'' else br_content b)"

definition with_path :: "git_args \<Rightarrow> bytes \<Rightarrow> git_args" where
  "with_path args path = (if path = [] then args else args @ [''--'', path])"

definition ls_tree :: "read_env \<Rightarrow> bytes \<Rightarrow> bytes \<Rightarrow> (tree_entry list \<times> bool) read" where
  "ls_tree env sha path =
     (if \<not> is_commit_sha sha then rerr InvalidRevision
      else rbind (rgit env (with_path [''ls-tree'', sha] path)) (\<lambda>(out, ok).
        if \<not> ok then rerr (if absent env out then NotFound else GitError out)
        else
          let entries = List.map_filter parse_ls_tree_line (str_lines out);
              truncated = length entries > MAX_TREE_ENTRIES
          in rret (if truncated then take MAX_TREE_ENTRIES entries else entries, truncated)))"

definition grep :: "read_env \<Rightarrow> bytes \<Rightarrow> bytes \<Rightarrow> bytes \<Rightarrow> (bytes \<times> bool) read" where
  "grep env sha pattern path =
     (if \<not> is_commit_sha sha then rerr InvalidRevision
      else if pattern = [] then rerr (GitError ''empty pattern'')
      else rbind (rgit env (with_path [''grep'', ''-n'', ''-I'', ''--no-color'', ''-e'', pattern, sha] path)) (\<lambda>(out, ok).
        if \<not> ok \<and> \<not> blank env out then rerr (GitError out)
        else
          let truncated = length out > MAX_GREP_BYTES in
          if truncated then
            (case str_truncate MAX_GREP_BYTES out of None \<Rightarrow> rpanic | Some text \<Rightarrow> rret (text, True))
          else rret (out, False)))"

fun default_base_of :: "read_env \<Rightarrow> bytes list \<Rightarrow> bytes read" where
  "default_base_of env [] = rerr (GitError ''the mirror has no default branch to use as a base'')"
| "default_base_of env (r # rs) =
     rbind (rgit env [''rev-parse'', ''--verify'', r @ ''^{commit}'']) (\<lambda>(out, ok).
       if ok \<and> is_commit_sha (trim (rv_text env) out) then rret (trim (rv_text env) out) else default_base_of env rs)"

definition default_base_sha :: "read_env \<Rightarrow> bytes read" where
  "default_base_sha env =
     default_base_of env [''refs/remotes/origin/HEAD'', ''refs/remotes/origin/main'', ''refs/remotes/origin/master'']"

definition merge_base :: "read_env \<Rightarrow> bytes \<Rightarrow> bytes \<Rightarrow> bytes read" where
  "merge_base env a b =
     (if \<not> is_commit_sha a \<or> \<not> is_commit_sha b then rerr InvalidRevision
      else rbind (rgit env [''merge-base'', a, b]) (\<lambda>(out, ok).
        if \<not> ok then rerr (GitError out) else rret (trim (rv_text env) out)))"

definition bounded_diff :: "bytes \<times> bool \<Rightarrow> bytes read" where
  "bounded_diff = (\<lambda>(out, ok). if \<not> ok then rerr (GitError out)
     else if length out > MAX_DIFF_BYTES then rerr TooLarge else rret out)"

definition diff_read :: "read_env \<Rightarrow> bytes \<Rightarrow> bytes \<Rightarrow> bytes read" where
  "diff_read env from to =
     (if \<not> is_commit_sha from \<or> \<not> is_commit_sha to then rerr InvalidRevision
      else rbind (rgit env [''diff'', ''--no-color'', from, to]) bounded_diff)"

definition NO_MERGE_BASE :: bytes where
  "NO_MERGE_BASE = ''no merge base with the pull request'' @ [CHR 0x27] @ ''s base''"

definition range_diff :: "read_env \<Rightarrow> bytes \<Rightarrow> bytes \<Rightarrow> bytes \<Rightarrow> bytes read" where
  "range_diff env base from to =
     (if \<not> is_commit_sha base \<or> \<not> is_commit_sha from \<or> \<not> is_commit_sha to then rerr InvalidRevision
      else rbind (merge_base env base from) (\<lambda>mb_from.
        rbind (merge_base env base to) (\<lambda>mb_to.
        if mb_from = [] \<or> mb_to = [] then rerr (GitError NO_MERGE_BASE)
        else rbind (rgit env [''range-diff'', ''--no-color'', ''-p'', mb_from @ ''..'' @ from, mb_to @ ''..'' @ to])
               bounded_diff)))"

text \<open>\<open>patch_id_blocking\<close>: the first word of what \<open>git patch-id\<close> prints for the diff on its input.\<close>

definition patch_id_blocking :: "read_env \<Rightarrow> bytes \<Rightarrow> bool \<Rightarrow> bytes read" where
  "patch_id_blocking env diff verbatim =
     (case rv_patch_id env verbatim diff of (out, ok) \<Rightarrow>
        if \<not> ok then rerr (GitError out)
        else case words_of 0 [] out of
          [] \<Rightarrow> rerr (GitError ''patch-id produced nothing'')
        | i # _ \<Rightarrow> rret i)"

definition patch_id :: "read_env \<Rightarrow> bytes \<Rightarrow> bytes \<Rightarrow> bytes read" where
  "patch_id env base sha =
     (if \<not> is_commit_sha base \<or> \<not> is_commit_sha sha then rerr InvalidRevision
      else rbind (rbind (rgit env [''diff'', ''--no-color'', base, sha]) bounded_diff) (\<lambda>out.
        patch_id_blocking env out False))"

definition tree_id :: "read_env \<Rightarrow> bytes \<Rightarrow> bytes read" where
  "tree_id env sha =
     (if \<not> is_commit_sha sha then rerr InvalidRevision
      else rbind (rgit env [''rev-parse'', ''--verify'', ''--quiet'', sha @ ''^{tree}'']) (\<lambda>(out, ok).
        if \<not> ok then rerr (GitError out)
        else if trim (rv_text env) out = [] then rerr NotFound else rret (trim (rv_text env) out)))"

definition resolve_base :: "read_env \<Rightarrow> bytes \<Rightarrow> bytes read" where
  "resolve_base env base =
     (let base = trim (rv_text env) base in
      if is_commit_sha base then rret base
      else if \<not> is_safe_ref_name base then rerr InvalidRevision
      else rbind (rgit env [''rev-parse'', ''--verify'', ''--quiet'', ''refs/remotes/origin/'' @ base @ ''^{commit}'']) (\<lambda>(out, ok).
        if \<not> ok then rerr (GitError out)
        else if \<not> is_commit_sha (trim (rv_text env) out) then rerr NotFound else rret (trim (rv_text env) out)))"

definition merge_base_patch_id :: "read_env \<Rightarrow> bytes \<Rightarrow> bytes \<Rightarrow> bytes read" where
  "merge_base_patch_id env base sha =
     (if \<not> is_commit_sha sha then rerr InvalidRevision
      else rbind (resolve_base env base) (\<lambda>base_sha.
        rbind (merge_base env base_sha sha) (\<lambda>mb.
        if mb = [] then rerr (GitError NO_MERGE_BASE)
        else rbind (rbind (rgit env [''diff'', ''--no-color'', mb, sha]) bounded_diff) (\<lambda>out.
          patch_id_blocking env out True))))"


section \<open>The calls a read makes\<close>

text \<open>What \<open>git\<close> itself printed: an object id of a listing, or an output trimmed.\<close>

definition reported :: "read_env \<Rightarrow> bytes \<Rightarrow> bool" where
  "reported env x \<longleftrightarrow> (\<exists>cs args. x = trim (rv_text env) (fst (rv_git env cs args)) \<or>
     (\<exists>l e. l \<in> set (str_lines (fst (rv_git env cs args))) \<and> parse_ls_tree_line l = Some e \<and> x = te_sha e))"

text \<open>
  The commands of the reads: a caller's revision is a commit id, a caller's path stands behind
  \<open>--\<close>, a caller's pattern behind \<open>-e\<close> and a caller's branch name below \<open>refs/remotes/origin/\<close>.
\<close>

inductive read_call :: "read_env \<Rightarrow> git_args \<Rightarrow> bool" for env where
  "is_commit_sha s \<Longrightarrow> read_call env (with_path [''ls-tree'', s] p)"
| "is_commit_sha s \<Longrightarrow> read_call env (with_path [''grep'', ''-n'', ''-I'', ''--no-color'', ''-e'', q, s] p)"
| "reported env x \<Longrightarrow> f \<in> {''-s'', ''-p''} \<Longrightarrow> read_call env [''cat-file'', f, x]"
| "r \<in> {''refs/remotes/origin/HEAD'', ''refs/remotes/origin/main'', ''refs/remotes/origin/master''} \<Longrightarrow>
     read_call env [''rev-parse'', ''--verify'', r @ ''^{commit}'']"
| "is_commit_sha s \<Longrightarrow> read_call env [''rev-parse'', ''--verify'', ''--quiet'', s @ ''^{tree}'']"
| "is_safe_ref_name b \<Longrightarrow> read_call env [''rev-parse'', ''--verify'', ''--quiet'', ''refs/remotes/origin/'' @ b @ ''^{commit}'']"
| "is_commit_sha a \<Longrightarrow> is_commit_sha b \<Longrightarrow> read_call env [''merge-base'', a, b]"
| "is_commit_sha a \<or> reported env a \<Longrightarrow> is_commit_sha b \<Longrightarrow> read_call env [''diff'', ''--no-color'', a, b]"
| "reported env a \<Longrightarrow> reported env b \<Longrightarrow> is_commit_sha x \<Longrightarrow> is_commit_sha y \<Longrightarrow>
     read_call env [''range-diff'', ''--no-color'', ''-p'', a @ ''..'' @ x, b @ ''..'' @ y]"

text \<open>A read that makes only such calls, never panics, and returns only values with \<open>Q\<close>.\<close>

definition reads :: "read_env \<Rightarrow> ('a \<Rightarrow> bool) \<Rightarrow> 'a read \<Rightarrow> bool" where
  "reads env Q m \<longleftrightarrow> (\<forall>cs. list_all (read_call env) cs \<longrightarrow> list_all (read_call env) (snd (m cs)) \<and>
     (case fst (m cs) of Ok x \<Rightarrow> Q x | Err _ \<Rightarrow> True | Panic \<Rightarrow> False))"

named_theorems reads_intros \<open>a read is made of reads\<close>

lemma reads_ret [reads_intros]: "Q x \<Longrightarrow> reads env Q (rret x)" and reads_err [reads_intros]: "reads env Q (rerr e)"
  by (simp_all add: reads_def rret_def rerr_def)

lemma reads_bind: "reads env Q m \<Longrightarrow> (\<And>x. Q x \<Longrightarrow> reads env R (f x)) \<Longrightarrow> reads env R (rbind m f)"
  by (fastforce simp: reads_def rbind_def split: outcome.splits prod.splits)

lemma reads_git: "read_call env args \<Longrightarrow> reads env (\<lambda>x. \<exists>cs. x = rv_git env cs args) (rgit env args)"
  by (auto simp: reads_def rgit_def)

lemma reads_if [reads_intros]: "(b \<Longrightarrow> reads env Q m) \<Longrightarrow> (\<not> b \<Longrightarrow> reads env Q k) \<Longrightarrow> reads env Q (if b then m else k)"
  by simp

lemma reads_option [reads_intros]:
  "(r = None \<Longrightarrow> reads env Q m) \<Longrightarrow> (\<And>x. r = Some x \<Longrightarrow> reads env Q (f x)) \<Longrightarrow>
   reads env Q (case r of None \<Rightarrow> m | Some x \<Rightarrow> f x)"
  by (cases r) auto

lemma reads_weaken: "reads env Q m \<Longrightarrow> (\<And>x. Q x \<Longrightarrow> R x) \<Longrightarrow> reads env R m"
  by (auto simp: reads_def split: outcome.splits)

definition answers :: "read_env \<Rightarrow> bytes \<Rightarrow> bool" where
  "answers env out \<longleftrightarrow> (\<exists>cs args. out = fst (rv_git env cs args))"

lemma reads_git_bind:
  assumes "read_call env args" "\<And>out ok. answers env out \<Longrightarrow> reads env R (f out ok)"
  shows "reads env R (rbind (rgit env args) (\<lambda>(out, ok). f out ok))"
proof (rule reads_bind [OF reads_git [OF assms(1)]])
  fix x assume "\<exists>cs. x = rv_git env cs args"
  then have "answers env (fst x)" by (auto simp: answers_def)
  then show "reads env R (case x of (out, ok) \<Rightarrow> f out ok)" using assms(2) by (cases x) auto
qed

lemma reported_id:
  assumes "answers env out"
    "Option.bind (find (\<lambda>l. \<not> blank env l) (str_lines out)) parse_ls_tree_line = Some e"
  shows "reported env (te_sha e)"
proof -
  from assms(2) obtain l where l: "find (\<lambda>l. \<not> blank env l) (str_lines out) = Some l" "parse_ls_tree_line l = Some e"
    by (auto simp: bind_eq_Some_conv)
  then have "l \<in> set (str_lines out)" by (auto simp: find_Some_iff)
  with l assms(1) show ?thesis by (auto simp: reported_def answers_def)
qed

lemma reported_trim: "answers env out \<Longrightarrow> reported env (trim (rv_text env) out)"
  by (auto simp: reported_def answers_def)

lemma bounded_diff_reads:
  "read_call env args \<Longrightarrow> reads env (\<lambda>out. length out \<le> MAX_DIFF_BYTES) (rbind (rgit env args) bounded_diff)"
  unfolding bounded_diff_def by (intro reads_git_bind reads_intros) simp_all

lemma with_path_read_blob: "p \<noteq> [] \<Longrightarrow> [''ls-tree'', s, ''--'', p] = with_path [''ls-tree'', s] p"
  by (simp add: with_path_def)

lemma read_blob_reads: "reads env (\<lambda>_. True) (read_blob env sha path)"
proof -
  have ls: "read_call env [''ls-tree'', sha, ''--'', path]" if "is_commit_sha sha" "path \<noteq> []"
    unfolding with_path_read_blob [OF that(2)] using that(1) by (rule read_call.intros)
  show ?thesis
    unfolding read_blob_def
    by (intro reads_if reads_err reads_option reads_ret TrueI reads_git_bind read_call.intros(3))
       (auto intro: ls dest: reported_id)
qed

lemma ls_tree_reads: "reads env (\<lambda>(es, cut). length es \<le> MAX_TREE_ENTRIES) (ls_tree env sha path)"
  unfolding ls_tree_def Let_def by (intro reads_if reads_err reads_ret reads_git_bind read_call.intros) auto

lemma merge_base_reads: "reads env (reported env) (merge_base env a b)"
  unfolding merge_base_def by (intro reads_if reads_err reads_ret reads_git_bind read_call.intros reported_trim) auto

lemma diff_reads: "reads env (\<lambda>out. length out \<le> MAX_DIFF_BYTES) (diff_read env from to)"
  unfolding diff_read_def by (intro reads_if reads_err bounded_diff_reads read_call.intros) auto

lemma range_diff_reads: "reads env (\<lambda>out. length out \<le> MAX_DIFF_BYTES) (range_diff env base from to)"
  unfolding range_diff_def
  by (intro reads_if reads_err reads_bind [OF merge_base_reads] bounded_diff_reads read_call.intros) auto

lemma patch_id_blocking_reads: "reads env (\<lambda>_. True) (patch_id_blocking env d v)"
  unfolding patch_id_blocking_def by (auto intro!: reads_intros split: prod.split list.split)

lemma resolve_base_reads: "reads env is_commit_sha (resolve_base env base)"
  unfolding resolve_base_def Let_def by (intro reads_if reads_err reads_ret reads_git_bind read_call.intros) auto

lemma default_base_reads:
  "set rs \<subseteq> {''refs/remotes/origin/HEAD'', ''refs/remotes/origin/main'', ''refs/remotes/origin/master''} \<Longrightarrow>
   reads env is_commit_sha (default_base_of env rs)"
proof (induction rs)
  case (Cons r rs)
  then have "r \<in> {''refs/remotes/origin/HEAD'', ''refs/remotes/origin/main'', ''refs/remotes/origin/master''}" by simp
  moreover have "reads env is_commit_sha (default_base_of env rs)" using Cons by simp
  ultimately show ?case
    unfolding default_base_of.simps by (intro reads_git_bind reads_if reads_ret read_call.intros) auto
qed (simp add: reads_err)

lemma patch_ids_read:
  "reads env (\<lambda>_. True) (patch_id env base sha)"
  "reads env (\<lambda>_. True) (merge_base_patch_id env base sha)"
  "reads env (\<lambda>_. True) (tree_id env sha)"
proof -
  have d: "reads env (\<lambda>_. True) (rbind (rbind (rgit env [''diff'', ''--no-color'', a, s]) bounded_diff) (\<lambda>out. patch_id_blocking env out v))"
    if "is_commit_sha a \<or> reported env a" "is_commit_sha s" for a s v
    using that by (intro reads_bind [OF bounded_diff_reads] read_call.intros patch_id_blocking_reads)
  show "reads env (\<lambda>_. True) (patch_id env base sha)"
    unfolding patch_id_def by (intro reads_if reads_err d) auto
  show "reads env (\<lambda>_. True) (merge_base_patch_id env base sha)"
    unfolding merge_base_patch_id_def
    by (intro reads_if reads_err reads_bind [OF resolve_base_reads] reads_bind [OF merge_base_reads] d) auto
  show "reads env (\<lambda>_. True) (tree_id env sha)"
    unfolding tree_id_def by (intro reads_if reads_err reads_ret reads_git_bind read_call.intros) auto
qed

text \<open>The search is the one read that can panic: where its result is cut inside a character.\<close>

definition cut_inside_char :: "bytes \<Rightarrow> bool" where
  "cut_inside_char out \<longleftrightarrow> MAX_GREP_BYTES < length out \<and> 128 \<le> byte_val (out ! MAX_GREP_BYTES) \<and> byte_val (out ! MAX_GREP_BYTES) < 192"

lemma truncate_grep:
  "MAX_GREP_BYTES < length out \<Longrightarrow>
   str_truncate MAX_GREP_BYTES out = (if cut_inside_char out then None else Some (take MAX_GREP_BYTES out))"
  by (auto simp: str_truncate_def is_char_boundary_def cut_inside_char_def MAX_GREP_BYTES_def)

lemma grep_eq:
  assumes "is_commit_sha sha" "pattern \<noteq> []"
    and "rv_git env cs (with_path [''grep'', ''-n'', ''-I'', ''--no-color'', ''-e'', pattern, sha] path) = (out, ok)"
  shows "fst (grep env sha pattern path cs) =
     (if \<not> ok \<and> \<not> blank env out then Err (GitError out)
      else if cut_inside_char out then Panic
      else Ok (take MAX_GREP_BYTES out, MAX_GREP_BYTES < length out))"
  using assms truncate_grep [of out]
  by (auto simp: grep_def rbind_def rgit_def rerr_def rret_def rpanic_def Let_def cut_inside_char_def)

section \<open>Properties\<close>



text \<open>A search whose result has a two-byte character across the bound.\<close>

definition long_result :: bytes where
  "long_result = replicate (MAX_GREP_BYTES - 1) (CHR ''a'') @ [CHR 0xC3, CHR 0xA9]"

definition demo_read_env :: read_env where
  "demo_read_env = \<lparr>rv_git = (\<lambda>_ _. (long_result, True)), rv_patch_id = (\<lambda>_ _. ([], True)), rv_text = ascii_text\<rparr>"


end
