(* ===== verification/Drain.thy ===== *)
theory Drain
  imports Issue
begin

text \<open>
  The drain signal (\<^verbatim>\<open>crates/orchestrator/src/drain.rs\<close>): three atomics shared by HTTP handlers,
  workers and the control loop without a lock. Each method is a sequence of atomic accesses, one step
  of its caller each, and the callers interleave in any order; the accesses are taken one at a time in
  a single order, as the acquire and release pairs on \<open>active\<close> give for what the theorems read. The
  dispatch gate with its log, and the text form of a continuation in the retry table, are here too.
  The calendar (\<^verbatim>\<open>chrono\<close>) and the JSON codec (\<^verbatim>\<open>serde_json\<close>) are arguments.
\<close>

section \<open>Reasons\<close>

datatype drain_reason = Operator | Update

definition reason_default :: drain_reason where
  "reason_default = Operator"

fun reason_as_str :: "drain_reason \<Rightarrow> string" where
  "reason_as_str Operator = ''operator''"
| "reason_as_str Update = ''update''"

definition reason_parse :: "string \<Rightarrow> drain_reason" where
  "reason_parse s = (if s = ''update'' then Update else Operator)"

fun reason_to_bits :: "drain_reason \<Rightarrow> 8 word" where
  "reason_to_bits Operator = 0"
| "reason_to_bits Update = 1"

definition reason_from_bits :: "8 word \<Rightarrow> drain_reason" where
  "reason_from_bits b = (if b = 1 then Update else Operator)"

lemma reason_round_trips [simp]:
  "reason_parse (reason_as_str r) = r" "reason_from_bits (reason_to_bits r) = r"
  by (cases r; simp add: reason_parse_def reason_from_bits_def)+

section \<open>The signal and its methods\<close>

text \<open>\<open>timestamp_millis\<close> and \<open>timestamp_millis_opt(\<dots>).single()\<close>.\<close>

record calendar =
  to_millis :: "instant \<Rightarrow> int"
  of_millis :: "int \<Rightarrow> instant option"

record drain_signal =
  sig_active :: bool
  sig_requested_at_ms :: int
  sig_reason :: "8 word"

definition signal_new :: drain_signal where
  "signal_new = \<lparr>sig_active = False, sig_requested_at_ms = 0, sig_reason = 0\<rparr>"

record drain_status =
  st_active :: bool
  st_requested_at :: "instant option"
  st_reason :: drain_reason

definition inactive_status :: drain_status where
  "inactive_status = \<lparr>st_active = False, st_requested_at = None, st_reason = reason_default\<rparr>"

definition from_millis :: "calendar \<Rightarrow> int \<Rightarrow> instant option" where
  "from_millis cal ms = (if ms = 0 then None else of_millis cal ms)"

text \<open>
  Where a caller is: about to make the access named, with what it has read so far; or returned, with
  its answer. \<open>IsDraining\<close> is the gate's single load.
\<close>

datatype caller =
    ArmLoad instant drain_reason | ArmStoreAt instant drain_reason | ArmStoreReason drain_reason | ArmSwap
  | DisarmSwap | DisarmStoreAt | DisarmStoreReason
  | StatusLoad | StatusAt | StatusReason "instant option"
  | IsDraining
  | Answered bool | Reported drain_status

fun access :: "calendar \<Rightarrow> caller \<Rightarrow> drain_signal \<Rightarrow> caller \<times> drain_signal" where
  "access cal (ArmLoad at r) g = (if sig_active g then (Answered False, g) else (ArmStoreAt at r, g))"
| "access cal (ArmStoreAt at r) g = (ArmStoreReason r, g\<lparr>sig_requested_at_ms := to_millis cal at\<rparr>)"
| "access cal (ArmStoreReason r) g = (ArmSwap, g\<lparr>sig_reason := reason_to_bits r\<rparr>)"
| "access cal ArmSwap g = (Answered (\<not> sig_active g), g\<lparr>sig_active := True\<rparr>)"
| "access cal DisarmSwap g = (if sig_active g then DisarmStoreAt else Answered False, g\<lparr>sig_active := False\<rparr>)"
| "access cal DisarmStoreAt g = (DisarmStoreReason, g\<lparr>sig_requested_at_ms := 0\<rparr>)"
| "access cal DisarmStoreReason g = (Answered True, g\<lparr>sig_reason := reason_to_bits reason_default\<rparr>)"
| "access cal StatusLoad g = (if sig_active g then StatusAt else Reported inactive_status, g)"
| "access cal StatusAt g = (StatusReason (from_millis cal (sig_requested_at_ms g)), g)"
| "access cal (StatusReason at) g =
     (Reported \<lparr>st_active = True, st_requested_at = at, st_reason = reason_from_bits (sig_reason g)\<rparr>, g)"
| "access cal IsDraining g = (Answered (sig_active g), g)"
| "access cal (Answered b) g = (Answered b, g)"
| "access cal (Reported s) g = (Reported s, g)"

text \<open>A method run with nobody in between: at most four accesses.\<close>

fun alone :: "calendar \<Rightarrow> nat \<Rightarrow> caller \<Rightarrow> drain_signal \<Rightarrow> caller \<times> drain_signal" where
  "alone cal 0 c g = (c, g)"
| "alone cal (Suc n) c g = (case access cal c g of (c', g') \<Rightarrow> alone cal n c' g')"

definition arm :: "calendar \<Rightarrow> instant \<Rightarrow> drain_reason \<Rightarrow> drain_signal \<Rightarrow> caller \<times> drain_signal" where
  "arm cal at r g = alone cal 4 (ArmLoad at r) g"

definition disarm :: "calendar \<Rightarrow> drain_signal \<Rightarrow> caller \<times> drain_signal" where
  "disarm cal g = alone cal 3 DisarmSwap g"

definition status :: "calendar \<Rightarrow> drain_signal \<Rightarrow> caller \<times> drain_signal" where
  "status cal g = alone cal 3 StatusLoad g"

text \<open>The swaps that changed \<open>active\<close>, in their order: who armed and who cancelled.\<close>

datatype flip = Armed nat | Cancelled nat

record drain_system =
  dr_signal :: drain_signal
  dr_callers :: "caller list"
  dr_flips :: "flip list"

definition flips_of :: "nat \<Rightarrow> caller \<Rightarrow> drain_signal \<Rightarrow> flip list" where
  "flips_of i c g =
     (if c = ArmSwap \<and> \<not> sig_active g then [Armed i]
      else if c = DisarmSwap \<and> sig_active g then [Cancelled i] else [])"

definition drain_step :: "calendar \<Rightarrow> nat \<Rightarrow> drain_system \<Rightarrow> drain_system" where
  "drain_step cal i s =
     (if i < length (dr_callers s) then
        (case access cal (dr_callers s ! i) (dr_signal s) of (c, g) \<Rightarrow>
          \<lparr>dr_signal = g, dr_callers = (dr_callers s)[i := c],
           dr_flips = dr_flips s @ flips_of i (dr_callers s ! i) (dr_signal s)\<rparr>)
      else s)"

text \<open>A schedule: which caller makes the next access.\<close>

definition drain_run :: "calendar \<Rightarrow> nat list \<Rightarrow> drain_system \<Rightarrow> drain_system" where
  "drain_run cal sched s = fold (drain_step cal) sched s"

definition drain_start :: "caller list \<Rightarrow> drain_system" where
  "drain_start calls = \<lparr>dr_signal = signal_new, dr_callers = calls, dr_flips = []\<rparr>"

fun is_call :: "caller \<Rightarrow> bool" where
  "is_call (ArmLoad _ _) = True"
| "is_call DisarmSwap = True"
| "is_call StatusLoad = True"
| "is_call IsDraining = True"
| "is_call _ = False"

section \<open>The abstract flag\<close>

text \<open>Arms and cancels that succeed take turns; \<open>flag\<close> is what the last of them left.\<close>

fun alternates :: "bool \<Rightarrow> flip list \<Rightarrow> bool" where
  "alternates b [] = True"
| "alternates b (Armed i # es) = (\<not> b \<and> alternates True es)"
| "alternates b (Cancelled i # es) = (b \<and> alternates False es)"

fun flag :: "bool \<Rightarrow> flip list \<Rightarrow> bool" where
  "flag b [] = b"
| "flag b (Armed i # es) = flag True es"
| "flag b (Cancelled i # es) = flag False es"

lemma flips_append:
  "alternates b (es @ fs) \<longleftrightarrow> alternates b es \<and> alternates (flag b es) fs"
  "flag b (es @ fs) = flag (flag b es) fs"
  by (induction b es rule: flag.induct) auto

section \<open>Invariants of every interleaving\<close>

locale drain_invariant =
  fixes I :: "calendar \<Rightarrow> caller list \<Rightarrow> drain_system \<Rightarrow> bool"
  assumes start: "list_all is_call calls \<Longrightarrow> I cal calls (drain_start calls)"
    and access_step: "I cal calls s \<Longrightarrow> i < length (dr_callers s) \<Longrightarrow>
      I cal calls \<lparr>dr_signal = snd (access cal (dr_callers s ! i) (dr_signal s)),
        dr_callers = (dr_callers s)[i := fst (access cal (dr_callers s ! i) (dr_signal s))],
        dr_flips = dr_flips s @ flips_of i (dr_callers s ! i) (dr_signal s)\<rparr>"
begin

lemma step: "I cal calls s \<Longrightarrow> I cal calls (drain_step cal i s)"
  using access_step [of cal calls s i] by (simp add: drain_step_def split_beta)

lemma run: "list_all is_call calls \<Longrightarrow> I cal calls (drain_run cal sched (drain_start calls))"
proof (induction sched rule: rev_induct)
  case Nil
  then show ?case by (simp add: drain_run_def start)
next
  case (snoc i sched)
  then show ?case using step [of cal calls "drain_run cal sched (drain_start calls)" i] by (simp add: drain_run_def)
qed

end

text \<open>Where the caller of a method can be.\<close>

fun runs :: "caller \<Rightarrow> caller \<Rightarrow> bool" where
  "runs (ArmLoad at r) c \<longleftrightarrow> c \<in> {ArmLoad at r, ArmStoreAt at r, ArmStoreReason r, ArmSwap, Answered True, Answered False}"
| "runs DisarmSwap c \<longleftrightarrow> c \<in> {DisarmSwap, DisarmStoreAt, DisarmStoreReason, Answered True, Answered False}"
| "runs StatusLoad c \<longleftrightarrow> c = StatusLoad \<or> c = StatusAt \<or> (\<exists>a. c = StatusReason a) \<or> (\<exists>st. c = Reported st)"
| "runs IsDraining c \<longleftrightarrow> c = IsDraining \<or> (\<exists>b. c = Answered b)"
| "runs _ c \<longleftrightarrow> False"

fun is_arm :: "caller \<Rightarrow> bool" where
  "is_arm (ArmLoad _ _) = True"
| "is_arm _ = False"

definition armed_by :: "caller \<Rightarrow> caller \<Rightarrow> bool" where
  "armed_by call c \<longleftrightarrow> is_arm call \<and> c = Answered True"

definition cancelled_by :: "caller \<Rightarrow> caller \<Rightarrow> bool" where
  "cancelled_by call c \<longleftrightarrow> call = DisarmSwap \<and> c \<in> {DisarmStoreAt, DisarmStoreReason, Answered True}"

definition flips_told :: "calendar \<Rightarrow> caller list \<Rightarrow> drain_system \<Rightarrow> bool" where
  "flips_told cal calls s \<longleftrightarrow>
     length (dr_callers s) = length calls \<and>
     alternates False (dr_flips s) \<and> flag False (dr_flips s) = sig_active (dr_signal s) \<and>
     (\<forall>i < length calls. runs (calls ! i) (dr_callers s ! i) \<and>
        count_list (dr_flips s) (Armed i) = of_bool (armed_by (calls ! i) (dr_callers s ! i)) \<and>
        count_list (dr_flips s) (Cancelled i) = of_bool (cancelled_by (calls ! i) (dr_callers s ! i)))"

lemma runs_access: "runs call c \<Longrightarrow> runs call (fst (access cal c g))"
  by (cases call; cases c) auto

lemma flips_access:
  assumes "runs call c"
  shows "count_list (flips_of i c g) (Armed i) + of_bool (armed_by call c) = of_bool (armed_by call (fst (access cal c g)))"
    and "count_list (flips_of i c g) (Cancelled i) + of_bool (cancelled_by call c) = of_bool (cancelled_by call (fst (access cal c g)))"
    and "j \<noteq> i \<Longrightarrow> count_list (flips_of i c g) (Armed j) = 0 \<and> count_list (flips_of i c g) (Cancelled j) = 0"
    and "alternates (sig_active g) (flips_of i c g) \<and> flag (sig_active g) (flips_of i c g) = sig_active (snd (access cal c g))"
  using assms by (cases call; cases c; auto simp: flips_of_def armed_by_def cancelled_by_def)+

interpretation told: drain_invariant flips_told
proof
  fix calls cal
  assume "list_all is_call calls"
  then show "flips_told cal calls (drain_start calls)"
  proof -
    have "runs c c \<and> \<not> armed_by c c \<and> \<not> cancelled_by c c" if "is_call c" for c
      using that by (cases c) (auto simp: armed_by_def cancelled_by_def)
    with \<open>list_all is_call calls\<close> show ?thesis
      by (simp add: flips_told_def drain_start_def signal_new_def list_all_length)
  qed
next
  fix cal calls s i
  assume I: "flips_told cal calls s" and i: "i < length (dr_callers s)"
  let ?c = "dr_callers s ! i" and ?g = "dr_signal s"
  have r: "runs (calls ! i) ?c" using I i by (simp add: flips_told_def)
  note fa = flips_access(1,2,4) [OF r, where i = i and g = ?g and cal = cal] and ra = runs_access [OF r]
  have "runs (calls ! j) ((dr_callers s)[i := fst (access cal ?c ?g)] ! j) \<and>
      count_list (dr_flips s @ flips_of i ?c ?g) (Armed j) =
        of_bool (armed_by (calls ! j) ((dr_callers s)[i := fst (access cal ?c ?g)] ! j)) \<and>
      count_list (dr_flips s @ flips_of i ?c ?g) (Cancelled j) =
        of_bool (cancelled_by (calls ! j) ((dr_callers s)[i := fst (access cal ?c ?g)] ! j))"
    if "j < length calls" for j
    using I i that ra fa(1,2) flips_access(3) [OF r, where i = i and j = j and g = ?g]
    by (cases "j = i") (auto simp: flips_told_def count_list_append)
  with I i fa(3) show "flips_told cal calls \<lparr>dr_signal = snd (access cal ?c ?g),
        dr_callers = (dr_callers s)[i := fst (access cal ?c ?g)], dr_flips = dr_flips s @ flips_of i ?c ?g\<rparr>"
    by (simp add: flips_told_def flips_append)
qed

text \<open>What the annotations of an armed signal say, as long as nobody cancels.\<close>

definition ms_named :: "calendar \<Rightarrow> caller list \<Rightarrow> int \<Rightarrow> bool" where
  "ms_named cal calls ms \<longleftrightarrow> (\<exists>at r. ArmLoad at r \<in> set calls \<and> ms = to_millis cal at)"

definition reason_named :: "caller list \<Rightarrow> 8 word \<Rightarrow> bool" where
  "reason_named calls b \<longleftrightarrow> (\<exists>at r. ArmLoad at r \<in> set calls \<and> b = reason_to_bits r)"

definition status_named :: "calendar \<Rightarrow> caller list \<Rightarrow> drain_status \<Rightarrow> bool" where
  "status_named cal calls st \<longleftrightarrow>
     (\<exists>at r. ArmLoad at r \<in> set calls \<and> st_requested_at st = from_millis cal (to_millis cal at)) \<and>
     (\<exists>at. ArmLoad at (st_reason st) \<in> set calls)"

fun caller_named :: "calendar \<Rightarrow> caller list \<Rightarrow> drain_signal \<Rightarrow> caller \<Rightarrow> bool" where
  "caller_named cal calls g (ArmStoreReason _) \<longleftrightarrow> ms_named cal calls (sig_requested_at_ms g)"
| "caller_named cal calls g ArmSwap \<longleftrightarrow> ms_named cal calls (sig_requested_at_ms g) \<and> reason_named calls (sig_reason g)"
| "caller_named cal calls g StatusAt \<longleftrightarrow> ms_named cal calls (sig_requested_at_ms g) \<and> reason_named calls (sig_reason g)"
| "caller_named cal calls g (StatusReason a) \<longleftrightarrow>
     reason_named calls (sig_reason g) \<and> (\<exists>ms. ms_named cal calls ms \<and> a = from_millis cal ms)"
| "caller_named cal calls g (Reported st) \<longleftrightarrow> (st_active st \<longrightarrow> status_named cal calls st)"
| "caller_named cal calls g _ \<longleftrightarrow> True"

definition annotations_named :: "calendar \<Rightarrow> caller list \<Rightarrow> drain_system \<Rightarrow> bool" where
  "annotations_named cal calls s \<longleftrightarrow>
     length (dr_callers s) = length calls \<and>
     (\<forall>i < length calls. runs (calls ! i) (dr_callers s ! i)) \<and>
     (DisarmSwap \<notin> set calls \<longrightarrow>
        (sig_active (dr_signal s) \<longrightarrow>
           ms_named cal calls (sig_requested_at_ms (dr_signal s)) \<and> reason_named calls (sig_reason (dr_signal s))) \<and>
        (\<forall>i < length calls. caller_named cal calls (dr_signal s) (dr_callers s ! i)))"

lemma status_namedI:
  "reason_named calls (sig_reason g) \<Longrightarrow> ms_named cal calls ms \<Longrightarrow>
   status_named cal calls \<lparr>st_active = True, st_requested_at = from_millis cal ms, st_reason = reason_from_bits (sig_reason g)\<rparr>"
  by (auto simp: status_named_def reason_named_def ms_named_def)

lemma caller_named_mono:
  "caller_named cal calls g d \<Longrightarrow>
   (ms_named cal calls (sig_requested_at_ms g) \<Longrightarrow> ms_named cal calls (sig_requested_at_ms g')) \<Longrightarrow>
   (reason_named calls (sig_reason g) \<Longrightarrow> reason_named calls (sig_reason g')) \<Longrightarrow> caller_named cal calls g' d"
  by (cases d) auto

lemma access_named:
  assumes "runs call c" "call \<in> set calls" "DisarmSwap \<notin> set calls" "caller_named cal calls g c"
    and active: "sig_active g \<longrightarrow> ms_named cal calls (sig_requested_at_ms g) \<and> reason_named calls (sig_reason g)"
  shows "caller_named cal calls (snd (access cal c g)) (fst (access cal c g))"
    and "sig_active (snd (access cal c g)) \<longrightarrow>
      ms_named cal calls (sig_requested_at_ms (snd (access cal c g))) \<and> reason_named calls (sig_reason (snd (access cal c g)))"
    and "caller_named cal calls g d \<Longrightarrow> caller_named cal calls (snd (access cal c g)) d"
proof -
  have ms: "ms_named cal calls (to_millis cal at)" if "call = ArmLoad at r" for at r
    using that assms(2) by (auto simp: ms_named_def)
  have rs: "reason_named calls (reason_to_bits r)" if "call = ArmLoad at r" for at r
    using that assms(2) by (auto simp: reason_named_def)
  show "caller_named cal calls (snd (access cal c g)) (fst (access cal c g))"
    using assms ms rs
    by (cases call; cases c) (auto simp: inactive_status_def intro: status_namedI)
  show "sig_active (snd (access cal c g)) \<longrightarrow>
      ms_named cal calls (sig_requested_at_ms (snd (access cal c g))) \<and> reason_named calls (sig_reason (snd (access cal c g)))"
    using assms ms rs by (cases call; cases c) auto
  have "ms_named cal calls (sig_requested_at_ms g) \<longrightarrow> ms_named cal calls (sig_requested_at_ms (snd (access cal c g)))"
    "reason_named calls (sig_reason g) \<longrightarrow> reason_named calls (sig_reason (snd (access cal c g)))"
    using assms(1-3) ms rs by (cases call; cases c; auto)+
  then show "caller_named cal calls g d \<Longrightarrow> caller_named cal calls (snd (access cal c g)) d"
    by (blast intro: caller_named_mono)
qed

interpretation named: drain_invariant annotations_named
proof
  fix calls cal
  assume "list_all is_call calls"
  moreover have "runs c c \<and> caller_named cal calls signal_new c" if "is_call c" for c
    using that by (cases c) auto
  ultimately show "annotations_named cal calls (drain_start calls)"
    by (simp add: annotations_named_def drain_start_def list_all_length) (simp add: signal_new_def)
next
  fix cal calls s i
  assume I: "annotations_named cal calls s" and i: "i < length (dr_callers s)"
  let ?c = "dr_callers s ! i" and ?g = "dr_signal s"
  have r: "runs (calls ! i) ?c" "calls ! i \<in> set calls" using I i by (simp_all add: annotations_named_def)
  have "caller_named cal calls (snd (access cal ?c ?g)) ((dr_callers s)[i := fst (access cal ?c ?g)] ! j)"
    if "j < length calls" "DisarmSwap \<notin> set calls" for j
    using access_named(1,3) [OF r that(2)] I i that by (cases "j = i") (auto simp: annotations_named_def)
  then show "annotations_named cal calls \<lparr>dr_signal = snd (access cal ?c ?g),
        dr_callers = (dr_callers s)[i := fst (access cal ?c ?g)], dr_flips = dr_flips s @ flips_of i ?c ?g\<rparr>"
    using I i access_named(2) [OF r] runs_access [OF r(1)]
    by (auto simp: annotations_named_def nth_list_update)
qed

section \<open>The methods on their own\<close>

lemma arm_alone:
  "arm cal at r g =
     (if sig_active g then (Answered False, g)
      else (Answered True, \<lparr>sig_active = True, sig_requested_at_ms = to_millis cal at, sig_reason = reason_to_bits r\<rparr>))"
  by (simp add: arm_def numeral_eq_Suc)

lemma disarm_alone:
  "disarm cal g = (if sig_active g then (Answered True, signal_new) else (Answered False, g))"
  by (cases g) (simp add: disarm_def numeral_eq_Suc signal_new_def reason_default_def)

lemma status_alone:
  "status cal g =
     (Reported (if sig_active g then \<lparr>st_active = True, st_requested_at = from_millis cal (sig_requested_at_ms g),
         st_reason = reason_from_bits (sig_reason g)\<rparr> else inactive_status), g)"
  by (simp add: status_def numeral_eq_Suc)

section \<open>The dispatch gate\<close>

record drain_gate_log =
  gl_last_logged_at :: instant
  gl_reported_idle :: bool

datatype drain_line = LineCancelled | LineRequested | LineComplete | LineInProgress

text \<open>Five minutes; instants are nanoseconds.\<close>

definition DRAIN_LOG_INTERVAL :: int where
  "DRAIN_LOG_INTERVAL = 300 * 10 ^ 9"

definition drain_due :: "instant \<Rightarrow> instant \<Rightarrow> bool" where
  "drain_due last_logged now \<longleftrightarrow> 0 \<le> now - last_logged \<and> now - last_logged \<ge> DRAIN_LOG_INTERVAL"

text \<open>The gate of one tick: whether dispatch is skipped, what it remembers, and the line it writes.\<close>

definition drain_preflight ::
  "drain_signal \<Rightarrow> nat \<Rightarrow> instant \<Rightarrow> drain_gate_log option \<Rightarrow> bool \<times> drain_gate_log option \<times> drain_line option" where
  "drain_preflight g running now gate =
     (if \<not> sig_active g then (False, None, if gate \<noteq> None then Some LineCancelled else None)
      else case gate of
        None \<Rightarrow> (True, Some \<lparr>gl_last_logged_at = now, gl_reported_idle = False\<rparr>, Some LineRequested)
      | Some gl \<Rightarrow>
          let gl = (if running > 0 then gl\<lparr>gl_reported_idle := False\<rparr> else gl) in
          if running = 0 \<and> \<not> gl_reported_idle gl
          then (True, Some \<lparr>gl_last_logged_at = now, gl_reported_idle = True\<rparr>, Some LineComplete)
          else if drain_due (gl_last_logged_at gl) now
          then (True, Some (gl\<lparr>gl_last_logged_at := now\<rparr>), Some LineInProgress)
          else (True, Some gl, None))"

section \<open>Continuations in the retry table\<close>

record 'e drain_continuation =
  dc_session :: string
  dc_harness :: string
  dc_issue :: issue
  dc_engine :: "'e option"

definition RETRY_DRAIN_PREFIX :: string where
  "RETRY_DRAIN_PREFIX = ''drain continuation:''"

record 'e retry_codec =
  rc_to_string :: "'e drain_continuation \<times> string \<Rightarrow> string option"
  rc_from_str :: "string \<Rightarrow> ('e drain_continuation \<times> string) option"

definition retry_text :: "'e retry_codec \<Rightarrow> 'e drain_continuation \<Rightarrow> string \<Rightarrow> string" where
  "retry_text codec c reason =
     (case rc_to_string codec (c, reason) of
        Some json \<Rightarrow> RETRY_DRAIN_PREFIX @ json
      | None \<Rightarrow> reason)"

definition restore_retry :: "'e retry_codec \<Rightarrow> string \<Rightarrow> ('e drain_continuation \<times> string) option" where
  "restore_retry codec text =
     (if starts_with text RETRY_DRAIN_PREFIX then rc_from_str codec (drop (length RETRY_DRAIN_PREFIX) text) else None)"

definition codec_ok :: "'e retry_codec \<Rightarrow> bool" where
  "codec_ok codec \<longleftrightarrow> (\<forall>x json. rc_to_string codec x = Some json \<longrightarrow> rc_from_str codec json = Some x)"

text \<open>A stored continuation reads back; one that could not be stored leaves the plain reason.\<close>

lemma continuation_reads_back:
  assumes "codec_ok codec"
  shows "restore_retry codec (retry_text codec c reason) =
     (if rc_to_string codec (c, reason) = None then restore_retry codec reason else Some (c, reason))"
  using assms by (auto simp: restore_retry_def retry_text_def codec_ok_def split: option.splits)

section \<open>Properties\<close>

text \<open>
  C14. Under every interleaving of the atomic accesses of any number of callers the arms and cancels
  that change the flag take turns, and the flag is what the last of them left; a caller of \<open>arm\<close> is told
  it armed the drain exactly when its swap did so, once, and likewise for \<open>disarm\<close>: of arms racing on
  an inactive signal exactly one wins.
\<close>

theorem drain_flips_take_turns:
  assumes "list_all is_call calls" "s = drain_run cal sched (drain_start calls)"
  shows "alternates False (dr_flips s) \<and> flag False (dr_flips s) = sig_active (dr_signal s) \<and>
     (\<forall>i < length calls.
        count_list (dr_flips s) (Armed i) = of_bool (armed_by (calls ! i) (dr_callers s ! i)) \<and>
        count_list (dr_flips s) (Cancelled i) = of_bool (cancelled_by (calls ! i) (dr_callers s ! i)))"
  using told.run [OF assms(1), of cal sched] unfolding assms(2) flips_told_def by simp

text \<open>
  While nobody cancels, a status that says the drain is on gives an instant some \<open>arm\<close> asked with
  and a reason some \<open>arm\<close> asked with, under every interleaving.
\<close>

theorem drain_status_names_requests:
  assumes "list_all is_call calls" "DisarmSwap \<notin> set calls" "i < length calls"
    "dr_callers (drain_run cal sched (drain_start calls)) ! i = Reported st" "st_active st"
  shows "status_named cal calls st"
  using named.run [OF assms(1), of cal sched] assms(2-)
  by (auto simp: annotations_named_def dest!: spec [of _ i])

definition demo_calendar :: calendar where
  "demo_calendar = \<lparr>to_millis = (\<lambda>t. t), of_millis = Some\<rparr>"


theorem drain_flips_take_turns_witness:
  "alternates False (dr_flips (drain_run demo_calendar [0, 1, 0, 1, 0, 1, 0, 1, 2]
      (drain_start [ArmLoad 5 Operator, ArmLoad 7 Update, DisarmSwap]))) \<and>
   dr_flips (drain_run demo_calendar [0, 1, 0, 1, 0, 1, 0, 1, 2]
      (drain_start [ArmLoad 5 Operator, ArmLoad 7 Update, DisarmSwap])) = [Armed 0, Cancelled 2]"
proof -
  have "dr_flips (drain_run demo_calendar [0, 1, 0, 1, 0, 1, 0, 1, 2]
      (drain_start [ArmLoad 5 Operator, ArmLoad 7 Update, DisarmSwap])) = [Armed 0, Cancelled 2]"
    by code_simp
  with drain_flips_take_turns [OF _ refl, of "[ArmLoad 5 Operator, ArmLoad 7 Update, DisarmSwap]" demo_calendar "[0, 1, 0, 1, 0, 1, 0, 1, 2]"]
  show ?thesis by simp
qed

theorem drain_status_names_requests_witness:
  "status_named demo_calendar [ArmLoad 5 Operator, ArmLoad 7 Update, StatusLoad]
     \<lparr>st_active = True, st_requested_at = Some 5, st_reason = Update\<rparr>"
proof -
  have "dr_callers (drain_run demo_calendar [0, 1, 1, 0, 0, 1, 0, 1, 2, 2, 2]
      (drain_start [ArmLoad 5 Operator, ArmLoad 7 Update, StatusLoad])) ! 2 =
     Reported \<lparr>st_active = True, st_requested_at = Some 5, st_reason = Update\<rparr>"
    by code_simp
  from drain_status_names_requests [OF _ _ _ this] show ?thesis by simp
qed

end
