(* ===== verification/Log_Buffer.thy ===== *)
theory Log_Buffer
  imports Prelude "HOL-Library.Sublist"
begin

text \<open>
  The daemon's log ring (\<^verbatim>\<open>crates/telemetry/src/logbuffer.rs\<close>): a bounded backlog, and a bounded
  channel for each live subscriber, both fed by \<open>append\<close> under one lock. Every method runs under the
  lock, so a history is a list of operations, with the receivers' own receives and drops among them.
  A span's and an event's fields are given as name and rendered value.
\<close>

section \<open>Records\<close>

record log_entry =
  le_seq :: u64
  le_time :: int
  le_level :: string
  le_msg :: string
  le_attrs :: "(string \<times> string) list"

datatype level = Error | Warn | Info | Debug | Trace

fun severity :: "level \<Rightarrow> nat" where
  "severity Error = 4"
| "severity Warn = 3"
| "severity Info = 2"
| "severity Debug = 1"
| "severity Trace = 0"

fun level_string :: "level \<Rightarrow> string" where
  "level_string Error = ''ERROR''"
| "level_string Warn = ''WARN''"
| "level_string Info = ''INFO''"
| "level_string Debug = ''DEBUG''"
| "level_string Trace = ''TRACE''"

text \<open>\<open>BTreeMap::insert\<close> on an association list.\<close>

fun insert_attr :: "string \<Rightarrow> string \<Rightarrow> (string \<times> string) list \<Rightarrow> (string \<times> string) list" where
  "insert_attr k v [] = [(k, v)]"
| "insert_attr k v ((k', v') # as) = (if k' = k then (k, v) # as else (k', v') # insert_attr k v as)"

text \<open>\<open>FieldVisitor::put\<close>: the message apart, the others under the span's prefix.\<close>

definition put_field ::
  "string \<Rightarrow> string \<times> string \<Rightarrow> (string \<times> string) list \<times> string option \<Rightarrow> (string \<times> string) list \<times> string option" where
  "put_field pre = (\<lambda>(name, v) (attrs, msg).
     if name = ''message'' then (attrs, Some v)
     else (insert_attr (if pre = [] then name else pre @ ''.'' @ name) v attrs, msg))"

record span_fields =
  sf_path :: string
  sf_fields :: "(string \<times> string) list"

definition on_new_span :: "span_fields option \<Rightarrow> string \<Rightarrow> (string \<times> string) list \<Rightarrow> span_fields" where
  "on_new_span parent name own =
     (let parent_path = (case parent of None \<Rightarrow> [] | Some p \<Rightarrow> sf_path p);
          path = (if parent_path = [] then name else parent_path @ ''.'' @ name)
      in \<lparr>sf_path = path, sf_fields = fst (fold (put_field path) own ([], None))\<rparr>)"

section \<open>The ring\<close>

definition SUBSCRIBER_CHAN_CAP :: nat where
  "SUBSCRIBER_CHAN_CAP = 256"

text \<open>
  A bounded channel: what waits in it, whether its receiver is still there. The ring holds the senders,
  by subscriber; a receiver keeps its channel when its sender is gone.
\<close>

record chan =
  ch_queue :: "log_entry list"
  ch_open :: bool

record log_ring =
  rg_cap :: nat
  rg_entries :: "log_entry list"
  rg_seq :: u64
  rg_subs :: "nat list"
  rg_next_sub :: nat
  rg_chans :: "nat \<Rightarrow> chan"

definition chan_new :: chan where
  "chan_new = \<lparr>ch_queue = [], ch_open = True\<rparr>"

definition ring_new :: "nat \<Rightarrow> log_ring" where
  "ring_new capacity = \<lparr>rg_cap = capacity, rg_entries = [], rg_seq = 0, rg_subs = [], rg_next_sub = 0, rg_chans = (\<lambda>_. chan_new)\<rparr>"

text \<open>\<open>try_send\<close> into an open channel: dropped when it is full.\<close>

definition is_full :: "chan \<Rightarrow> bool" where
  "is_full c \<longleftrightarrow> length (ch_queue c) \<ge> SUBSCRIBER_CHAN_CAP"

definition try_send :: "log_entry \<Rightarrow> chan \<Rightarrow> chan" where
  "try_send e c = (if is_full c then c else c\<lparr>ch_queue := ch_queue c @ [e]\<rparr>)"

text \<open>\<open>append\<close>: stamped, kept as the newest of at most \<open>cap\<close>, and sent to every subscriber that is there.\<close>

definition append :: "log_entry \<Rightarrow> log_ring \<Rightarrow> log_ring" where
  "append e r =
     (let n = rg_seq r + 1; e = e\<lparr>le_seq := n\<rparr>;
          es = rg_entries r;
          es = (if rg_cap r > 0 then (if length es \<ge> rg_cap r then tl es else es) @ [e] else es);
          live = filter (\<lambda>i. ch_open (rg_chans r i)) (rg_subs r)
      in r\<lparr>rg_seq := n, rg_entries := es, rg_subs := live,
           rg_chans := (\<lambda>i. if i \<in> set live then try_send e (rg_chans r i) else rg_chans r i)\<rparr>)"

definition snapshot :: "log_ring \<Rightarrow> log_entry list" where
  "snapshot r = rg_entries r"

definition subscribe :: "log_ring \<Rightarrow> nat \<times> log_ring" where
  "subscribe r = (rg_next_sub r,
     r\<lparr>rg_subs := rg_subs r @ [rg_next_sub r], rg_next_sub := rg_next_sub r + 1,
       rg_chans := (rg_chans r)(rg_next_sub r := chan_new)\<rparr>)"

definition cancel_sub :: "nat \<Rightarrow> log_ring \<Rightarrow> log_ring" where
  "cancel_sub i r = r\<lparr>rg_subs := filter (\<lambda>j. j \<noteq> i) (rg_subs r)\<rparr>"

definition on_event ::
  "nat \<Rightarrow> level \<Rightarrow> span_fields list \<Rightarrow> (string \<times> string) list \<Rightarrow> int \<Rightarrow> log_ring \<Rightarrow> log_ring" where
  "on_event min_severity lvl scope own now r =
     (if severity lvl < min_severity then r
      else
        let attrs = fold (\<lambda>sf attrs. fold (\<lambda>(k, v). insert_attr k v) (sf_fields sf) attrs) scope [];
            leaf_path = (if scope = [] then [] else sf_path (last scope));
            (attrs, msg) = fold (put_field leaf_path) own (attrs, None)
        in append \<lparr>le_seq = 0, le_time = now, le_level = level_string lvl,
             le_msg = (case msg of None \<Rightarrow> [] | Some m \<Rightarrow> m), le_attrs = attrs\<rparr> r)"

text \<open>A history: what the daemon, its clients and the receivers do, one at a time.\<close>

datatype log_op = Append log_entry | Subscribe | Cancel nat | Receive nat | DropReceiver nat

text \<open>
  The ring with what the theorems speak of: every record so far, stamped; what each receiver has taken,
  how many records there were when it subscribed, and how many it was sent while its channel was full.
\<close>

record log_system =
  ls_ring :: log_ring
  ls_appended :: "log_entry list"
  ls_got :: "nat \<Rightarrow> log_entry list"
  ls_from :: "nat \<Rightarrow> nat"
  ls_missed :: "nat \<Rightarrow> nat"

fun log_step :: "log_op \<Rightarrow> log_system \<Rightarrow> log_system" where
  "log_step (Append e) s =
     (let r = ls_ring s in
      s\<lparr>ls_ring := append e r, ls_appended := ls_appended s @ [e\<lparr>le_seq := rg_seq r + 1\<rparr>],
        ls_missed := (\<lambda>i. ls_missed s i + (if i \<in> set (rg_subs r) \<and> ch_open (rg_chans r i) \<and> is_full (rg_chans r i) then 1 else 0))\<rparr>)"
| "log_step Subscribe s =
     s\<lparr>ls_ring := snd (subscribe (ls_ring s)),
       ls_from := (ls_from s)(fst (subscribe (ls_ring s)) := length (ls_appended s))\<rparr>"
| "log_step (Cancel i) s = s\<lparr>ls_ring := cancel_sub i (ls_ring s)\<rparr>"
| "log_step (Receive i) s =
     (let r = ls_ring s; c = rg_chans r i in
      case ch_queue c of
        [] \<Rightarrow> s
      | e # q \<Rightarrow> if ch_open c then
          s\<lparr>ls_ring := r\<lparr>rg_chans := (rg_chans r)(i := c\<lparr>ch_queue := q\<rparr>)\<rparr>, ls_got := (ls_got s)(i := ls_got s i @ [e])\<rparr>
          else s)"
| "log_step (DropReceiver i) s =
     (let r = ls_ring s in
      if i < rg_next_sub r then s\<lparr>ls_ring := r\<lparr>rg_chans := (rg_chans r)(i := (rg_chans r i)\<lparr>ch_open := False\<rparr>)\<rparr>\<rparr> else s)"

definition log_start :: "nat \<Rightarrow> log_system" where
  "log_start capacity =
     \<lparr>ls_ring = ring_new capacity, ls_appended = [], ls_got = (\<lambda>_. []), ls_from = (\<lambda>_. 0), ls_missed = (\<lambda>_. 0)\<rparr>"

definition log_run :: "nat \<Rightarrow> log_op list \<Rightarrow> log_system" where
  "log_run capacity ops = fold log_step ops (log_start capacity)"

section \<open>The backlog and the streams\<close>

definition backlog_ok :: "nat \<Rightarrow> log_system \<Rightarrow> bool" where
  "backlog_ok cap s \<longleftrightarrow>
     rg_cap (ls_ring s) = cap \<and> rg_seq (ls_ring s) = of_nat (length (ls_appended s)) \<and>
     map le_seq (ls_appended s) = map (\<lambda>k. of_nat (Suc k)) [0..<length (ls_appended s)] \<and>
     rg_entries (ls_ring s) = drop (length (ls_appended s) - cap) (ls_appended s)"

lemma push_latest:
  assumes "es = drop (length xs - cap) xs"
  shows "(if cap > 0 then (if length es \<ge> cap then tl es else es) @ [x] else es) = drop (Suc (length xs) - cap) (xs @ [x])"
  using assms by (cases "cap \<le> length xs") (auto simp: Suc_diff_le tl_drop drop_Suc)

lemma backlog_append:
  assumes "backlog_ok cap s"
  shows "backlog_ok cap (log_step (Append e) s)"
proof -
  let ?x = "e\<lparr>le_seq := rg_seq (ls_ring s) + 1\<rparr>"
  have "rg_entries (append e (ls_ring s)) = drop (Suc (length (ls_appended s)) - cap) (ls_appended s @ [?x])"
    using push_latest [of "rg_entries (ls_ring s)" "ls_appended s" cap ?x] assms
    by (simp only: append_def Let_def backlog_ok_def) simp
  with assms show ?thesis
    by (simp add: backlog_ok_def Let_def) (simp add: append_def Let_def)
qed

lemma backlog_step: "backlog_ok cap s \<Longrightarrow> backlog_ok cap (log_step p s)"
proof (cases p)
  case (Append e)
  then show "backlog_ok cap s \<Longrightarrow> ?thesis" by (simp only: backlog_append)
qed (auto simp: backlog_ok_def subscribe_def cancel_sub_def Let_def split: list.splits)

text \<open>One subscriber: what it took and what waits for it, against the records since it subscribed.\<close>

definition stream_ok :: "log_entry list \<Rightarrow> nat \<Rightarrow> log_entry list \<Rightarrow> nat \<Rightarrow> chan \<Rightarrow> bool \<Rightarrow> bool" where
  "stream_ok app from got missed c registered \<longleftrightarrow>
     length (ch_queue c) \<le> SUBSCRIBER_CHAN_CAP \<and> from \<le> length app \<and>
     subseq (got @ ch_queue c) (drop from app) \<and>
     (registered \<and> ch_open c \<longrightarrow> length (got @ ch_queue c) + missed = length app - from)"

lemma stream_new [simp]: "stream_ok app (length app) [] 0 chan_new reg"
  by (simp add: stream_ok_def chan_new_def)

lemma stream_others: "stream_ok app from got missed c reg \<Longrightarrow> stream_ok (app @ [x]) from got n c False"
  by (auto simp: stream_ok_def)

lemma stream_send:
  assumes "stream_ok app from got missed c True" "ch_open c"
  shows "stream_ok (app @ [x]) from got (missed + (if is_full c then 1 else 0)) (try_send x c) True"
proof (cases "is_full c")
  case True
  with assms show ?thesis by (auto simp: stream_ok_def try_send_def Suc_diff_le)
next
  case False
  have "subseq ((got @ ch_queue c) @ [x]) (drop from app @ [x])"
    using assms by (intro list_emb_append_mono) (auto simp: stream_ok_def)
  with False assms show ?thesis by (auto simp: stream_ok_def try_send_def is_full_def Suc_diff_le)
qed

lemma stream_receive:
  "stream_ok app from got missed c reg \<Longrightarrow> ch_queue c = e # q \<Longrightarrow> stream_ok app from (got @ [e]) missed (c\<lparr>ch_queue := q\<rparr>) reg"
  by (simp add: stream_ok_def)

lemma stream_drop: "stream_ok app from got missed c reg \<Longrightarrow> stream_ok app from got missed (c\<lparr>ch_open := False\<rparr>) reg"
  by (simp add: stream_ok_def)

lemma stream_cancel: "stream_ok app from got missed c reg \<Longrightarrow> stream_ok app from got missed c (reg \<and> b)"
  by (simp add: stream_ok_def)

definition streams_ok :: "log_system \<Rightarrow> bool" where
  "streams_ok s \<longleftrightarrow>
     (let r = ls_ring s in
      (\<forall>i. i \<in> set (rg_subs r) \<longrightarrow> i < rg_next_sub r) \<and>
      (\<forall>i. rg_next_sub r \<le> i \<longrightarrow> rg_chans r i = chan_new \<and> ls_got s i = [] \<and> ls_missed s i = 0) \<and>
      (\<forall>i < rg_next_sub r. stream_ok (ls_appended s) (ls_from s i) (ls_got s i) (ls_missed s i) (rg_chans r i) (i \<in> set (rg_subs r))))"

lemma streams_start: "streams_ok (log_start cap)"
  by (simp add: streams_ok_def log_start_def ring_new_def)

lemma streams_append:
  assumes "streams_ok s"
  shows "streams_ok (log_step (Append e) s)"
proof -
  let ?r = "ls_ring s" and ?x = "e\<lparr>le_seq := rg_seq (ls_ring s) + 1\<rparr>"
  have "stream_ok (ls_appended s @ [?x]) (ls_from s i) (ls_got s i)
      (ls_missed s i + (if i \<in> set (rg_subs ?r) \<and> ch_open (rg_chans ?r i) \<and> is_full (rg_chans ?r i) then 1 else 0))
      (if i \<in> set (rg_subs ?r) \<and> ch_open (rg_chans ?r i) then try_send ?x (rg_chans ?r i) else rg_chans ?r i)
      (i \<in> set (rg_subs ?r) \<and> ch_open (rg_chans ?r i))" if "i < rg_next_sub ?r" for i
  proof (cases "i \<in> set (rg_subs ?r) \<and> ch_open (rg_chans ?r i)")
    case True
    with that assms have "stream_ok (ls_appended s) (ls_from s i) (ls_got s i) (ls_missed s i) (rg_chans ?r i) True"
      by (auto simp: streams_ok_def Let_def)
    from stream_send [OF this, of ?x] True show ?thesis by auto
  next
    case False
    with that assms have "stream_ok (ls_appended s) (ls_from s i) (ls_got s i) (ls_missed s i) (rg_chans ?r i) (i \<in> set (rg_subs ?r))"
      by (simp add: streams_ok_def Let_def)
    from stream_others [OF this, of ?x "ls_missed s i"] False show ?thesis by auto
  qed
  moreover have "i < rg_next_sub ?r" if "i \<in> set (rg_subs ?r)" for i using assms that by (auto simp: streams_ok_def Let_def)
  moreover have "rg_chans ?r i = chan_new \<and> ls_got s i = [] \<and> ls_missed s i = 0 \<and> i \<notin> set (rg_subs ?r)"
    if "rg_next_sub ?r \<le> i" for i
    using assms that by (auto simp: streams_ok_def Let_def)
  ultimately show ?thesis unfolding streams_ok_def Let_def by (simp add: append_def Let_def)
qed

lemma streams_step: "streams_ok s \<Longrightarrow> streams_ok (log_step p s)"
proof (cases p)
  case (Append e)
  then show "streams_ok s \<Longrightarrow> ?thesis" by (simp only: streams_append)
next
  case Subscribe
  then show "streams_ok s \<Longrightarrow> ?thesis" by (auto simp: streams_ok_def subscribe_def Let_def less_Suc_eq)
next
  case (Cancel i)
  then show "streams_ok s \<Longrightarrow> ?thesis" by (auto simp: streams_ok_def cancel_sub_def Let_def intro: stream_cancel)
next
  case (Receive i)
  then show "streams_ok s \<Longrightarrow> ?thesis"
    by (auto simp: streams_ok_def Let_def chan_new_def not_less [symmetric] intro: stream_receive split: list.splits)
next
  case (DropReceiver i)
  show "streams_ok s \<Longrightarrow> ?thesis"
    unfolding DropReceiver by (auto simp: streams_ok_def Let_def intro: stream_drop)
qed


lemma log_run_ok: "backlog_ok cap (log_run cap ops) \<and> streams_ok (log_run cap ops)"
proof (induction ops rule: rev_induct)
  case Nil
  then show ?case by (simp add: log_run_def streams_start) (simp add: backlog_ok_def log_start_def ring_new_def)
next
  case (snoc p ops)
  then show ?case by (simp add: log_run_def backlog_step streams_step)
qed

text \<open>
  C36. After any history the backlog is exactly the newest records, at most \<open>cap\<close> of them, numbered
  consecutively from one in the order they were appended. What a subscriber has taken followed by what
  waits for it, never more than 256, is in order and without repetition among the records appended
  since it subscribed; while it is registered it lacks as many of them as found its channel full,
  so with none missed it is every one of them.
\<close>

theorem log_backlog_and_streams:
  assumes "s = log_run cap ops"
  shows "snapshot (ls_ring s) = drop (length (ls_appended s) - cap) (ls_appended s) \<and>
     map le_seq (ls_appended s) = map (\<lambda>k. of_nat (Suc k)) [0..<length (ls_appended s)] \<and>
     (\<forall>i. subseq (ls_got s i @ ch_queue (rg_chans (ls_ring s) i)) (drop (ls_from s i) (ls_appended s)) \<and>
        length (ch_queue (rg_chans (ls_ring s) i)) \<le> SUBSCRIBER_CHAN_CAP \<and>
        (i \<in> set (rg_subs (ls_ring s)) \<and> ch_open (rg_chans (ls_ring s) i) \<longrightarrow>
           length (ls_got s i @ ch_queue (rg_chans (ls_ring s) i)) + ls_missed s i = length (ls_appended s) - ls_from s i) \<and>
        (i \<in> set (rg_subs (ls_ring s)) \<and> ch_open (rg_chans (ls_ring s) i) \<and> ls_missed s i = 0 \<longrightarrow>
           ls_got s i @ ch_queue (rg_chans (ls_ring s) i) = drop (ls_from s i) (ls_appended s)))"
proof -
  have b: "backlog_ok cap s" and st: "streams_ok s" using log_run_ok assms by auto
  have one: "subseq (ls_got s i @ ch_queue (rg_chans (ls_ring s) i)) (drop (ls_from s i) (ls_appended s)) \<and>
        length (ch_queue (rg_chans (ls_ring s) i)) \<le> SUBSCRIBER_CHAN_CAP \<and>
        (i \<in> set (rg_subs (ls_ring s)) \<and> ch_open (rg_chans (ls_ring s) i) \<longrightarrow>
          length (ls_got s i @ ch_queue (rg_chans (ls_ring s) i)) + ls_missed s i = length (ls_appended s) - ls_from s i)" for i
    using st by (cases "i < rg_next_sub (ls_ring s)") (auto simp: streams_ok_def stream_ok_def chan_new_def Let_def)
  have "i \<in> set (rg_subs (ls_ring s)) \<and> ch_open (rg_chans (ls_ring s) i) \<and> ls_missed s i = 0 \<longrightarrow>
      ls_got s i @ ch_queue (rg_chans (ls_ring s) i) = drop (ls_from s i) (ls_appended s)" for i
    using one [of i] subseq_same_length [of "ls_got s i @ ch_queue (rg_chans (ls_ring s) i)" "drop (ls_from s i) (ls_appended s)"]
    by auto
  with one b show ?thesis by (auto simp: backlog_ok_def snapshot_def)
qed

definition demo_entry :: "string \<Rightarrow> log_entry" where
  "demo_entry m = \<lparr>le_seq = 0, le_time = 0, le_level = ''INFO'', le_msg = m, le_attrs = []\<rparr>"

definition demo_history :: "log_op list" where
  "demo_history = [Append (demo_entry ''a''), Subscribe, Append (demo_entry ''b''), Append (demo_entry ''c''), Receive 0]"

theorem log_backlog_and_streams_witness:
  "map le_msg (snapshot (ls_ring (log_run 2 demo_history))) = [''b'', ''c''] \<and>
   map le_msg (ls_got (log_run 2 demo_history) 0 @ ch_queue (rg_chans (ls_ring (log_run 2 demo_history)) 0)) = [''b'', ''c'']"
proof -
  let ?s = "log_run 2 demo_history"
  have "map le_msg (drop (length (ls_appended ?s) - 2) (ls_appended ?s)) = [''b'', ''c'']"
    "map le_msg (drop (ls_from ?s 0) (ls_appended ?s)) = [''b'', ''c'']"
    "0 \<in> set (rg_subs (ls_ring ?s)) \<and> ch_open (rg_chans (ls_ring ?s) 0) \<and> ls_missed ?s 0 = 0"
    by code_simp+
  with log_backlog_and_streams [OF refl, of 2 demo_history] show ?thesis by auto
qed

end
