(* ===== verification/Spec2Isabelle.thy ===== *)
theory Spec2Isabelle
  imports Broker_Methods Redactor Sse_Observer Chat_Schema Claim_Pool Merge_Gate Review_Evidence Channel_Exchange Selection_Plan
    Workspace_Gc Workspace_Read Drain Log_Buffer
begin

text \<open>
  \<^bold>\<open>Rhapsody: the provider broker, the credential channel, the dispatcher, the review loop and the workspaces.\<close>

  Rhapsody is a daemon that hands tracker tickets to coding agents, has their pull requests reviewed
  by other agents and merges what the reviewers approved. Four parts of it decide what must not go
  wrong, and this development models them.

  The \<^emph>\<open>provider broker\<close> (\<^verbatim>\<open>crates/provider-broker\<close>) stands between an agent and a model provider. An
  agent never sees the provider key: it holds a token that is good for one turn of one session. The
  broker admits a request against four budgets (turn, session, day, memory), checks its body against a
  closed schema, forwards it with the key, redacts the key from the answer, reads the usage counters
  out of it, and closes the turn with a ledger.

  The \<^emph>\<open>credential channel\<close> (\<^verbatim>\<open>crates/credential-ipc\<close>, \<^verbatim>\<open>desktop/src-tauri\<close>, \<^verbatim>\<open>crates/rhapsodyd\<close>) carries a
  provider key from the desktop application, which keeps it in the Keychain under a binding and a
  revision, to the daemon, which may read it with the launch token and for that binding only.

  The \<^emph>\<open>orchestrator\<close> (\<^verbatim>\<open>crates/orchestrator\<close>) sorts and gates the tickets, selects what fits the budgets
  of the pool, the projects, the states and the teammates, claims it against other daemons of a pool, decides when an author is re-engaged, keeps the set of watched pull requests in
  its SQLite store, runs the reviewers in rounds, and proposes a merge. A shared signal drains it
  before a restart, and a ring keeps its latest log records for the console.

  The \<^emph>\<open>workspace manager\<close> (\<^verbatim>\<open>crates/workspace\<close>) gives every ticket a directory of its own under one root,
  as a worktree on a shared bare mirror, a clone, a review checkout or a bare directory, runs the
  operator's hooks in it, removes it, collects what is stale, and serves bounded reads of the mirrors.

  \<^bold>\<open>Theories and sources.\<close>

  \<^item> \<open>Prelude\<close>: machine integers with the checked and saturating arithmetic of the Rust standard library,
    results as sums (\<open>and_then\<close> is \<^verbatim>\<open>?\<close>, \<open>for_each\<close> a loop that may return early), association lists.

  \<^item> \<open>Broker_Policy\<close> (\<^verbatim>\<open>error.rs\<close>, \<^verbatim>\<open>policy.rs\<close>): error values, the limit block with its ceilings, the
    session policy. \<open>Broker_Budget\<close> (\<^verbatim>\<open>budget.rs\<close>): the locale \<open>admission_counter\<close>, the contract of a
    capped counter with guards, interpreted as \<open>wb\<close> by the weighted memory budget and as \<open>sess\<close> by the
    session reservation. \<open>Day_Authority\<close> (\<^verbatim>\<open>authority.rs\<close>, \<^verbatim>\<open>rhapsodyd/src/providerbudget.rs\<close> and one
    statement of \<^verbatim>\<open>store/src/sqlite.rs\<close>): the locale \<open>day_authority\<close>, interpreted as \<open>sa\<close> by the
    store-backed authority. \<open>Usage_Ledger\<close>, \<open>Reservations\<close>, \<open>Broker_Metrics\<close> (\<^verbatim>\<open>usage.rs\<close>,
    \<^verbatim>\<open>ledger.rs\<close>, \<^verbatim>\<open>reservations.rs\<close>, \<^verbatim>\<open>metrics.rs\<close>): every method as one atomic step, since each holds
    the turn's mutex; the lemmas show that no interleaving oversubscribes a limit, that a refusal rolls
    everything back, and that the closed ledger is exact.

  \<^item> \<open>Credential\<close>, \<open>Broker_State\<close> (\<^verbatim>\<open>binding.rs\<close>, \<^verbatim>\<open>secret.rs\<close>, \<^verbatim>\<open>state.rs\<close>, \<^verbatim>\<open>session.rs\<close>, \<^verbatim>\<open>turn.rs\<close>,
    \<^verbatim>\<open>broker.rs\<close>, \<^verbatim>\<open>registrar.rs\<close>, \<^verbatim>\<open>clock.rs\<close>): the broker as one record of sessions, turns and the
    registry, indices standing for the shared pointers. \<open>Broker_Lifecycle\<close> cuts each method into its
    critical sections and proves the invariant of every interleaving of any number of handles by rule
    induction on \<open>life_step\<close>; \<open>Broker_Methods\<close> shows that each whole method is a sequence of such
    sections and draws the conclusions on capabilities, receipts and the turn gate.

  \<^item> \<open>Chunked_Filter\<close>, \<open>Redactor\<close>, \<open>Sse_Observer\<close> (\<^verbatim>\<open>redact.rs\<close>, \<^verbatim>\<open>sse.rs\<close>): the locale
    \<open>chunked_filter\<close>, interpreted as \<open>rdf\<close> and \<open>ssf\<close>, gives independence of how the network cuts a body;
    on top of it the output never contains the key, and the counters are those of the whole stream.

  \<^item> \<open>Json_Value\<close>, \<open>Json_Bounded\<close>, \<open>Chat_Schema\<close> (\<^verbatim>\<open>schema.rs\<close>): the hand-written bounded parser and
    the validators, shown to accept exactly a grammar stated on its own and to return its normal form.

  \<^item> \<open>Credential_Ipc\<close>, \<open>Credential_Owner\<close>, \<open>Credential_Channel\<close> (\<^verbatim>\<open>domain.rs\<close>, \<^verbatim>\<open>wire.rs\<close>, \<^verbatim>\<open>session.rs\<close>,
    \<^verbatim>\<open>token.rs\<close>, \<^verbatim>\<open>provider_credential.rs\<close>, \<^verbatim>\<open>credential_bootstrap.rs\<close>, \<^verbatim>\<open>credential_client.rs\<close>): frames and
    the two session machines; the Keychain-backed owner, which refines a compare-and-swap register (the
    locale \<open>credential_owner\<close>, interpreted as \<open>ko\<close>); the listener's connections and the daemon's client.
    \<open>Channel_Trace\<close>: every history of the channel, with what was bound and what was leased as ghost
    state; \<open>Channel_Exchange\<close>: one read, byte by byte, is the owner's read.

  \<^item> \<open>Issue\<close>, \<open>Dispatch\<close> (\<^verbatim>\<open>core/src/issue.rs\<close>, \<^verbatim>\<open>dispatch.rs\<close>, \<^verbatim>\<open>concurrency.rs\<close>, \<^verbatim>\<open>backoff.rs\<close>,
    \<^verbatim>\<open>reconcile.rs\<close>, \<^verbatim>\<open>retry.rs\<close>): the queue order, by the library's \<open>comparator\<close> locale interpreted as
    \<open>dispatch_order\<close>; the eligibility verdict against a declarative statement of it; the failure
    backoff; how an exit is classified.

  \<^item> \<open>Team_Routing\<close> (\<^verbatim>\<open>teams.rs\<close>, \<^verbatim>\<open>triage.rs\<close>), \<open>Dispatch_Gates\<close> (\<^verbatim>\<open>prepare.rs\<close>, \<^verbatim>\<open>managerapply.rs\<close>,
    \<^verbatim>\<open>managerexchange.rs\<close>, \<^verbatim>\<open>preflight.rs\<close>), \<open>Selection\<close> (\<^verbatim>\<open>select.rs\<close>): who would work a ticket, the gates
    with a memory of their own, and the greedy walk of both selection passes with all its local
    counters. \<open>Selection_Rules\<close> states once what an admission and a refusal rely on and gives the locale
    \<open>ladder_invariant\<close>; \<open>Selection_Safety\<close> interprets it for the slots, the project budgets, the state
    limits, the seats, the gates and the refusals; \<open>Selection_Pass\<close> and \<open>Selection_Plan\<close> draw the
    conclusions: nothing is over-admitted, nothing ungated is selected, nothing admissible is left
    behind, the plan is what the dispatch loop routes, and labels reach the ledger.

  \<^item> \<open>Claim_Pool\<close> (\<^verbatim>\<open>claim.rs\<close>): \<open>claim_pool\<close> as a machine with one state per awaited tracker call, any
    number of daemons on one ticket, every call allowed to fail. It refines the specification that a
    ticket has at most one claimant, and every attempt ends within eight calls.

  \<^item> \<open>Human_Hold\<close> (\<^verbatim>\<open>dispatch.rs\<close>, \<^verbatim>\<open>leaditems.rs\<close>): the ledger of tickets that wait for a person, the
    author's park and the two gates that re-engage an author.

  \<^item> \<open>Review_Store\<close>, \<open>Review_Loop\<close> (\<^verbatim>\<open>store/src/types.rs\<close>, \<^verbatim>\<open>store/src/sqlite.rs\<close>, \<^verbatim>\<open>review.rs\<close>,
    \<^verbatim>\<open>reviewintro.rs\<close>, \<^verbatim>\<open>reviewwatch.rs\<close>, \<^verbatim>\<open>reviewconsole.rs\<close>): the statements on the watch table, the
    findings ledger and the review bound, and the control task's handlers, every store call able to
    fail. \<open>Review_Trace\<close>: the histories of those handlers as an inductive predicate with ghost state
    (what was dispatched, what was declared approved, which moves were proven to keep the change); the
    locale \<open>watch_invariant\<close>, interpreted as \<open>rok\<close>, lifts an invariant of a row to every statement.

  \<^item> \<open>Review_Evidence\<close> (\<^verbatim>\<open>reviewevidence.rs\<close>): the evidence fingerprint and revision.

  \<^item> \<open>Merge_Gate\<close> (\<^verbatim>\<open>automerge.rs\<close>, \<^verbatim>\<open>managerapproval.rs\<close>, \<open>propose_auto_merge\<close> of \<^verbatim>\<open>reviewwatch.rs\<close>):
    the verdict over the rows, the landing lock, the proposal. Its main theorem composes the histories
    of the review loop and of the hold ledger with the gate: what is proposed was read.

  \<^item> \<open>Workspace_Path\<close> (\<^verbatim>\<open>sanitize.rs\<close>, \<^verbatim>\<open>safety.rs\<close>, the names of \<^verbatim>\<open>repo.rs\<close> and \<^verbatim>\<open>manager.rs\<close>): the byte
    loop of \<open>clean\<close>, proved equal to the normalization of components, from which the containment checks
    become prefixes of component lists. \<open>Workspace_Fs\<close> (\<^verbatim>\<open>manager.rs\<close>, \<^verbatim>\<open>repo.rs\<close>, \<^verbatim>\<open>hooks.rs\<close>): an
    explicit file system with a log of the calls made, the operations in a monad of results, and the
    locale \<open>workspace_invariant\<close>, which lifts an invariant of the single calls to every operation,
    interpreted as \<open>calls\<close> (what may be touched) and as \<open>growth\<close> (the log only grows). \<open>Workspace_Gc\<close>
    (\<^verbatim>\<open>gc.rs\<close>): the collection pass, other tasks running while the lock is awaited. \<open>Workspace_Read\<close>
    (\<^verbatim>\<open>read.rs\<close>): the reads served to the manager as sequences of \<open>git\<close> calls, panics included.

  \<^item> \<open>Drain\<close> (\<^verbatim>\<open>drain.rs\<close>): the three atomics of the signal, one access a step, any number of callers
    interleaved; the locale \<open>drain_invariant\<close>, interpreted as \<open>told\<close> and \<open>named\<close>. \<open>Log_Buffer\<close>
    (\<^verbatim>\<open>telemetry/src/logbuffer.rs\<close>): the backlog and the subscribers' channels over every history.

  \<^bold>\<open>Parameters.\<close> Code outside the repository is an argument of the definitions that call it: SHA-256
  and the base64url encoder, the operating system's random bytes, \<^verbatim>\<open>serde_json\<close>'s parser, number
  reader and writer, the \<^verbatim>\<open>regex\<close> match of the claim marker, Unicode trimming and lower-casing
  (\<open>text_ops\<close>), the tracker's answers, whether each SQLite statement fails (\<open>store_faults\<close>), the codecs of
  the credential frames and envelopes (with the round trip as a hypothesis), which Keychain calls are
  refused (\<open>keyring_faults\<close>), the bytes of the launch token, the \<open>git\<close> program, the hook scripts (with their
  time-out) and the faults of the disk (\<open>os\<close>, \<open>read_env\<close>), and \<^verbatim>\<open>chrono\<close>'s calendar. Two answers of policies that are not modelled
  are parameters of the selection pass: the account limits (\<open>sx_limit_ready\<close>) and the canary schedule
  (\<open>sx_canary\<close>). Where a
  theorem needs something of them it is a hypothesis, and the witness discharges it on a concrete
  instance. Settings are fields of environment records.

  \<^bold>\<open>Bounds.\<close> No definition uses fuel. Loops recurse on their data; the JSON parser recurses on the
  remaining input and the redactor on the pending bytes, each with its measure. Widths are kept where
  the source checks or wraps them: counters are words or naturals compared with \<open>2 ^ 64\<close>, and signed
  saturation is written out. The theorem on stale mutations of a credential bounds the history by
  \<open>2 ^ 62\<close> operations, below which the revision counter does not wrap.

  \<^bold>\<open>Not modelled.\<close> The HTTP listener and the upstream client of the broker (asynchronous I/O around the
  modelled decisions), agent processes, \<open>git\<close> itself, the GitHub and Linear clients, the tools beside the
  workspace manager (labels, tokens, investigations), YAML
  configuration, the HTTP API, MCP, metrics export, the desktop shell around the credential owner and the web
  front end. Of the orchestrator: the event loop and its timers, the limit policy behind the selection
  pass, the observation of parked tickets before it, the per-pull-request service pass and
  the reconciliation planning that decide \<^emph>\<open>when\<close> the modelled handlers run (the histories allow every
  order, so the invariants do not depend on it), run rows, notifications and chat. Of the store: the
  tables no modelled operation touches. Zeroing of secrets and redaction of \<^verbatim>\<open>Debug\<close> output have no
  functional content.

  \<^bold>\<open>Plan.\<close> What would come next: the limit policy, the retry ladder that shares the implementation pool with the
  selection pass, the broker listener's request decision composed of the modelled parts, the service
  pass of \<^verbatim>\<open>reviewwatch.rs\<close>.
\<close>

end
